(* ===== verification/Prelude.thy ===== *)
theory Prelude
  imports Main
begin

text \<open>
  Shared vocabulary of the development.

  \<^item> The error monad: every Python function that may raise is a HOL function into
    \<open>'e + 'a\<close>, with \<open>Inl\<close> for the exception. \<open>sbind\<close> sequences two such
    computations, \<open>err_all\<close> and \<open>err_ex\<close> are the two short-circuiting loops
    \<^verbatim>\<open>for x in xs: if not p(x): return False\<close> and
    \<^verbatim>\<open>for x in xs: if p(x): return True\<close>.
  \<^item> Characters: a Python \<open>str\<close> is modelled as a \<open>string\<close> whose characters are the
    code points U+0000 to U+00FF (Latin-1). The character classes \<^verbatim>\<open>str.isspace\<close>,
    \<^verbatim>\<open>str.isdigit\<close> etc. are those of CPython on that range, including the
    non-ASCII members (\<^verbatim>\<open>'\<dots>'.isdigit()\<close> holds of the superscript digits 178, 179
    and 185, on which \<^verbatim>\<open>int()\<close> raises).
  \<^item> The effect monad: a method that may raise half way returns its new state beside the outcome.
  \<^item> Collections of rewrite rules: \<open>sbind_rules\<close> for the error monad, \<open>eff_rules\<close> for the effect monad,
    \<open>py_char_defs\<close> for the character classes.
\<close>

named_theorems sbind_rules
named_theorems py_char_defs
named_theorems eff_rules

subsection \<open>The error monad\<close>

definition sbind :: "'e + 'a \<Rightarrow> ('a \<Rightarrow> 'e + 'b) \<Rightarrow> 'e + 'b" where
  "sbind m k = (case m of Inl e \<Rightarrow> Inl e | Inr a \<Rightarrow> k a)"

lemma sbind_simps [simp]:
  "sbind (Inl e) k = Inl e"
  "sbind (Inr a) k = k a"
  by (simp_all add: sbind_def)

lemma sbind_eq_Inr [sbind_rules]:
  "sbind m k = Inr b \<longleftrightarrow> (\<exists>a. m = Inr a \<and> k a = Inr b)"
  by (cases m) simp_all

lemma sbind_eq_Inl [sbind_rules]:
  "sbind m k = Inl e \<longleftrightarrow> m = Inl e \<or> (\<exists>a. m = Inr a \<and> k a = Inl e)"
  by (cases m) simp_all

lemma sbind_cong [fundef_cong]:
  "m = m' \<Longrightarrow> (\<And>a. m' = Inr a \<Longrightarrow> k a = k' a) \<Longrightarrow> sbind m k = sbind m' k'"
  by (cases m') simp_all

lemma sbind_assoc: "sbind (sbind m k) l = sbind m (\<lambda>a. sbind (k a) l)"
  by (cases m) simp_all

lemma sbind_guard:
  "(\<And>a r. m = Inr (a, r) \<Longrightarrow> P r) \<Longrightarrow>
     sbind m (\<lambda>(a, r). if P r then f a r else e) = sbind m (\<lambda>(a, r). f a r)"
  by (cases m) auto

text \<open>A loop that returns \<open>False\<close> at the first element that fails.\<close>

fun err_all :: "('a \<Rightarrow> 'e + bool) \<Rightarrow> 'a list \<Rightarrow> 'e + bool" where
  "err_all p [] = Inr True"
| "err_all p (x # xs) = sbind (p x) (\<lambda>b. if b then err_all p xs else Inr False)"

text \<open>A loop that returns \<open>True\<close> at the first element that succeeds.\<close>

fun err_ex :: "('a \<Rightarrow> 'e + bool) \<Rightarrow> 'a list \<Rightarrow> 'e + bool" where
  "err_ex p [] = Inr False"
| "err_ex p (x # xs) = sbind (p x) (\<lambda>b. if b then Inr True else err_ex p xs)"

lemma err_all_cong [fundef_cong]:
  "xs = ys \<Longrightarrow> (\<And>x. x \<in> set ys \<Longrightarrow> p x = q x) \<Longrightarrow> err_all p xs = err_all q ys"
  by (induction xs arbitrary: ys) (auto cong: if_cong)

lemma err_ex_cong [fundef_cong]:
  "xs = ys \<Longrightarrow> (\<And>x. x \<in> set ys \<Longrightarrow> p x = q x) \<Longrightarrow> err_ex p xs = err_ex q ys"
  by (induction xs arbitrary: ys) (auto cong: if_cong)

lemma err_all_False: "err_all p xs = Inr False \<Longrightarrow> \<exists>x\<in>set xs. p x = Inr False"
  by (induction xs) (auto simp: sbind_rules split: if_splits)

lemma err_ex_False: "err_ex p xs = Inr False \<Longrightarrow> \<forall>x\<in>set xs. p x = Inr False"
  by (induction xs) (auto simp: sbind_rules split: if_splits)

lemma err_all_Inr:
  assumes "err_all p xs = Inr b" and "\<And>x c. x \<in> set xs \<Longrightarrow> p x = Inr c \<Longrightarrow> q x = c"
  shows "b \<longleftrightarrow> (\<forall>x\<in>set xs. q x)"
  using assms by (induction xs) (auto simp: sbind_rules split: if_splits)

lemma err_ex_Inr:
  assumes "err_ex p xs = Inr b" and "\<And>x c. x \<in> set xs \<Longrightarrow> p x = Inr c \<Longrightarrow> q x = c"
  shows "b \<longleftrightarrow> (\<exists>x\<in>set xs. q x)"
  using assms by (induction xs) (auto simp: sbind_rules split: if_splits)

lemma err_all_total:
  "(\<And>x. x \<in> set xs \<Longrightarrow> p x = Inr (q x)) \<Longrightarrow> err_all p xs = Inr (\<forall>x\<in>set xs. q x)"
  by (induction xs) auto

lemma err_ex_total:
  "(\<And>x. x \<in> set xs \<Longrightarrow> p x = Inr (q x)) \<Longrightarrow> err_ex p xs = Inr (\<exists>x\<in>set xs. q x)"
  by (induction xs) auto

text \<open>Applying a raising function to every element, in order.\<close>

fun err_map :: "('a \<Rightarrow> 'e + 'b) \<Rightarrow> 'a list \<Rightarrow> 'e + 'b list" where
  "err_map f [] = Inr []"
| "err_map f (x # xs) = sbind (f x) (\<lambda>y. sbind (err_map f xs) (\<lambda>ys. Inr (y # ys)))"

lemma err_map_Inr: "err_map f xs = Inr ys \<longleftrightarrow> list_all2 (\<lambda>x y. f x = Inr y) xs ys"
  by (induction xs arbitrary: ys) (auto simp: sbind_rules list_all2_Cons1)

lemma err_map_source: "err_map f xs = Inr ys \<Longrightarrow> y \<in> set ys \<Longrightarrow> \<exists>x\<in>set xs. f x = Inr y"
  by (induction xs arbitrary: ys) (auto simp: sbind_rules)

lemma err_map_target: "err_map f xs = Inr ys \<Longrightarrow> x \<in> set xs \<Longrightarrow> \<exists>y\<in>set ys. f x = Inr y"
  by (induction xs arbitrary: ys) (auto simp: sbind_rules)

subsection \<open>Effects that survive an exception\<close>

text \<open>
  A method that changes its object and may raise half way: the new state is returned beside the
  result or the exception.
\<close>

type_synonym ('s, 'e, 'a) eff = "'s \<Rightarrow> ('e + 'a) \<times> 's"

definition eff_bind :: "('s, 'e, 'a) eff \<Rightarrow> ('a \<Rightarrow> ('s, 'e, 'b) eff) \<Rightarrow> ('s, 'e, 'b) eff" where
  "eff_bind m k = (\<lambda>s. case m s of (Inl e, s') \<Rightarrow> (Inl e, s') | (Inr a, s') \<Rightarrow> k a s')"

definition eff_return :: "'a \<Rightarrow> ('s, 'e, 'a) eff" where
  "eff_return a = (\<lambda>s. (Inr a, s))"

definition eff_raise :: "'e \<Rightarrow> ('s, 'e, 'a) eff" where
  "eff_raise e = (\<lambda>s. (Inl e, s))"

definition eff_modify :: "('s \<Rightarrow> 's) \<Rightarrow> ('s, 'e, unit) eff" where
  "eff_modify f = (\<lambda>s. (Inr (), f s))"

definition eff_get :: "('s \<Rightarrow> 'a) \<Rightarrow> ('s, 'e, 'a) eff" where
  "eff_get f = (\<lambda>s. (Inr (f s), s))"

definition eff_lift :: "'e + 'a \<Rightarrow> ('s, 'e, 'a) eff" where
  "eff_lift m = (\<lambda>s. (m, s))"

lemmas eff_defs = eff_bind_def eff_return_def eff_raise_def eff_modify_def eff_get_def eff_lift_def

lemma eff_simps [simp]:
  "eff_bind (eff_return a) k = k a"
  "eff_bind (eff_lift (Inr a)) k = k a"
  "eff_bind (eff_lift (Inl e)) k = eff_raise e"
  by (simp_all add: eff_defs)

lemma eff_bind_Inr [eff_rules]:
  "eff_bind m k s = (Inr b, s'') \<longleftrightarrow> (\<exists>a s'. m s = (Inr a, s') \<and> k a s' = (Inr b, s''))"
  by (auto simp: eff_bind_def split: prod.splits sum.splits)

lemma eff_bind_Inl [eff_rules]:
  "eff_bind m k s = (Inl e, s'') \<longleftrightarrow> m s = (Inl e, s'') \<or> (\<exists>a s'. m s = (Inr a, s') \<and> k a s' = (Inl e, s''))"
  by (auto simp: eff_bind_def split: prod.splits sum.splits)

lemma eff_run [eff_rules]:
  "eff_return a s = (Inr a, s)" "eff_raise e s = (Inl e, s)" "eff_modify f s = (Inr (), f s)" "eff_get g s = (Inr (g s), s)"
  "eff_lift m s = (m, s)"
  by (simp_all add: eff_defs)

text \<open>A property of the state that an operation keeps, whether it returns or raises.\<close>

definition preserves :: "('s \<Rightarrow> bool) \<Rightarrow> ('s, 'e, 'a) eff \<Rightarrow> bool" where
  "preserves P m \<longleftrightarrow> (\<forall>s. P s \<longrightarrow> P (snd (m s)))"

lemma preservesD: "preserves P m \<Longrightarrow> P s \<Longrightarrow> P (snd (m s))"
  by (simp add: preserves_def)

lemma preserves_bind:
  assumes "preserves P m" and "\<And>a. preserves P (k a)"
  shows "preserves P (eff_bind m k)"
  unfolding preserves_def
proof (intro allI impI)
  fix s assume "P s"
  obtain r s1 where r: "m s = (r, s1)" by (cases "m s")
  with assms(1) \<open>P s\<close> have "P s1" by (metis preservesD snd_conv)
  with assms(2) r show "P (snd (eff_bind m k s))" by (cases r) (simp_all add: eff_bind_def preserves_def)
qed

lemma preserves_basic:
  "preserves P (eff_return a)" "preserves P (eff_raise e)" "preserves P (eff_get g)" "preserves P (eff_lift r)"
  "(\<And>s. P s \<Longrightarrow> P (f s)) \<Longrightarrow> preserves P (eff_modify f)"
  by (simp_all add: preserves_def eff_defs)

lemma preserves_get:
  "(\<And>a. (\<And>s. P s \<Longrightarrow> a = g s \<Longrightarrow> P (snd (k a s)))) \<Longrightarrow> preserves P (eff_bind (eff_get g) k)"
  by (simp add: preserves_def eff_defs)

lemma preserves_if: "preserves P m \<Longrightarrow> preserves P n \<Longrightarrow> preserves P (if b then m else n)"
  by simp

subsection \<open>Characters and strings of Python\<close>

definition code :: "char \<Rightarrow> nat" where
  "code c = of_char c"

definition in_range :: "nat \<Rightarrow> nat \<Rightarrow> char \<Rightarrow> bool" where
  "in_range lo hi c \<longleftrightarrow> lo \<le> code c \<and> code c \<le> hi"

definition py_isspace :: "char \<Rightarrow> bool" where
  "py_isspace c \<longleftrightarrow> in_range 9 13 c \<or> in_range 28 32 c \<or> code c = 133 \<or> code c = 160"

definition py_isdecimal :: "char \<Rightarrow> bool" where
  "py_isdecimal c \<longleftrightarrow> in_range 48 57 c"

definition py_isdigit :: "char \<Rightarrow> bool" where
  "py_isdigit c \<longleftrightarrow> in_range 48 57 c \<or> code c = 178 \<or> code c = 179 \<or> code c = 185"

definition py_isupper :: "char \<Rightarrow> bool" where
  "py_isupper c \<longleftrightarrow> in_range 65 90 c \<or> in_range 192 214 c \<or> in_range 216 222 c"

definition py_islower :: "char \<Rightarrow> bool" where
  "py_islower c \<longleftrightarrow> in_range 97 122 c \<or> code c = 170 \<or> code c = 181 \<or> code c = 186
     \<or> in_range 223 246 c \<or> in_range 248 255 c"

definition py_isalpha :: "char \<Rightarrow> bool" where
  "py_isalpha c \<longleftrightarrow> py_isupper c \<or> py_islower c"

definition py_isalnum :: "char \<Rightarrow> bool" where
  "py_isalnum c \<longleftrightarrow> py_isalpha c \<or> py_isdigit c \<or> in_range 188 190 c"

lemmas [py_char_defs] = code_def in_range_def py_isspace_def py_isdecimal_def py_isdigit_def
  py_isupper_def py_islower_def py_isalpha_def py_isalnum_def

definition py_lower_char :: "char \<Rightarrow> char" where
  "py_lower_char c = (if py_isupper c then char_of (code c + 32) else c)"

definition py_lower :: "string \<Rightarrow> string" where
  "py_lower s = map py_lower_char s"

definition py_strip :: "string \<Rightarrow> string" where
  "py_strip s = rev (dropWhile py_isspace (rev (dropWhile py_isspace s)))"

text \<open>
  \<^verbatim>\<open>str.upper\<close> and \<^verbatim>\<open>str.casefold\<close> of Latin-1 text: the sharp s becomes two letters; the characters whose images
  lie outside Latin-1 are kept, so that two strings have equal images exactly when they do in Python.
\<close>

definition py_upper_char :: "char \<Rightarrow> string" where
  "py_upper_char c = (if code c = 223 then ''SS''
     else if in_range 97 122 c \<or> in_range 224 246 c \<or> in_range 248 254 c then [char_of (code c - 32)]
     else [c])"

definition py_upper :: "string \<Rightarrow> string" where
  "py_upper s = concat (map py_upper_char s)"

definition py_casefold :: "string \<Rightarrow> string" where
  "py_casefold s = concat (map (\<lambda>c. if code c = 223 then ''ss'' else [py_lower_char c]) s)"

lemma py_isdecimal_isdigit: "py_isdecimal c \<Longrightarrow> py_isdigit c"
  by (simp add: py_isdecimal_def py_isdigit_def)

lemma py_strip_Nil_iff: "py_strip s = [] \<longleftrightarrow> (\<forall>c\<in>set s. py_isspace c)"
proof
  assume "py_strip s = []"
  then have "\<forall>c\<in>set (dropWhile py_isspace s). py_isspace c"
    by (simp add: py_strip_def dropWhile_eq_Nil_conv)
  moreover have "dropWhile py_isspace s = [] \<or> \<not> py_isspace (hd (dropWhile py_isspace s))"
    by (metis hd_dropWhile)
  ultimately have "dropWhile py_isspace s = []"
    by (metis list.set_sel(1))
  then show "\<forall>c\<in>set s. py_isspace c" by (simp add: dropWhile_eq_Nil_conv)
qed (auto simp: py_strip_def dropWhile_eq_Nil_conv dest: set_dropWhileD)

text \<open>\<^verbatim>\<open>int(s)\<close> on a run of decimal digits.\<close>

definition digit_value :: "char \<Rightarrow> nat" where
  "digit_value c = code c - 48"

definition int_of_digits :: "string \<Rightarrow> nat" where
  "int_of_digits s = foldl (\<lambda>acc c. 10 * acc + digit_value c) 0 s"

text \<open>
  \<^verbatim>\<open>int(s)\<close> on a run of characters that satisfy \<^verbatim>\<open>isdigit\<close>: \<open>None\<close> where CPython raises
  \<open>ValueError\<close>, on a digit that is not decimal and on more than 4300 digits.
\<close>

definition py_int :: "string \<Rightarrow> nat option" where
  "py_int s = (if s \<noteq> [] \<and> list_all py_isdecimal s \<and> length s \<le> 4300
               then Some (int_of_digits s) else None)"

lemma int_of_digits_snoc: "int_of_digits (s @ [c]) = 10 * int_of_digits s + digit_value c"
  by (simp add: int_of_digits_def)

text \<open>\<^verbatim>\<open>needle in hay\<close> and \<^verbatim>\<open>hay.find(needle)\<close>, \<open>None\<close> for -1.\<close>

definition py_contains :: "string \<Rightarrow> string \<Rightarrow> bool" where
  "py_contains needle hay = list_ex (\<lambda>i. take (length needle) (drop i hay) = needle) [0..<length hay + 1]"

fun py_find :: "string \<Rightarrow> string \<Rightarrow> nat option" where
  "py_find needle [] = (if needle = [] then Some 0 else None)"
| "py_find needle (c # cs) =
     (if take (length needle) (c # cs) = needle then Some 0 else map_option Suc (py_find needle cs))"

lemma py_find_Some:
  "py_find needle hay = Some i \<Longrightarrow> hay = take i hay @ needle @ drop (i + length needle) hay"
proof (induction needle hay arbitrary: i rule: py_find.induct)
  case (2 needle c cs)
  show ?case
  proof (cases "take (length needle) (c # cs) = needle")
    case True
    with 2(2) have "i = 0" by simp
    then show ?thesis using True append_take_drop_id[of "length needle" "c # cs"] by simp
  next
    case False
    with 2 show ?thesis by auto
  qed
qed (auto split: if_splits)

text \<open>\<^verbatim>\<open>sep.join(parts)\<close> and \<^verbatim>\<open>s.split(c)\<close>.\<close>

fun py_join :: "string \<Rightarrow> string list \<Rightarrow> string" where
  "py_join sep [] = []"
| "py_join sep [s] = s"
| "py_join sep (s # t # ts) = s @ sep @ py_join sep (t # ts)"

fun py_split :: "char \<Rightarrow> string \<Rightarrow> string list" where
  "py_split d [] = [[]]"
| "py_split d (c # cs) =
     (if c = d then [] # py_split d cs
      else (case py_split d cs of [] \<Rightarrow> [[c]] | w # ws \<Rightarrow> (c # w) # ws))"

lemma py_split_not_Nil [simp]: "py_split d s \<noteq> []"
  by (induction s) (auto split: list.splits)

lemma py_join_split: "py_join [d] (py_split d s) = s"
proof (induction s)
  case (Cons c s)
  obtain w ws where "py_split d s = w # ws"
    by (metis neq_Nil_conv py_split_not_Nil)
  with Cons show ?case by (cases ws) auto
qed simp

subsection \<open>Lists read by position\<close>

lemma upt_split:
  "[i..<n] = xs @ k # ys \<Longrightarrow> xs = [i..<k] \<and> i \<le> k \<and> k < n"
proof (induction xs arbitrary: i)
  case Nil
  then show ?case by (auto simp: upt_eq_Cons_conv)
next
  case (Cons x xs)
  then have "x = i" "i < n" "[Suc i..<n] = xs @ k # ys" by (auto simp: upt_eq_Cons_conv)
  with Cons.IH[of "Suc i"] show ?case by (auto simp: upt_conv_Cons)
qed

lemma ex_upt_append:
  "(\<exists>k\<in>set [i..<length xs + length ys]. P k) \<longleftrightarrow>
     (\<exists>k. i \<le> k \<and> k < length (xs @ ys) \<and> P k)"
  by auto

end
