(* ===== verification/Rv_Monitor.thy ===== *)
theory Rv_Monitor
  imports Prelude
begin

text \<open>
  The contract shared by the two runtime verifiers of the program (\<^verbatim>\<open>contracts/_ltl.py\<close> and
  \<^verbatim>\<open>governance/path_policy/ltlf.py\<close>): a monitor reports on a growing trace whether a property is
  satisfied or violated now and whether that is permanent. \<open>scope\<close> delimits the properties for
  which the promise is made.
\<close>

locale rv_monitor =
  fixes scope :: "'f \<Rightarrow> bool"
    and holds :: "'f \<Rightarrow> 's list \<Rightarrow> bool"
    and reports :: "'f \<Rightarrow> 's list \<Rightarrow> bool \<Rightarrow> bool"
    and final :: "'f \<Rightarrow> 's list \<Rightarrow> bool"
  assumes reports_now: "scope f \<Longrightarrow> reports f w b \<Longrightarrow> holds f w = b"
    and final_stable: "scope f \<Longrightarrow> final f w \<Longrightarrow> holds f (w @ ext) = holds f w"
begin

lemma final_report: "scope f \<Longrightarrow> final f w \<Longrightarrow> reports f w b \<Longrightarrow> holds f (w @ ext) = b"
  using reports_now final_stable by blast

text \<open>Later reports, permanent or not, agree with a permanent one.\<close>

lemma reports_after_final:
  "scope f \<Longrightarrow> final f w \<Longrightarrow> reports f w b \<Longrightarrow> reports f (w @ ext) c \<Longrightarrow> c = b"
  using final_report reports_now by blast

text \<open>Two permanent verdicts on branches of one execution agree.\<close>

lemma final_agree:
  assumes "scope f" "final f w" "reports f w b" "reports f (w @ e1) c1" "reports f (w @ e2) c2"
  shows "c1 = c2"
  using assms reports_after_final by blast

end

end
