(* ===== verification/Ltl_Monitor.thy ===== *)
theory Ltl_Monitor
  imports Prelude Rv_Monitor
begin

text \<open>
  The contract layer's LTLf evaluator, \<^verbatim>\<open>src/tex/contracts/_ltl.py\<close>: the AST, the
  tokenizer, the recursive-descent parser, the finite-trace evaluator and the four-valued
  RV-LTL verdict with its \<^verbatim>\<open>_is_definite\<close> heuristic.

  Correspondence. Every AST class is a constructor of \<open>ltl\<close>; a token \<^verbatim>\<open>(kind, value)\<close> is a
  constructor of \<open>ltl_token\<close>; the parser's \<^verbatim>\<open>self._pos\<close> is the list of tokens not yet
  consumed. The text of an error message is dropped, its class is kept. The atom resolver is a
  parameter, as it is in the code.

  Results: the parser accepts exactly the grammar of the docstring and builds the tree that
  grammar gives (\<open>LTLFormula_parse_correct\<close>); the evaluator computes the LTLf semantics written
  with quantifiers; a verdict that the heuristic calls permanent is permanent for formulas
  without \<^verbatim>\<open>X\<close>, \<^verbatim>\<open>Xw\<close> and nested temporal operators under \<^verbatim>\<open>F<=k\<close>, and is not in general.
\<close>

section \<open>Syntax\<close>

datatype ltl =
    LConst bool
  | LAtom string
  | LNot ltl
  | LAnd ltl ltl
  | LOr ltl ltl
  | LImplies ltl ltl
  | LNext ltl
  | LWeakNext ltl
  | LGlobally ltl
  | LEventually ltl
  | LBoundedEventually nat ltl
  | LUntil ltl ltl

datatype ltl_token =
    T_LPAREN | T_RPAREN | T_IMPLIES | T_BOUNDED nat | T_CONST bool | T_NOT | T_AND | T_OR
  | T_NEXT | T_WEAK_NEXT | T_GLOBALLY | T_EVENTUALLY | T_UNTIL | T_ATOM string

datatype ltl_error = LTLParseError | LTLValueError

definition ltl_atom_char :: "char \<Rightarrow> bool" where
  "ltl_atom_char c \<longleftrightarrow> in_range 97 122 c \<or> in_range 65 90 c \<or> in_range 48 57 c
     \<or> c \<in> set ''._:=<>!-/@~,''"

definition ltl_keyword :: "string \<Rightarrow> ltl_token option" where
  "ltl_keyword = map_of
     [(''true'', T_CONST True), (''false'', T_CONST False), (''not'', T_NOT), (''and'', T_AND),
      (''or'', T_OR), (''implies'', T_IMPLIES), (''X'', T_NEXT), (''Xw'', T_WEAK_NEXT),
      (''G'', T_GLOBALLY), (''F'', T_EVENTUALLY), (''U'', T_UNTIL)]"

definition ltl_word_token :: "string \<Rightarrow> ltl_token" where
  "ltl_word_token w = (case ltl_keyword w of Some t \<Rightarrow> t | None \<Rightarrow> T_ATOM w)"

text \<open>
  The tokenizer's loop, on the part of the formula from offset \<^verbatim>\<open>i\<close> on. The branches stand in
  the order of the code's \<^verbatim>\<open>if\<close> chain.
\<close>

function ltl_tokenize :: "string \<Rightarrow> ltl_error + ltl_token list" where
  "ltl_tokenize [] = Inr []"
| "ltl_tokenize (ch # cs) =
     (if py_isspace ch then ltl_tokenize cs
      else if ch = CHR ''('' then sbind (ltl_tokenize cs) (\<lambda>ts. Inr (T_LPAREN # ts))
      else if ch = CHR '')'' then sbind (ltl_tokenize cs) (\<lambda>ts. Inr (T_RPAREN # ts))
      else if ch = CHR ''-'' \<and> take 1 cs = ''>''
        then sbind (ltl_tokenize (drop 1 cs)) (\<lambda>ts. Inr (T_IMPLIES # ts))
      else if ch = CHR ''F'' \<and> take 1 cs = ''<'' then
        (if take 3 (ch # cs) \<noteq> ''F<='' then Inl LTLParseError
         else let ds = takeWhile py_isdigit (drop 2 cs); rest = dropWhile py_isdigit (drop 2 cs)
              in if ds = [] then Inl LTLParseError
                 else (case py_int ds of
                         None \<Rightarrow> Inl LTLValueError
                       | Some k \<Rightarrow> sbind (ltl_tokenize rest) (\<lambda>ts. Inr (T_BOUNDED k # ts))))
      else if ltl_atom_char ch then
        sbind (ltl_tokenize (dropWhile ltl_atom_char cs))
          (\<lambda>ts. Inr (ltl_word_token (ch # takeWhile ltl_atom_char cs) # ts))
      else Inl LTLParseError)"
  by pat_completeness auto
termination
proof (relation "measure length", goal_cases)
  case (6 ch cs ds rest k)
  have "length (dropWhile py_isdigit (drop 2 cs)) \<le> length (drop 2 cs)"
    by (rule length_dropWhile_le)
  with 6 show ?case by simp
next
  case (7 ch cs)
  have "length (dropWhile ltl_atom_char cs) \<le> length cs" by (rule length_dropWhile_le)
  then show ?case by simp
qed simp_all

declare ltl_tokenize.simps(2) [simp del]

section \<open>The parser\<close>

text \<open>
  One function per method of \<^verbatim>\<open>_Parser\<close>; the \<^verbatim>\<open>while True\<close> loops of \<^verbatim>\<open>_parse_or\<close>,
  \<^verbatim>\<open>_parse_and\<close> and \<^verbatim>\<open>_parse_until\<close> are the functions with suffix \<open>_loop\<close>, whose extra argument
  is the loop variable \<^verbatim>\<open>left\<close>. Each result carries the tokens not consumed.

  The tests \<open>length r < length ts\<close> exist for the termination proof only: a call always consumes a
  token (\<open>ltl_parse_shorter\<close>), so they are always true and \<open>ltl_parser_eqs\<close> below gives the
  equations without them.
\<close>

definition ltl_peek :: "ltl_token list \<Rightarrow> ltl_token option" where
  "ltl_peek ts = (case ts of [] \<Rightarrow> None | t # _ \<Rightarrow> Some t)"

definition ltl_consume :: "ltl_token \<Rightarrow> ltl_token list \<Rightarrow> ltl_error + ltl_token list" where
  "ltl_consume kind ts = (if ltl_peek ts = Some kind then Inr (tl ts) else Inl LTLParseError)"

lemma ltl_peek_Some: "ltl_peek ts = Some t \<longleftrightarrow> (\<exists>r. ts = t # r)"
  by (auto simp: ltl_peek_def split: list.splits)

lemma ltl_peek_Cons [simp]: "ltl_peek (t # ts) = Some t"
  by (simp add: ltl_peek_def)

lemma ltl_peek_Nil [simp]: "ltl_peek [] = None"
  by (simp add: ltl_peek_def)

lemma ltl_consume_Inr [simp]: "ltl_consume k ts = Inr r \<longleftrightarrow> ts = k # r"
  by (auto simp: ltl_consume_def ltl_peek_Some)

type_synonym ltl_result = "ltl_error + (ltl \<times> ltl_token list)"

function (sequential)
      ltl_parse_implies :: "ltl_token list \<Rightarrow> ltl_result"
  and ltl_parse_or :: "ltl_token list \<Rightarrow> ltl_result"
  and ltl_parse_or_loop :: "ltl \<Rightarrow> ltl_token list \<Rightarrow> ltl_result"
  and ltl_parse_and :: "ltl_token list \<Rightarrow> ltl_result"
  and ltl_parse_and_loop :: "ltl \<Rightarrow> ltl_token list \<Rightarrow> ltl_result"
  and ltl_parse_until :: "ltl_token list \<Rightarrow> ltl_result"
  and ltl_parse_until_loop :: "ltl \<Rightarrow> ltl_token list \<Rightarrow> ltl_result"
  and ltl_parse_unary :: "ltl_token list \<Rightarrow> ltl_result"
  and ltl_parse_primary :: "ltl_token list \<Rightarrow> ltl_result"
where
  "ltl_parse_implies ts = sbind (ltl_parse_or ts) (\<lambda>(left, r).
     if ltl_peek r = Some T_IMPLIES then
       (if length (tl r) < length ts
        then sbind (ltl_parse_implies (tl r)) (\<lambda>(right, r'). Inr (LImplies left right, r'))
        else Inl LTLParseError)
     else Inr (left, r))"
| "ltl_parse_or ts = sbind (ltl_parse_and ts) (\<lambda>(left, r).
     if length r < length ts then ltl_parse_or_loop left r else Inl LTLParseError)"
| "ltl_parse_or_loop left (T_OR # ts) = sbind (ltl_parse_and ts) (\<lambda>(right, r).
     if length r < length ts then ltl_parse_or_loop (LOr left right) r else Inl LTLParseError)"
| "ltl_parse_or_loop left ts = Inr (left, ts)"
| "ltl_parse_and ts = sbind (ltl_parse_until ts) (\<lambda>(left, r).
     if length r < length ts then ltl_parse_and_loop left r else Inl LTLParseError)"
| "ltl_parse_and_loop left (T_AND # ts) = sbind (ltl_parse_until ts) (\<lambda>(right, r).
     if length r < length ts then ltl_parse_and_loop (LAnd left right) r else Inl LTLParseError)"
| "ltl_parse_and_loop left ts = Inr (left, ts)"
| "ltl_parse_until ts = sbind (ltl_parse_unary ts) (\<lambda>(left, r).
     if length r < length ts then ltl_parse_until_loop left r else Inl LTLParseError)"
| "ltl_parse_until_loop left (T_UNTIL # ts) = sbind (ltl_parse_unary ts) (\<lambda>(right, r).
     if length r < length ts then ltl_parse_until_loop (LUntil left right) r
     else Inl LTLParseError)"
| "ltl_parse_until_loop left ts = Inr (left, ts)"
| "ltl_parse_unary [] = Inl LTLParseError"
| "ltl_parse_unary (T_NOT # ts) = sbind (ltl_parse_unary ts) (\<lambda>(a, r). Inr (LNot a, r))"
| "ltl_parse_unary (T_NEXT # ts) = sbind (ltl_parse_unary ts) (\<lambda>(a, r). Inr (LNext a, r))"
| "ltl_parse_unary (T_WEAK_NEXT # ts) = sbind (ltl_parse_unary ts) (\<lambda>(a, r). Inr (LWeakNext a, r))"
| "ltl_parse_unary (T_GLOBALLY # ts) = sbind (ltl_parse_unary ts) (\<lambda>(a, r). Inr (LGlobally a, r))"
| "ltl_parse_unary (T_EVENTUALLY # ts) =
     sbind (ltl_parse_unary ts) (\<lambda>(a, r). Inr (LEventually a, r))"
| "ltl_parse_unary (T_BOUNDED k # ts) =
     sbind (ltl_parse_unary ts) (\<lambda>(a, r). Inr (LBoundedEventually k a, r))"
| "ltl_parse_unary ts = ltl_parse_primary ts"
| "ltl_parse_primary (T_LPAREN # ts) = sbind (ltl_parse_implies ts) (\<lambda>(a, r).
     sbind (ltl_consume T_RPAREN r) (\<lambda>r'. Inr (a, r')))"
| "ltl_parse_primary (T_CONST b # ts) = Inr (LConst b, ts)"
| "ltl_parse_primary (T_ATOM w # ts) = Inr (LAtom w, ts)"
| "ltl_parse_primary ts = Inl LTLParseError"
  by pat_completeness auto
termination
  by size_change


declare ltl_parse_implies.simps [simp del] ltl_parse_or.simps [simp del]
  ltl_parse_and.simps [simp del] ltl_parse_until.simps [simp del]

lemmas ltl_parser_induct =
  ltl_parse_implies_ltl_parse_or_ltl_parse_or_loop_ltl_parse_and_ltl_parse_and_loop_ltl_parse_until_ltl_parse_until_loop_ltl_parse_unary_ltl_parse_primary.induct

text \<open>Every production consumes at least one token; the loops never add any.\<close>

lemma ltl_parse_shorter:
  "ltl_parse_implies ts = Inr (a, r) \<Longrightarrow> length r < length ts"
  "ltl_parse_or ts = Inr (a, r) \<Longrightarrow> length r < length ts"
  "ltl_parse_or_loop l ts = Inr (a, r) \<Longrightarrow> length r \<le> length ts"
  "ltl_parse_and ts = Inr (a, r) \<Longrightarrow> length r < length ts"
  "ltl_parse_and_loop l ts = Inr (a, r) \<Longrightarrow> length r \<le> length ts"
  "ltl_parse_until ts = Inr (a, r) \<Longrightarrow> length r < length ts"
  "ltl_parse_until_loop l ts = Inr (a, r) \<Longrightarrow> length r \<le> length ts"
  "ltl_parse_unary ts = Inr (a, r) \<Longrightarrow> length r < length ts"
  "ltl_parse_primary ts = Inr (a, r) \<Longrightarrow> length r < length ts"
proof (induction ts and ts and l ts and ts and l ts and ts and l ts and ts and ts
    arbitrary: a r and a r and a r and a r and a r and a r and a r and a r and a r
    rule: ltl_parser_induct)
  case (1 ts)
  from "1.prems" obtain left r1 where p: "ltl_parse_or ts = Inr (left, r1)"
    and rest: "(if ltl_peek r1 = Some T_IMPLIES then
       (if length (tl r1) < length ts
        then sbind (ltl_parse_implies (tl r1)) (\<lambda>(right, r'). Inr (LImplies left right, r'))
        else Inl LTLParseError) else Inr (left, r1)) = Inr (a, r)"
    by (auto simp: ltl_parse_implies.simps[of ts] sbind_rules)
  with "1.IH"(1)[OF p] "1.IH"(2)[OF p] show ?case
    by (fastforce simp: sbind_rules split: if_splits)
next
  case (2 ts)
  from "2.prems" obtain left r1 where "ltl_parse_and ts = Inr (left, r1)" "length r1 < length ts"
     "ltl_parse_or_loop left r1 = Inr (a, r)"
    by (auto simp: ltl_parse_or.simps[of ts] sbind_rules split: if_splits)
  with "2.IH" show ?case by fastforce
next
  case (5 ts)
  from "5.prems" obtain left r1 where "ltl_parse_until ts = Inr (left, r1)" "length r1 < length ts"
     "ltl_parse_and_loop left r1 = Inr (a, r)"
    by (auto simp: ltl_parse_and.simps[of ts] sbind_rules split: if_splits)
  with "5.IH" show ?case by fastforce
next
  case (8 ts)
  from "8.prems" obtain left r1 where "ltl_parse_unary ts = Inr (left, r1)" "length r1 < length ts"
     "ltl_parse_until_loop left r1 = Inr (a, r)"
    by (auto simp: ltl_parse_until.simps[of ts] sbind_rules split: if_splits)
  with "8.IH" show ?case by fastforce
next
  case (3 left ts)
  from "3.prems" obtain right r1 where "ltl_parse_and ts = Inr (right, r1)" "length r1 < length ts"
     "ltl_parse_or_loop (LOr left right) r1 = Inr (a, r)"
    by (auto simp: sbind_rules split: if_splits)
  with "3.IH" show ?case by fastforce
next
  case (6 left ts)
  from "6.prems" obtain right r1 where "ltl_parse_until ts = Inr (right, r1)" "length r1 < length ts"
     "ltl_parse_and_loop (LAnd left right) r1 = Inr (a, r)"
    by (auto simp: sbind_rules split: if_splits)
  with "6.IH" show ?case by fastforce
next
  case (9 left ts)
  from "9.prems" obtain right r1 where "ltl_parse_unary ts = Inr (right, r1)" "length r1 < length ts"
     "ltl_parse_until_loop (LUntil left right) r1 = Inr (a, r)"
    by (auto simp: sbind_rules split: if_splits)
  with "9.IH" show ?case by fastforce
qed (fastforce simp: sbind_rules less_Suc_eq)+

text \<open>The equations of the code, without the tests that only serve termination.\<close>

lemma ltl_parser_eqs:
  "ltl_parse_implies ts = sbind (ltl_parse_or ts) (\<lambda>(left, r).
     if ltl_peek r = Some T_IMPLIES
     then sbind (ltl_parse_implies (tl r)) (\<lambda>(right, r'). Inr (LImplies left right, r'))
     else Inr (left, r))"
  "ltl_parse_or ts = sbind (ltl_parse_and ts) (\<lambda>(left, r). ltl_parse_or_loop left r)"
  "ltl_parse_or_loop left (T_OR # ts) =
     sbind (ltl_parse_and ts) (\<lambda>(right, r). ltl_parse_or_loop (LOr left right) r)"
  "ltl_parse_and ts = sbind (ltl_parse_until ts) (\<lambda>(left, r). ltl_parse_and_loop left r)"
  "ltl_parse_and_loop left (T_AND # ts) =
     sbind (ltl_parse_until ts) (\<lambda>(right, r). ltl_parse_and_loop (LAnd left right) r)"
  "ltl_parse_until ts = sbind (ltl_parse_unary ts) (\<lambda>(left, r). ltl_parse_until_loop left r)"
  "ltl_parse_until_loop left (T_UNTIL # ts) =
     sbind (ltl_parse_unary ts) (\<lambda>(right, r). ltl_parse_until_loop (LUntil left right) r)"
  subgoal
    by (subst ltl_parse_implies.simps, rule sbind_cong)
       (force simp: ltl_peek_Some dest: ltl_parse_shorter(2))+
  subgoal by (subst ltl_parse_or.simps) (rule sbind_guard, erule ltl_parse_shorter)
  subgoal by (subst ltl_parse_or_loop.simps) (rule sbind_guard, erule ltl_parse_shorter)
  subgoal by (subst ltl_parse_and.simps) (rule sbind_guard, erule ltl_parse_shorter)
  subgoal by (subst ltl_parse_and_loop.simps) (rule sbind_guard, erule ltl_parse_shorter)
  subgoal by (subst ltl_parse_until.simps) (rule sbind_guard, erule ltl_parse_shorter)
  subgoal by (subst ltl_parse_until_loop.simps) (rule sbind_guard, erule ltl_parse_shorter)
  done

declare ltl_parse_or_loop.simps(1) [simp del] ltl_parse_and_loop.simps(1) [simp del]
  ltl_parse_until_loop.simps(1) [simp del]

section \<open>The grammar of the docstring\<close>

text \<open>
  \<^verbatim>\<open>
    implies := or  ('->' implies)?
    or      := and ('or' and)*
    and     := until ('and' until)*
    until   := unary ('U' unary)*
    unary   := 'not' unary | 'X' unary | 'Xw' unary | 'G' unary | 'F' unary
             | 'F<=' INT unary | primary
    primary := '(' implies ')' | 'true' | 'false' | ATOM
  \<close>
  as an inductive relation between token sequences and trees, with the associativity the class
  comment states (implication to the right, the others to the left).
\<close>

inductive
      g_implies :: "ltl_token list \<Rightarrow> ltl \<Rightarrow> bool"
  and g_or :: "ltl_token list \<Rightarrow> ltl \<Rightarrow> bool"
  and g_and :: "ltl_token list \<Rightarrow> ltl \<Rightarrow> bool"
  and g_until :: "ltl_token list \<Rightarrow> ltl \<Rightarrow> bool"
  and g_unary :: "ltl_token list \<Rightarrow> ltl \<Rightarrow> bool"
  and g_primary :: "ltl_token list \<Rightarrow> ltl \<Rightarrow> bool"
where
  g_implies_or: "g_or xs a \<Longrightarrow> g_implies xs a"
| g_implies_arrow: "g_or xs a \<Longrightarrow> g_implies ys b \<Longrightarrow>
    g_implies (xs @ T_IMPLIES # ys) (LImplies a b)"
| g_or_and: "g_and xs a \<Longrightarrow> g_or xs a"
| g_or_or: "g_or xs a \<Longrightarrow> g_and ys b \<Longrightarrow> g_or (xs @ T_OR # ys) (LOr a b)"
| g_and_until: "g_until xs a \<Longrightarrow> g_and xs a"
| g_and_and: "g_and xs a \<Longrightarrow> g_until ys b \<Longrightarrow> g_and (xs @ T_AND # ys) (LAnd a b)"
| g_until_unary: "g_unary xs a \<Longrightarrow> g_until xs a"
| g_until_until: "g_until xs a \<Longrightarrow> g_unary ys b \<Longrightarrow> g_until (xs @ T_UNTIL # ys) (LUntil a b)"
| g_not: "g_unary xs a \<Longrightarrow> g_unary (T_NOT # xs) (LNot a)"
| g_next: "g_unary xs a \<Longrightarrow> g_unary (T_NEXT # xs) (LNext a)"
| g_weak_next: "g_unary xs a \<Longrightarrow> g_unary (T_WEAK_NEXT # xs) (LWeakNext a)"
| g_globally: "g_unary xs a \<Longrightarrow> g_unary (T_GLOBALLY # xs) (LGlobally a)"
| g_eventually: "g_unary xs a \<Longrightarrow> g_unary (T_EVENTUALLY # xs) (LEventually a)"
| g_bounded: "g_unary xs a \<Longrightarrow> g_unary (T_BOUNDED k # xs) (LBoundedEventually k a)"
| g_unary_primary: "g_primary xs a \<Longrightarrow> g_unary xs a"
| g_paren: "g_implies xs a \<Longrightarrow> g_primary (T_LPAREN # xs @ [T_RPAREN]) a"
| g_const: "g_primary [T_CONST b] (LConst b)"
| g_atom: "g_primary [T_ATOM w] (LAtom w)"

text \<open>Soundness: what a parser function consumes derives the tree it returns.\<close>

lemma ltl_parser_sound:
  "ltl_parse_implies ts = Inr (n, r) \<Longrightarrow> \<exists>xs. ts = xs @ r \<and> g_implies xs n"
  "ltl_parse_or ts = Inr (n, r) \<Longrightarrow> \<exists>xs. ts = xs @ r \<and> g_or xs n"
  "ltl_parse_or_loop l ts = Inr (n, r) \<Longrightarrow>
     \<exists>xs. ts = xs @ r \<and> (\<forall>pre. g_or pre l \<longrightarrow> g_or (pre @ xs) n)"
  "ltl_parse_and ts = Inr (n, r) \<Longrightarrow> \<exists>xs. ts = xs @ r \<and> g_and xs n"
  "ltl_parse_and_loop l ts = Inr (n, r) \<Longrightarrow>
     \<exists>xs. ts = xs @ r \<and> (\<forall>pre. g_and pre l \<longrightarrow> g_and (pre @ xs) n)"
  "ltl_parse_until ts = Inr (n, r) \<Longrightarrow> \<exists>xs. ts = xs @ r \<and> g_until xs n"
  "ltl_parse_until_loop l ts = Inr (n, r) \<Longrightarrow>
     \<exists>xs. ts = xs @ r \<and> (\<forall>pre. g_until pre l \<longrightarrow> g_until (pre @ xs) n)"
  "ltl_parse_unary ts = Inr (n, r) \<Longrightarrow> \<exists>xs. ts = xs @ r \<and> g_unary xs n"
  "ltl_parse_primary ts = Inr (n, r) \<Longrightarrow> \<exists>xs. ts = xs @ r \<and> g_primary xs n"
proof (induction ts and ts and l ts and ts and l ts and ts and l ts and ts and ts
    arbitrary: n r and n r and n r and n r and n r and n r and n r and n r and n r
    rule: ltl_parser_induct)
  case (1 ts)
  from "1.prems" obtain left r1 where p: "ltl_parse_or ts = Inr (left, r1)"
    and rest: "(if ltl_peek r1 = Some T_IMPLIES
       then sbind (ltl_parse_implies (tl r1)) (\<lambda>(right, r'). Inr (LImplies left right, r'))
       else Inr (left, r1)) = Inr (n, r)"
    by (auto simp: ltl_parser_eqs(1)[of ts] sbind_rules)
  from "1.IH"(1)[OF p] obtain xs where xs: "ts = xs @ r1" "g_or xs left" by auto
  show ?case
  proof (cases "ltl_peek r1 = Some T_IMPLIES")
    case True
    then obtain r2 where r1: "r1 = T_IMPLIES # r2" by (auto simp: ltl_peek_Some)
    with rest obtain right where q: "ltl_parse_implies r2 = Inr (right, r)"
      and n: "n = LImplies left right"
      by (auto simp: sbind_rules)
    have "length (tl r1) < length ts" using xs r1 by simp
    from "1.IH"(2)[OF p refl True this] q r1 obtain ys where "r2 = ys @ r" "g_implies ys right"
      by auto
    with xs r1 n show ?thesis
      by (auto intro!: exI[of _ "xs @ T_IMPLIES # ys"] g_implies_arrow)
  next
    case False
    with rest xs show ?thesis by (auto intro: g_implies_or)
  qed
next
  case (2 ts)
  from "2.prems" obtain left r1 where p: "ltl_parse_and ts = Inr (left, r1)"
     "ltl_parse_or_loop left r1 = Inr (n, r)"
    by (auto simp: ltl_parser_eqs(2)[of ts] sbind_rules)
  with "2.IH"(2)[OF p(1) refl ltl_parse_shorter(4)[OF p(1)]] "2.IH"(1) show ?case
    by (fastforce intro: g_or_and)
next
  case (3 left ts)
  from "3.prems" obtain right r1 where p: "ltl_parse_and ts = Inr (right, r1)"
     "ltl_parse_or_loop (LOr left right) r1 = Inr (n, r)"
    by (auto simp: ltl_parser_eqs(3) sbind_rules)
  from "3.IH"(1)[OF p(1)] obtain xs where xs: "ts = xs @ r1" "g_and xs right" by auto
  from "3.IH"(2)[OF p(1) refl ltl_parse_shorter(4)[OF p(1)] p(2)] obtain ys
    where ys: "r1 = ys @ r" "\<forall>pre. g_or pre (LOr left right) \<longrightarrow> g_or (pre @ ys) n" by auto
  have "g_or (pre @ T_OR # xs @ ys) n" if "g_or pre left" for pre
    using ys(2)[rule_format, OF g_or_or[OF that xs(2)]] by simp
  with xs ys show ?case by (auto intro!: exI[of _ "T_OR # xs @ ys"])
next
  case (5 ts)
  from "5.prems" obtain left r1 where p: "ltl_parse_until ts = Inr (left, r1)"
     "ltl_parse_and_loop left r1 = Inr (n, r)"
    by (auto simp: ltl_parser_eqs(4)[of ts] sbind_rules)
  with "5.IH"(2)[OF p(1) refl ltl_parse_shorter(6)[OF p(1)]] "5.IH"(1) show ?case
    by (fastforce intro: g_and_until)
next
  case (6 left ts)
  from "6.prems" obtain right r1 where p: "ltl_parse_until ts = Inr (right, r1)"
     "ltl_parse_and_loop (LAnd left right) r1 = Inr (n, r)"
    by (auto simp: ltl_parser_eqs(5) sbind_rules)
  from "6.IH"(1)[OF p(1)] obtain xs where xs: "ts = xs @ r1" "g_until xs right" by auto
  from "6.IH"(2)[OF p(1) refl ltl_parse_shorter(6)[OF p(1)] p(2)] obtain ys
    where ys: "r1 = ys @ r" "\<forall>pre. g_and pre (LAnd left right) \<longrightarrow> g_and (pre @ ys) n" by auto
  have "g_and (pre @ T_AND # xs @ ys) n" if "g_and pre left" for pre
    using ys(2)[rule_format, OF g_and_and[OF that xs(2)]] by simp
  with xs ys show ?case by (auto intro!: exI[of _ "T_AND # xs @ ys"])
next
  case (8 ts)
  from "8.prems" obtain left r1 where p: "ltl_parse_unary ts = Inr (left, r1)"
     "ltl_parse_until_loop left r1 = Inr (n, r)"
    by (auto simp: ltl_parser_eqs(6)[of ts] sbind_rules)
  with "8.IH"(2)[OF p(1) refl ltl_parse_shorter(8)[OF p(1)]] "8.IH"(1) show ?case
    by (fastforce intro: g_until_unary)
next
  case (9 left ts)
  from "9.prems" obtain right r1 where p: "ltl_parse_unary ts = Inr (right, r1)"
     "ltl_parse_until_loop (LUntil left right) r1 = Inr (n, r)"
    by (auto simp: ltl_parser_eqs(7) sbind_rules)
  from "9.IH"(1)[OF p(1)] obtain xs where xs: "ts = xs @ r1" "g_unary xs right" by auto
  from "9.IH"(2)[OF p(1) refl ltl_parse_shorter(8)[OF p(1)] p(2)] obtain ys
    where ys: "r1 = ys @ r" "\<forall>pre. g_until pre (LUntil left right) \<longrightarrow> g_until (pre @ ys) n"
    by auto
  have "g_until (pre @ T_UNTIL # xs @ ys) n" if "g_until pre left" for pre
    using ys(2)[rule_format, OF g_until_until[OF that xs(2)]] by simp
  with xs ys show ?case by (auto intro!: exI[of _ "T_UNTIL # xs @ ys"])
qed (fastforce simp: sbind_rules intro: g_not g_next g_weak_next g_globally g_eventually g_bounded
       g_unary_primary g_const g_atom g_paren)+

text \<open>Completeness: a derivation is what the parser finds, whatever may follow it.\<close>

lemma ltl_loops_stop:
  "ltl_peek r \<noteq> Some T_OR \<Longrightarrow> ltl_parse_or_loop l r = Inr (l, r)"
  "ltl_peek r \<noteq> Some T_AND \<Longrightarrow> ltl_parse_and_loop l r = Inr (l, r)"
  "ltl_peek r \<noteq> Some T_UNTIL \<Longrightarrow> ltl_parse_until_loop l r = Inr (l, r)"
  by (cases "(l, r)" rule: ltl_parse_or_loop.cases, simp_all)
     (cases "(l, r)" rule: ltl_parse_and_loop.cases, simp_all,
      cases "(l, r)" rule: ltl_parse_until_loop.cases, simp_all)

lemma ltl_primary_not_prefix: "g_primary xs a \<Longrightarrow> ltl_parse_unary (xs @ r) = ltl_parse_primary (xs @ r)"
  by (erule g_primary.cases) simp_all

lemma ltl_parser_complete:
  "g_implies xs n \<Longrightarrow> ltl_peek r \<notin> Some ` {T_IMPLIES, T_OR, T_AND, T_UNTIL} \<Longrightarrow>
     ltl_parse_implies (xs @ r) = Inr (n, r)"
  "g_or xs n \<Longrightarrow> ltl_peek r \<notin> Some ` {T_AND, T_UNTIL} \<Longrightarrow>
     ltl_parse_or (xs @ r) = ltl_parse_or_loop n r"
  "g_and xs n \<Longrightarrow> ltl_peek r \<noteq> Some T_UNTIL \<Longrightarrow>
     ltl_parse_and (xs @ r) = ltl_parse_and_loop n r"
  "g_until xs n \<Longrightarrow> ltl_parse_until (xs @ r) = ltl_parse_until_loop n r"
  "g_unary xs n \<Longrightarrow> ltl_parse_unary (xs @ r) = Inr (n, r)"
  "g_primary xs n \<Longrightarrow> ltl_parse_primary (xs @ r) = Inr (n, r)"
proof (induction arbitrary: r and r and r and r and r and r
    rule: g_implies_g_or_g_and_g_until_g_unary_g_primary.inducts)
  case (g_implies_or xs a)
  then show ?case by (simp add: ltl_parser_eqs(1)[of "xs @ r"] ltl_loops_stop)
next
  case (g_implies_arrow xs a ys b)
  then show ?case
    by (simp add: ltl_parser_eqs(1)[of "xs @ T_IMPLIES # ys @ r"] ltl_loops_stop)
next
  case (g_or_and xs a)
  then show ?case by (simp add: ltl_parser_eqs(2)[of "xs @ r"] ltl_loops_stop)
next
  case (g_or_or xs a ys b)
  then show ?case by (simp add: ltl_parser_eqs(3) ltl_loops_stop)
next
  case (g_and_until xs a)
  then show ?case by (simp add: ltl_parser_eqs(4)[of "xs @ r"] ltl_loops_stop)
next
  case (g_and_and xs a ys b)
  then show ?case by (simp add: ltl_parser_eqs(5) ltl_loops_stop)
next
  case (g_until_unary xs a)
  then show ?case by (simp add: ltl_parser_eqs(6)[of "xs @ r"])
next
  case (g_until_until xs a ys b)
  then show ?case by (simp add: ltl_parser_eqs(7))
qed (simp_all add: ltl_primary_not_prefix ltl_consume_def)


section \<open>LTLFormula\<close>

record LTLFormula =
  source :: string
  ast :: ltl

text \<open>\<^verbatim>\<open>_Parser(tokens).parse()\<close>: a formula followed by further tokens is an error.\<close>

definition ltl_parser_parse :: "ltl_token list \<Rightarrow> ltl_error + ltl" where
  "ltl_parser_parse ts = sbind (ltl_parse_implies ts)
     (\<lambda>(node, r). if r = [] then Inr node else Inl LTLParseError)"

definition LTLFormula_parse :: "string \<Rightarrow> ltl_error + LTLFormula" where
  "LTLFormula_parse formula =
     (if formula = [] \<or> py_strip formula = [] then Inl LTLParseError
      else sbind (ltl_tokenize formula) (\<lambda>tokens.
        if tokens = [] then Inl LTLParseError
        else sbind (ltl_parser_parse tokens) (\<lambda>a. Inr \<lparr>source = formula, ast = a\<rparr>)))"

lemma ltl_parser_parse_iff: "ltl_parser_parse ts = Inr a \<longleftrightarrow> g_implies ts a"
proof
  assume "ltl_parser_parse ts = Inr a"
  then have "ltl_parse_implies ts = Inr (a, [])"
    by (auto simp: ltl_parser_parse_def sbind_rules split: if_splits)
  from ltl_parser_sound(1)[OF this] show "g_implies ts a" by simp
next
  assume "g_implies ts a"
  from ltl_parser_complete(1)[OF this, of "[]"] show "ltl_parser_parse ts = Inr a"
    by (simp add: ltl_parser_parse_def)
qed

text \<open>A formula that is not blank never tokenizes to the empty sequence.\<close>

lemma ltl_tokenize_blank: "ltl_tokenize s = Inr [] \<Longrightarrow> \<forall>c\<in>set s. py_isspace c"
proof (induction s)
  case (Cons ch cs)
  from Cons.prems have "py_isspace ch \<and> ltl_tokenize cs = Inr []"
    by (auto simp: ltl_tokenize.simps(2)[of ch cs] sbind_rules Let_def split: if_splits option.splits)
  with Cons.IH show ?case by simp
qed simp

text \<open>
  (C19) The parser is exactly the documented grammar: \<open>LTLFormula_parse\<close> succeeds with a tree
  if and only if the formula is not blank, tokenizes, and its tokens derive that tree. In
  particular it rejects everything outside the grammar and a formula has one reading only.
\<close>

theorem LTLFormula_parse_correct:
  "LTLFormula_parse formula = Inr f \<longleftrightarrow>
     (\<exists>c\<in>set formula. \<not> py_isspace c) \<and>
     (\<exists>tokens. ltl_tokenize formula = Inr tokens \<and> g_implies tokens (ast f)) \<and>
     source f = formula"
proof (cases "\<forall>c\<in>set formula. py_isspace c")
  case True
  then show ?thesis by (simp add: LTLFormula_parse_def py_strip_Nil_iff)
next
  case False
  then have ne: "formula \<noteq> []" "py_strip formula \<noteq> []" and tk: "ltl_tokenize formula \<noteq> Inr []"
    using ltl_tokenize_blank by (auto simp: py_strip_Nil_iff)
  show ?thesis
  proof (cases "ltl_tokenize formula")
    case (Inl e)
    then show ?thesis by (simp add: LTLFormula_parse_def)
  next
    case (Inr ts)
    with tk have "ts \<noteq> []" by auto
    with ne Inr have "LTLFormula_parse formula = Inr f \<longleftrightarrow>
        (\<exists>a. ltl_parser_parse ts = Inr a \<and> f = \<lparr>source = formula, ast = a\<rparr>)"
      by (auto simp: LTLFormula_parse_def sbind_rules)
    also have "\<dots> \<longleftrightarrow> g_implies ts (ast f) \<and> source f = formula"
      by (cases f) (auto simp: ltl_parser_parse_iff)
    finally show ?thesis using Inr False by auto
  qed
qed

text \<open>The tokens of a formula have at most one reading.\<close>

lemma g_implies_unique: "g_implies ts a \<Longrightarrow> g_implies ts b \<Longrightarrow> a = b"
  by (metis Inr_inject ltl_parser_parse_iff)

section \<open>Evaluation over finite traces\<close>

text \<open>
  \<^verbatim>\<open>_eval_ltlf\<close>. A position is a natural number (the callers never pass a negative one); the
  loops \<^verbatim>\<open>for k in range(pos, n)\<close> run over \<open>[pos..<n]\<close>. In the bounded case
  \<^verbatim>\<open>range(pos, min(pos + k, n - 1) + 1)\<close> is \<open>[pos..<min (pos + k + 1) n]\<close>.
\<close>

fun until_loop :: "(nat \<Rightarrow> bool) \<Rightarrow> (nat \<Rightarrow> bool) \<Rightarrow> nat list \<Rightarrow> bool" where
  "until_loop left right [] = False"
| "until_loop left right (j # js) =
     (if right j then True else if \<not> left j then False else until_loop left right js)"

primrec ltl_eval :: "ltl \<Rightarrow> 'st list \<Rightarrow> nat \<Rightarrow> (string \<Rightarrow> 'st \<Rightarrow> bool) \<Rightarrow> bool" where
  "ltl_eval (LConst v) trace pos resolver = v"
| "ltl_eval (LAtom name) trace pos resolver =
     (if length trace \<le> pos then False else resolver name (trace ! pos))"
| "ltl_eval (LNot a) trace pos resolver = (\<not> ltl_eval a trace pos resolver)"
| "ltl_eval (LAnd a b) trace pos resolver =
     (ltl_eval a trace pos resolver \<and> ltl_eval b trace pos resolver)"
| "ltl_eval (LOr a b) trace pos resolver =
     (ltl_eval a trace pos resolver \<or> ltl_eval b trace pos resolver)"
| "ltl_eval (LImplies a b) trace pos resolver =
     (if \<not> ltl_eval a trace pos resolver then True else ltl_eval b trace pos resolver)"
| "ltl_eval (LNext a) trace pos resolver =
     (if length trace \<le> pos + 1 then False else ltl_eval a trace (pos + 1) resolver)"
| "ltl_eval (LWeakNext a) trace pos resolver =
     (if length trace \<le> pos + 1 then True else ltl_eval a trace (pos + 1) resolver)"
| "ltl_eval (LGlobally a) trace pos resolver =
     list_all (\<lambda>k. ltl_eval a trace k resolver) [pos..<length trace]"
| "ltl_eval (LEventually a) trace pos resolver =
     list_ex (\<lambda>k. ltl_eval a trace k resolver) [pos..<length trace]"
| "ltl_eval (LBoundedEventually b a) trace pos resolver =
     list_ex (\<lambda>k. ltl_eval a trace k resolver) [pos..<min (pos + b + 1) (length trace)]"
| "ltl_eval (LUntil a b) trace pos resolver =
     until_loop (\<lambda>j. ltl_eval a trace j resolver) (\<lambda>j. ltl_eval b trace j resolver)
       [pos..<length trace]"

text \<open>\<^verbatim>\<open>_is_definite\<close>, the permanence heuristic. The resolver is not used by it.\<close>

primrec ltl_is_definite :: "ltl \<Rightarrow> 'st list \<Rightarrow> nat \<Rightarrow> bool" where
  "ltl_is_definite (LConst v) trace pos = True"
| "ltl_is_definite (LAtom name) trace pos = (pos < length trace)"
| "ltl_is_definite (LNot a) trace pos = ltl_is_definite a trace pos"
| "ltl_is_definite (LAnd a b) trace pos = (ltl_is_definite a trace pos \<and> ltl_is_definite b trace pos)"
| "ltl_is_definite (LOr a b) trace pos = (ltl_is_definite a trace pos \<and> ltl_is_definite b trace pos)"
| "ltl_is_definite (LImplies a b) trace pos =
     (ltl_is_definite a trace pos \<and> ltl_is_definite b trace pos)"
| "ltl_is_definite (LBoundedEventually b a) trace pos = (int pos + int b \<le> int (length trace) - 1)"
| "ltl_is_definite (LGlobally a) trace pos = False"
| "ltl_is_definite (LNext a) trace pos = True"
| "ltl_is_definite (LWeakNext a) trace pos = True"
| "ltl_is_definite (LEventually a) trace pos = False"
| "ltl_is_definite (LUntil a b) trace pos = False"

datatype RVVerdict =
    PERMANENTLY_SATISFIED | CURRENTLY_SATISFIED | CURRENTLY_VIOLATED | PERMANENTLY_VIOLATED

definition is_satisfied :: "RVVerdict \<Rightarrow> bool" where
  "is_satisfied v \<longleftrightarrow> v \<in> {PERMANENTLY_SATISFIED, CURRENTLY_SATISFIED}"

definition is_permanent :: "RVVerdict \<Rightarrow> bool" where
  "is_permanent v \<longleftrightarrow> v \<in> {PERMANENTLY_SATISFIED, PERMANENTLY_VIOLATED}"

definition evaluate_finite ::
  "LTLFormula \<Rightarrow> 'st list \<Rightarrow> (string \<Rightarrow> 'st \<Rightarrow> bool) \<Rightarrow> int \<Rightarrow> ltl_error + bool" where
  "evaluate_finite f trace resolver position =
     (if position < 0 then Inl LTLValueError
      else if int (length trace) < position then Inl LTLValueError
      else Inr (ltl_eval (ast f) trace (nat position) resolver))"

definition rv_verdict ::
  "LTLFormula \<Rightarrow> 'st list \<Rightarrow> (string \<Rightarrow> 'st \<Rightarrow> bool) \<Rightarrow> int option \<Rightarrow> RVVerdict" where
  "rv_verdict f trace resolver position =
     (let p = (case position of None \<Rightarrow> int (length trace) - 1 | Some q \<Rightarrow> q);
          eff_pos = (if p < 0 then 0 else nat p);
          ok = ltl_eval (ast f) trace eff_pos resolver;
          permanent = ltl_is_definite (ast f) trace eff_pos
      in if ok \<and> permanent then PERMANENTLY_SATISFIED
         else if \<not> ok \<and> permanent then PERMANENTLY_VIOLATED
         else if ok then CURRENTLY_SATISFIED else CURRENTLY_VIOLATED)"


section \<open>Semantics\<close>

text \<open>LTLf of De Giacomo and Vardi over a finite trace, with quantifiers over positions.\<close>

primrec ltl_sat :: "ltl \<Rightarrow> 'st list \<Rightarrow> nat \<Rightarrow> (string \<Rightarrow> 'st \<Rightarrow> bool) \<Rightarrow> bool" where
  "ltl_sat (LConst v) w i \<rho> \<longleftrightarrow> v"
| "ltl_sat (LAtom p) w i \<rho> \<longleftrightarrow> i < length w \<and> \<rho> p (w ! i)"
| "ltl_sat (LNot a) w i \<rho> \<longleftrightarrow> \<not> ltl_sat a w i \<rho>"
| "ltl_sat (LAnd a b) w i \<rho> \<longleftrightarrow> ltl_sat a w i \<rho> \<and> ltl_sat b w i \<rho>"
| "ltl_sat (LOr a b) w i \<rho> \<longleftrightarrow> ltl_sat a w i \<rho> \<or> ltl_sat b w i \<rho>"
| "ltl_sat (LImplies a b) w i \<rho> \<longleftrightarrow> (ltl_sat a w i \<rho> \<longrightarrow> ltl_sat b w i \<rho>)"
| "ltl_sat (LNext a) w i \<rho> \<longleftrightarrow> i + 1 < length w \<and> ltl_sat a w (i + 1) \<rho>"
| "ltl_sat (LWeakNext a) w i \<rho> \<longleftrightarrow> (i + 1 < length w \<longrightarrow> ltl_sat a w (i + 1) \<rho>)"
| "ltl_sat (LGlobally a) w i \<rho> \<longleftrightarrow> (\<forall>k. i \<le> k \<and> k < length w \<longrightarrow> ltl_sat a w k \<rho>)"
| "ltl_sat (LEventually a) w i \<rho> \<longleftrightarrow> (\<exists>k. i \<le> k \<and> k < length w \<and> ltl_sat a w k \<rho>)"
| "ltl_sat (LBoundedEventually b a) w i \<rho> \<longleftrightarrow>
     (\<exists>k. i \<le> k \<and> k \<le> i + b \<and> k < length w \<and> ltl_sat a w k \<rho>)"
| "ltl_sat (LUntil a b) w i \<rho> \<longleftrightarrow>
     (\<exists>j. i \<le> j \<and> j < length w \<and> ltl_sat b w j \<rho> \<and> (\<forall>k. i \<le> k \<and> k < j \<longrightarrow> ltl_sat a w k \<rho>))"

lemma until_loop_upt:
  "until_loop left right [i..<n] \<longleftrightarrow>
     (\<exists>j. i \<le> j \<and> j < n \<and> right j \<and> (\<forall>k. i \<le> k \<and> k < j \<longrightarrow> left k))"
proof (induction "n - i" arbitrary: i)
  case 0
  then show ?case by auto
next
  case (Suc m)
  then have i: "i < n" "[i..<n] = i # [Suc i..<n]" by (auto simp: upt_conv_Cons)
  have ih: "until_loop left right [Suc i..<n] \<longleftrightarrow>
      (\<exists>j. Suc i \<le> j \<and> j < n \<and> right j \<and> (\<forall>k. Suc i \<le> k \<and> k < j \<longrightarrow> left k))"
    using Suc by (intro Suc.hyps) simp
  show ?case
  proof (cases "right i \<or> \<not> left i")
    case True
    with i show ?thesis by (auto dest: le_neq_implies_less intro: exI[of _ i])
  next
    case False
    then have "(\<exists>j. i \<le> j \<and> j < n \<and> right j \<and> (\<forall>k. i \<le> k \<and> k < j \<longrightarrow> left k)) \<longleftrightarrow>
      (\<exists>j. Suc i \<le> j \<and> j < n \<and> right j \<and> (\<forall>k. Suc i \<le> k \<and> k < j \<longrightarrow> left k))"
      by (metis Suc_leD Suc_leI le_neq_implies_less)
    with False i ih show ?thesis by simp
  qed
qed

lemma ltl_eval_sat: "ltl_eval a trace pos resolver = ltl_sat a trace pos resolver"
  by (induction a arbitrary: pos)
     (auto simp: list_all_iff list_ex_iff until_loop_upt not_le less_Suc_eq_le)

text \<open>
  (C20) The evaluator computes LTLf: for every formula, trace, position and resolver, the loops of
  \<^verbatim>\<open>_eval_ltlf\<close> return the truth value of the quantified semantics, in which \<^verbatim>\<open>X\<close> is false and \<^verbatim>\<open>Xw\<close> is true at the last
  position. (The header of the module says that \<^verbatim>\<open>Xw\<close> is false there.)
\<close>

theorem ltl_eval_correct: "ltl_eval a trace pos resolver = ltl_sat a trace pos resolver"
  by (rule ltl_eval_sat)


section \<open>Permanence of verdicts\<close>

text \<open>
  The formulas on which the heuristic is right: no \<^verbatim>\<open>X\<close> and no \<^verbatim>\<open>Xw\<close> outside \<^verbatim>\<open>G\<close>, \<^verbatim>\<open>F\<close> and
  \<^verbatim>\<open>U\<close> (which are never called definite), and only boolean combinations of atoms under \<^verbatim>\<open>F<=k\<close>.
\<close>

primrec state_formula :: "ltl \<Rightarrow> bool" where
  "state_formula (LConst v) = True"
| "state_formula (LAtom p) = True"
| "state_formula (LNot a) = state_formula a"
| "state_formula (LAnd a b) = (state_formula a \<and> state_formula b)"
| "state_formula (LOr a b) = (state_formula a \<and> state_formula b)"
| "state_formula (LImplies a b) = (state_formula a \<and> state_formula b)"
| "state_formula (LNext a) = False"
| "state_formula (LWeakNext a) = False"
| "state_formula (LGlobally a) = False"
| "state_formula (LEventually a) = False"
| "state_formula (LBoundedEventually k a) = False"
| "state_formula (LUntil a b) = False"

primrec definite_fragment :: "ltl \<Rightarrow> bool" where
  "definite_fragment (LConst v) = True"
| "definite_fragment (LAtom p) = True"
| "definite_fragment (LNot a) = definite_fragment a"
| "definite_fragment (LAnd a b) = (definite_fragment a \<and> definite_fragment b)"
| "definite_fragment (LOr a b) = (definite_fragment a \<and> definite_fragment b)"
| "definite_fragment (LImplies a b) = (definite_fragment a \<and> definite_fragment b)"
| "definite_fragment (LNext a) = False"
| "definite_fragment (LWeakNext a) = False"
| "definite_fragment (LGlobally a) = True"
| "definite_fragment (LEventually a) = True"
| "definite_fragment (LBoundedEventually k a) = state_formula a"
| "definite_fragment (LUntil a b) = True"

lemma state_formula_extension:
  "state_formula a \<Longrightarrow> i < length w \<Longrightarrow> ltl_sat a (w @ ext) i \<rho> = ltl_sat a w i \<rho>"
  by (induction a) (auto simp: nth_append)

lemma definite_extension:
  "definite_fragment a \<Longrightarrow> ltl_is_definite a w i \<Longrightarrow> ltl_sat a (w @ ext) i \<rho> = ltl_sat a w i \<rho>"
proof (induction a)
  case (LBoundedEventually b a)
  then have "k \<le> i + b \<Longrightarrow> k < length w" for k by auto
  with LBoundedEventually show ?case by (auto simp: state_formula_extension)
qed (auto simp: nth_append)

lemma rv_verdict_satisfied:
  "is_satisfied (rv_verdict f w \<rho> (Some (int i))) = ltl_sat (ast f) w i \<rho>"
  by (simp add: rv_verdict_def is_satisfied_def Let_def ltl_eval_sat)

lemma rv_verdict_permanent:
  "is_permanent (rv_verdict f w \<rho> (Some (int i))) = ltl_is_definite (ast f) w i"
  by (simp add: rv_verdict_def is_permanent_def Let_def)

interpretation contract_rv: rv_monitor "\<lambda>(f, i). definite_fragment (ast f)"
  "\<lambda>(f, i) w. ltl_sat (ast f) w i \<rho>"
  "\<lambda>(f, i) w b. is_satisfied (rv_verdict f w \<rho> (Some (int i))) = b"
  "\<lambda>(f, i) w. is_permanent (rv_verdict f w \<rho> (Some (int i)))" for \<rho>
  by unfold_locales (auto simp: rv_verdict_satisfied rv_verdict_permanent definite_extension)

text \<open>
  On that fragment a permanent verdict is final: whatever is appended to the trace, the
  verdict at the same position is satisfied exactly when it was.
\<close>

theorem rv_permanent_sound:
  assumes "definite_fragment (ast f)" and "is_permanent (rv_verdict f w \<rho> (Some (int i)))"
  shows "is_satisfied (rv_verdict f (w @ ext) \<rho> (Some (int i))) =
         is_satisfied (rv_verdict f w \<rho> (Some (int i)))"
  using contract_rv.reports_after_final[of "(f, i)" \<rho> w _ ext] assms by simp

definition state_has :: "string \<Rightarrow> string list \<Rightarrow> bool" where
  "state_has name st \<longleftrightarrow> name \<in> set st"

theorem rv_permanent_sound_witness:
  "let f = \<lparr>source = ''F<=1 ok'', ast = LBoundedEventually 1 (LAtom ''ok'')\<rparr>;
       w = [[], [''ok'']]
   in rv_verdict f w state_has (Some (int 0)) = PERMANENTLY_SATISFIED \<and>
      is_satisfied (rv_verdict f (w @ [[], []]) state_has (Some (int 0)))"
  using rv_permanent_sound [of "\<lparr>source = ''F<=1 ok'', ast = LBoundedEventually 1 (LAtom ''ok'')\<rparr>"
      "[[], [''ok'']]" state_has 0 "[[], []]"]
  by (simp add: rv_verdict_def is_permanent_def is_satisfied_def Let_def state_has_def)

text \<open>
  Outside it, permanence is wrong: the verdict of \<^verbatim>\<open>X p\<close> on a one-step trace is
  \<^verbatim>\<open>PERMANENTLY_VIOLATED\<close>, and one more step, in which \<open>p\<close> holds, satisfies the formula at
  the same position.
\<close>

theorem rv_permanent_next_unsound:
  "\<exists>f. LTLFormula_parse ''X p'' = Inr f \<and>
     rv_verdict f [[]] state_has None = PERMANENTLY_VIOLATED \<and>
     rv_verdict f ([[]] @ [[''p'']]) state_has (Some 0) = PERMANENTLY_SATISFIED"
proof -
  have t: "ltl_tokenize ''X p'' = Inr [T_NEXT, T_ATOM ''p'']" by code_simp
  have g: "g_implies [T_NEXT, T_ATOM ''p''] (LNext (LAtom ''p''))"
    by (intro g_implies_or g_or_and g_and_until g_until_unary g_next g_unary_primary g_atom)
  have "LTLFormula_parse ''X p'' = Inr \<lparr>source = ''X p'', ast = LNext (LAtom ''p'')\<rparr>"
    using t g[folded ltl_parser_parse_iff] by (simp add: LTLFormula_parse_def py_strip_def py_char_defs)
  then show ?thesis by (auto simp: rv_verdict_def Let_def state_has_def)
qed

text \<open>
  Conversely a violated \<^verbatim>\<open>G\<close> is never reported as permanent: \<^verbatim>\<open>G(false)\<close>, which no
  extension of a non-empty trace can satisfy, has the verdict \<^verbatim>\<open>CURRENTLY_VIOLATED\<close>.
\<close>

theorem rv_globally_false_not_permanent:
  "\<exists>f. LTLFormula_parse ''G(false)'' = Inr f \<and>
     rv_verdict f (s # w) \<rho> (Some 0) = CURRENTLY_VIOLATED \<and>
     (\<forall>ext. \<not> is_satisfied (rv_verdict f ((s # w) @ ext) \<rho> (Some 0)))"
proof -
  have t: "ltl_tokenize ''G(false)'' = Inr [T_GLOBALLY, T_LPAREN, T_CONST False, T_RPAREN]"
    by code_simp
  have "g_implies [T_CONST False] (LConst False)"
    by (intro g_implies_or g_or_and g_and_until g_until_unary g_unary_primary g_const)
  then have "g_primary (T_LPAREN # [T_CONST False] @ [T_RPAREN]) (LConst False)" by (rule g_paren)
  then have "g_implies [T_GLOBALLY, T_LPAREN, T_CONST False, T_RPAREN] (LGlobally (LConst False))"
    by (intro g_implies_or g_or_and g_and_until g_until_unary g_globally g_unary_primary) simp
  then have "LTLFormula_parse ''G(false)'' =
      Inr \<lparr>source = ''G(false)'', ast = LGlobally (LConst False)\<rparr>"
    using t by (simp add: LTLFormula_parse_def py_strip_def py_char_defs ltl_parser_parse_iff[symmetric])
  then show ?thesis
    by (auto simp: rv_verdict_def is_satisfied_def Let_def list_all_iff intro!: bexI[of _ 0])
qed

text \<open>
  An arrow between two atoms is only an arrow after a space: in \<^verbatim>\<open>p->q\<close> the characters of
  the arrow belong to the atom run, so the formula is one atom named \<^verbatim>\<open>p->q\<close> and not the
  implication.
\<close>

theorem ltl_arrow_needs_space:
  "ltl_tokenize ''p->q'' = Inr [T_ATOM ''p->q''] \<and>
   ltl_tokenize ''p ->q'' = Inr [T_ATOM ''p'', T_IMPLIES, T_ATOM ''q'']"
  by code_simp

end
