(* ===== verification/Py_Value.thy ===== *)
theory Py_Value
  imports Complex_Main Prelude "HOL-Library.Log_Nat"
begin

text \<open>
  Python objects as the governance code reads them: the values found in request metadata and
  execution traces, \<^verbatim>\<open>str()\<close> and \<^verbatim>\<open>float()\<close> on them, and IEEE binary64 numbers.

  A float is an exact rational, an infinity or a NaN; the two zeros are not told apart, since no
  comparison does. \<open>fl_round\<close> is rounding to nearest, ties to even, with gradual underflow and
  overflow to infinity. A container, a float and any other object carry the text that
  \<^verbatim>\<open>str()\<close> returns for them as a field, because the code compares that text; the remaining
  renderings are computed.
\<close>

section \<open>Floats\<close>

datatype pyfloat = Fin rat | PosInf | NegInf | NaN

fun fl_eq :: "pyfloat \<Rightarrow> pyfloat \<Rightarrow> bool" where
  "fl_eq (Fin x) (Fin y) = (x = y)"
| "fl_eq PosInf PosInf = True"
| "fl_eq NegInf NegInf = True"
| "fl_eq _ _ = False"

fun fl_less :: "pyfloat \<Rightarrow> pyfloat \<Rightarrow> bool" where
  "fl_less (Fin x) (Fin y) = (x < y)"
| "fl_less NegInf (Fin y) = True"
| "fl_less NegInf PosInf = True"
| "fl_less (Fin x) PosInf = True"
| "fl_less _ _ = False"

definition fl_le :: "pyfloat \<Rightarrow> pyfloat \<Rightarrow> bool" where
  "fl_le x y \<longleftrightarrow> fl_less x y \<or> fl_eq x y"

definition rat_pow2 :: "int \<Rightarrow> rat" where
  "rat_pow2 e = (if 0 \<le> e then 2 ^ nat e else 1 / 2 ^ nat (- e))"

text \<open>The nearest integer, ties to the even one.\<close>

definition round_half_even :: "rat \<Rightarrow> int" where
  "round_half_even x =
     (let f = \<lfloor>x\<rfloor>; d = x - of_int f
      in if d < 1 / 2 then f else if 1 / 2 < d then f + 1 else if even f then f else f + 1)"

text \<open>
  The exponent of the last place of a positive number with numerator \<open>n\<close> and denominator \<open>d\<close>:
  the number lies between \<open>2 ^ (e + 52)\<close> and \<open>2 ^ (e + 53)\<close>, unless it is subnormal.
\<close>

definition ulp_exp :: "rat \<Rightarrow> int" where
  "ulp_exp x =
     (let (n, d) = quotient_of x;
          e0 = bitlen n - bitlen d - 53;
          e = (if x / rat_pow2 e0 < 2 ^ 53 then e0 else e0 + 1)
      in max e (- 1074))"

definition fl_round :: "rat \<Rightarrow> pyfloat" where
  "fl_round x =
     (if x = 0 then Fin 0
      else let e = ulp_exp \<bar>x\<bar>; m = of_int (round_half_even (\<bar>x\<bar> / rat_pow2 e)) * rat_pow2 e
           in if 2 ^ 1024 \<le> m then (if 0 < x then PosInf else NegInf)
              else Fin (if 0 < x then m else - m))"

definition fl_neg :: "pyfloat \<Rightarrow> pyfloat" where
  "fl_neg x = (case x of Fin q \<Rightarrow> Fin (- q) | PosInf \<Rightarrow> NegInf | NegInf \<Rightarrow> PosInf | NaN \<Rightarrow> NaN)"

text \<open>The arithmetic of binary64: exact, then rounded.\<close>

fun fl_add :: "pyfloat \<Rightarrow> pyfloat \<Rightarrow> pyfloat" where
  "fl_add (Fin x) (Fin y) = fl_round (x + y)"
| "fl_add (Fin x) y = y"
| "fl_add x (Fin y) = x"
| "fl_add PosInf PosInf = PosInf"
| "fl_add NegInf NegInf = NegInf"
| "fl_add _ _ = NaN"

definition fl_sub :: "pyfloat \<Rightarrow> pyfloat \<Rightarrow> pyfloat" where
  "fl_sub x y = fl_add x (fl_neg y)"

definition fl_sign :: "pyfloat \<Rightarrow> int" where
  "fl_sign x = (case x of Fin q \<Rightarrow> (if q < 0 then -1 else if q = 0 then 0 else 1)
     | PosInf \<Rightarrow> 1 | NegInf \<Rightarrow> -1 | NaN \<Rightarrow> 0)"

definition fl_mul :: "pyfloat \<Rightarrow> pyfloat \<Rightarrow> pyfloat" where
  "fl_mul x y = (case (x, y) of
       (Fin a, Fin b) \<Rightarrow> fl_round (a * b)
     | _ \<Rightarrow> if x = NaN \<or> y = NaN \<or> fl_sign x * fl_sign y = 0 then NaN
            else if 0 < fl_sign x * fl_sign y then PosInf else NegInf)"

section \<open>Reading a float from text\<close>

text \<open>
  \<^verbatim>\<open>float(s)\<close> strips whitespace, reads an optional sign, and then either a decimal literal with
  single underscores between digits, or \<^verbatim>\<open>inf\<close>, \<^verbatim>\<open>infinity\<close>, \<^verbatim>\<open>nan\<close> in any case.
  \<open>None\<close> stands for \<^verbatim>\<open>ValueError\<close>.
\<close>

text \<open>A run of digits with single underscores between them, and the rest.\<close>

fun digit_run :: "string \<Rightarrow> string \<times> string" where
  "digit_run [] = ([], [])"
| "digit_run (c # cs) =
     (if py_isdecimal c then
        (case cs of
           u # c2 # cs2 \<Rightarrow>
             (if u = CHR ''_'' \<and> py_isdecimal c2
              then (let (ds, r) = digit_run (c2 # cs2) in (c # ds, r))
              else (let (ds, r) = digit_run cs in (c # ds, r)))
         | _ \<Rightarrow> (let (ds, r) = digit_run cs in (c # ds, r)))
      else ([], c # cs))"

definition read_exponent :: "string \<Rightarrow> int option" where
  "read_exponent s =
     (let (neg, r) = (case s of c # cs \<Rightarrow> if c = CHR ''-'' then (True, cs)
                        else if c = CHR ''+'' then (False, cs) else (False, s)
                      | [] \<Rightarrow> (False, []));
          (ds, rest) = digit_run r
      in if ds = [] \<or> rest \<noteq> [] then None
         else Some (if neg then - int (int_of_digits ds) else int (int_of_digits ds)))"

definition read_decimal :: "string \<Rightarrow> rat option" where
  "read_decimal s =
     (let (ip, r1) = digit_run s;
          (fp, r2) = (case r1 of c # cs \<Rightarrow> if c = CHR ''.'' then digit_run cs else ([], r1)
                      | [] \<Rightarrow> ([], []));
          mant = of_nat (int_of_digits (ip @ fp)) / 10 ^ length fp
      in if ip = [] \<and> fp = [] then None
         else (case r2 of
             [] \<Rightarrow> Some mant
           | c # cs \<Rightarrow>
               if c = CHR ''e'' \<or> c = CHR ''E'' then
                 (case read_exponent cs of
                    None \<Rightarrow> None
                  | Some e \<Rightarrow> Some (if 0 \<le> e then mant * 10 ^ nat e else mant / 10 ^ nat (- e)))
               else None))"

definition read_float :: "string \<Rightarrow> pyfloat option" where
  "read_float s0 =
     (let s = py_strip s0;
          (neg, r) = (case s of c # cs \<Rightarrow> if c = CHR ''-'' then (True, cs)
                        else if c = CHR ''+'' then (False, cs) else (False, s)
                      | [] \<Rightarrow> (False, []));
          body = (if py_lower r \<in> {''inf'', ''infinity''} then Some PosInf
                  else if py_lower r = ''nan'' then Some NaN
                  else map_option fl_round (read_decimal r))
      in if neg then map_option fl_neg body else body)"

section \<open>Objects\<close>

datatype pyval =
    VNone
  | VBool bool
  | VInt int
  | VFloat pyfloat string
  | VStr string
  | VList "pyval list" string
  | VMap "(string \<times> pyval) list" string
  | VOther string

fun nat_digits :: "nat \<Rightarrow> string" where
  "nat_digits n = (if n < 10 then [char_of (48 + n)]
                   else nat_digits (n div 10) @ [char_of (48 + n mod 10)])"

declare nat_digits.simps [simp del]

definition int_str :: "int \<Rightarrow> string" where
  "int_str i = (if i < 0 then CHR ''-'' # nat_digits (nat (- i)) else nat_digits (nat i))"

definition py_str :: "pyval \<Rightarrow> string" where
  "py_str v = (case v of
       VNone \<Rightarrow> ''None''
     | VBool b \<Rightarrow> (if b then ''True'' else ''False'')
     | VInt i \<Rightarrow> int_str i
     | VFloat f s \<Rightarrow> s
     | VStr s \<Rightarrow> s
     | VList xs s \<Rightarrow> s
     | VMap m s \<Rightarrow> s
     | VOther s \<Rightarrow> s)"

text \<open>\<^verbatim>\<open>repr(s)\<close> of a string of Latin-1 characters.\<close>

definition hex_digit :: "nat \<Rightarrow> char" where
  "hex_digit d = char_of (if d < 10 then 48 + d else 87 + d)"

definition repr_char :: "char \<Rightarrow> char \<Rightarrow> string" where
  "repr_char q c =
     (if c = CHR 0x5C \<or> c = q then [CHR 0x5C, c]
      else if code c = 9 then [CHR 0x5C, CHR ''t'']
      else if code c = 10 then [CHR 0x5C, CHR ''n'']
      else if code c = 13 then [CHR 0x5C, CHR ''r'']
      else if code c < 32 \<or> in_range 127 160 c \<or> code c = 173
        then [CHR 0x5C, CHR ''x'', hex_digit (code c div 16), hex_digit (code c mod 16)]
      else [c])"

definition py_repr :: "string \<Rightarrow> string" where
  "py_repr s =
     (let q = (if CHR 0x27 \<in> set s \<and> CHR 0x22 \<notin> set s then CHR 0x22 else CHR 0x27)
      in q # concat (map (repr_char q) s) @ [q])"

datatype float_error = FTypeError | FValueError | FOverflowError

text \<open>\<^verbatim>\<open>float(x)\<close>: an int beyond the range of binary64 raises \<^verbatim>\<open>OverflowError\<close>.\<close>

definition py_float :: "pyval \<Rightarrow> float_error + pyfloat" where
  "py_float v = (case v of
       VBool b \<Rightarrow> Inr (Fin (if b then 1 else 0))
     | VInt i \<Rightarrow> (case fl_round (of_int i) of Fin q \<Rightarrow> Inr (Fin q) | _ \<Rightarrow> Inl FOverflowError)
     | VFloat f s \<Rightarrow> Inr f
     | VStr s \<Rightarrow> (case read_float s of None \<Rightarrow> Inl FValueError | Some f \<Rightarrow> Inr f)
     | _ \<Rightarrow> Inl FTypeError)"

section \<open>Facts\<close>

lemma fl_le_total: "x \<noteq> NaN \<Longrightarrow> y \<noteq> NaN \<Longrightarrow> fl_le x y \<or> fl_less y x"
  by (cases x; cases y) (auto simp: fl_le_def)

lemma fl_less_irrefl: "\<not> fl_less x x"
  by (cases x) auto

lemma nat_digits_value: "int_of_digits (nat_digits n) = n"
proof (induction n rule: nat_digits.induct)
  case (1 n)
  have c: "digit_value (char_of (48 + m)) = m" if "m < 10" for m :: nat
    using that by (simp add: code_def digit_value_def)
  show ?case
  proof (cases "n < 10")
    case True
    then show ?thesis by (subst nat_digits.simps) (simp add: int_of_digits_def c)
  next
    case False
    with 1 show ?thesis by (subst nat_digits.simps) (simp add: int_of_digits_snoc c)
  qed
qed

lemma nat_digits_decimal: "c \<in> set (nat_digits n) \<Longrightarrow> py_isdecimal c"
proof (induction n rule: nat_digits.induct)
  case (1 n)
  have "py_isdecimal (char_of (48 + m))" if "m < 10" for m :: nat
    using that by (simp add: py_char_defs)
  with 1 show ?case by (subst (asm) (1) nat_digits.simps) (auto split: if_splits)
qed

lemma digit_run_digits: "\<forall>c\<in>set ds. py_isdecimal c \<Longrightarrow> digit_run ds = (ds, [])"
proof (induction ds rule: digit_run.induct)
  case (2 c cs)
  then show ?case
    by (auto simp: py_char_defs split: list.splits)
qed simp

lemma rat_pow2_pos: "0 < rat_pow2 e"
  by (simp add: rat_pow2_def)

lemma round_half_even_int [simp]: "round_half_even (of_int i) = i"
  by (simp add: round_half_even_def)

text \<open>Integers below \<open>2 ^ 53\<close> are represented exactly.\<close>

lemma ulp_exp_int: "0 < i \<Longrightarrow> i < 2 ^ 53 \<Longrightarrow> ulp_exp (of_int i) \<le> 0"
proof -
  assume i: "0 < i" "i < 2 ^ 53"
  have "bitlen i \<le> 53" using i by (simp add: bitlen_le_iff_power)
  moreover have "bitlen 1 = 1" by (simp add: bitlen_alt_def)
  moreover have "quotient_of (of_int i) = (i, 1)" by (simp add: quotient_of_int)
  ultimately show ?thesis by (auto simp: ulp_exp_def Let_def)
qed

lemma fl_round_pos_int:
  assumes "0 < i" "i < 2 ^ 53"
  shows "fl_round (of_int i) = Fin (of_int i)"
proof -
  define k where "k = nat (- ulp_exp (of_int i))"
  have p: "rat_pow2 (ulp_exp (of_int i)) = 1 / 2 ^ k"
    using ulp_exp_int[OF assms] by (auto simp: rat_pow2_def k_def)
  have "(of_int i :: rat) / (1 / 2 ^ k) = of_int (i * 2 ^ k)" by simp
  then have r: "round_half_even (of_int i / (1 / 2 ^ k)) = i * 2 ^ k"
    by (simp only: round_half_even_int)
  have "(of_int i :: rat) < of_int (2 ^ 53)" using assms(2) by (simp only: of_int_less_iff)
  then have "\<not> (2 ^ 1024 \<le> (of_int i :: rat))" by (simp add: not_le)
  with assms p r show ?thesis by (simp add: fl_round_def Let_def)
qed

lemma fl_round_minus: "fl_round (- x) = fl_neg (fl_round x)"
  by (simp add: fl_round_def fl_neg_def Let_def)

lemma fl_round_int: "\<bar>i\<bar> < 2 ^ 53 \<Longrightarrow> fl_round (of_int i) = Fin (of_int i)"
proof (cases i "0 :: int" rule: linorder_cases)
  case less
  assume "\<bar>i\<bar> < 2 ^ 53"
  with less have "fl_round (of_int (- i)) = Fin (of_int (- i))"
    by (intro fl_round_pos_int) auto
  then show ?thesis
    using fl_round_minus[of "of_int (- i)"] by (simp add: fl_neg_def)
qed (auto simp: fl_round_pos_int, simp add: fl_round_def)

lemma py_float_int: "\<bar>i\<bar> < 2 ^ 53 \<Longrightarrow> py_float (VInt i) = Inr (Fin (of_int i))"
  by (simp add: py_float_def fl_round_int)

text \<open>The unit interval is closed under rounding.\<close>

lemma round_half_even_le: "x \<le> of_int n \<Longrightarrow> round_half_even x \<le> n"
proof (cases "\<lfloor>x\<rfloor> = n")
  case True
  assume "x \<le> of_int n"
  with True have "x - of_int \<lfloor>x\<rfloor> < 1 / 2" by simp
  with True show ?thesis by (simp add: round_half_even_def Let_def)
next
  case False
  assume "x \<le> of_int n"
  then have "\<lfloor>x\<rfloor> \<le> n" using floor_mono[of x "of_int n"] by simp
  with False show ?thesis by (auto simp: round_half_even_def Let_def)
qed

lemma round_half_even_nonneg: "0 \<le> x \<Longrightarrow> 0 \<le> round_half_even x"
  by (auto simp: round_half_even_def Let_def)

lemma ulp_exp_unit:
  assumes "0 < x" "x \<le> 1"
  shows "ulp_exp x \<le> 0"
proof -
  obtain n d where q: "quotient_of x = (n, d)" by (cases "quotient_of x")
  then have x: "x = of_int n / of_int d" and d: "0 < d"
    by (auto dest: quotient_of_div quotient_of_denom_pos)
  have "n \<le> d" using assms x d by (simp add: divide_le_eq)
  moreover have "0 < n" using assms(1) x d by (simp add: zero_less_divide_iff)
  ultimately have "bitlen n \<le> bitlen d" 
    by (simp add: bitlen_def floorlog_mono nat_mono)
  with q show ?thesis by (auto simp: ulp_exp_def Let_def)
qed

lemma fl_round_unit:
  assumes "0 \<le> x" "x \<le> 1"
  shows "\<exists>q. fl_round x = Fin q \<and> 0 \<le> q \<and> q \<le> 1"
proof (cases "x = 0")
  case False
  define k where "k = nat (- ulp_exp x)"
  define r where "r = round_half_even (x * 2 ^ k)"
  have p: "rat_pow2 (ulp_exp x) = 1 / 2 ^ k"
    using False assms ulp_exp_unit[of x] by (auto simp: rat_pow2_def k_def)
  have "x * 2 ^ k \<le> of_int (2 ^ k)" using assms by simp
  then have "r \<le> 2 ^ k" unfolding r_def by (rule round_half_even_le)
  then have "(of_int r :: rat) \<le> of_int (2 ^ k)" by (simp only: of_int_le_iff)
  then have m: "of_int r * (1 / 2 ^ k :: rat) \<le> 1" by simp
  have "0 \<le> r" unfolding r_def using assms by (intro round_half_even_nonneg) simp
  then have "0 \<le> of_int r * (1 / 2 ^ k :: rat)" by simp
  moreover have "(1 :: rat) < 2 ^ 1024" by simp
  with m have "\<not> (2 ^ 1024 \<le> of_int r * (1 / 2 ^ k :: rat))" by (meson leD le_less_trans)
  ultimately show ?thesis
    using False assms m by (simp add: fl_round_def Let_def p r_def)
qed (simp add: fl_round_def)

end
