(* ===== verification/Ltlf.thy ===== *)
theory Ltlf
  imports Prelude Py_Value Rv_Monitor
begin

text \<open>
  The path-policy LTLf engine, \<^verbatim>\<open>src/tex/governance/path_policy/ltlf.py\<close>: tokenizer,
  recursive-descent parser, evaluator over a finite trace of (state, action, observation) steps,
  and the four-valued RV-LTL classifier built on \<^verbatim>\<open>_can_become_true\<close> and
  \<^verbatim>\<open>_can_become_false\<close>.

  Correspondence. A token is its \<^verbatim>\<open>kind\<close> and \<^verbatim>\<open>value\<close>; the parser's \<^verbatim>\<open>pos\<close> is the list of
  tokens not yet consumed; \<^verbatim>\<open>_Node\<close> is a datatype with one constructor per value of \<^verbatim>\<open>op\<close>.
  The only exception the evaluator lets escape is the \<^verbatim>\<open>OverflowError\<close> of \<^verbatim>\<open>float()\<close> on a huge
  int; all of evaluation and classification is therefore in the error monad.

  Results: the evaluator returns the truth value of the LTLf semantics; a verdict the classifier
  calls permanent holds on every extension of the trace, and so interprets \<open>rv_monitor\<close>; every
  well-formed tree is parsed back from its fully bracketed text.
\<close>

section \<open>Tokens\<close>

datatype ltlf_kind = K_atom | K_op | K_kw

datatype ltlf_token = Token (kind: ltlf_kind) (tok_value: string)

datatype ltlf_error = LtlfParseError | LtlfOverflowError

definition token_keywords :: "string list" where
  "token_keywords = [''G'', ''F'', ''X'', ''U'', ''true'', ''false'']"

definition token_operators :: "string list" where
  "token_operators = [''->'', ''>='', ''<='', ''!='', ''&'', ''|'', ''!'', ''('', '')'', ''='',
                      ''>'', ''<'']"

definition starts_with :: "string \<Rightarrow> string \<Rightarrow> bool" where
  "starts_with s p \<longleftrightarrow> take (length p) s = p"

definition ident_char :: "char \<Rightarrow> bool" where
  "ident_char c \<longleftrightarrow> py_isalnum c \<or> c \<in> set ''_.-@+:/''"

definition ident_token :: "string \<Rightarrow> ltlf_token" where
  "ident_token w = (if w \<in> set token_keywords then Token K_kw w else Token K_atom w)"

lemma find_operator_length: "find (starts_with s) token_operators = Some op \<Longrightarrow> 0 < length op"
  by (auto simp: token_operators_def split: if_splits)

function ltlf_tokenize :: "string \<Rightarrow> ltlf_error + ltlf_token list" where
  "ltlf_tokenize [] = Inr []"
| "ltlf_tokenize (ch # cs) =
     (if py_isspace ch then ltlf_tokenize cs
      else case find (starts_with (ch # cs)) token_operators of
        Some op \<Rightarrow> sbind (ltlf_tokenize (drop (length op) (ch # cs)))
                     (\<lambda>ts. Inr (Token K_op op # ts))
      | None \<Rightarrow>
          if ch = CHR 0x22 \<or> ch = CHR 0x27 then
            (case dropWhile (\<lambda>c. c \<noteq> ch) cs of
               [] \<Rightarrow> Inl LtlfParseError
             | _ # rest \<Rightarrow> sbind (ltlf_tokenize rest)
                 (\<lambda>ts. Inr (Token K_atom (takeWhile (\<lambda>c. c \<noteq> ch) cs) # ts)))
          else if ident_char ch then
            sbind (ltlf_tokenize (dropWhile ident_char cs))
              (\<lambda>ts. Inr (ident_token (ch # takeWhile ident_char cs) # ts))
          else Inl LtlfParseError)"
  by pat_completeness auto
termination
proof (relation "measure length", goal_cases)
  case (3 ch cs c rest)
  have "length (dropWhile (\<lambda>c. c \<noteq> ch) cs) \<le> length cs" by (rule length_dropWhile_le)
  with 3 show ?case by simp
next
  case (4 ch cs)
  have "length (dropWhile ident_char cs) \<le> length cs" by (rule length_dropWhile_le)
  then show ?case by simp
qed (auto dest: find_operator_length)

declare ltlf_tokenize.simps(2) [simp del]

section \<open>Trees and the parser\<close>

datatype ltlf_node =
    FConst string
  | FAtom (lhs: string) (cmp: string) (lit: string)
  | FNot ltlf_node
  | FAnd ltlf_node ltlf_node
  | FOr ltlf_node ltlf_node
  | FImp ltlf_node ltlf_node
  | FX ltlf_node
  | FG ltlf_node
  | FF ltlf_node
  | FU ltlf_node ltlf_node

type_synonym ltlf_result = "ltlf_error + (ltlf_node \<times> ltlf_token list)"

definition next_is :: "string \<Rightarrow> ltlf_token list \<Rightarrow> bool" where
  "next_is v ts = (case ts of [] \<Rightarrow> False | t # _ \<Rightarrow> tok_value t = v)"

definition next_is_kw :: "string \<Rightarrow> ltlf_token list \<Rightarrow> bool" where
  "next_is_kw v ts = (case ts of [] \<Rightarrow> False | t # _ \<Rightarrow> t = Token K_kw v)"

definition ltlf_consume :: "string \<Rightarrow> ltlf_token list \<Rightarrow> ltlf_error + ltlf_token list" where
  "ltlf_consume v ts = (if next_is v ts then Inr (tl ts) else Inl LtlfParseError)"

definition comparators :: "string list" where
  "comparators = [''='', ''!='', ''>='', ''<='', ''>'', ''<'']"

text \<open>The atom branch of \<^verbatim>\<open>parse_primary\<close>, from the token after the left-hand side on.\<close>

definition ltlf_parse_atom :: "string \<Rightarrow> ltlf_token list \<Rightarrow> ltlf_result" where
  "ltlf_parse_atom l ts =
     (case ts of
        Token K_op c # ts' \<Rightarrow>
          if c \<in> set comparators then
            (case ts' of
               Token k v # r \<Rightarrow>
                 if k = K_op then Inl LtlfParseError
                 else if CHR ''.'' \<notin> set l \<and> l \<noteq> ''tool'' then Inl LtlfParseError
                 else Inr (FAtom l c v, r)
             | [] \<Rightarrow> Inl LtlfParseError)
          else if CHR ''.'' \<notin> set l then Inl LtlfParseError
          else Inr (FAtom l ''='' ''true'', ts)
      | _ \<Rightarrow> if CHR ''.'' \<notin> set l then Inl LtlfParseError
             else Inr (FAtom l ''='' ''true'', ts))"

definition unary_node :: "string \<Rightarrow> ltlf_node \<Rightarrow> ltlf_node" where
  "unary_node v a = (if v = ''G'' then FG a else if v = ''F'' then FF a else FX a)"

text \<open>
  The tests on \<open>length r\<close> serve the termination proof only; \<open>ltlf_parser_eqs\<close> shows that they
  are always true.
\<close>

function
      ltlf_parse_implies :: "ltlf_token list \<Rightarrow> ltlf_result"
  and ltlf_parse_or :: "ltlf_token list \<Rightarrow> ltlf_result"
  and ltlf_parse_or_loop :: "ltlf_node \<Rightarrow> ltlf_token list \<Rightarrow> ltlf_result"
  and ltlf_parse_and :: "ltlf_token list \<Rightarrow> ltlf_result"
  and ltlf_parse_and_loop :: "ltlf_node \<Rightarrow> ltlf_token list \<Rightarrow> ltlf_result"
  and ltlf_parse_until :: "ltlf_token list \<Rightarrow> ltlf_result"
  and ltlf_parse_unary :: "ltlf_token list \<Rightarrow> ltlf_result"
  and ltlf_parse_primary :: "ltlf_token list \<Rightarrow> ltlf_result"
where
  "ltlf_parse_implies ts = sbind (ltlf_parse_or ts) (\<lambda>(left, r).
     if next_is ''->'' r then
       (if length (tl r) < length ts
        then sbind (ltlf_parse_implies (tl r)) (\<lambda>(right, r'). Inr (FImp left right, r'))
        else Inl LtlfParseError)
     else Inr (left, r))"
| "ltlf_parse_or ts = sbind (ltlf_parse_and ts) (\<lambda>(node, r).
     if length r < length ts then ltlf_parse_or_loop node r else Inl LtlfParseError)"
| "ltlf_parse_or_loop node ts =
     (if \<not> next_is ''|'' ts then Inr (node, ts)
      else sbind (ltlf_parse_and (tl ts)) (\<lambda>(rhs, r).
        if length r < length ts then ltlf_parse_or_loop (FOr node rhs) r else Inl LtlfParseError))"
| "ltlf_parse_and ts = sbind (ltlf_parse_until ts) (\<lambda>(node, r).
     if length r < length ts then ltlf_parse_and_loop node r else Inl LtlfParseError)"
| "ltlf_parse_and_loop node ts =
     (if \<not> next_is ''&'' ts then Inr (node, ts)
      else sbind (ltlf_parse_until (tl ts)) (\<lambda>(rhs, r).
        if length r < length ts then ltlf_parse_and_loop (FAnd node rhs) r
        else Inl LtlfParseError))"
| "ltlf_parse_until ts = sbind (ltlf_parse_unary ts) (\<lambda>(left, r).
     if next_is_kw ''U'' r then
       (if length (tl r) < length ts
        then sbind (ltlf_parse_until (tl r)) (\<lambda>(right, r'). Inr (FU left right, r'))
        else Inl LtlfParseError)
     else Inr (left, r))"
| "ltlf_parse_unary [] = Inl LtlfParseError"
| "ltlf_parse_unary (t # ts) =
     (if tok_value t = ''!'' then sbind (ltlf_parse_unary ts) (\<lambda>(a, r). Inr (FNot a, r))
      else if kind t = K_kw \<and> tok_value t \<in> {''G'', ''F'', ''X''}
      then sbind (ltlf_parse_unary ts) (\<lambda>(a, r). Inr (unary_node (tok_value t) a, r))
      else ltlf_parse_primary (t # ts))"
| "ltlf_parse_primary [] = Inl LtlfParseError"
| "ltlf_parse_primary (t # ts) =
     (if tok_value t = ''('' then sbind (ltlf_parse_implies ts) (\<lambda>(a, r).
        sbind (ltlf_consume '')'' r) (\<lambda>r'. Inr (a, r')))
      else if kind t = K_kw \<and> tok_value t \<in> {''true'', ''false''}
      then Inr (FConst (tok_value t), ts)
      else if kind t = K_atom then ltlf_parse_atom (tok_value t) ts
      else Inl LtlfParseError)"
  by pat_completeness auto
termination
  by (relation "measures
    [\<lambda>x. case x of Inl (Inl (Inl ts)) \<Rightarrow> length ts | Inl (Inl (Inr ts)) \<Rightarrow> length ts
       | Inl (Inr (Inl (_, ts))) \<Rightarrow> length ts | Inl (Inr (Inr ts)) \<Rightarrow> length ts
       | Inr (Inl (Inl (_, ts))) \<Rightarrow> length ts | Inr (Inl (Inr ts)) \<Rightarrow> length ts
       | Inr (Inr (Inl ts)) \<Rightarrow> length ts | Inr (Inr (Inr ts)) \<Rightarrow> length ts,
     \<lambda>x. case x of Inl (Inl (Inl ts)) \<Rightarrow> 6 | Inl (Inl (Inr ts)) \<Rightarrow> 5
       | Inl (Inr (Inl (_, ts))) \<Rightarrow> 0 | Inl (Inr (Inr ts)) \<Rightarrow> 4
       | Inr (Inl (Inl (_, ts))) \<Rightarrow> 0 | Inr (Inl (Inr ts)) \<Rightarrow> 3
       | Inr (Inr (Inl ts)) \<Rightarrow> 2 | Inr (Inr (Inr ts)) \<Rightarrow> (1 :: nat)]")
     (auto simp: next_is_def neq_Nil_conv split: list.splits)

declare ltlf_parse_implies.simps [simp del] ltlf_parse_or.simps [simp del]
  ltlf_parse_or_loop.simps [simp del] ltlf_parse_and.simps [simp del]
  ltlf_parse_and_loop.simps [simp del] ltlf_parse_until.simps [simp del]

lemmas ltlf_parser_induct =
  ltlf_parse_implies_ltlf_parse_or_ltlf_parse_or_loop_ltlf_parse_and_ltlf_parse_and_loop_ltlf_parse_until_ltlf_parse_unary_ltlf_parse_primary.induct

lemma next_is_Cons: "next_is v ts \<Longrightarrow> \<exists>t r. ts = t # r \<and> tok_value t = v"
  by (auto simp: next_is_def split: list.splits)

lemma next_is_kw_Cons: "next_is_kw v ts \<Longrightarrow> \<exists>r. ts = Token K_kw v # r"
  by (auto simp: next_is_kw_def split: list.splits)

lemma next_tl [dest]:
  "next_is v ts \<Longrightarrow> length (tl ts) < length ts"
  "next_is_kw v ts \<Longrightarrow> length (tl ts) < length ts"
  by (auto dest: next_is_Cons next_is_kw_Cons)

lemma ltlf_consume_Inr: "ltlf_consume v ts = Inr r \<longleftrightarrow> (\<exists>t. ts = t # r \<and> tok_value t = v)"
  by (auto simp: ltlf_consume_def next_is_def split: list.splits)

lemma ltlf_parse_atom_shorter: "ltlf_parse_atom l ts = Inr (a, r) \<Longrightarrow> length r \<le> length ts"
  by (auto simp: ltlf_parse_atom_def split: list.splits ltlf_token.splits ltlf_kind.splits if_splits)

text \<open>Every production consumes a token.\<close>

lemma ltlf_parse_shorter:
  "ltlf_parse_implies ts = Inr (a, r) \<Longrightarrow> length r < length ts"
  "ltlf_parse_or ts = Inr (a, r) \<Longrightarrow> length r < length ts"
  "ltlf_parse_or_loop l ts = Inr (a, r) \<Longrightarrow> length r \<le> length ts"
  "ltlf_parse_and ts = Inr (a, r) \<Longrightarrow> length r < length ts"
  "ltlf_parse_and_loop l ts = Inr (a, r) \<Longrightarrow> length r \<le> length ts"
  "ltlf_parse_until ts = Inr (a, r) \<Longrightarrow> length r < length ts"
  "ltlf_parse_unary ts = Inr (a, r) \<Longrightarrow> length r < length ts"
  "ltlf_parse_primary ts = Inr (a, r) \<Longrightarrow> length r < length ts"
proof (induction ts and ts and l ts and ts and l ts and ts and ts and ts
    arbitrary: a r and a r and a r and a r and a r and a r and a r and a r
    rule: ltlf_parser_induct)
  case (1 ts)
  then show ?case
    by (subst (asm) ltlf_parse_implies.simps) (fastforce simp: sbind_rules split: if_splits)
next
  case (2 ts)
  then show ?case
    by (subst (asm) ltlf_parse_or.simps) (fastforce simp: sbind_rules split: if_splits)
next
  case (3 l ts)
  then show ?case
    by (subst (asm) ltlf_parse_or_loop.simps) (fastforce simp: sbind_rules split: if_splits)
next
  case (4 ts)
  then show ?case
    by (subst (asm) ltlf_parse_and.simps) (fastforce simp: sbind_rules split: if_splits)
next
  case (5 l ts)
  then show ?case
    by (subst (asm) ltlf_parse_and_loop.simps) (fastforce simp: sbind_rules split: if_splits)
next
  case (6 ts)
  then show ?case
    by (subst (asm) ltlf_parse_until.simps) (fastforce simp: sbind_rules split: if_splits)
next
  case (8 t ts)
  then show ?case by (fastforce simp: sbind_rules less_Suc_eq split: if_splits)
next
  case (10 t ts)
  then show ?case
    by (fastforce simp: sbind_rules ltlf_consume_Inr less_Suc_eq_le split: if_splits
        dest: ltlf_parse_atom_shorter)
qed simp_all

lemma ltlf_parser_eqs:
  "ltlf_parse_implies ts = sbind (ltlf_parse_or ts) (\<lambda>(left, r).
     if next_is ''->'' r
     then sbind (ltlf_parse_implies (tl r)) (\<lambda>(right, r'). Inr (FImp left right, r'))
     else Inr (left, r))"
  "ltlf_parse_or ts = sbind (ltlf_parse_and ts) (\<lambda>(node, r). ltlf_parse_or_loop node r)"
  "ltlf_parse_or_loop node ts =
     (if \<not> next_is ''|'' ts then Inr (node, ts)
      else sbind (ltlf_parse_and (tl ts)) (\<lambda>(rhs, r). ltlf_parse_or_loop (FOr node rhs) r))"
  "ltlf_parse_and ts = sbind (ltlf_parse_until ts) (\<lambda>(node, r). ltlf_parse_and_loop node r)"
  "ltlf_parse_and_loop node ts =
     (if \<not> next_is ''&'' ts then Inr (node, ts)
      else sbind (ltlf_parse_until (tl ts)) (\<lambda>(rhs, r). ltlf_parse_and_loop (FAnd node rhs) r))"
  "ltlf_parse_until ts = sbind (ltlf_parse_unary ts) (\<lambda>(left, r).
     if next_is_kw ''U'' r
     then sbind (ltlf_parse_until (tl r)) (\<lambda>(right, r'). Inr (FU left right, r'))
     else Inr (left, r))"
  subgoal
    by (subst ltlf_parse_implies.simps, rule sbind_cong) (force dest: ltlf_parse_shorter(2))+
  subgoal by (subst ltlf_parse_or.simps) (rule sbind_guard, erule ltlf_parse_shorter)
  subgoal
    by (subst ltlf_parse_or_loop.simps)
       (auto intro!: sbind_guard dest!: ltlf_parse_shorter(4) next_tl(1))
  subgoal by (subst ltlf_parse_and.simps) (rule sbind_guard, erule ltlf_parse_shorter)
  subgoal
    by (subst ltlf_parse_and_loop.simps)
       (auto intro!: sbind_guard dest!: ltlf_parse_shorter(6) next_tl(1))
  subgoal
    by (subst ltlf_parse_until.simps, rule sbind_cong) (force dest: ltlf_parse_shorter(7))+
  done

text \<open>The only exception of tokenizer and parser is \<^verbatim>\<open>LtlfParseError\<close>.\<close>

lemma ltlf_tokenize_error: "ltlf_tokenize s = Inl e \<Longrightarrow> e = LtlfParseError"
  by (induction s rule: ltlf_tokenize.induct)
     (auto simp: ltlf_tokenize.simps(2) sbind_rules split: if_splits option.splits list.splits)

lemma ltlf_parse_atom_error: "ltlf_parse_atom l ts = Inl e \<Longrightarrow> e = LtlfParseError"
  by (auto simp: ltlf_parse_atom_def split: list.splits ltlf_token.splits ltlf_kind.splits if_splits)

lemma ltlf_parser_error:
  "ltlf_parse_implies ts = Inl e \<Longrightarrow> e = LtlfParseError"
  "ltlf_parse_or ts = Inl e \<Longrightarrow> e = LtlfParseError"
  "ltlf_parse_or_loop l ts = Inl e \<Longrightarrow> e = LtlfParseError"
  "ltlf_parse_and ts = Inl e \<Longrightarrow> e = LtlfParseError"
  "ltlf_parse_and_loop l ts = Inl e \<Longrightarrow> e = LtlfParseError"
  "ltlf_parse_until ts = Inl e \<Longrightarrow> e = LtlfParseError"
  "ltlf_parse_unary ts = Inl e \<Longrightarrow> e = LtlfParseError"
  "ltlf_parse_primary ts = Inl e \<Longrightarrow> e = LtlfParseError"
proof (induction ts and ts and l ts and ts and l ts and ts and ts and ts rule: ltlf_parser_induct)
  case (1 ts)
  then show ?case
    by (subst (asm) ltlf_parse_implies.simps) (auto simp: sbind_rules split: if_splits)
next
  case (2 ts)
  then show ?case by (subst (asm) ltlf_parse_or.simps) (auto simp: sbind_rules split: if_splits)
next
  case (3 l ts)
  then show ?case
    by (subst (asm) ltlf_parse_or_loop.simps) (auto simp: sbind_rules split: if_splits)
next
  case (4 ts)
  then show ?case by (subst (asm) ltlf_parse_and.simps) (auto simp: sbind_rules split: if_splits)
next
  case (5 l ts)
  then show ?case
    by (subst (asm) ltlf_parse_and_loop.simps) (auto simp: sbind_rules split: if_splits)
next
  case (6 ts)
  then show ?case by (subst (asm) ltlf_parse_until.simps) (auto simp: sbind_rules split: if_splits)
qed (auto simp: sbind_rules ltlf_consume_def split: if_splits dest: ltlf_parse_atom_error)

text \<open>\<^verbatim>\<open>_parse\<close>, exported as \<^verbatim>\<open>compile_formula\<close>: a blank formula is the constant true.\<close>

definition ltlf_parse :: "string \<Rightarrow> ltlf_error + ltlf_node" where
  "ltlf_parse formula =
     (if py_strip formula = [] then Inr (FConst ''true'')
      else sbind (ltlf_tokenize formula) (\<lambda>ts.
        sbind (ltlf_parse_implies ts) (\<lambda>(root, r).
          if r = [] then Inr root else Inl LtlfParseError)))"

lemma ltlf_parse_error: "ltlf_parse f \<noteq> Inl LtlfOverflowError"
  by (auto simp: ltlf_parse_def sbind_rules split: if_splits
      dest: ltlf_tokenize_error ltlf_parser_error)

definition compile_formula :: "string \<Rightarrow> ltlf_error + ltlf_node" where
  "compile_formula formula = ltlf_parse formula"

section \<open>Evaluation\<close>

type_synonym pybag = "(string \<times> pyval) list"
type_synonym path_step = "pybag \<times> pybag \<times> pybag"

fun first_key :: "string list \<Rightarrow> pybag \<Rightarrow> pyval" where
  "first_key [] m = VNone"
| "first_key (k # ks) m = (case map_of m k of Some v \<Rightarrow> v | None \<Rightarrow> first_key ks m)"

text \<open>The loop \<^verbatim>\<open>for part in key.split('.')\<close>.\<close>

fun resolve_path :: "pyval \<Rightarrow> string list \<Rightarrow> pyval" where
  "resolve_path cur [] = cur"
| "resolve_path cur (part # parts) =
     (case cur of
        VMap m s \<Rightarrow> (case map_of m part of Some v \<Rightarrow> resolve_path v parts | None \<Rightarrow> VNone)
      | _ \<Rightarrow> VNone)"

definition atom_value :: "path_step \<Rightarrow> string \<Rightarrow> pyval" where
  "atom_value step l =
     (case step of (state, action, observation) \<Rightarrow>
        if l = ''tool'' then first_key [''tool'', ''type'', ''action'', ''name''] action
        else if CHR ''.'' \<notin> set l then VNone
        else let source = takeWhile (\<lambda>c. c \<noteq> CHR ''.'') l;
                 key = tl (dropWhile (\<lambda>c. c \<noteq> CHR ''.'') l);
                 go = (\<lambda>bag. resolve_path (VMap bag []) (py_split CHR ''.'' key))
             in if source = ''state'' then go state
                else if source = ''action'' then go action
                else if source = ''obs'' then go observation
                else VNone)"

definition float_eq_literal :: "pyval \<Rightarrow> string \<Rightarrow> ltlf_error + bool" where
  "float_eq_literal left right_literal =
     (case py_float left of
        Inl FOverflowError \<Rightarrow> Inl LtlfOverflowError
      | Inl e \<Rightarrow> Inr False
      | Inr l \<Rightarrow> (case read_float right_literal of
            None \<Rightarrow> Inr False
          | Some r \<Rightarrow> Inr (fl_eq l r)))"

definition equal_literal :: "pyval \<Rightarrow> string \<Rightarrow> ltlf_error + bool" where
  "equal_literal left right_literal =
     (case left of
        VBool b \<Rightarrow> Inr ((if b then ''true'' else ''false'') = py_lower right_literal)
      | VInt i \<Rightarrow> float_eq_literal left right_literal
      | VFloat f s \<Rightarrow> float_eq_literal left right_literal
      | VNone \<Rightarrow> Inr (py_lower right_literal \<in> {''none'', ''null''})
      | _ \<Rightarrow> Inr (py_str left = right_literal))"

definition compare_floats :: "string \<Rightarrow> pyfloat \<Rightarrow> pyfloat \<Rightarrow> bool" where
  "compare_floats c l r =
     (if c = ''>='' then fl_le r l else if c = ''<='' then fl_le l r
      else if c = ''>'' then fl_less r l else if c = ''<'' then fl_less l r else False)"

definition coerce_compare :: "pyval \<Rightarrow> string \<Rightarrow> string \<Rightarrow> ltlf_error + bool" where
  "coerce_compare left comparator right_literal =
     (if comparator = ''='' then equal_literal left right_literal
      else if comparator = ''!='' then
        sbind (equal_literal left right_literal) (\<lambda>b. Inr (\<not> b))
      else case left of
        VNone \<Rightarrow> Inr False
      | _ \<Rightarrow> (case py_float left of
            Inl FOverflowError \<Rightarrow> Inl LtlfOverflowError
          | Inl e \<Rightarrow> Inr False
          | Inr l \<Rightarrow> (case read_float right_literal of
                None \<Rightarrow> Inr False
              | Some r \<Rightarrow> Inr (compare_floats comparator l r))))"

definition eval_atom :: "path_step \<Rightarrow> string \<Rightarrow> string \<Rightarrow> string \<Rightarrow> ltlf_error + bool" where
  "eval_atom step l c v = coerce_compare (atom_value step l) c v"

text \<open>\<^verbatim>\<open>_eval_at\<close>; the loops over positions are \<open>err_all\<close> and \<open>err_ex\<close>.\<close>

primrec ltlf_eval :: "ltlf_node \<Rightarrow> path_step list \<Rightarrow> nat \<Rightarrow> ltlf_error + bool" where
  "ltlf_eval (FConst v) tr i = Inr (v = ''true'')"
| "ltlf_eval (FAtom l c v) tr i =
     (if length tr \<le> i then Inr False else eval_atom (tr ! i) l c v)"
| "ltlf_eval (FNot a) tr i = sbind (ltlf_eval a tr i) (\<lambda>b. Inr (\<not> b))"
| "ltlf_eval (FAnd a b) tr i =
     sbind (ltlf_eval a tr i) (\<lambda>x. if x then ltlf_eval b tr i else Inr False)"
| "ltlf_eval (FOr a b) tr i =
     sbind (ltlf_eval a tr i) (\<lambda>x. if x then Inr True else ltlf_eval b tr i)"
| "ltlf_eval (FImp a b) tr i =
     sbind (ltlf_eval a tr i) (\<lambda>x. if \<not> x then Inr True else ltlf_eval b tr i)"
| "ltlf_eval (FX a) tr i = (if length tr \<le> i + 1 then Inr False else ltlf_eval a tr (i + 1))"
| "ltlf_eval (FG a) tr i = err_all (ltlf_eval a tr) [i..<length tr]"
| "ltlf_eval (FF a) tr i = err_ex (ltlf_eval a tr) [i..<length tr]"
| "ltlf_eval (FU a b) tr i =
     err_ex (\<lambda>k. sbind (ltlf_eval b tr k)
                   (\<lambda>x. if x then err_all (ltlf_eval a tr) [i..<k] else Inr False))
       [i..<length tr]"

definition evaluate_compiled :: "ltlf_node \<Rightarrow> path_step list \<Rightarrow> ltlf_error + bool" where
  "evaluate_compiled ast tr = ltlf_eval ast tr 0"

definition evaluate :: "string \<Rightarrow> path_step list \<Rightarrow> ltlf_error + bool" where
  "evaluate formula tr = sbind (ltlf_parse formula) (\<lambda>ast. ltlf_eval ast tr 0)"

section \<open>The four-valued classifier\<close>

datatype RV4Verdict = PERMANENTLY_SATISFIED | CURRENTLY_SATISFIED | CURRENTLY_VIOLATED
  | PERMANENTLY_VIOLATED

definition rv4_is_satisfied :: "RV4Verdict \<Rightarrow> bool" where
  "rv4_is_satisfied v \<longleftrightarrow> v \<in> {PERMANENTLY_SATISFIED, CURRENTLY_SATISFIED}"

definition rv4_is_permanent :: "RV4Verdict \<Rightarrow> bool" where
  "rv4_is_permanent v \<longleftrightarrow> v \<in> {PERMANENTLY_SATISFIED, PERMANENTLY_VIOLATED}"

text \<open>
  The loop of the \<^verbatim>\<open>U\<close> branch of \<^verbatim>\<open>_can_become_true\<close>: stop with true where the right operand
  can hold, with false where the left one cannot, and go on to \<open>final\<close> at the end.
\<close>

fun until_scan ::
    "(nat \<Rightarrow> 'e + bool) \<Rightarrow> (nat \<Rightarrow> 'e + bool) \<Rightarrow> nat list \<Rightarrow> 'e + bool \<Rightarrow> 'e + bool" where
  "until_scan right left [] final = final"
| "until_scan right left (k # ks) final =
     sbind (right k) (\<lambda>x. if x then Inr True
       else sbind (left k) (\<lambda>y. if \<not> y then Inr False else until_scan right left ks final))"

lemma until_scan_cong [fundef_cong]:
  "ks = ks' \<Longrightarrow> (\<And>k. k \<in> set ks' \<Longrightarrow> p k = p' k) \<Longrightarrow> (\<And>k. k \<in> set ks' \<Longrightarrow> q k = q' k) \<Longrightarrow>
     f = f' \<Longrightarrow> until_scan p q ks f = until_scan p' q' ks' f'"
proof (induction ks arbitrary: ks')
  case (Cons k ks)
  have "until_scan p q ks f = until_scan p' q' ks f'"
    by (rule Cons.IH) (use Cons.prems in auto)
  with Cons.prems show ?case by (auto cong: if_cong)
qed auto

fun can_become_true :: "ltlf_node \<Rightarrow> path_step list \<Rightarrow> nat \<Rightarrow> ltlf_error + bool"
  and can_become_false :: "ltlf_node \<Rightarrow> path_step list \<Rightarrow> nat \<Rightarrow> ltlf_error + bool"
where
  "can_become_true (FConst v) tr i = Inr (v = ''true'')"
| "can_become_true (FAtom l c v) tr i =
     (if i < length tr then ltlf_eval (FAtom l c v) tr i else Inr True)"
| "can_become_true (FNot a) tr i = can_become_false a tr i"
| "can_become_true (FAnd a b) tr i =
     sbind (can_become_true a tr i) (\<lambda>x. if x then can_become_true b tr i else Inr False)"
| "can_become_true (FOr a b) tr i =
     sbind (can_become_true a tr i) (\<lambda>x. if x then Inr True else can_become_true b tr i)"
| "can_become_true (FImp a b) tr i =
     sbind (can_become_false a tr i) (\<lambda>x. if x then Inr True else can_become_true b tr i)"
| "can_become_true (FX a) tr i = can_become_true a tr (i + 1)"
| "can_become_true (FG a) tr i = err_all (\<lambda>k. can_become_true a tr k) [i..<length tr]"
| "can_become_true (FF a) tr i =
     sbind (err_ex (\<lambda>k. can_become_true a tr k) [i..<length tr])
       (\<lambda>x. if x then Inr True else can_become_true a tr (max i (length tr)))"
| "can_become_true (FU a b) tr i =
     until_scan (\<lambda>k. can_become_true b tr k) (\<lambda>k. can_become_true a tr k) [i..<length tr]
       (can_become_true b tr (max i (length tr)))"
| "can_become_false (FConst v) tr i = Inr (v \<noteq> ''true'')"
| "can_become_false (FAtom l c v) tr i =
     (if i < length tr then sbind (ltlf_eval (FAtom l c v) tr i) (\<lambda>b. Inr (\<not> b)) else Inr True)"
| "can_become_false (FNot a) tr i = can_become_true a tr i"
| "can_become_false (FAnd a b) tr i =
     sbind (can_become_false a tr i) (\<lambda>x. if x then Inr True else can_become_false b tr i)"
| "can_become_false (FOr a b) tr i =
     sbind (can_become_false a tr i) (\<lambda>x. if x then can_become_false b tr i else Inr False)"
| "can_become_false (FImp a b) tr i =
     sbind (can_become_true a tr i) (\<lambda>x. if x then can_become_false b tr i else Inr False)"
| "can_become_false (FX a) tr i =
     (if length tr \<le> i + 1 then Inr True else can_become_false a tr (i + 1))"
| "can_become_false (FG a) tr i =
     sbind (err_ex (\<lambda>k. can_become_false a tr k) [i..<length tr])
       (\<lambda>x. if x then Inr True else can_become_false a tr (max i (length tr)))"
| "can_become_false (FF a) tr i = err_all (\<lambda>k. can_become_false a tr k) [i..<length tr + 1]"
| "can_become_false (FU a b) tr i = Inr True"

definition evaluate_rv4_compiled :: "ltlf_node \<Rightarrow> path_step list \<Rightarrow> ltlf_error + RV4Verdict" where
  "evaluate_rv4_compiled ast tr =
     sbind (ltlf_eval ast tr 0) (\<lambda>holds.
       if holds then sbind (can_become_false ast tr 0) (\<lambda>b.
         Inr (if b then CURRENTLY_SATISFIED else PERMANENTLY_SATISFIED))
       else sbind (can_become_true ast tr 0) (\<lambda>b.
         Inr (if b then CURRENTLY_VIOLATED else PERMANENTLY_VIOLATED)))"

definition evaluate_rv4 :: "string \<Rightarrow> path_step list \<Rightarrow> ltlf_error + RV4Verdict" where
  "evaluate_rv4 formula tr = sbind (ltlf_parse formula) (\<lambda>ast. evaluate_rv4_compiled ast tr)"

section \<open>Semantics\<close>

text \<open>
  LTLf with quantifiers over positions. An atom is true where its comparison returns true; a
  comparison that raises is not true.
\<close>

primrec ltlf_sat :: "ltlf_node \<Rightarrow> path_step list \<Rightarrow> nat \<Rightarrow> bool" where
  "ltlf_sat (FConst v) w i \<longleftrightarrow> v = ''true''"
| "ltlf_sat (FAtom l c v) w i \<longleftrightarrow> i < length w \<and> eval_atom (w ! i) l c v = Inr True"
| "ltlf_sat (FNot a) w i \<longleftrightarrow> \<not> ltlf_sat a w i"
| "ltlf_sat (FAnd a b) w i \<longleftrightarrow> ltlf_sat a w i \<and> ltlf_sat b w i"
| "ltlf_sat (FOr a b) w i \<longleftrightarrow> ltlf_sat a w i \<or> ltlf_sat b w i"
| "ltlf_sat (FImp a b) w i \<longleftrightarrow> (ltlf_sat a w i \<longrightarrow> ltlf_sat b w i)"
| "ltlf_sat (FX a) w i \<longleftrightarrow> i + 1 < length w \<and> ltlf_sat a w (i + 1)"
| "ltlf_sat (FG a) w i \<longleftrightarrow> (\<forall>k. i \<le> k \<and> k < length w \<longrightarrow> ltlf_sat a w k)"
| "ltlf_sat (FF a) w i \<longleftrightarrow> (\<exists>k. i \<le> k \<and> k < length w \<and> ltlf_sat a w k)"
| "ltlf_sat (FU a b) w i \<longleftrightarrow>
     (\<exists>k. i \<le> k \<and> k < length w \<and> ltlf_sat b w k \<and> (\<forall>j. i \<le> j \<and> j < k \<longrightarrow> ltlf_sat a w j))"

lemma ltlf_eval_sat: "ltlf_eval a w i = Inr b \<Longrightarrow> ltlf_sat a w i = b"
proof (induction a arbitrary: i b)
  case (FG a)
  then have "b \<longleftrightarrow> (\<forall>k\<in>set [i..<length w]. ltlf_sat a w k)"
    by (intro err_all_Inr[where p = "ltlf_eval a w"]) auto
  then show ?case by auto
next
  case (FF a)
  then have "b \<longleftrightarrow> (\<exists>k\<in>set [i..<length w]. ltlf_sat a w k)"
    by (intro err_ex_Inr[where p = "ltlf_eval a w"]) auto
  then show ?case by auto
next
  case (FU a1 a2)
  have inner: "c \<longleftrightarrow> (\<forall>j\<in>set [i..<k]. ltlf_sat a1 w j)"
    if "err_all (ltlf_eval a1 w) [i..<k] = Inr c" for k c
    using that by (rule err_all_Inr) (rule FU.IH(1))
  have "b \<longleftrightarrow> (\<exists>k\<in>set [i..<length w].
          ltlf_sat a2 w k \<and> (\<forall>j\<in>set [i..<k]. ltlf_sat a1 w j))"
    using FU.prems[simplified]
    by (rule err_ex_Inr) (auto simp: sbind_rules dest!: FU.IH(2) inner split: if_splits)
  then show ?case by (auto simp: atLeastLessThan_iff)
qed (auto simp: sbind_rules split: if_splits)

text \<open>Where no atom comparison raises, evaluation returns.\<close>

lemma ltlf_eval_total:
  assumes "\<And>s l c v. s \<in> set w \<Longrightarrow> \<exists>b. eval_atom s l c v = Inr b"
  shows "ltlf_eval a w i = Inr (ltlf_sat a w i)"
proof (induction a arbitrary: i)
  case (FAtom l c v)
  then show ?case using assms[of "w ! i" l c v] by (cases "length w \<le> i") (auto simp: not_le)
next
  case (FG a)
  have "err_all (ltlf_eval a w) ks = Inr (\<forall>k\<in>set ks. ltlf_sat a w k)" for ks
    by (rule err_all_total) (rule FG)
  then show ?case by auto
next
  case (FF a)
  have "err_ex (ltlf_eval a w) ks = Inr (\<exists>k\<in>set ks. ltlf_sat a w k)" for ks
    by (rule err_ex_total) (rule FF)
  then show ?case by auto
next
  case (FU a1 a2)
  have a: "err_all (ltlf_eval a1 w) ks = Inr (\<forall>k\<in>set ks. ltlf_sat a1 w k)" for ks
    by (rule err_all_total) (rule FU.IH(1))
  have "ltlf_eval (FU a1 a2) w i = Inr (\<exists>k\<in>set [i..<length w].
      ltlf_sat a2 w k \<and> (\<forall>j\<in>set [i..<k]. ltlf_sat a1 w j))"
    unfolding ltlf_eval.simps by (rule err_ex_total) (simp add: a FU.IH(2))
  then show ?case by auto
qed auto

section \<open>Soundness of the permanence classifier\<close>

lemma until_scan_False:
  "until_scan p q ks f = Inr False \<Longrightarrow>
     ((\<forall>k\<in>set ks. p k = Inr False) \<and> f = Inr False) \<or>
     (\<exists>xs k ys. ks = xs @ k # ys \<and> (\<forall>j\<in>set (xs @ [k]). p j = Inr False) \<and> q k = Inr False)"
proof (induction ks)
  case (Cons k ks)
  then consider "p k = Inr False" "q k = Inr False"
    | "p k = Inr False" "until_scan p q ks f = Inr False"
    by (auto simp: sbind_rules split: if_splits)
  then show ?case
  proof cases
    case 1
    then show ?thesis by (intro disjI2 exI[of _ "[]"]) auto
  next
    case 2
    from Cons.IH[OF 2(2)] show ?thesis
    proof
      assume "\<exists>xs k' ys. ks = xs @ k' # ys \<and> (\<forall>j\<in>set (xs @ [k']). p j = Inr False) \<and> q k' = Inr False"
      then obtain xs k' ys where "ks = xs @ k' # ys" "\<forall>j\<in>set (xs @ [k']). p j = Inr False"
        "q k' = Inr False" by blast
      with 2 show ?thesis by (intro disjI2 exI[of _ "k # xs"]) auto
    qed (use 2 in auto)
  qed
qed simp

text \<open>
  What a negative answer of the classifier at position \<open>i\<close> means for the extended trace \<open>w\<close>: at an
  observed position the truth value is fixed; at a position beyond the prefix of length \<open>n\<close> the
  answer did not depend on any step, and the truth value is the same at every position of \<open>w\<close>.
\<close>

definition settled :: "bool \<Rightarrow> ltlf_node \<Rightarrow> nat \<Rightarrow> path_step list \<Rightarrow> nat \<Rightarrow> bool" where
  "settled b a n w i \<longleftrightarrow>
     (if i < n then ltlf_sat a w i = b else \<forall>k<length w. ltlf_sat a w k = b)"

lemma settled_observed: "settled b a n w i \<Longrightarrow> i < n \<Longrightarrow> ltlf_sat a w i = b"
  by (simp add: settled_def)

lemma settled_beyond: "settled b a n w i \<Longrightarrow> n \<le> i \<Longrightarrow> k < length w \<Longrightarrow> ltlf_sat a w k = b"
  by (simp add: settled_def)

lemma settled_all:
  assumes "\<forall>k\<in>set [i..<n]. settled b a n w k" and "settled b a n w (max i n)"
    and "i < n \<longrightarrow> i \<le> k" and "k < length w"
  shows "ltlf_sat a w k = b"
  using assms by (cases "k < n"; cases "i < n") (auto simp: settled_def max_def)

lemma can_become_settled:
  fixes tr ext
  defines "n \<equiv> length tr" and "w \<equiv> tr @ ext"
  shows "(can_become_true a tr i = Inr False \<longrightarrow> settled False a n w i) \<and>
         (can_become_false a tr i = Inr False \<longrightarrow> settled True a n w i)"
proof (induction a arbitrary: i)
  case (FAtom l c v)
  have "settled b (FAtom l c v) n w i" if "i < n" "eval_atom (tr ! i) l c v = Inr b" for b
    using that by (auto simp: settled_def n_def w_def nth_append)
  then show ?case by (auto simp: n_def sbind_rules)
next
  case (FX a)
  note ih = FX.IH[of "i + 1"]
  have "settled False (FX a) n w i" if "settled False a n w (i + 1)"
    using that by (cases "i + 1 < n") (auto simp: settled_def n_def w_def)
  moreover have "settled True (FX a) n w i" if "i + 1 < n" "settled True a n w (i + 1)"
    using that by (auto simp: settled_def n_def w_def)
  ultimately show ?case using ih by (auto simp: n_def)
next
  case (FG a)
  have "settled False (FG a) n w i" if "can_become_true (FG a) tr i = Inr False"
  proof -
    from that obtain k where "i \<le> k" "k < n" "can_become_true a tr k = Inr False"
      by (auto simp: n_def dest!: err_all_False)
    with FG.IH[of k] show ?thesis by (auto simp: settled_def n_def w_def)
  qed
  moreover have "settled True (FG a) n w i" if "can_become_false (FG a) tr i = Inr False"
  proof -
    from that have "\<forall>k\<in>set [i..<n]. settled True a n w k" "settled True a n w (max i n)"
      using FG.IH by (auto simp: n_def sbind_rules dest!: err_ex_False split: if_splits)
    then show ?thesis by (auto simp: settled_def intro: settled_all)
  qed
  ultimately show ?case by blast
next
  case (FF a)
  have "settled False (FF a) n w i" if "can_become_true (FF a) tr i = Inr False"
  proof -
    from that have "\<forall>k\<in>set [i..<n]. settled False a n w k" "settled False a n w (max i n)"
      using FF.IH by (auto simp: n_def sbind_rules dest!: err_ex_False split: if_splits)
    from settled_all[OF this] show ?thesis by (auto simp: settled_def)
  qed
  moreover have "settled True (FF a) n w i" if "can_become_false (FF a) tr i = Inr False"
  proof -
    from that obtain k where k: "i \<le> k" "k \<le> n" "can_become_false a tr k = Inr False"
      by (auto simp: n_def simp del: upt_Suc dest!: err_all_False)
    with FF.IH[of k] have "settled True a n w k" by blast
    with k show ?thesis
      by (cases "k < n") (auto simp: settled_def n_def w_def)
  qed
  ultimately show ?case by blast
next
  case (FU a b)
  have "settled False (FU a b) n w i" if "can_become_true (FU a b) tr i = Inr False"
  proof -
    from that have "until_scan (\<lambda>k. can_become_true b tr k) (\<lambda>k. can_become_true a tr k)
        [i..<n] (can_become_true b tr (max i n)) = Inr False" by (simp add: n_def)
    from until_scan_False[OF this] show ?thesis
    proof
      assume "(\<forall>k\<in>set [i..<n]. can_become_true b tr k = Inr False) \<and>
        can_become_true b tr (max i n) = Inr False"
      then have "\<forall>k\<in>set [i..<n]. settled False b n w k" "settled False b n w (max i n)"
        using FU.IH(2) by auto
      from settled_all[OF this] show ?thesis by (auto simp: settled_def)
    next
      assume "\<exists>xs k ys. [i..<n] = xs @ k # ys \<and>
        (\<forall>j\<in>set (xs @ [k]). can_become_true b tr j = Inr False) \<and> can_become_true a tr k = Inr False"
      then obtain xs k ys where split: "[i..<n] = xs @ k # ys"
        and b: "\<forall>j\<in>set (xs @ [k]). can_become_true b tr j = Inr False"
        and a: "can_become_true a tr k = Inr False" by blast
      then have k: "i \<le> k" "k < n" and xs: "xs = [i..<k]" by (auto dest: upt_split)
      have "\<not> ltlf_sat b w j" if "i \<le> j" "j \<le> k" for j
        using b that k FU.IH(2)[of j] xs by (auto simp: settled_def le_less)
      moreover have "\<not> ltlf_sat a w k" using a k FU.IH(1)[of k] by (auto simp: settled_def)
      ultimately show ?thesis using k by (auto simp: settled_def) (metis not_le)
    qed
  qed
  then show ?case by simp
qed (auto simp: settled_def sbind_rules split: if_splits)

lemma evaluate_rv4_compiled_satisfied:
  "evaluate_rv4_compiled a tr = Inr v \<Longrightarrow> ltlf_sat a tr 0 = rv4_is_satisfied v"
  by (auto simp: evaluate_rv4_compiled_def rv4_is_satisfied_def sbind_rules
      split: if_splits dest!: ltlf_eval_sat)

lemma evaluate_rv4_compiled_permanent:
  assumes "evaluate_rv4_compiled a tr = Inr v" and "rv4_is_permanent v"
  shows "ltlf_sat a (tr @ ext) 0 = ltlf_sat a tr 0"
proof (cases "tr @ ext = tr")
  case False
  let ?b = "ltlf_sat a tr 0"
  have "settled ?b a (length tr) (tr @ ext) 0"
    using assms can_become_settled[of a tr 0 ext]
    by (auto simp: evaluate_rv4_compiled_def rv4_is_permanent_def sbind_rules
        split: if_splits dest!: ltlf_eval_sat)
  with False show ?thesis
    by (cases tr) (auto simp: settled_def)
qed simp

interpretation ltlf_rv: rv_monitor "\<lambda>a. True" "\<lambda>a w. ltlf_sat a w 0"
  "\<lambda>a w b. \<exists>v. evaluate_rv4_compiled a w = Inr v \<and> rv4_is_satisfied v = b"
  "\<lambda>a w. \<exists>v. evaluate_rv4_compiled a w = Inr v \<and> rv4_is_permanent v"
  by unfold_locales
     (auto dest: evaluate_rv4_compiled_satisfied evaluate_rv4_compiled_permanent)

lemma evaluate_sat: "evaluate f w = Inr b \<longleftrightarrow> (\<exists>a. ltlf_parse f = Inr a \<and> ltlf_eval a w 0 = Inr b)"
  by (auto simp: evaluate_def sbind_rules)

text \<open>Values on which \<^verbatim>\<open>float()\<close> does not overflow, along every path a formula can follow.\<close>

fun float_safe :: "pyval \<Rightarrow> bool" where
  "float_safe (VInt i) = (py_float (VInt i) \<noteq> Inl FOverflowError)"
| "float_safe (VMap m s) = (\<forall>kv\<in>set m. float_safe (snd kv))"
| "float_safe v = True"

definition step_safe :: "path_step \<Rightarrow> bool" where
  "step_safe step = (case step of (st, ac, ob) \<Rightarrow> \<forall>kv\<in>set st \<union> set ac \<union> set ob. float_safe (snd kv))"

lemma first_key_safe: "\<forall>kv\<in>set m. float_safe (snd kv) \<Longrightarrow> float_safe (first_key ks m)"
  by (induction ks) (force split: option.splits dest: map_of_SomeD)+

lemma resolve_path_safe: "float_safe v \<Longrightarrow> float_safe (resolve_path v ps)"
proof (induction v ps rule: resolve_path.induct)
  case (2 cur part parts)
  then show ?case by (force split: pyval.splits option.splits dest: map_of_SomeD)
qed simp

lemma atom_value_safe: "step_safe step \<Longrightarrow> float_safe (atom_value step l)"
  by (auto simp: step_safe_def atom_value_def Let_def simp del: first_key.simps
      split: prod.splits intro!: first_key_safe resolve_path_safe)

lemma py_float_no_overflow: "float_safe v \<Longrightarrow> py_float v \<noteq> Inl FOverflowError"
  by (cases v) (auto simp: py_float_def split: option.splits)

lemma float_eq_literal_total: "float_safe v \<Longrightarrow> \<exists>b. float_eq_literal v r = Inr b"
  using py_float_no_overflow[of v]
  by (auto simp: float_eq_literal_def split: sum.splits float_error.splits option.splits)

lemma equal_literal_total: "float_safe v \<Longrightarrow> \<exists>b. equal_literal v r = Inr b"
  using float_eq_literal_total[of v r] by (cases v) (auto simp: equal_literal_def)

lemma eval_atom_total: "step_safe step \<Longrightarrow> \<exists>b. eval_atom step l c v = Inr b"
proof -
  assume "step_safe step"
  then have s: "float_safe (atom_value step l)" by (rule atom_value_safe)
  from equal_literal_total[OF this, of v] py_float_no_overflow[OF this] show ?thesis
    by (auto simp: eval_atom_def coerce_compare_def
        split: pyval.splits sum.splits float_error.splits option.splits)
qed

text \<open>
  (C24) The evaluator computes LTLf: on a trace without an int beyond the range of binary64,
  \<^verbatim>\<open>evaluate\<close> returns, for every formula that parses, the truth value at position 0 of the
  semantics with quantifiers over positions. On an empty trace atoms are false, so \<^verbatim>\<open>!(tool=x)\<close> and \<^verbatim>\<open>G(tool=x)\<close> are true;
  and only \<^verbatim>\<open>G\<close>, \<^verbatim>\<open>F\<close>, \<^verbatim>\<open>U\<close> and \<^verbatim>\<open>X\<close> look beyond position 0.
\<close>

theorem ltlf_evaluate_correct:
  assumes "ltlf_parse f = Inr a" and "list_all step_safe w"
  shows "evaluate f w = Inr (ltlf_sat a w 0)"
  using assms by (auto simp: evaluate_def list_all_iff intro!: ltlf_eval_total eval_atom_total)

definition step_of :: "pybag \<Rightarrow> pybag \<Rightarrow> path_step" where
  "step_of st ac = (st, ac, [])"

theorem ltlf_evaluate_correct_witness:
  "let f = ''(state.ok=true) U tool=pay''; w = [step_of [(''ok'', VBool True)] [], step_of [] [(''tool'', VStr ''pay'')]]
   in ltlf_parse f = Inr (FU (FAtom ''state.ok'' ''='' ''true'') (FAtom ''tool'' ''='' ''pay'')) \<and>
      evaluate f w = Inr True"
proof -
  have p: "ltlf_parse ''(state.ok=true) U tool=pay'' =
      Inr (FU (FAtom ''state.ok'' ''='' ''true'') (FAtom ''tool'' ''='' ''pay''))" by code_simp
  let ?w = "[step_of [(''ok'', VBool True)] [], step_of [] [(''tool'', VStr ''pay'')]]"
  have "list_all step_safe ?w" by (simp add: step_safe_def step_of_def)
  from ltlf_evaluate_correct[OF p this]
  have "evaluate ''(state.ok=true) U tool=pay'' ?w =
      Inr (ltlf_sat (FU (FAtom ''state.ok'' ''='' ''true'') (FAtom ''tool'' ''='' ''pay'')) ?w 0)" .
  moreover have "ltlf_eval (FU (FAtom ''state.ok'' ''='' ''true'') (FAtom ''tool'' ''='' ''pay'')) ?w 0
      = Inr True" by code_simp
  ultimately show ?thesis
    using p by (simp only: ltlf_eval_sat Let_def simp_thms)
qed

text \<open>
  (C13) A verdict the classifier calls permanent is a proof: whatever steps are appended, the
  formula keeps the truth value it has now wherever evaluation returns, and later verdicts agree.
  In particular \<^verbatim>\<open>PERMANENTLY_VIOLATED\<close> means that no extension satisfies the formula.
\<close>

theorem rv4_permanent_sound:
  assumes "evaluate_rv4 f tr = Inr v" and "rv4_is_permanent v"
  shows "evaluate f (tr @ ext) \<noteq> Inr (\<not> rv4_is_satisfied v) \<and>
    (\<forall>v'. evaluate_rv4 f (tr @ ext) = Inr v' \<longrightarrow> rv4_is_satisfied v' = rv4_is_satisfied v)"
proof -
  obtain a where a: "ltlf_parse f = Inr a" "evaluate_rv4_compiled a tr = Inr v"
    using assms by (auto simp: evaluate_rv4_def sbind_rules)
  then have "ltlf_sat a (tr @ ext) 0 = rv4_is_satisfied v"
    using assms(2) ltlf_rv.final_report[of a tr "rv4_is_satisfied v"] by auto
  with a have "evaluate f (tr @ ext) \<noteq> Inr (\<not> rv4_is_satisfied v)"
    by (auto simp: evaluate_sat dest: ltlf_eval_sat)
  moreover have "rv4_is_satisfied v' = rv4_is_satisfied v"
    if "evaluate_rv4 f (tr @ ext) = Inr v'" for v'
    using a assms(2) that ltlf_rv.reports_after_final[of a tr "rv4_is_satisfied v" ext]
    by (auto simp: evaluate_rv4_def)
  ultimately show ?thesis by blast
qed

theorem rv4_permanent_sound_witness:
  "let f = ''G !(tool=wire)''; tr = [step_of [] [(''tool'', VStr ''wire'')]] in
     evaluate_rv4 f tr = Inr PERMANENTLY_VIOLATED \<and>
     evaluate f (tr @ [step_of [] [(''tool'', VStr ''read'')]]) \<noteq> Inr True"
proof -
  have v: "evaluate_rv4 ''G !(tool=wire)'' [step_of [] [(''tool'', VStr ''wire'')]] =
      Inr PERMANENTLY_VIOLATED" by code_simp
  show ?thesis
    using v rv4_permanent_sound[OF v, of "[step_of [] [(''tool'', VStr ''read'')]]"]
    by (simp add: rv4_is_permanent_def rv4_is_satisfied_def)
qed

text \<open>
  The recoverable verdict is not a promise of recovery: \<^verbatim>\<open>F(state.a & !state.a)\<close> is
  \<^verbatim>\<open>CURRENTLY_VIOLATED\<close> on every trace, and no extension satisfies it. (The classifier
  over-approximates in this direction on purpose; the docstrings call the verdict curable.)
\<close>

theorem rv4_currently_violated_incurable:
  assumes "list_all step_safe tr"
  shows "evaluate_rv4 ''F(state.a & !state.a)'' tr = Inr CURRENTLY_VIOLATED \<and>
    evaluate ''F(state.a & !state.a)'' (tr @ ext) \<noteq> Inr True"
proof -
  let ?a = "FAtom ''state.a'' ''='' ''true''"
  have p: "ltlf_parse ''F(state.a & !state.a)'' = Inr (FF (FAnd ?a (FNot ?a)))" by code_simp
  have tot: "ltlf_eval g tr i = Inr (ltlf_sat g tr i)" for g i
    using assms by (intro ltlf_eval_total eval_atom_total) (simp add: list_all_iff)
  have "can_become_true (FAnd ?a (FNot ?a)) tr k = Inr (length tr \<le> k)" for k
  proof (cases "k < length tr")
    case True
    then obtain b where "eval_atom (tr ! k) ''state.a'' ''='' ''true'' = Inr b"
      using assms eval_atom_total by (metis list_all_length)
    with True show ?thesis by (cases b) simp_all
  qed simp
  then have "can_become_true (FF (FAnd ?a (FNot ?a))) tr 0 = Inr True"
    by (simp del: can_become_true.simps(4) add: err_ex_total[where q = "\<lambda>k. length tr \<le> k"])
  with p tot[of "FF (FAnd ?a (FNot ?a))" 0] show ?thesis
    by (auto simp: evaluate_rv4_def evaluate_rv4_compiled_def evaluate_sat
        simp del: can_become_true.simps ltlf_eval.simps dest: ltlf_eval_sat)
qed

theorem rv4_currently_violated_incurable_witness:
  "evaluate_rv4 ''F(state.a & !state.a)'' [([], [], [])] = Inr CURRENTLY_VIOLATED"
  using rv4_currently_violated_incurable [of "[([], [], [])]" "[]"] by (simp add: step_safe_def)

section \<open>Printing and parsing back\<close>

text \<open>A text is quoted with double quotes, or with single ones if it contains a double quote.\<close>

definition quoted :: "string \<Rightarrow> string" where
  "quoted s = (let q = (if CHR 0x22 \<in> set s then CHR 0x27 else CHR 0x22) in q # s @ [q])"

definition quotable :: "string \<Rightarrow> bool" where
  "quotable s \<longleftrightarrow> CHR 0x22 \<notin> set s \<or> CHR 0x27 \<notin> set s"

primrec ltlf_show :: "ltlf_node \<Rightarrow> string" where
  "ltlf_show (FConst v) = v @ '' ''"
| "ltlf_show (FAtom l c v) = quoted l @ c @ '' '' @ quoted v"
| "ltlf_show (FNot a) = ''! '' @ ltlf_show a"
| "ltlf_show (FAnd a b) = ''('' @ ltlf_show a @ ''& '' @ ltlf_show b @ '')''"
| "ltlf_show (FOr a b) = ''('' @ ltlf_show a @ ''| '' @ ltlf_show b @ '')''"
| "ltlf_show (FImp a b) = ''('' @ ltlf_show a @ ''-> '' @ ltlf_show b @ '')''"
| "ltlf_show (FX a) = ''X '' @ ltlf_show a"
| "ltlf_show (FG a) = ''G '' @ ltlf_show a"
| "ltlf_show (FF a) = ''F '' @ ltlf_show a"
| "ltlf_show (FU a b) = ''('' @ ltlf_show a @ ''U '' @ ltlf_show b @ '')''"

primrec ltlf_tokens :: "ltlf_node \<Rightarrow> ltlf_token list" where
  "ltlf_tokens (FConst v) = [Token K_kw v]"
| "ltlf_tokens (FAtom l c v) = [Token K_atom l, Token K_op c, Token K_atom v]"
| "ltlf_tokens (FNot a) = Token K_op ''!'' # ltlf_tokens a"
| "ltlf_tokens (FAnd a b) =
     Token K_op ''('' # ltlf_tokens a @ Token K_op ''&'' # ltlf_tokens b @ [Token K_op '')'']"
| "ltlf_tokens (FOr a b) =
     Token K_op ''('' # ltlf_tokens a @ Token K_op ''|'' # ltlf_tokens b @ [Token K_op '')'']"
| "ltlf_tokens (FImp a b) =
     Token K_op ''('' # ltlf_tokens a @ Token K_op ''->'' # ltlf_tokens b @ [Token K_op '')'']"
| "ltlf_tokens (FX a) = Token K_kw ''X'' # ltlf_tokens a"
| "ltlf_tokens (FG a) = Token K_kw ''G'' # ltlf_tokens a"
| "ltlf_tokens (FF a) = Token K_kw ''F'' # ltlf_tokens a"
| "ltlf_tokens (FU a b) =
     Token K_op ''('' # ltlf_tokens a @ Token K_kw ''U'' # ltlf_tokens b @ [Token K_op '')'']"

text \<open>
  The trees the parser can return (\<open>compile_formula_wf\<close> below): a name or literal comes from one token, which contains at most one
  kind of quote.
\<close>

primrec ltlf_wf :: "ltlf_node \<Rightarrow> bool" where
  "ltlf_wf (FConst v) \<longleftrightarrow> v = ''true'' \<or> v = ''false''"
| "ltlf_wf (FAtom l c v) \<longleftrightarrow> (CHR ''.'' \<in> set l \<or> l = ''tool'') \<and> c \<in> set comparators \<and>
     quotable l \<and> quotable v"
| "ltlf_wf (FNot a) \<longleftrightarrow> ltlf_wf a"
| "ltlf_wf (FAnd a b) \<longleftrightarrow> ltlf_wf a \<and> ltlf_wf b"
| "ltlf_wf (FOr a b) \<longleftrightarrow> ltlf_wf a \<and> ltlf_wf b"
| "ltlf_wf (FImp a b) \<longleftrightarrow> ltlf_wf a \<and> ltlf_wf b"
| "ltlf_wf (FX a) \<longleftrightarrow> ltlf_wf a"
| "ltlf_wf (FG a) \<longleftrightarrow> ltlf_wf a"
| "ltlf_wf (FF a) \<longleftrightarrow> ltlf_wf a"
| "ltlf_wf (FU a b) \<longleftrightarrow> ltlf_wf a \<and> ltlf_wf b"

abbreviation (input) then_token :: "ltlf_token \<Rightarrow> string \<Rightarrow> ltlf_error + ltlf_token list" where
  "then_token t r \<equiv> sbind (ltlf_tokenize r) (\<lambda>ts. Inr (t # ts))"

lemma tokenize_space: "ltlf_tokenize (CHR '' '' # r) = ltlf_tokenize r"
  by (simp add: ltlf_tokenize.simps py_char_defs)

lemma tokenize_op:
  "ltlf_tokenize (CHR ''('' # r) = then_token (Token K_op ''('') r"
  "ltlf_tokenize (CHR '')'' # r) = then_token (Token K_op '')'') r"
  "ltlf_tokenize (CHR ''!'' # CHR '' '' # r) = then_token (Token K_op ''!'') r"
  "ltlf_tokenize (CHR ''&'' # CHR '' '' # r) = then_token (Token K_op ''&'') r"
  "ltlf_tokenize (CHR ''|'' # CHR '' '' # r) = then_token (Token K_op ''|'') r"
  "ltlf_tokenize (CHR ''-'' # CHR ''>'' # CHR '' '' # r) = then_token (Token K_op ''->'') r"
  by (simp_all add: ltlf_tokenize.simps py_char_defs starts_with_def token_operators_def)

lemma tokenize_comparator:
  "c \<in> set comparators \<Longrightarrow> ltlf_tokenize (c @ CHR '' '' # r) = then_token (Token K_op c) r"
  by (auto simp: comparators_def ltlf_tokenize.simps py_char_defs starts_with_def
      token_operators_def)

lemma tokenize_keyword:
  "k \<in> set token_keywords \<Longrightarrow> ltlf_tokenize (k @ CHR '' '' # r) = then_token (Token K_kw k) r"
  by (auto simp: token_keywords_def ltlf_tokenize.simps py_char_defs starts_with_def
      token_operators_def ident_char_def ident_token_def)

lemma takeWhile_dropWhile_quote:
  "q \<notin> set s \<Longrightarrow> takeWhile (\<lambda>c. c \<noteq> q) (s @ q # r) = s \<and> dropWhile (\<lambda>c. c \<noteq> q) (s @ q # r) = q # r"
  by (induction s) auto

lemma tokenize_quoted:
  "quotable s \<Longrightarrow> ltlf_tokenize (quoted s @ r) = then_token (Token K_atom s) r"
  by (auto simp: quoted_def quotable_def Let_def ltlf_tokenize.simps py_char_defs starts_with_def token_operators_def
      takeWhile_dropWhile_quote)

lemmas tokenize_rules = tokenize_space tokenize_op tokenize_comparator tokenize_quoted
  tokenize_keyword[of "''true''", simplified] tokenize_keyword[of "''false''", simplified]
  tokenize_keyword[of "''G''", simplified] tokenize_keyword[of "''F''", simplified]
  tokenize_keyword[of "''X''", simplified] tokenize_keyword[of "''U''", simplified]

lemma ltlf_tokenize_show:
  "ltlf_wf a \<Longrightarrow> ltlf_tokenize (ltlf_show a @ r) = sbind (ltlf_tokenize r) (\<lambda>ts. Inr (ltlf_tokens a @ ts))"
  by (induction a arbitrary: r)
     (auto simp: tokenize_rules token_keywords_def sbind_assoc)

text \<open>The parser on a bracketed text: each level passes its operand on unless its operator follows.\<close>

lemma parse_until_pass:
  "ltlf_parse_unary ts = Inr (a, r) \<Longrightarrow> \<not> next_is_kw ''U'' r \<Longrightarrow> ltlf_parse_until ts = Inr (a, r)"
  by (subst ltlf_parser_eqs(6)) simp

lemma parse_until_U:
  "ltlf_parse_unary ts = Inr (a, r) \<Longrightarrow> next_is_kw ''U'' r \<Longrightarrow>
     ltlf_parse_until (tl r) = Inr (b, r') \<Longrightarrow> ltlf_parse_until ts = Inr (FU a b, r')"
  by (subst ltlf_parser_eqs(6)) simp

lemma parse_and_pass:
  "ltlf_parse_until ts = Inr (a, r) \<Longrightarrow> \<not> next_is ''&'' r \<Longrightarrow> ltlf_parse_and ts = Inr (a, r)"
  by (subst ltlf_parser_eqs(4)) (simp add: ltlf_parser_eqs(5)[of a r])

lemma parse_and_and:
  "ltlf_parse_until ts = Inr (a, r) \<Longrightarrow> next_is ''&'' r \<Longrightarrow> ltlf_parse_until (tl r) = Inr (b, r') \<Longrightarrow>
     \<not> next_is ''&'' r' \<Longrightarrow> ltlf_parse_and ts = Inr (FAnd a b, r')"
  by (subst ltlf_parser_eqs(4))
     (simp add: ltlf_parser_eqs(5)[of a r] ltlf_parser_eqs(5)[of "FAnd a b" r'])

lemma parse_or_pass:
  "ltlf_parse_and ts = Inr (a, r) \<Longrightarrow> \<not> next_is ''|'' r \<Longrightarrow> ltlf_parse_or ts = Inr (a, r)"
  by (subst ltlf_parser_eqs(2)) (simp add: ltlf_parser_eqs(3)[of a r])

lemma parse_or_or:
  "ltlf_parse_and ts = Inr (a, r) \<Longrightarrow> next_is ''|'' r \<Longrightarrow> ltlf_parse_and (tl r) = Inr (b, r') \<Longrightarrow>
     \<not> next_is ''|'' r' \<Longrightarrow> ltlf_parse_or ts = Inr (FOr a b, r')"
  by (subst ltlf_parser_eqs(2))
     (simp add: ltlf_parser_eqs(3)[of a r] ltlf_parser_eqs(3)[of "FOr a b" r'])

lemma parse_implies_pass:
  "ltlf_parse_or ts = Inr (a, r) \<Longrightarrow> \<not> next_is ''->'' r \<Longrightarrow> ltlf_parse_implies ts = Inr (a, r)"
  by (subst ltlf_parser_eqs(1)) simp

lemma parse_implies_arrow:
  "ltlf_parse_or ts = Inr (a, r) \<Longrightarrow> next_is ''->'' r \<Longrightarrow>
     ltlf_parse_implies (tl r) = Inr (b, r') \<Longrightarrow> ltlf_parse_implies ts = Inr (FImp a b, r')"
  by (subst ltlf_parser_eqs(1)) simp

lemmas parse_pass = parse_until_pass parse_and_pass parse_or_pass parse_implies_pass

lemma next_is_token [simp]:
  "next_is v (t # ts) = (tok_value t = v)"
  "next_is_kw v (t # ts) = (t = Token K_kw v)"
  "\<not> next_is v []" "\<not> next_is_kw v []"
  by (auto simp: next_is_def next_is_kw_def)

lemma parse_bracketed:
  assumes "ltlf_parse_implies (ts @ Token K_op '')'' # r) = Inr (a, Token K_op '')'' # r)"
  shows "ltlf_parse_unary (Token K_op ''('' # ts @ Token K_op '')'' # r) = Inr (a, r)"
  using assms by (simp add: ltlf_consume_def)

lemma ltlf_parse_unary_tokens: "ltlf_wf a \<Longrightarrow> ltlf_parse_unary (ltlf_tokens a @ r) = Inr (a, r)"
proof (induction a arbitrary: r)
  case (FAtom l c v)
  then have "l \<noteq> ''!''" "l \<noteq> ''(''" by auto
  with FAtom show ?case by (auto simp: ltlf_parse_atom_def)
next
  case (FAnd a b)
  have "ltlf_parse_implies ((ltlf_tokens a @ Token K_op ''&'' # ltlf_tokens b) @ Token K_op '')'' # r)
      = Inr (FAnd a b, Token K_op '')'' # r)"
    using FAnd by (intro parse_implies_pass parse_or_pass parse_and_and)
      (auto intro!: parse_until_pass)
  from parse_bracketed[OF this] show ?case by simp
next
  case (FOr a b)
  have "ltlf_parse_implies ((ltlf_tokens a @ Token K_op ''|'' # ltlf_tokens b) @ Token K_op '')'' # r)
      = Inr (FOr a b, Token K_op '')'' # r)"
    using FOr by (intro parse_implies_pass parse_or_or)
      (auto intro!: parse_until_pass parse_and_pass)
  from parse_bracketed[OF this] show ?case by simp
next
  case (FImp a b)
  have "ltlf_parse_implies ((ltlf_tokens a @ Token K_op ''->'' # ltlf_tokens b) @ Token K_op '')'' # r)
      = Inr (FImp a b, Token K_op '')'' # r)"
    using FImp by (intro parse_implies_arrow) (auto intro!: parse_pass)
  from parse_bracketed[OF this] show ?case by simp
next
  case (FU a b)
  have "ltlf_parse_implies ((ltlf_tokens a @ Token K_kw ''U'' # ltlf_tokens b) @ Token K_op '')'' # r)
      = Inr (FU a b, Token K_op '')'' # r)"
    using FU by (intro parse_implies_pass parse_or_pass parse_and_pass parse_until_U)
      (auto intro!: parse_until_pass)
  from parse_bracketed[OF this] show ?case by simp
qed (auto simp: unary_node_def)

lemma ltlf_show_not_blank: "ltlf_wf a \<Longrightarrow> py_strip (ltlf_show a) \<noteq> []"
  by (cases a) (auto simp: py_strip_Nil_iff quoted_def py_char_defs Let_def)

text \<open>The range of the parser.\<close>

definition quotable_tokens :: "ltlf_token list \<Rightarrow> bool" where
  "quotable_tokens ts \<longleftrightarrow> (\<forall>t\<in>set ts. quotable (tok_value t))"

lemma quotable_tokens_simps [simp]:
  "quotable_tokens []" "quotable_tokens (t # ts) \<longleftrightarrow> quotable (tok_value t) \<and> quotable_tokens ts"
  "quotable_tokens ts \<Longrightarrow> quotable_tokens (tl ts)"
  by (auto simp: quotable_tokens_def dest: list.set_sel(2)[rotated] split: list.splits) (metis list.set_sel(2) tl_Nil)

lemma ident_quotable: "list_all ident_char w \<Longrightarrow> quotable w"
  by (auto simp: quotable_def list_all_iff ident_char_def py_char_defs)

lemma takeWhile_quotable: "q = CHR 0x22 \<or> q = CHR 0x27 \<Longrightarrow> quotable (takeWhile (\<lambda>c. c \<noteq> q) s)"
  by (auto simp: quotable_def dest: set_takeWhileD)

lemma ltlf_tokenize_quotable: "ltlf_tokenize s = Inr ts \<Longrightarrow> quotable_tokens ts"
proof (induction s arbitrary: ts rule: ltlf_tokenize.induct)
  case (2 ch cs)
  have ops: "quotable op" if "find (starts_with (ch # cs)) token_operators = Some op" for op
    using that by (auto simp: token_operators_def quotable_def split: if_splits)
  have ident: "quotable (tok_value (ident_token (ch # takeWhile ident_char cs)))" if "ident_char ch"
    using that by (auto simp: ident_token_def intro!: ident_quotable simp: list_all_iff dest: set_takeWhileD)
  show ?case
    using "2.prems" 2(1-4) ops ident takeWhile_quotable[of ch cs]
    by (auto simp: ltlf_tokenize.simps(2) sbind_rules split: if_splits option.splits list.splits)
qed simp

lemma ltlf_parse_atom_wf:
  "ltlf_parse_atom l ts = Inr (a, r) \<Longrightarrow> quotable l \<Longrightarrow> quotable_tokens ts \<Longrightarrow> ltlf_wf a \<and> quotable_tokens r"
  by (auto simp: ltlf_parse_atom_def comparators_def quotable_def[of "''true''"] split: list.splits ltlf_token.splits ltlf_kind.splits if_splits)

lemma ltlf_parser_wf:
  "ltlf_parse_implies ts = Inr (a, r) \<Longrightarrow> quotable_tokens ts \<Longrightarrow> ltlf_wf a \<and> quotable_tokens r"
  "ltlf_parse_or ts = Inr (a, r) \<Longrightarrow> quotable_tokens ts \<Longrightarrow> ltlf_wf a \<and> quotable_tokens r"
  "ltlf_parse_or_loop l ts = Inr (a, r) \<Longrightarrow> quotable_tokens ts \<Longrightarrow> ltlf_wf l \<Longrightarrow> ltlf_wf a \<and> quotable_tokens r"
  "ltlf_parse_and ts = Inr (a, r) \<Longrightarrow> quotable_tokens ts \<Longrightarrow> ltlf_wf a \<and> quotable_tokens r"
  "ltlf_parse_and_loop l ts = Inr (a, r) \<Longrightarrow> quotable_tokens ts \<Longrightarrow> ltlf_wf l \<Longrightarrow> ltlf_wf a \<and> quotable_tokens r"
  "ltlf_parse_until ts = Inr (a, r) \<Longrightarrow> quotable_tokens ts \<Longrightarrow> ltlf_wf a \<and> quotable_tokens r"
  "ltlf_parse_unary ts = Inr (a, r) \<Longrightarrow> quotable_tokens ts \<Longrightarrow> ltlf_wf a \<and> quotable_tokens r"
  "ltlf_parse_primary ts = Inr (a, r) \<Longrightarrow> quotable_tokens ts \<Longrightarrow> ltlf_wf a \<and> quotable_tokens r"
proof (induction ts and ts and l ts and ts and l ts and ts and ts and ts
    arbitrary: a r and a r and a r and a r and a r and a r and a r and a r
    rule: ltlf_parser_induct)
  case (1 ts)
  then show ?case
    by (subst (asm) ltlf_parse_implies.simps) (fastforce simp: sbind_rules split: if_splits)
next
  case (2 ts)
  then show ?case
    by (subst (asm) ltlf_parse_or.simps) (fastforce simp: sbind_rules split: if_splits)
next
  case (3 l ts)
  then show ?case
    by (subst (asm) ltlf_parse_or_loop.simps) (fastforce simp: sbind_rules split: if_splits)
next
  case (4 ts)
  then show ?case
    by (subst (asm) ltlf_parse_and.simps) (fastforce simp: sbind_rules split: if_splits)
next
  case (5 l ts)
  then show ?case
    by (subst (asm) ltlf_parse_and_loop.simps) (fastforce simp: sbind_rules split: if_splits)
next
  case (6 ts)
  then show ?case
    by (subst (asm) ltlf_parse_until.simps) (fastforce simp: sbind_rules split: if_splits)
next
  case (8 t ts)
  then show ?case by (fastforce simp: sbind_rules unary_node_def split: if_splits)
next
  case (10 t ts)
  then show ?case
    by (fastforce simp: sbind_rules ltlf_consume_Inr split: if_splits dest: ltlf_parse_atom_wf)
qed simp_all

lemma compile_formula_wf: "compile_formula s = Inr a \<Longrightarrow> ltlf_wf a"
  using ltlf_parser_wf(1) ltlf_tokenize_quotable
  by (fastforce simp: compile_formula_def ltlf_parse_def sbind_rules split: if_splits)

text \<open>
  (C25) Printing and parsing back: every tree that \<^verbatim>\<open>compile_formula\<close> returns, for whatever text, is returned again for its fully
  bracketed and quoted text.
\<close>

theorem ltlf_parse_show:
  assumes "compile_formula s = Inr a"
  shows "compile_formula (ltlf_show a) = Inr a"
proof -
  have a: "ltlf_wf a" by (rule compile_formula_wf[OF assms])
  have "ltlf_parse_implies (ltlf_tokens a) = Inr (a, [])"
    using ltlf_parse_unary_tokens[OF a, of "[]"] by (auto intro!: parse_pass)
  with a show ?thesis
    using ltlf_tokenize_show[OF a, of "[]"]
    by (simp add: compile_formula_def ltlf_parse_def ltlf_show_not_blank)
qed

definition quote_formula :: string where
  "quote_formula = ''F state.x='' @ [CHR 0x27, CHR ''a'', CHR 0x22, CHR 0x27] @ '' -> tool=wire''"

theorem ltlf_parse_show_witness:
  "\<exists>a. compile_formula quote_formula = Inr a \<and> compile_formula (ltlf_show a) = Inr a"
proof -
  have "compile_formula quote_formula = Inr (FImp (FF (FAtom ''state.x'' ''='' [CHR ''a'', CHR 0x22])) (FAtom ''tool'' ''='' ''wire''))"
    by code_simp
  with ltlf_parse_show[OF this] show ?thesis by blast
qed

end
