(* ===== verification/Py_Float.thy ===== *)
theory Py_Float
  imports Py_Value
begin

text \<open>
  The float arithmetic that the scoring code uses beyond \<open>Py_Value\<close>: division, the built-in \<^verbatim>\<open>min\<close>, \<^verbatim>\<open>max\<close>,
  \<^verbatim>\<open>sum\<close> and \<^verbatim>\<open>round\<close>, and fixed-point formatting. Rounding to binary64 is monotone, and so are sums,
  products and clamps of non-negative scores.
\<close>

section \<open>Built-in functions\<close>

definition fl_abs :: "pyfloat \<Rightarrow> pyfloat" where
  "fl_abs x = (if fl_less x (Fin 0) then fl_neg x else x)"

text \<open>Division by a non-zero float; \<^verbatim>\<open>ZeroDivisionError\<close> is \<open>None\<close>.\<close>

definition fl_div :: "pyfloat \<Rightarrow> pyfloat \<Rightarrow> pyfloat option" where
  "fl_div x y = (case (x, y) of
       (Fin a, Fin b) \<Rightarrow> if b = 0 then None else Some (fl_round (a / b))
     | (_, Fin b) \<Rightarrow> if b = 0 then None
         else Some (if x = NaN then NaN else if 0 < fl_sign x * fl_sign y then PosInf else NegInf)
     | (Fin a, _) \<Rightarrow> Some (if y = NaN then NaN else Fin 0)
     | _ \<Rightarrow> Some NaN)"

text \<open>The quotient of two integers, which Python rounds once.\<close>

definition int_ratio :: "nat \<Rightarrow> nat \<Rightarrow> pyfloat" where
  "int_ratio a b = fl_round (of_nat a / of_nat b)"

text \<open>\<^verbatim>\<open>max(x, y)\<close> and \<^verbatim>\<open>min(x, y)\<close> keep the first argument unless the second is strictly better.\<close>

definition py_max :: "pyfloat \<Rightarrow> pyfloat \<Rightarrow> pyfloat" where
  "py_max x y = (if fl_less x y then y else x)"

definition py_min :: "pyfloat \<Rightarrow> pyfloat \<Rightarrow> pyfloat" where
  "py_min x y = (if fl_less y x then y else x)"

text \<open>\<^verbatim>\<open>sum\<close> of floats, with the compensation of CPython 3.12 and later.\<close>

fun neumaier :: "pyfloat \<Rightarrow> pyfloat \<Rightarrow> pyfloat list \<Rightarrow> pyfloat \<times> pyfloat" where
  "neumaier s c [] = (s, c)"
| "neumaier s c (x # xs) =
     (let t = fl_add s x;
          d = (if fl_le (fl_abs x) (fl_abs s) then fl_add (fl_sub s t) x else fl_add (fl_sub x t) s)
      in neumaier t (fl_add c d) xs)"

definition py_sum :: "pyfloat list \<Rightarrow> pyfloat" where
  "py_sum xs = (let (s, c) = neumaier (Fin 0) (Fin 0) xs
     in case c of Fin q \<Rightarrow> if q = 0 then s else fl_add s c | _ \<Rightarrow> s)"

text \<open>\<^verbatim>\<open>round(x, n)\<close>: the nearest decimal with \<open>n\<close> places, ties to even on the exact value, read back.\<close>

definition py_round :: "nat \<Rightarrow> pyfloat \<Rightarrow> pyfloat" where
  "py_round n x = (case x of Fin q \<Rightarrow> fl_round (of_int (round_half_even (q * 10 ^ n)) / 10 ^ n) | _ \<Rightarrow> x)"

text \<open>The format \<^verbatim>\<open>.2f\<close> of a finite number that is not negative.\<close>

definition fmt2 :: "pyfloat \<Rightarrow> string" where
  "fmt2 x = (case x of
       Fin q \<Rightarrow> (let n = nat (round_half_even (q * 100)); r = n mod 100
                in nat_digits (n div 100) @ ''.'' @ (if r < 10 then ''0'' else []) @ nat_digits r)
     | PosInf \<Rightarrow> ''inf'' | NegInf \<Rightarrow> ''-inf'' | NaN \<Rightarrow> ''nan'')"

text \<open>The format \<^verbatim>\<open>.3f\<close> of a finite number that is not negative.\<close>

definition fmt3 :: "pyfloat \<Rightarrow> string" where
  "fmt3 x = (case x of
       Fin q \<Rightarrow> (let n = nat (round_half_even (q * 1000)); r = n mod 1000
                in nat_digits (n div 1000) @ ''.'' @ (if r < 100 then ''0'' else []) @ (if r < 10 then ''0'' else []) @ nat_digits r)
     | PosInf \<Rightarrow> ''inf'' | NegInf \<Rightarrow> ''-inf'' | NaN \<Rightarrow> ''nan'')"

text \<open>The format \<^verbatim>\<open>g\<close> of a positive finite number: six significant digits, trailing zeros dropped.\<close>

definition decimal_exponent :: "rat \<Rightarrow> int" where
  "decimal_exponent q = (if 1 \<le> q then int (length (nat_digits (nat \<lfloor>q\<rfloor>))) - 1
     else (case find (\<lambda>k. 1 \<le> q * 10 ^ k) [1..<400] of None \<Rightarrow> 0 | Some k \<Rightarrow> - int k))"

definition drop_zeros :: "string \<Rightarrow> string" where
  "drop_zeros s = rev (dropWhile (\<lambda>c. c = CHR ''0'') (rev s))"

definition fmt_g :: "pyfloat \<Rightarrow> string" where
  "fmt_g x = (case x of
       Fin q \<Rightarrow>
         if q \<le> 0 then ''0''
         else let e0 = decimal_exponent q;
                  m0 = nat (round_half_even (if 0 \<le> 5 - e0 then q * 10 ^ nat (5 - e0) else q / 10 ^ nat (e0 - 5)));
                  (e, ds) = (if m0 = 10 ^ 6 then (e0 + 1, ''100000'') else (e0, nat_digits m0))
              in if e < - 4 \<or> 6 \<le> e
                 then let frac = drop_zeros (tl ds); a = nat_digits (nat \<bar>e\<bar>)
                      in [hd ds] @ (if frac = [] then [] else CHR ''.'' # frac) @ ''e'' @ (if e < 0 then ''-'' else ''+'')
                         @ (if length a = 1 then ''0'' else []) @ a
                 else if 0 \<le> e
                 then let frac = drop_zeros (drop (nat e + 1) ds)
                      in take (nat e + 1) ds @ (if frac = [] then [] else CHR ''.'' # frac)
                 else ''0.'' @ replicate (nat (- e) - 1) (CHR ''0'') @ drop_zeros ds
     | PosInf \<Rightarrow> ''inf'' | NegInf \<Rightarrow> ''-inf'' | NaN \<Rightarrow> ''nan'')"

section \<open>Rounding is monotone\<close>

lemma rat_pow2_powi: "rat_pow2 e = power_int 2 e"
  by (simp add: rat_pow2_def power_int_def field_simps)

lemma rat_pow2_mono: "a \<le> b \<Longrightarrow> rat_pow2 a \<le> rat_pow2 b"
  unfolding rat_pow2_powi by (rule power_int_increasing) auto

lemma rat_pow2_add_nat: "rat_pow2 (e + int k) = 2 ^ k * rat_pow2 e"
  unfolding rat_pow2_powi by (simp add: power_int_add)

lemma bitlen_rat_bounds:
  assumes "0 < n"
  shows "rat_pow2 (bitlen n - 1) \<le> of_int n" "of_int n < rat_pow2 (bitlen n)"
proof -
  have b: "2 ^ nat (bitlen n - 1) \<le> n" "n < 2 ^ nat (bitlen n)" using bitlen_bounds[OF assms] by auto
  have l: "1 \<le> bitlen n" using assms by (metis bitlen_bounds bitlen_nonneg int_one_le_iff_zero_less leD nat_0 not_less_iff_gr_or_eq power_0)
  have "of_int (2 ^ nat (bitlen n - 1)) \<le> (of_int n :: rat)" using b(1) by (simp only: of_int_le_iff)
  then show "rat_pow2 (bitlen n - 1) \<le> of_int n" using l by (simp add: rat_pow2_def)
  have "(of_int n :: rat) < of_int (2 ^ nat (bitlen n))" using b(2) by (simp only: of_int_less_iff)
  then show "of_int n < rat_pow2 (bitlen n)" using l by (simp add: rat_pow2_def)
qed

lemma ulp_exp_bounds:
  assumes "0 < x"
  shows "x < 2 ^ 53 * rat_pow2 (ulp_exp x)" "- 1074 < ulp_exp x \<Longrightarrow> 2 ^ 52 * rat_pow2 (ulp_exp x) \<le> x"
proof -
  obtain n d where q: "quotient_of x = (n, d)" by (cases "quotient_of x")
  then have x: "x = of_int n / of_int d" and d: "0 < d"
    by (auto dest: quotient_of_div quotient_of_denom_pos)
  have n: "0 < n" using assms x d by (simp add: zero_less_divide_iff)
  define e0 where "e0 = bitlen n - bitlen d - 53"
  define e where "e = (if x / rat_pow2 e0 < 2 ^ 53 then e0 else e0 + 1)"
  have u: "ulp_exp x = max e (- 1074)" by (simp add: ulp_exp_def q e0_def e_def Let_def)
  have "of_int n < rat_pow2 (bitlen d - 1) * rat_pow2 (e0 + 54)"
    using bitlen_rat_bounds(2)[OF n] unfolding rat_pow2_powi e0_def by (simp add: power_int_add[symmetric])
  also have "\<dots> \<le> of_int d * rat_pow2 (e0 + 54)"
    using bitlen_rat_bounds(1)[OF d] rat_pow2_pos[of "e0 + 54"] by simp
  finally have hi: "x < rat_pow2 (e0 + 54)" using d by (simp add: x divide_less_eq mult.commute)
  have "of_int d * rat_pow2 (e0 + 52) \<le> rat_pow2 (bitlen d) * rat_pow2 (e0 + 52)"
    using bitlen_rat_bounds(2)[OF d] rat_pow2_pos[of "e0 + 52"] by simp
  also have "\<dots> \<le> of_int n"
    using bitlen_rat_bounds(1)[OF n] unfolding rat_pow2_powi e0_def by (simp add: power_int_add[symmetric])
  finally have lo: "rat_pow2 (e0 + 52) \<le> x" using d by (simp add: x le_divide_eq mult.commute)
  have p: "rat_pow2 (e0 + 52) = 2 ^ 52 * rat_pow2 e0" "rat_pow2 (e0 + 54) = 2 ^ 53 * rat_pow2 (e0 + 1)"
    "rat_pow2 (e0 + 1) = 2 * rat_pow2 e0"
    using rat_pow2_add_nat[of e0 52] rat_pow2_add_nat[of "e0 + 1" 53] rat_pow2_add_nat[of e0 1] by (simp_all add: add.assoc)
  have b: "x < 2 ^ 53 * rat_pow2 e \<and> 2 ^ 52 * rat_pow2 e \<le> x"
  proof (cases "x / rat_pow2 e0 < 2 ^ 53")
    case True
    then show ?thesis using lo p rat_pow2_pos[of e0] by (simp add: e_def divide_less_eq)
  next
    case False
    then have "2 ^ 53 * rat_pow2 e0 \<le> x" using rat_pow2_pos[of e0] by (simp add: not_less le_divide_eq)
    then show ?thesis using False hi p by (simp add: e_def)
  qed
  have "2 ^ 53 * rat_pow2 e \<le> 2 ^ 53 * rat_pow2 (ulp_exp x)" using rat_pow2_mono[of e "ulp_exp x"] u by simp
  with b show "x < 2 ^ 53 * rat_pow2 (ulp_exp x)" by linarith
  show "2 ^ 52 * rat_pow2 (ulp_exp x) \<le> x" if "- 1074 < ulp_exp x" using b u that by (simp add: max_def split: if_splits)
qed

lemma round_half_even_floor: "\<lfloor>x\<rfloor> \<le> round_half_even x" "round_half_even x \<le> \<lfloor>x\<rfloor> + 1"
  by (auto simp: round_half_even_def Let_def)

lemma round_half_even_mono: "x \<le> y \<Longrightarrow> round_half_even x \<le> round_half_even y"
proof (cases "\<lfloor>x\<rfloor> = \<lfloor>y\<rfloor>")
  case True
  assume "x \<le> y"
  with True show ?thesis by (auto simp: round_half_even_def Let_def)
next
  case False
  assume "x \<le> y"
  then have "\<lfloor>x\<rfloor> \<le> \<lfloor>y\<rfloor>" by (rule floor_mono)
  with False have "\<lfloor>x\<rfloor> + 1 \<le> \<lfloor>y\<rfloor>" by simp
  with round_half_even_floor(2)[of x] round_half_even_floor(1)[of y] show ?thesis by linarith
qed

text \<open>The magnitude to which a positive number is rounded, before the check for overflow.\<close>

definition fl_magnitude :: "rat \<Rightarrow> rat" where
  "fl_magnitude x = of_int (round_half_even (x / rat_pow2 (ulp_exp x))) * rat_pow2 (ulp_exp x)"

lemma fl_magnitude_mono:
  assumes "0 < x" and "x \<le> y"
  shows "fl_magnitude x \<le> fl_magnitude y"
proof -
  let ?a = "ulp_exp x" and ?b = "ulp_exp y"
  have y: "0 < y" using assms by simp
  note bx = ulp_exp_bounds[OF assms(1)] and by' = ulp_exp_bounds[OF y]
  have low: "- 1074 \<le> ulp_exp z" for z by (simp add: ulp_exp_def Let_def split: prod.splits)
  have "?a \<le> ?b"
  proof (rule ccontr)
    assume n: "\<not> ?a \<le> ?b"
    then have "2 ^ 52 * rat_pow2 ?a \<le> x" using bx(2) low[of y] by simp
    moreover have "rat_pow2 (?b + 1) \<le> rat_pow2 ?a" using n by (intro rat_pow2_mono) simp
    moreover have "rat_pow2 (?b + 1) = 2 * rat_pow2 ?b" using rat_pow2_add_nat[of ?b 1] by simp
    ultimately show False using by'(1) assms(2) by simp
  qed
  then consider "?a = ?b" | "?a + 1 \<le> ?b" by linarith
  then show ?thesis
  proof cases
    case 1
    have "x / rat_pow2 ?b \<le> y / rat_pow2 ?b" using assms(2) rat_pow2_pos[of ?b] by (simp add: divide_right_mono)
    then have "round_half_even (x / rat_pow2 ?b) \<le> round_half_even (y / rat_pow2 ?b)" by (rule round_half_even_mono)
    then show ?thesis using 1 rat_pow2_pos[of ?b] by (simp add: fl_magnitude_def)
  next
    case 2
    have "x / rat_pow2 ?a \<le> of_int (2 ^ 53)" using bx(1) rat_pow2_pos[of ?a] by (simp add: divide_le_eq)
    then have "round_half_even (x / rat_pow2 ?a) \<le> 2 ^ 53" by (rule round_half_even_le)
    then have "(of_int (round_half_even (x / rat_pow2 ?a)) :: rat) \<le> of_int (2 ^ 53)" by (simp only: of_int_le_iff)
    then have mx: "fl_magnitude x \<le> 2 ^ 53 * rat_pow2 ?a" using rat_pow2_pos[of ?a] by (simp add: fl_magnitude_def)
    have "of_int (2 ^ 52) \<le> y / rat_pow2 ?b" using by'(2) 2 low[of x] rat_pow2_pos[of ?b] by (simp add: le_divide_eq)
    then have "round_half_even (of_int (2 ^ 52)) \<le> round_half_even (y / rat_pow2 ?b)" by (rule round_half_even_mono)
    then have "2 ^ 52 \<le> round_half_even (y / rat_pow2 ?b)" by (simp only: round_half_even_int)
    then have "of_int (2 ^ 52) \<le> (of_int (round_half_even (y / rat_pow2 ?b)) :: rat)" by (simp only: of_int_le_iff)
    then have my: "2 ^ 52 * rat_pow2 ?b \<le> fl_magnitude y" using rat_pow2_pos[of ?b] by (simp add: fl_magnitude_def)
    have "2 * rat_pow2 ?a \<le> rat_pow2 ?b" using rat_pow2_mono[OF 2] rat_pow2_add_nat[of ?a 1] by simp
    with mx my show ?thesis by simp
  qed
qed

lemma fl_round_pos:
  "0 < x \<Longrightarrow> fl_round x = (if 2 ^ 1024 \<le> fl_magnitude x then PosInf else Fin (fl_magnitude x))"
  by (simp add: fl_round_def fl_magnitude_def Let_def)

lemma fl_magnitude_nonneg: "0 < x \<Longrightarrow> 0 \<le> fl_magnitude x"
  unfolding fl_magnitude_def using rat_pow2_pos[of "ulp_exp x"]
  by (intro mult_nonneg_nonneg) (auto simp: round_half_even_nonneg)

section \<open>Non-negative numbers\<close>

text \<open>A float that is neither negative nor NaN, and the order of such floats.\<close>

fun fl_nn :: "pyfloat \<Rightarrow> bool" where
  "fl_nn (Fin q) = (0 \<le> q)"
| "fl_nn PosInf = True"
| "fl_nn _ = False"

lemma fl_le_simps [simp]:
  "fl_le (Fin a) (Fin b) \<longleftrightarrow> a \<le> b" "fl_le (Fin a) PosInf" "fl_le PosInf PosInf" "\<not> fl_le PosInf (Fin b)"
  by (auto simp: fl_le_def)

lemma fl_le_trans: "fl_le x y \<Longrightarrow> fl_le y z \<Longrightarrow> fl_le x z"
  by (cases x; cases y; cases z) (auto simp: fl_le_def)

lemma fl_le_less: "fl_nn x \<Longrightarrow> fl_nn y \<Longrightarrow> fl_le x y \<longleftrightarrow> \<not> fl_less y x"
  by (cases x; cases y) (auto simp: fl_le_def)

lemma fl_round_mono:
  assumes "0 \<le> x" and "x \<le> y"
  shows "fl_le (fl_round x) (fl_round y)" "fl_nn (fl_round x)"
proof -
  show "fl_nn (fl_round x)"
    using assms(1) fl_magnitude_nonneg[of x] by (cases "x = 0") (auto simp: fl_round_pos, simp add: fl_round_def)
  show "fl_le (fl_round x) (fl_round y)"
  proof (cases "x = 0")
    case True
    then show ?thesis using assms fl_magnitude_nonneg[of y]
      by (cases "y = 0") (auto simp: fl_round_pos, simp_all add: fl_round_def)
  next
    case False
    with assms fl_magnitude_mono[of x y] show ?thesis by (auto simp: fl_round_pos)
  qed
qed

lemma fl_le_PosInf [simp]: "fl_nn x \<Longrightarrow> fl_le x PosInf"
  by (cases x) auto

lemma fl_le_nn: "fl_nn x \<Longrightarrow> fl_le x y \<Longrightarrow> fl_nn y"
  by (cases x; cases y) (auto simp: fl_le_def)

lemma fl_add_nn: "fl_nn a \<Longrightarrow> fl_nn b \<Longrightarrow> fl_nn (fl_add a b)"
  by (cases a; cases b) (auto intro!: fl_round_mono(2)[OF _ order_refl])

lemma fl_add_mono:
  assumes "fl_nn a" "fl_nn b" "fl_le a a'" "fl_le b b'"
  shows "fl_le (fl_add a b) (fl_add a' b')"
proof -
  have n: "fl_nn a'" "fl_nn b'" using assms fl_le_nn by blast+
  show ?thesis
  proof (cases "fl_add a' b' = PosInf")
    case True
    then show ?thesis using fl_add_nn[OF assms(1,2)] by simp
  next
    case False
    then obtain p q where "a' = Fin p" "b' = Fin q" using n by (cases a'; cases b') auto
    with assms show ?thesis by (cases a; cases b) (auto intro!: fl_round_mono(1) add_mono)
  qed
qed

text \<open>Products with a finite factor.\<close>

fun fl_pos_fin :: "pyfloat \<Rightarrow> bool" where
  "fl_pos_fin (Fin q) = (0 \<le> q)"
| "fl_pos_fin _ = False"

lemma fl_pos_fin_nn: "fl_pos_fin x \<Longrightarrow> fl_nn x"
  by (cases x) auto

lemma fl_mul_mono:
  assumes "fl_pos_fin w" "fl_pos_fin a" "fl_pos_fin a'" "fl_le a a'"
  shows "fl_le (fl_mul a w) (fl_mul a' w)" "fl_nn (fl_mul a w)"
  using assms by (cases w; cases a; cases a'; auto simp: fl_mul_def intro!: fl_round_mono mult_right_mono)+

lemma py_clamp_mono:
  assumes "fl_nn x" "fl_le x y"
  shows "fl_le (py_min (Fin 1) (py_max (Fin 0) x)) (py_min (Fin 1) (py_max (Fin 0) y))"
  using assms by (cases x; cases y) (auto simp: py_min_def py_max_def fl_le_def)

definition fl_unit :: "pyfloat \<Rightarrow> bool" where
  "fl_unit x \<longleftrightarrow> fl_le (Fin 0) x \<and> fl_le x (Fin 1)"

text \<open>The elements of \<open>pyfloat\<close> that are binary64 numbers.\<close>

fun fl_float :: "pyfloat \<Rightarrow> bool" where
  "fl_float (Fin q) \<longleftrightarrow> fl_round q = Fin q"
| "fl_float _ \<longleftrightarrow> True"

lemma fl_unit_Fin: "fl_unit x \<longleftrightarrow> (\<exists>q. x = Fin q \<and> 0 \<le> q \<and> q \<le> 1)"
  by (cases x) (auto simp: fl_unit_def fl_le_def)

lemma fl_unit_simps [simp]: "fl_unit (Fin q) \<longleftrightarrow> 0 \<le> q \<and> q \<le> 1"
  by (simp add: fl_unit_def)

lemma int_ratio_unit: "a \<le> b \<Longrightarrow> 0 < b \<Longrightarrow> fl_unit (int_ratio a b)"
  using fl_round_unit[of "of_nat a / of_nat b"] by (auto simp: int_ratio_def)

lemma fl_unit_clamp [simp]: "fl_unit (py_min (Fin 1) (py_max (Fin 0) x))"
  by (cases x) (auto simp: py_min_def py_max_def fl_unit_Fin)

lemma py_round_mono:
  assumes "fl_pos_fin x" "fl_pos_fin y" "fl_le x y"
  shows "fl_le (py_round n x) (py_round n y)" "fl_nn (py_round n x)"
proof -
  obtain p q where xy: "x = Fin p" "y = Fin q" "0 \<le> p" "p \<le> q" using assms by (cases x; cases y) auto
  have "p * 10 ^ n \<le> q * 10 ^ n" "0 \<le> p * 10 ^ n" using xy by (auto intro: mult_right_mono)
  then have r: "round_half_even (p * 10 ^ n) \<le> round_half_even (q * 10 ^ n)" "0 \<le> round_half_even (p * 10 ^ n)"
    by (auto intro: round_half_even_mono round_half_even_nonneg)
  from r(1) have "(of_int (round_half_even (p * 10 ^ n)) :: rat) / 10 ^ n \<le> of_int (round_half_even (q * 10 ^ n)) / 10 ^ n"
    by (simp add: divide_right_mono)
  moreover have "(0 :: rat) \<le> of_int (round_half_even (p * 10 ^ n)) / 10 ^ n" using r(2) by simp
  ultimately show "fl_le (py_round n x) (py_round n y)" "fl_nn (py_round n x)"
    using fl_round_mono by (auto simp: py_round_def xy)
qed

lemma py_round_unit: "fl_unit x \<Longrightarrow> fl_unit (py_round n x)"
proof -
  assume "fl_unit x"
  then obtain q where q: "x = Fin q" "0 \<le> q" "q \<le> 1" by (auto simp: fl_unit_Fin)
  have o: "py_round n (Fin (1::rat)) = Fin 1"
    using round_half_even_int[of "10 ^ n"] fl_round_int[of 1] by (simp add: py_round_def)
  have "fl_le (py_round n x) (Fin 1)" "fl_nn (py_round n x)"
    using py_round_mono[of x "Fin 1" n] q unfolding o by auto
  then show ?thesis by (cases "py_round n x") (auto simp: fl_le_def)
qed

section \<open>Rounding errors\<close>

lemma round_half_even_err: "\<bar>of_int (round_half_even x) - x\<bar> \<le> 1 / 2"
  using floor_correct[of x] by (auto simp: round_half_even_def Let_def abs_le_iff)

lemma fl_round_err_pos:
  assumes "0 < q" and "q \<le> 2 ^ 20"
  shows "\<exists>r. fl_round q = Fin r \<and> \<bar>r - q\<bar> \<le> 1 / 2 ^ 32"
proof -
  let ?u = "rat_pow2 (ulp_exp q)"
  have u: "?u \<le> 1 / 2 ^ 32"
  proof (cases "- 1074 < ulp_exp q")
    case True
    then have "2 ^ 52 * ?u \<le> 2 ^ 20" using ulp_exp_bounds(2)[OF assms(1)] assms(2) by simp
    then show ?thesis by simp
  next
    case False
    then have "?u \<le> rat_pow2 (- 32)" by (intro rat_pow2_mono) simp
    then show ?thesis by (simp add: rat_pow2_def)
  qed
  have "fl_magnitude q - q = ?u * (of_int (round_half_even (q / ?u)) - q / ?u)"
    using rat_pow2_pos[of "ulp_exp q"] by (simp add: fl_magnitude_def algebra_simps)
  then have "\<bar>fl_magnitude q - q\<bar> = ?u * \<bar>of_int (round_half_even (q / ?u)) - q / ?u\<bar>"
    using rat_pow2_pos[of "ulp_exp q"] by (simp add: abs_mult)
  also have "\<dots> \<le> ?u * (1 / 2)" by (intro mult_left_mono round_half_even_err less_imp_le rat_pow2_pos)
  finally have e: "\<bar>fl_magnitude q - q\<bar> \<le> 1 / 2 ^ 32" using u rat_pow2_pos[of "ulp_exp q"] by linarith
  then have "fl_magnitude q < 2 ^ 21" using assms(2) by (simp add: abs_if split: if_splits)
  also have "\<dots> < 2 ^ 1024" by (rule power_strict_increasing) simp_all
  finally have "fl_magnitude q < 2 ^ 1024" .
  then show ?thesis using e assms(1) by (auto simp: fl_round_pos)
qed

lemma fl_round_err:
  assumes "\<bar>q\<bar> \<le> 2 ^ 20"
  shows "\<exists>r. fl_round q = Fin r \<and> \<bar>r - q\<bar> \<le> 1 / 2 ^ 32"
proof (cases q "0 :: rat" rule: linorder_cases)
  case less
  then obtain r where "fl_round (- q) = Fin r" "\<bar>r - (- q)\<bar> \<le> 1 / 2 ^ 32" using fl_round_err_pos[of "- q"] assms by auto
  moreover have "fl_round q = fl_neg (fl_round (- q))" using fl_round_minus[of "- q"] by simp
  moreover have "\<bar>- r - q\<bar> = \<bar>r - (- q)\<bar>" by simp
  ultimately show ?thesis by (intro exI[of _ "- r"]) (simp add: fl_neg_def)
qed (use assms fl_round_err_pos[of q] in \<open>auto simp: fl_round_def\<close>)

text \<open>
  The compensated sum of at most \<open>2 ^ 18\<close> scores: the running total stays between 0 and the number of
  scores read, the compensation stays small, and the mean is a score up to \<open>2 ^ - 28\<close>.
\<close>

definition sum_inv :: "nat \<Rightarrow> pyfloat \<Rightarrow> pyfloat \<Rightarrow> bool" where
  "sum_inv k s c \<longleftrightarrow> (\<exists>p q. s = Fin p \<and> c = Fin q \<and> 0 \<le> p \<and> p \<le> of_nat k \<and> \<bar>q\<bar> \<le> of_nat k / 2 ^ 30)"

lemma neumaier_step:
  assumes "sum_inv k s c" and "fl_unit x" and "Suc k \<le> 2 ^ 18" and "t = fl_add s x"
  shows "sum_inv (Suc k) t (fl_add c
     (if fl_le (fl_abs x) (fl_abs s) then fl_add (fl_sub s t) x else fl_add (fl_sub x t) s))"
proof -
  obtain p q where pq: "s = Fin p" "c = Fin q" "0 \<le> p" "p \<le> of_nat k" "\<bar>q\<bar> \<le> of_nat k / 2 ^ 30"
    using assms(1) by (auto simp: sum_inv_def)
  obtain a where a: "x = Fin a" "0 \<le> a" "a \<le> 1" using assms(2) by (auto simp: fl_unit_Fin)
  have k: "of_nat k + 1 \<le> (2 ^ 18 :: rat)" using of_nat_mono[OF assms(3), where 'a = rat] by simp
  obtain r where r: "fl_round (p + a) = Fin r" "\<bar>r - (p + a)\<bar> \<le> 1 / 2 ^ 32"
    using fl_round_err[of "p + a"] pq a k by auto
  have "int (Suc k) < 2 ^ 53" using assms(3) by simp
  then have "fl_round (of_nat (Suc k)) = Fin (of_nat (Suc k))" using fl_round_int[of "int (Suc k)"] by simp
  then have rb: "0 \<le> r" "r \<le> of_nat (Suc k)"
    using fl_round_mono[of "p + a" "of_nat (Suc k)"] pq a r(1) by auto
  have t: "t = Fin r" by (simp add: assms(4) pq a r(1))
  have d: "\<exists>z. fl_add (fl_sub (Fin u) t) (Fin v) = Fin z \<and> \<bar>z\<bar> \<le> 3 / 2 ^ 32"
    if uv: "u + v = p + a" "0 \<le> u" "0 \<le> v" for u v
  proof -
    obtain y where y: "fl_round (u - r) = Fin y" "\<bar>y - (u - r)\<bar> \<le> 1 / 2 ^ 32"
      using fl_round_err[of "u - r"] uv pq a k rb by (auto simp: abs_le_iff)
    have yv: "\<bar>y + v\<bar> \<le> 2 / 2 ^ 32" using y(2) r(2) uv(1) by (simp add: abs_if split: if_splits)
    then obtain z where "fl_round (y + v) = Fin z" "\<bar>z - (y + v)\<bar> \<le> 1 / 2 ^ 32" using fl_round_err[of "y + v"] by auto
    then show ?thesis using y(1) yv by (auto simp: fl_sub_def fl_neg_def t abs_if split: if_splits)
  qed
  obtain z where z: "(if fl_le (fl_abs x) (fl_abs s) then fl_add (fl_sub s t) x else fl_add (fl_sub x t) s) = Fin z"
    "\<bar>z\<bar> \<le> 3 / 2 ^ 32" using d[of p a] d[of a p] pq(1,3) a by (cases "fl_le (fl_abs x) (fl_abs s)") (auto simp: add.commute)
  have "\<bar>q + z\<bar> \<le> 2 ^ 20" using pq(5) z(2) k by (auto simp: abs_if split: if_splits)
  from fl_round_err[OF this] obtain w where "fl_round (q + z) = Fin w" "\<bar>w - (q + z)\<bar> \<le> 1 / 2 ^ 32" by blast
  then have "fl_add c (Fin z) = Fin w" "\<bar>w\<bar> \<le> of_nat (Suc k) / 2 ^ 30" using pq(2,5) z(2) by (auto simp: abs_if field_simps split: if_splits)
  then show ?thesis unfolding z(1) using rb t by (auto simp: sum_inv_def)
qed

lemma neumaier_inv:
  "sum_inv k s c \<Longrightarrow> \<forall>x\<in>set xs. fl_unit x \<Longrightarrow> k + length xs \<le> 2 ^ 18 \<Longrightarrow>
   case neumaier s c xs of (s', c') \<Rightarrow> sum_inv (k + length xs) s' c'"
proof (induction s c xs arbitrary: k rule: neumaier.induct)
  case (2 s c x xs)
  have "sum_inv (Suc k) (fl_add s x) (fl_add c (if fl_le (fl_abs x) (fl_abs s)
      then fl_add (fl_sub s (fl_add s x)) x else fl_add (fl_sub x (fl_add s x)) s))"
    using neumaier_step[of k s c x] 2(2-) by simp
  from 2(1)[OF refl refl this] 2(3-) show ?case by (simp add: Let_def)
qed simp

lemma py_sum_bounds:
  assumes "\<forall>x\<in>set xs. fl_unit x" and "length xs \<le> 2 ^ 18"
  shows "\<exists>q. py_sum xs = Fin q \<and> - (of_nat (length xs) / 2 ^ 30 + 1 / 2 ^ 32) \<le> q
     \<and> q \<le> of_nat (length xs) + of_nat (length xs) / 2 ^ 30 + 1 / 2 ^ 32"
proof -
  have "sum_inv 0 (Fin 0) (Fin 0)" by (simp add: sum_inv_def)
  from neumaier_inv[OF this assms(1)] assms(2) obtain p q where
    n: "neumaier (Fin 0) (Fin 0) xs = (Fin p, Fin q)" "0 \<le> p" "p \<le> of_nat (length xs)" "\<bar>q\<bar> \<le> of_nat (length xs) / 2 ^ 30"
    by (auto simp: sum_inv_def split: prod.splits)
  have l: "(of_nat (length xs) :: rat) \<le> 2 ^ 18" using of_nat_mono[OF assms(2), where 'a = rat] by simp
  have "\<bar>p + q\<bar> \<le> 2 ^ 20" using n(2-4) l by (auto simp: abs_if split: if_splits)
  from fl_round_err[OF this] obtain r where "fl_round (p + q) = Fin r" "\<bar>r - (p + q)\<bar> \<le> 1 / 2 ^ 32" by blast
  then show ?thesis using n by (auto simp: py_sum_def abs_if field_simps split: if_splits)
qed

text \<open>The mean of scores, as \<^verbatim>\<open>sum(xs) / len(xs)\<close>; rounded to four places it is a score.\<close>

definition py_mean :: "pyfloat list \<Rightarrow> pyfloat option" where
  "py_mean xs = fl_div (py_sum xs) (Fin (of_nat (length xs)))"

lemma py_mean_score:
  assumes "\<forall>x\<in>set xs. fl_unit x" and "length xs \<le> 2 ^ 18" and "xs \<noteq> []"
  shows "\<exists>m. py_mean xs = Some (Fin m) \<and> \<bar>m\<bar> \<le> 2 \<and> fl_unit (py_round 4 (Fin m))"
proof -
  let ?n = "of_nat (length xs) :: rat"
  obtain q where q: "py_sum xs = Fin q" "- (?n / 2 ^ 30 + 1 / 2 ^ 32) \<le> q" "q \<le> ?n + ?n / 2 ^ 30 + 1 / 2 ^ 32"
    using py_sum_bounds[OF assms(1,2)] by auto
  have n: "1 \<le> ?n" using assms(3) by (cases xs) auto
  have b: "- (1 / 2 ^ 29) \<le> q / ?n" "q / ?n \<le> 1 + 1 / 2 ^ 29"
    using q(2,3) n by (auto simp: le_divide_eq divide_le_eq field_simps)
  have near: "\<bar>t\<bar> \<le> 2 ^ 20" if "- (1 / 2 ^ 29) \<le> t" "t \<le> 1 + 1 / 2 ^ 29" for t :: rat using that by (simp add: abs_le_iff)
  have "\<bar>q / ?n\<bar> \<le> 2 ^ 20" using b by (rule near)
  from fl_round_err[OF this] obtain m where m: "fl_round (q / ?n) = Fin m" "\<bar>m - q / ?n\<bar> \<le> 1 / 2 ^ 32" by blast
  have "- (1 / 2 ^ 28) \<le> m \<and> m \<le> 1 + 1 / 2 ^ 28"
    if "\<bar>m - t\<bar> \<le> 1 / 2 ^ 32" "- (1 / 2 ^ 29) \<le> t" "t \<le> 1 + 1 / 2 ^ 29" for t :: rat
    using that by (simp add: abs_if split: if_splits)
  then have mb: "- (1 / 2 ^ 28) \<le> m" "m \<le> 1 + 1 / 2 ^ 28" using m(2) b by blast+
  have "round_half_even (m * 10 ^ 4) \<le> round_half_even ((1 + 1 / 2 ^ 28) * 10 ^ 4)"
    by (rule round_half_even_mono) (use mb(2) in simp)
  also have "\<dots> = 10 ^ 4" by code_simp
  finally have r1: "round_half_even (m * 10 ^ 4) \<le> 10 ^ 4" .
  have "round_half_even (- (1 / 2 ^ 28) * 10 ^ 4) \<le> round_half_even (m * 10 ^ 4)"
    by (rule round_half_even_mono) (use mb(1) in simp)
  moreover have "round_half_even (- (1 / 2 ^ 28) * 10 ^ 4) = 0" by code_simp
  ultimately have r0: "0 \<le> round_half_even (m * 10 ^ 4)" by simp
  have "(of_int (round_half_even (m * 10 ^ 4)) :: rat) / 10 ^ 4 \<le> 1" using r1 by simp
  moreover have "fl_round 1 = Fin 1" using fl_round_int[of 1] by simp
  ultimately have "fl_unit (py_round 4 (Fin m))"
    using fl_round_mono[of "of_int (round_half_even (m * 10 ^ 4)) / 10 ^ 4" 1] r0
    by (cases "py_round 4 (Fin m)") (auto simp: py_round_def fl_le_def)
  moreover have "\<bar>m\<bar> \<le> 2" using mb by (auto simp: abs_if split: if_splits)
  ultimately show ?thesis using q(1) m(1) n by (auto simp: py_mean_def fl_div_def)
qed

section \<open>Evaluation\<close>

text \<open>
  Code equations over the integers. A number below \<open>2 ^ 1023\<close> does not overflow, so the test against \<open>2 ^ 1024\<close> is
  rarely evaluated.
\<close>

lemma fl_round_no_overflow:
  "fl_round x =
     (if x = 0 then Fin 0
      else let e = ulp_exp \<bar>x\<bar>; m = of_int (round_half_even (\<bar>x\<bar> / rat_pow2 e)) * rat_pow2 e
           in if 970 < e \<and> 2 ^ 1024 \<le> m then (if 0 < x then PosInf else NegInf)
              else Fin (if 0 < x then m else - m))"
proof -
  have "fl_magnitude y < 2 ^ 1024" if "0 < y" "ulp_exp y \<le> 970" for y
  proof -
    let ?u = "rat_pow2 (ulp_exp y)"
    have "y / ?u \<le> of_int (2 ^ 53)" using ulp_exp_bounds(1)[OF that(1)] rat_pow2_pos[of "ulp_exp y"] by (simp add: divide_le_eq)
    then have "round_half_even (y / ?u) \<le> 2 ^ 53" by (rule round_half_even_le)
    then have "(of_int (round_half_even (y / ?u)) :: rat) \<le> of_int (2 ^ 53)" by (simp only: of_int_le_iff)
    then have "fl_magnitude y \<le> 2 ^ 53 * ?u" using rat_pow2_pos[of "ulp_exp y"] by (simp add: fl_magnitude_def)
    also have "\<dots> \<le> 2 ^ 53 * rat_pow2 970" using rat_pow2_mono[OF that(2)] by simp
    also have "\<dots> = 2 ^ 1023" by (simp add: rat_pow2_def)
    also have "\<dots> < 2 ^ 1024" by (rule power_strict_increasing) simp_all
    finally show ?thesis .
  qed
  then have "x \<noteq> 0 \<Longrightarrow> 2 ^ 1024 \<le> fl_magnitude \<bar>x\<bar> \<longleftrightarrow> 970 < ulp_exp \<bar>x\<bar> \<and> 2 ^ 1024 \<le> fl_magnitude \<bar>x\<bar>"
    by (meson not_less zero_less_abs_iff)
  then show ?thesis unfolding fl_round_def Let_def fl_magnitude_def[symmetric] by argo
qed

definition div_half_even :: "int \<Rightarrow> int \<Rightarrow> int" where
  "div_half_even n d = (let q = n div d; r = 2 * (n mod d)
     in if r < d then q else if d < r then q + 1 else if even q then q else q + 1)"

lemma round_half_even_quotient:
  assumes "0 < d"
  shows "round_half_even (of_int n / of_int d) = div_half_even n d"
proof -
  have f: "\<lfloor>(of_int n / of_int d :: rat)\<rfloor> = n div d" by (rule floor_divide_of_int_eq)
  have "of_int n = (of_int (n div d * d + n mod d) :: rat)" by simp
  then have "of_int n = of_int (n div d) * of_int d + (of_int (n mod d) :: rat)" by (simp only: of_int_add of_int_mult)
  then have r: "(of_int n / of_int d :: rat) - of_int (n div d) = of_int (n mod d) / of_int d"
    using assms by (simp add: field_simps)
  have c: "(of_int (n mod d) / of_int d :: rat) < 1 / 2 \<longleftrightarrow> 2 * (n mod d) < d"
    "(1 / 2 :: rat) < of_int (n mod d) / of_int d \<longleftrightarrow> d < 2 * (n mod d)"
  proof -
    have "(of_int (n mod d) / of_int d :: rat) < 1 / 2 \<longleftrightarrow> of_int (2 * (n mod d)) < (of_int d :: rat)"
      using assms by (simp add: divide_less_eq mult.commute)
    then show "(of_int (n mod d) / of_int d :: rat) < 1 / 2 \<longleftrightarrow> 2 * (n mod d) < d" by (simp only: of_int_less_iff)
    have "(1 / 2 :: rat) < of_int (n mod d) / of_int d \<longleftrightarrow> (of_int d :: rat) < of_int (2 * (n mod d))"
      using assms by (simp add: less_divide_eq mult.commute)
    then show "(1 / 2 :: rat) < of_int (n mod d) / of_int d \<longleftrightarrow> d < 2 * (n mod d)" by (simp only: of_int_less_iff)
  qed
  show ?thesis unfolding round_half_even_def div_half_even_def Let_def f r c ..
qed

lemma rat_pow2_quotient: "rat_pow2 e = of_int (2 ^ nat e) / of_int (2 ^ nat (- e))"
  by (simp add: rat_pow2_def)

lemma quotient_pow2:
  assumes "quotient_of x = (n, d)"
  shows "x / rat_pow2 e = of_int (n * 2 ^ nat (- e)) / of_int (d * 2 ^ nat e)" "0 < d * 2 ^ nat e"
  using quotient_of_div[OF assms] quotient_of_denom_pos[OF assms] by (simp_all add: rat_pow2_quotient)

lemma ulp_exp_code [code]:
  "ulp_exp x =
     (let (n, d) = quotient_of x;
          e0 = bitlen n - bitlen d - 53;
          e = (if n * 2 ^ nat (- e0) < 9007199254740992 * (d * 2 ^ nat e0) then e0 else e0 + 1)
      in max e (- 1074))"
proof -
  obtain n d where q: "quotient_of x = (n, d)" by (cases "quotient_of x")
  have "x / rat_pow2 e < 2 ^ 53 \<longleftrightarrow> n * 2 ^ nat (- e) < 9007199254740992 * (d * 2 ^ nat e)" for e
  proof -
    have "x / rat_pow2 e < 2 ^ 53 \<longleftrightarrow> of_int (n * 2 ^ nat (- e)) < (of_int (9007199254740992 * (d * 2 ^ nat e)) :: rat)"
      using quotient_of_denom_pos[OF q] unfolding quotient_pow2(1)[OF q] by (simp add: pos_divide_less_eq)
    then show ?thesis by (simp only: of_int_less_iff)
  qed
  then show ?thesis by (simp add: ulp_exp_def q Let_def)
qed

lemma fl_round_code [code]:
  "fl_round x =
     (let (n, d) = quotient_of x in
      if n = 0 then Fin 0
      else let e = ulp_exp \<bar>x\<bar>; m = div_half_even (\<bar>n\<bar> * 2 ^ nat (- e)) (d * 2 ^ nat e);
               v = of_int (m * 2 ^ nat e) / of_int (2 ^ nat (- e))
           in if 970 < e \<and> 2 ^ 1024 \<le> v then (if 0 < n then PosInf else NegInf)
              else Fin (if 0 < n then v else - v))"
proof -
  obtain n d where q: "quotient_of x = (n, d)" by (cases "quotient_of x")
  have d: "0 < d" using quotient_of_denom_pos[OF q] .
  have x: "x = of_int n / of_int d" using quotient_of_div[OF q] .
  have z: "x = 0 \<longleftrightarrow> n = 0" "0 < x \<longleftrightarrow> 0 < n" using d by (auto simp: x zero_less_divide_iff)
  let ?e = "ulp_exp \<bar>x\<bar>"
  have "\<bar>x\<bar> / rat_pow2 ?e = of_int (\<bar>n\<bar> * 2 ^ nat (- ?e)) / of_int (d * 2 ^ nat ?e)"
    using d by (simp add: x rat_pow2_quotient abs_divide)
  moreover have "0 < d * 2 ^ nat ?e" using d by simp
  ultimately have m: "round_half_even (\<bar>x\<bar> / rat_pow2 ?e) = div_half_even (\<bar>n\<bar> * 2 ^ nat (- ?e)) (d * 2 ^ nat ?e)"
    by (simp only: round_half_even_quotient)
  have v: "of_int k * rat_pow2 e = of_int (k * 2 ^ nat e) / of_int (2 ^ nat (- e))" for k e by (simp add: rat_pow2_quotient)
  show ?thesis unfolding fl_round_no_overflow q prod.case z(1,2)[symmetric] Let_def m v ..
qed

lemma py_round_code [code]:
  "py_round n x = (case x of
       Fin q \<Rightarrow> (let (a, b) = quotient_of q in fl_round (of_int (div_half_even (a * 10 ^ n) b) / of_int (10 ^ n)))
     | _ \<Rightarrow> x)"
proof (cases x)
  case (Fin q)
  obtain a b where q: "quotient_of q = (a, b)" by (cases "quotient_of q")
  have "q * 10 ^ n = of_int (a * 10 ^ n) / of_int b" using quotient_of_div[OF q] by simp
  then have "round_half_even (q * 10 ^ n) = div_half_even (a * 10 ^ n) b"
    by (simp only: round_half_even_quotient[OF quotient_of_denom_pos[OF q]])
  then show ?thesis by (simp add: py_round_def Fin q)
qed (simp_all add: py_round_def)

fun num_bits :: "num \<Rightarrow> int" where
  "num_bits num.One = 1"
| "num_bits (num.Bit0 n) = num_bits n + 1"
| "num_bits (num.Bit1 n) = num_bits n + 1"

lemma bitlen_step: "0 < x \<Longrightarrow> bitlen x = bitlen (x div 2) + 1" for x :: int
  by (subst compute_bitlen) simp

lemma bitlen_numeral_bits: "bitlen (numeral n) = num_bits n"
proof (induction n)
  case One
  show ?case using bitlen_step[of 1] by simp
next
  case (Bit0 n)
  then show ?case using bitlen_step[of "numeral (num.Bit0 n)"] by simp
next
  case (Bit1 n)
  then show ?case using bitlen_step[of "numeral (num.Bit1 n)"] by simp
qed

lemma bitlen_code [code]: "bitlen 0 = 0" "bitlen (Int.Pos n) = num_bits n" "bitlen (Int.Neg n) = 0"
  by (simp_all add: bitlen_numeral_bits bitlen_eq_zero_iff)

end
