(* ===== verification/Signals.thy ===== *)
theory Signals
  imports Py_Float Prelude "HOL-Library.AList"
begin

text \<open>
  The objects that the decision pipeline exchanges: verdicts, severities, findings, the policy snapshot
  (\<^verbatim>\<open>domain/verdict.py\<close>, \<^verbatim>\<open>domain/severity.py\<close>, \<^verbatim>\<open>domain/finding.py\<close>, \<^verbatim>\<open>domain/policy.py\<close>), the specialist
  bundle (\<^verbatim>\<open>specialists/base.py\<close>), the semantic analysis (\<^verbatim>\<open>semantic/schema.py\<close>) and the agent signals
  (\<^verbatim>\<open>domain/agent_signal.py\<close>), with the properties they compute.

  Correspondence. A model class is a record; its field constraints and validators are a boolean function
  \<open>\<dots>_ok\<close> or a constructor that returns the exception. Descriptive texts, metadata and timestamps that no
  modelled code reads have no field. A \<^verbatim>\<open>dict\<close> is an association list in insertion order.
\<close>

section \<open>Strings\<close>

text \<open>Exceptions of the validators and lookups.\<close>

datatype value_error = TypeError | ValueError | ZeroDivisionError

text \<open>Removal of duplicates up to case, keeping the first occurrence.\<close>

fun dedupe_fold :: "string list \<Rightarrow> string list \<Rightarrow> string list" where
  "dedupe_fold seen [] = []"
| "dedupe_fold seen (x # xs) =
     (if py_casefold x \<in> set seen then dedupe_fold seen xs
      else x # dedupe_fold (py_casefold x # seen) xs)"

definition dedupe_preserve_order :: "string list \<Rightarrow> string list" where
  "dedupe_preserve_order xs = dedupe_fold [] xs"

definition normalize_non_blank :: "string \<Rightarrow> value_error + string" where
  "normalize_non_blank s = (if py_strip s = [] then Inl ValueError else Inr (py_strip s))"

definition normalize_string_sequence :: "string list \<Rightarrow> value_error + string list" where
  "normalize_string_sequence xs = sbind (err_map normalize_non_blank xs) (\<lambda>ys. Inr (dedupe_preserve_order ys))"

text \<open>The sequences that the normalisation returns: stripped, not blank, distinct up to case.\<close>

definition norm_strings :: "string list \<Rightarrow> bool" where
  "norm_strings xs \<longleftrightarrow> (\<forall>x\<in>set xs. py_strip x = x \<and> x \<noteq> []) \<and> distinct (map py_casefold xs)"

section \<open>Verdicts, severities and findings\<close>

datatype Verdict = PERMIT | ABSTAIN | FORBID

fun verdict_rank :: "Verdict \<Rightarrow> nat" where
  "verdict_rank PERMIT = 0"
| "verdict_rank ABSTAIN = 1"
| "verdict_rank FORBID = 2"

fun verdict_value :: "Verdict \<Rightarrow> string" where
  "verdict_value PERMIT = ''PERMIT''"
| "verdict_value ABSTAIN = ''ABSTAIN''"
| "verdict_value FORBID = ''FORBID''"

datatype Severity = INFO | WARNING | CRITICAL

fun severity_value :: "Severity \<Rightarrow> string" where
  "severity_value INFO = ''INFO''"
| "severity_value WARNING = ''WARNING''"
| "severity_value CRITICAL = ''CRITICAL''"

fun severity_rank :: "Severity \<Rightarrow> nat" where
  "severity_rank INFO = 1"
| "severity_rank WARNING = 2"
| "severity_rank CRITICAL = 3"

record finding =
  fd_source :: string
  fd_rule_name :: string
  fd_severity :: Severity
  fd_message :: string
  fd_matched_text :: "string option"
  fd_start_index :: "nat option"
  fd_end_index :: "nat option"

text \<open>
  Construction of a finding. Lengths are checked on the given text, the text is stripped afterwards. An
  \<^verbatim>\<open>end_index\<close> that is left out is not validated, so a start index alone is accepted.
\<close>

definition finding_text :: "nat \<Rightarrow> string \<Rightarrow> value_error + string" where
  "finding_text n s = (if s = [] \<or> n < length s then Inl ValueError else normalize_non_blank s)"

definition Finding_init :: "finding \<Rightarrow> value_error + finding" where
  "Finding_init f =
     sbind (finding_text 100 (fd_source f)) (\<lambda>src.
     sbind (finding_text 150 (fd_rule_name f)) (\<lambda>rule.
     sbind (finding_text 500 (fd_message f)) (\<lambda>msg.
     sbind (case fd_matched_text f of None \<Rightarrow> Inr None
            | Some t \<Rightarrow> if 1000 < length t then Inl ValueError else sbind (normalize_non_blank t) (\<lambda>t'. Inr (Some t'))) (\<lambda>mt.
     (case (fd_start_index f, fd_end_index f) of
        (None, Some e) \<Rightarrow> Inl ValueError
      | (Some s, Some e) \<Rightarrow> if e \<le> s then Inl ValueError
          else Inr (f\<lparr>fd_source := src, fd_rule_name := rule, fd_message := msg, fd_matched_text := mt\<rparr>)
      | _ \<Rightarrow> Inr (f\<lparr>fd_source := src, fd_rule_name := rule, fd_message := msg, fd_matched_text := mt\<rparr>))))))"

section \<open>The policy snapshot\<close>

definition fl_lit :: "nat \<Rightarrow> nat \<Rightarrow> pyfloat" where
  "fl_lit n k = fl_round (of_nat n / 10 ^ k)"

definition allowed_fusion_keys :: "string list" where
  "allowed_fusion_keys = [''deterministic'', ''specialists'', ''semantic'', ''criticality'',
     ''agent_identity'', ''agent_capability'', ''agent_behavioral'']"

definition default_fusion_weights :: "(string \<times> pyfloat) list" where
  "default_fusion_weights = [(''deterministic'', fl_lit 234 3), (''specialists'', fl_lit 195 3),
     (''semantic'', fl_lit 273 3), (''criticality'', fl_lit 78 3),
     (''agent_identity'', fl_lit 60 3), (''agent_capability'', fl_lit 90 3), (''agent_behavioral'', fl_lit 70 3)]"

record policy =
  ps_policy_id :: string
  ps_version :: string
  ps_is_active :: bool
  ps_permit_threshold :: pyfloat
  ps_forbid_threshold :: pyfloat
  ps_minimum_confidence :: pyfloat
  ps_block_severities :: "Severity list"
  ps_enabled_recognizers :: "string list"
  ps_blocked_terms :: "string list"
  ps_sensitive_entities :: "string list"
  ps_retrieval_top_k :: int
  ps_precedent_lookback_limit :: int
  ps_precedent_autoresolve :: bool
  ps_precedent_autoresolve_min_count :: int
  ps_precedent_autoresolve_freshness_days :: int
  ps_precedent_autoresolve_min_confidence :: pyfloat
  ps_specialist_thresholds :: "(string \<times> pyfloat) list"
  ps_action_criticality :: "(string \<times> pyfloat) list"
  ps_channel_criticality :: "(string \<times> pyfloat) list"
  ps_environment_criticality :: "(string \<times> pyfloat) list"
  ps_fusion_weights :: "(string \<times> pyfloat) list"

text \<open>\<^verbatim>\<open>_normalize_float_mapping\<close>: keys are stripped and folded, a key that comes again overwrites.\<close>

fun normalize_float_mapping ::
    "string list option \<Rightarrow> (string \<times> pyfloat) list \<Rightarrow> (string \<times> pyfloat) list \<Rightarrow> value_error + (string \<times> pyfloat) list" where
  "normalize_float_mapping allowed acc [] = Inr acc"
| "normalize_float_mapping allowed acc ((k, v) # kvs) =
     (let key = py_casefold (py_strip k) in
      if key = [] then Inl ValueError
      else if (case allowed of None \<Rightarrow> False | Some ks \<Rightarrow> key \<notin> set ks) then Inl ValueError
      else if \<not> fl_unit v then Inl ValueError
      else normalize_float_mapping allowed (AList.update key v acc) kvs)"

definition normalize_fusion_weights :: "(string \<times> pyfloat) list \<Rightarrow> value_error + (string \<times> pyfloat) list" where
  "normalize_fusion_weights kvs =
     sbind (normalize_float_mapping (Some allowed_fusion_keys) [] kvs) (\<lambda>ws.
       if set allowed_fusion_keys \<subseteq> set (map fst ws) then Inr ws else Inl ValueError)"

definition normalize_block_severities :: "Severity list \<Rightarrow> value_error + Severity list" where
  "normalize_block_severities xs = (if xs = [] then Inl ValueError else Inr (rev (remdups (rev xs))))"

definition validate_policy_snapshot :: "policy \<Rightarrow> value_error + policy" where
  "validate_policy_snapshot p =
     (if fl_le (ps_forbid_threshold p) (ps_permit_threshold p) then Inl ValueError
      else if \<not> fl_unit (ps_minimum_confidence p) then Inl ValueError
      else if fl_less (fl_lit 1 6) (fl_abs (fl_sub (py_sum (map snd (ps_fusion_weights p))) (Fin 1))) then Inl ValueError
      else Inr p)"

definition policy_text :: "nat \<Rightarrow> bool \<Rightarrow> string \<Rightarrow> value_error + string" where
  "policy_text n lowercase s = sbind (normalize_non_blank s) (\<lambda>t.
     let t' = (if lowercase then py_casefold t else t) in if n < length t' then Inl ValueError else Inr t')"

definition policy_limits :: "policy \<Rightarrow> bool" where
  "policy_limits p \<longleftrightarrow> ps_retrieval_top_k p \<in> {1..50} \<and> ps_precedent_lookback_limit p \<in> {1..500}
     \<and> ps_precedent_autoresolve_min_count p \<in> {3..1000} \<and> ps_precedent_autoresolve_freshness_days p \<in> {1..3650}
     \<and> fl_unit (ps_precedent_autoresolve_min_confidence p)"

definition PolicySnapshot_init :: "policy \<Rightarrow> value_error + policy" where
  "PolicySnapshot_init p =
     sbind (policy_text 255 True (ps_policy_id p)) (\<lambda>pid.
     sbind (policy_text 100 False (ps_version p)) (\<lambda>ver.
     if \<not> (fl_unit (ps_permit_threshold p) \<and> fl_unit (ps_forbid_threshold p) \<and> fl_unit (ps_minimum_confidence p))
     then Inl ValueError else
     sbind (normalize_block_severities (ps_block_severities p)) (\<lambda>sev.
     sbind (normalize_string_sequence (ps_enabled_recognizers p)) (\<lambda>rec.
     sbind (normalize_string_sequence (ps_blocked_terms p)) (\<lambda>terms.
     sbind (normalize_string_sequence (ps_sensitive_entities p)) (\<lambda>ents.
     if \<not> policy_limits p then Inl ValueError else
     sbind (normalize_float_mapping None [] (ps_specialist_thresholds p)) (\<lambda>spec.
     sbind (normalize_float_mapping None [] (ps_action_criticality p)) (\<lambda>act.
     sbind (normalize_float_mapping None [] (ps_channel_criticality p)) (\<lambda>chan.
     sbind (normalize_float_mapping None [] (ps_environment_criticality p)) (\<lambda>env.
     sbind (normalize_fusion_weights (ps_fusion_weights p)) (\<lambda>ws.
     validate_policy_snapshot
       (p\<lparr>ps_policy_id := pid, ps_version := ver, ps_block_severities := sev, ps_enabled_recognizers := rec,
          ps_blocked_terms := terms, ps_sensitive_entities := ents,
          ps_specialist_thresholds := spec, ps_action_criticality := act, ps_channel_criticality := chan,
          ps_environment_criticality := env, ps_fusion_weights := ws\<rparr>))))))))))))"

definition normalize_lookup_key :: "string \<Rightarrow> value_error + string" where
  "normalize_lookup_key s = sbind (normalize_non_blank s) (\<lambda>t. Inr (py_casefold t))"

definition score_lookup :: "'v \<Rightarrow> ('k \<times> 'v) list \<Rightarrow> 'k \<Rightarrow> 'v" where
  "score_lookup d kvs k = (case map_of kvs k of None \<Rightarrow> d | Some v \<Rightarrow> v)"

definition criticality_for :: "policy \<Rightarrow> string \<Rightarrow> string \<Rightarrow> string \<Rightarrow> value_error + pyfloat" where
  "criticality_for p action_type channel environment =
     sbind (normalize_lookup_key action_type) (\<lambda>a.
     sbind (normalize_lookup_key channel) (\<lambda>c.
     sbind (normalize_lookup_key environment) (\<lambda>e.
       let total = fl_add (fl_add (score_lookup (Fin 0) (ps_action_criticality p) a)
                                  (score_lookup (Fin 0) (ps_channel_criticality p) c))
                          (score_lookup (Fin 0) (ps_environment_criticality p) e)
       in case fl_div total (Fin 3) of None \<Rightarrow> Inl ZeroDivisionError | Some q \<Rightarrow> Inr q)))"

definition specialist_threshold_for :: "policy \<Rightarrow> string \<Rightarrow> value_error + pyfloat option" where
  "specialist_threshold_for p name = sbind (normalize_lookup_key name) (\<lambda>k. Inr (map_of (ps_specialist_thresholds p) k))"

definition blocks_severity :: "policy \<Rightarrow> Severity \<Rightarrow> bool" where
  "blocks_severity p s \<longleftrightarrow> s \<in> set (ps_block_severities p)"

text \<open>What a snapshot that was constructed satisfies.\<close>

definition scores_ok :: "(string \<times> pyfloat) list \<Rightarrow> bool" where
  "scores_ok kvs \<longleftrightarrow> (\<forall>v\<in>set (map snd kvs). fl_unit v)"

definition policy_ok :: "policy \<Rightarrow> bool" where
  "policy_ok p \<longleftrightarrow> fl_unit (ps_permit_threshold p) \<and> fl_unit (ps_forbid_threshold p)
     \<and> fl_unit (ps_minimum_confidence p) \<and> fl_less (ps_permit_threshold p) (ps_forbid_threshold p)
     \<and> ps_block_severities p \<noteq> []
     \<and> scores_ok (ps_action_criticality p) \<and> scores_ok (ps_channel_criticality p)
     \<and> scores_ok (ps_environment_criticality p) \<and> scores_ok (ps_fusion_weights p)
     \<and> set (map fst (ps_fusion_weights p)) = set allowed_fusion_keys \<and> distinct (map fst (ps_fusion_weights p))"

section \<open>Specialist results\<close>

record specialist_result =
  sp_specialist_name :: string
  sp_risk_score :: pyfloat
  sp_confidence :: pyfloat
  sp_evidence :: "string list"
  sp_matched_policy_clause_ids :: "string list"
  sp_uncertainty_flags :: "string list"

type_synonym specialist_bundle = "specialist_result list"

definition specialist_ok :: "specialist_result \<Rightarrow> bool" where
  "specialist_ok r \<longleftrightarrow> sp_specialist_name r \<noteq> [] \<and> py_strip (sp_specialist_name r) = sp_specialist_name r
     \<and> length (sp_specialist_name r) \<le> 100
     \<and> fl_unit (sp_risk_score r) \<and> fl_float (sp_risk_score r) \<and> fl_unit (sp_confidence r)
     \<and> norm_strings (sp_matched_policy_clause_ids r) \<and> norm_strings (sp_uncertainty_flags r)"

definition bundle_ok :: "specialist_bundle \<Rightarrow> bool" where
  "bundle_ok b \<longleftrightarrow> (\<forall>r\<in>set b. specialist_ok r) \<and> distinct (map sp_specialist_name b)"

text \<open>\<^verbatim>\<open>max(scores, default=d)\<close>: the first of the largest.\<close>

definition py_max_default :: "pyfloat \<Rightarrow> pyfloat list \<Rightarrow> pyfloat" where
  "py_max_default d xs = (case xs of [] \<Rightarrow> d | x # ys \<Rightarrow> foldl py_max x ys)"

definition max_risk_score :: "specialist_bundle \<Rightarrow> pyfloat" where
  "max_risk_score b = py_max_default (Fin 0) (map sp_risk_score b)"

definition bundle_uncertainty_flags :: "specialist_bundle \<Rightarrow> string list" where
  "bundle_uncertainty_flags b = dedupe_preserve_order (concat (map sp_uncertainty_flags b))"

section \<open>The semantic analysis\<close>

record dimension_result =
  dr_dimension :: string
  dr_score :: pyfloat
  dr_confidence :: pyfloat
  dr_evidence_spans :: "string list"
  dr_matched_policy_clause_ids :: "string list"
  dr_uncertainty_flags :: "string list"

record verdict_recommendation =
  sr_verdict :: Verdict
  sr_confidence :: pyfloat
  sr_uncertainty_flags :: "string list"

record semantic_analysis =
  sa_dimension_results :: "dimension_result list"
  sa_recommended_verdict :: verdict_recommendation
  sa_overall_confidence :: pyfloat
  sa_evidence_sufficiency :: pyfloat
  sa_uncertainty_flags :: "string list"

definition allowed_dimensions :: "string list" where
  "allowed_dimensions = [''policy_compliance'', ''data_leakage'', ''external_sharing'',
     ''unauthorized_commitment'', ''destructive_or_bypass'']"

definition dimension_ok :: "dimension_result \<Rightarrow> bool" where
  "dimension_ok r \<longleftrightarrow> dr_dimension r \<in> set allowed_dimensions \<and> fl_unit (dr_score r) \<and> fl_unit (dr_confidence r)
     \<and> norm_strings (dr_matched_policy_clause_ids r) \<and> norm_strings (dr_uncertainty_flags r)"

definition validate_dimension_coverage :: "dimension_result list \<Rightarrow> bool" where
  "validate_dimension_coverage rs \<longleftrightarrow> length rs = length allowed_dimensions
     \<and> distinct (map dr_dimension rs) \<and> set (map dr_dimension rs) = set allowed_dimensions"

definition semantic_ok :: "semantic_analysis \<Rightarrow> bool" where
  "semantic_ok s \<longleftrightarrow> (\<forall>r\<in>set (sa_dimension_results s). dimension_ok r)
     \<and> validate_dimension_coverage (sa_dimension_results s)
     \<and> fl_unit (sr_confidence (sa_recommended_verdict s)) \<and> norm_strings (sr_uncertainty_flags (sa_recommended_verdict s))
     \<and> fl_unit (sa_overall_confidence s) \<and> fl_unit (sa_evidence_sufficiency s) \<and> norm_strings (sa_uncertainty_flags s)"

definition semantic_clause_ids :: "semantic_analysis \<Rightarrow> string list" where
  "semantic_clause_ids s = dedupe_preserve_order (concat (map dr_matched_policy_clause_ids (sa_dimension_results s)))"

text \<open>The validator admits exactly five results, so the \<^verbatim>\<open>max\<close> of no score, which raises, does not occur.\<close>

definition max_dimension_score :: "semantic_analysis \<Rightarrow> pyfloat" where
  "max_dimension_score s = py_max_default (Fin 0) (map dr_score (sa_dimension_results s))"

definition is_low_confidence :: "dimension_result \<Rightarrow> bool" where
  "is_low_confidence r = fl_less (dr_confidence r) (fl_lit 5 1)"

definition has_low_confidence_dimension :: "semantic_analysis \<Rightarrow> bool" where
  "has_low_confidence_dimension s = list_ex is_low_confidence (sa_dimension_results s)"

section \<open>Agent signals\<close>

record agent_stream =
  as_risk_score :: pyfloat
  as_confidence :: pyfloat
  as_findings :: "finding list"
  as_reasons :: "string list"
  as_uncertainty_flags :: "string list"

record identity_signal = agent_stream +
  id_lifecycle_status :: string

record capability_signal = agent_stream +
  cs_violated_dimensions :: "string list"

record behavioral_signal = agent_stream +
  bh_cold_start :: bool
  bh_forbid_streak :: nat

record agent_bundle =
  ab_agent_present :: bool
  ab_identity :: identity_signal
  ab_capability :: capability_signal
  ab_behavioral :: behavioral_signal

definition stream_ok :: "'a agent_stream_scheme \<Rightarrow> bool" where
  "stream_ok s \<longleftrightarrow> fl_unit (as_risk_score s) \<and> fl_unit (as_confidence s)
     \<and> norm_strings (as_reasons s) \<and> norm_strings (as_uncertainty_flags s)"

definition agent_ok :: "agent_bundle \<Rightarrow> bool" where
  "agent_ok a \<longleftrightarrow> stream_ok (ab_identity a) \<and> stream_ok (ab_capability a) \<and> stream_ok (ab_behavioral a)"

definition has_capability_violations :: "agent_bundle \<Rightarrow> bool" where
  "has_capability_violations a \<longleftrightarrow> cs_violated_dimensions (ab_capability a) \<noteq> []"

definition aggregate_confidence :: "agent_bundle \<Rightarrow> pyfloat" where
  "aggregate_confidence a = py_min (py_min (as_confidence (ab_identity a)) (as_confidence (ab_capability a)))
     (as_confidence (ab_behavioral a))"

definition agent_all_findings :: "agent_bundle \<Rightarrow> finding list" where
  "agent_all_findings a = as_findings (ab_identity a) @ as_findings (ab_capability a) @ as_findings (ab_behavioral a)"

definition agent_all_uncertainty_flags :: "agent_bundle \<Rightarrow> string list" where
  "agent_all_uncertainty_flags a = dedupe_preserve_order
     (as_uncertainty_flags (ab_identity a) @ as_uncertainty_flags (ab_capability a) @ as_uncertainty_flags (ab_behavioral a))"

section \<open>Normalised sequences\<close>

lemma dedupe_fold_set: "set (dedupe_fold seen xs) \<subseteq> set xs"
  by (induction seen xs rule: dedupe_fold.induct) auto

lemma dedupe_fold_distinct:
  "distinct (map py_casefold (dedupe_fold seen xs)) \<and> py_casefold ` set (dedupe_fold seen xs) \<inter> set seen = {}"
  by (induction seen xs rule: dedupe_fold.induct) auto

lemma dedupe_fold_id:
  "distinct (map py_casefold xs) \<Longrightarrow> py_casefold ` set xs \<inter> set seen = {} \<Longrightarrow> dedupe_fold seen xs = xs"
  by (induction seen xs rule: dedupe_fold.induct) auto

lemma dedupe_fold_keys: "py_casefold ` set (dedupe_fold seen xs) = py_casefold ` set xs - set seen"
  by (induction seen xs rule: dedupe_fold.induct) auto

lemma dedupe_preserve_order_norm:
  "\<forall>x\<in>set xs. py_strip x = x \<and> x \<noteq> [] \<Longrightarrow> norm_strings (dedupe_preserve_order xs)"
  using dedupe_fold_distinct[of "[]" xs] dedupe_fold_set[of "[]" xs]
  by (auto simp: norm_strings_def dedupe_preserve_order_def)

lemma norm_stringsD: "norm_strings xs \<Longrightarrow> \<forall>x\<in>set xs. py_strip x = x \<and> x \<noteq> []"
  by (simp add: norm_strings_def)

lemma dropWhile_rev_strip: "dropWhile P (rev (dropWhile P (rev (dropWhile P xs)))) = rev (dropWhile P (rev (dropWhile P xs)))"
proof (cases "dropWhile P xs")
  case (Cons y ys)
  then have y: "\<not> P y" by (metis dropWhile_eq_Cons_conv)
  have "dropWhile P (rev (y # ys)) = dropWhile P (rev ys) @ [y]" using y by (simp add: dropWhile_append)
  then show ?thesis using Cons y by simp
next
  case Nil
  then show ?thesis by (simp only: rev.simps dropWhile.simps)
qed

lemma py_strip_idem [simp]: "py_strip (py_strip s) = py_strip s"
  by (simp add: py_strip_def dropWhile_rev_strip)

lemma normalize_non_blank_Inr: "normalize_non_blank s = Inr t \<longleftrightarrow> t = py_strip s \<and> t \<noteq> []"
  by (auto simp: normalize_non_blank_def)

lemma normalize_string_sequence_norm:
  "normalize_string_sequence xs = Inr ys \<Longrightarrow> norm_strings ys"
  by (auto simp: normalize_string_sequence_def sbind_rules normalize_non_blank_Inr
      intro!: dedupe_preserve_order_norm dest!: err_map_source)

lemma err_map_id: "\<forall>x\<in>set xs. f x = Inr x \<Longrightarrow> err_map f xs = Inr xs"
  by (induction xs) auto

lemma normalize_string_sequence_id:
  assumes "norm_strings xs"
  shows "normalize_string_sequence xs = Inr xs"
proof -
  have "err_map normalize_non_blank xs = Inr xs"
    using assms by (intro err_map_id) (auto simp: norm_strings_def normalize_non_blank_Inr)
  then show ?thesis using assms
    by (simp add: normalize_string_sequence_def dedupe_preserve_order_def norm_strings_def dedupe_fold_id)
qed

lemma normalize_string_sequence_total:
  assumes "\<forall>x\<in>set xs. py_strip x \<noteq> []"
  shows "normalize_string_sequence xs = Inr (dedupe_preserve_order (map py_strip xs))"
proof -
  have "err_map normalize_non_blank xs = Inr (map py_strip xs)"
    using assms by (induction xs) (auto simp: normalize_non_blank_def)
  then show ?thesis by (simp add: normalize_string_sequence_def)
qed

section \<open>Constructed snapshots are valid\<close>

lemma normalize_float_mapping_ok:
  "normalize_float_mapping allowed acc kvs = Inr r \<Longrightarrow> scores_ok acc \<Longrightarrow> distinct (map fst acc) \<Longrightarrow>
   (\<forall>ks. allowed = Some ks \<longrightarrow> fst ` set acc \<subseteq> set ks) \<Longrightarrow>
   scores_ok r \<and> distinct (map fst r) \<and> (\<forall>ks. allowed = Some ks \<longrightarrow> fst ` set r \<subseteq> set ks)"
proof (induction allowed acc kvs rule: normalize_float_mapping.induct)
  case (2 allowed acc k v kvs)
  let ?key = "py_casefold (py_strip k)"
  have c: "?key \<noteq> []" "fl_unit v" "\<forall>ks. allowed = Some ks \<longrightarrow> ?key \<in> set ks"
    "normalize_float_mapping allowed (AList.update ?key v acc) kvs = Inr r"
    using 2(2) by (auto simp: Let_def split: if_splits option.splits)
  have u: "scores_ok (AList.update ?key v acc)"
    using 2(3) c(2) by (induction acc) (auto simp: scores_ok_def)
  have d: "distinct (map fst (AList.update ?key v acc))" using 2(4) by (rule distinct_update)
  have "fst ` set (AList.update ?key v acc) \<subseteq> insert ?key (fst ` set acc)" by (induction acc) auto
  moreover have "insert ?key (fst ` set acc) \<subseteq> set ks" if "allowed = Some ks" for ks
    using 2(5) c(3) that by (simp del: image_subset_iff)
  ultimately have k: "\<forall>ks. allowed = Some ks \<longrightarrow> fst ` set (AList.update ?key v acc) \<subseteq> set ks" using subset_trans by metis
  have a: "\<not> (case allowed of None \<Rightarrow> False | Some ks \<Rightarrow> ?key \<notin> set ks)" using c(3) by (simp split: option.splits)
  have f: "\<not> \<not> fl_unit v" using c(2) by simp
  show ?case by (rule 2(1)[OF refl c(1) a f c(4) u d k])
qed simp

lemma normalize_fusion_weights_ok:
  assumes "normalize_fusion_weights kvs = Inr ws"
  shows "scores_ok ws" "distinct (map fst ws)" "set (map fst ws) = set allowed_fusion_keys"
proof -
  have n: "normalize_float_mapping (Some allowed_fusion_keys) [] kvs = Inr ws" "set allowed_fusion_keys \<subseteq> set (map fst ws)"
    using assms by (auto simp: normalize_fusion_weights_def sbind_rules split: if_splits)
  have "scores_ok []" by (simp add: scores_ok_def)
  from normalize_float_mapping_ok[OF n(1) this] n(2)
  show "scores_ok ws" "distinct (map fst ws)" "set (map fst ws) = set allowed_fusion_keys" by auto
qed

lemma normalize_scores_ok: "normalize_float_mapping None [] kvs = Inr ws \<Longrightarrow> scores_ok ws"
  using normalize_float_mapping_ok[of None "[]" kvs ws] by (simp add: scores_ok_def)

lemma PolicySnapshot_init_ok:
  assumes "PolicySnapshot_init p = Inr q"
  shows "policy_ok q"
proof -
  obtain sev act chan env ws where
    u: "fl_unit (ps_permit_threshold p)" "fl_unit (ps_forbid_threshold p)" "fl_unit (ps_minimum_confidence p)" and
    n: "normalize_block_severities (ps_block_severities p) = Inr sev"
      "normalize_float_mapping None [] (ps_action_criticality p) = Inr act"
      "normalize_float_mapping None [] (ps_channel_criticality p) = Inr chan"
      "normalize_float_mapping None [] (ps_environment_criticality p) = Inr env"
      "normalize_fusion_weights (ps_fusion_weights p) = Inr ws" and
    q: "\<not> fl_le (ps_forbid_threshold p) (ps_permit_threshold p)"
      "ps_permit_threshold q = ps_permit_threshold p" "ps_forbid_threshold q = ps_forbid_threshold p"
      "ps_minimum_confidence q = ps_minimum_confidence p" "ps_block_severities q = sev"
      "ps_action_criticality q = act" "ps_channel_criticality q = chan" "ps_environment_criticality q = env"
      "ps_fusion_weights q = ws"
    using assms unfolding PolicySnapshot_init_def validate_policy_snapshot_def
    by (auto simp: sbind_rules split: if_splits)
  have "sev \<noteq> []" using n(1) by (auto simp: normalize_block_severities_def split: if_splits)
  moreover have "fl_less (ps_permit_threshold p) (ps_forbid_threshold p)"
    using u(1,2) q(1) by (auto simp: fl_unit_Fin)
  ultimately show ?thesis
    using u normalize_scores_ok[OF n(2)] normalize_scores_ok[OF n(3)] normalize_scores_ok[OF n(4)]
      normalize_fusion_weights_ok[OF n(5)]
    by (simp add: policy_ok_def q)
qed

section \<open>Largest scores\<close>

lemma foldl_py_max_unit: "fl_unit x \<Longrightarrow> \<forall>y\<in>set ys. fl_unit y \<Longrightarrow> fl_unit (foldl py_max x ys)"
  by (induction ys arbitrary: x) (auto simp: py_max_def)

lemma py_max_default_unit: "fl_unit d \<Longrightarrow> \<forall>y\<in>set ys. fl_unit y \<Longrightarrow> fl_unit (py_max_default d ys)"
  by (cases ys) (auto simp: py_max_default_def foldl_py_max_unit)

lemma py_max_unit: "fl_unit x \<Longrightarrow> fl_unit y \<Longrightarrow> fl_le x (py_max x y) \<and> fl_le y (py_max x y) \<and> (py_max x y = x \<or> py_max x y = y)"
  by (auto simp: py_max_def fl_unit_Fin)

lemma foldl_py_max_ge:
  "fl_unit x \<Longrightarrow> \<forall>y\<in>set ys. fl_unit y \<Longrightarrow> z = x \<or> z \<in> set ys \<Longrightarrow> fl_le z (foldl py_max x ys)"
proof (induction ys arbitrary: x z)
  case Nil
  then show ?case by (auto simp: fl_unit_Fin)
next
  case (Cons y ys)
  have u: "fl_unit (py_max x y)" using Cons.prems by (simp add: py_max_def)
  have t: "fl_le (py_max x y) (foldl py_max (py_max x y) ys)" using Cons.IH[OF u] Cons.prems(2) by simp
  have "fl_le x (py_max x y)" "fl_le y (py_max x y)" using py_max_unit[of x y] Cons.prems by auto
  with t have "fl_le x (foldl py_max (py_max x y) ys)" "fl_le y (foldl py_max (py_max x y) ys)" using fl_le_trans by blast+
  then show ?case using Cons.IH[OF u] Cons.prems(2,3) by auto
qed

lemma foldl_py_max_in: "foldl py_max x ys = x \<or> foldl py_max x ys \<in> set ys"
proof (induction ys arbitrary: x)
  case (Cons y ys)
  have "py_max x y = x \<or> py_max x y = y" by (simp add: py_max_def)
  then show ?case using Cons[of "py_max x y"] by auto
qed simp

lemma py_max_default_ge: "\<forall>y\<in>set ys. fl_unit y \<Longrightarrow> z \<in> set ys \<Longrightarrow> fl_le z (py_max_default d ys)"
  by (cases ys) (auto simp: py_max_default_def foldl_py_max_ge)

lemma py_max_default_in: "ys \<noteq> [] \<Longrightarrow> py_max_default d ys \<in> set ys"
  using foldl_py_max_in[of "hd ys" "tl ys"] by (cases ys) (auto simp: py_max_default_def)

lemma py_max_default_mono:
  assumes "list_all2 fl_le xs ys" and "\<forall>x\<in>set xs. fl_unit x" and "\<forall>y\<in>set ys. fl_unit y" and "fl_unit d"
  shows "fl_le (py_max_default d xs) (py_max_default d ys)"
proof (cases "xs = []")
  case True
  then show ?thesis using assms by (auto simp: py_max_default_def fl_unit_Fin)
next
  case False
  then obtain i where i: "i < length xs" "py_max_default d xs = xs ! i" using py_max_default_in by (metis in_set_conv_nth)
  have "fl_le (xs ! i) (ys ! i)" "ys ! i \<in> set ys" using assms(1) i(1) by (auto simp: list_all2_conv_all_nth)
  then show ?thesis using py_max_default_ge[OF assms(3)] fl_le_trans i(2) by metis
qed

end
