(* ===== verification/Path_Checker.thy ===== *)
theory Path_Checker
  imports Ltlf Signals
begin

text \<open>
  The path-policy checker (\<^verbatim>\<open>governance/path_policy/checker.py\<close>, \<^verbatim>\<open>policy.py\<close>), the bridge that
  maps its result to block / warn / audit signals (\<^verbatim>\<open>engine/path_policy_bridge.py\<close>) and the RV4
  bridge that splits violations into permanent and recoverable ones (\<^verbatim>\<open>contracts/rv4_path.py\<close>).

  Correspondence. \<open>checker\<close> is the state of a \<^verbatim>\<open>PathPolicyChecker\<close>; its \<^verbatim>\<open>deque(maxlen=n)\<close> is a
  list cut to its last \<open>n\<close> elements. A callable policy is a function that raises (\<open>Inl\<close>) or returns
  an object; as the framework requires it is deterministic and does not mutate its arguments.
  Telemetry events, the elapsed time and the metadata of findings are left out. Dict arguments have string keys.

  Results: what \<open>check\<close> allows and reports, that the window holds the most recent steps, bounds of
  the composed score, agreement of the bridge with the checker and where it fails, and that the
  RV4 bridge forbids only on proof.
\<close>

section \<open>Policies\<close>

datatype severity = SevBlock | SevWarn | SevAudit

record path_policy =
  policy_id :: string
  description :: string
  ltl_formula :: string
  severity :: severity

record callable_policy =
  cp_policy_id :: string
  cp_description :: string
  cp_fn :: "pybag \<Rightarrow> path_step list \<Rightarrow> pybag \<Rightarrow> pybag \<Rightarrow> unit + pyval"
  cp_severity :: severity
  requires_path :: bool

section \<open>The checker\<close>

datatype compiled = Invalid | NoFormula | Compiled ltlf_node

record checker =
  ck_policies :: "path_policy list"
  ck_callables :: "callable_policy list"
  ck_window_size :: nat
  ck_agent_id :: string
  ck_shared_state :: pybag
  ck_history :: "path_step list"
  ck_compiled :: "string \<rightharpoonup> compiled"
  ck_last_score :: pyfloat

datatype checker_error = CkValueError | CkOverflowError | CkValidationError

text \<open>One round of the compile loop of \<^verbatim>\<open>__init__\<close>: only \<^verbatim>\<open>LtlfParseError\<close> is caught.\<close>

definition compile_policy :: "path_policy \<Rightarrow> checker_error + compiled" where
  "compile_policy p =
     (if ltl_formula p = [] then Inr NoFormula
      else case compile_formula (ltl_formula p) of
        Inr a \<Rightarrow> Inr (Compiled a)
      | Inl LtlfParseError \<Rightarrow> Inr Invalid
      | Inl LtlfOverflowError \<Rightarrow> Inl CkOverflowError)"

fun compile_all :: "(string \<rightharpoonup> compiled) \<Rightarrow> path_policy list \<Rightarrow> checker_error + (string \<rightharpoonup> compiled)"
where
  "compile_all m [] = Inr m"
| "compile_all m (p # ps) = sbind (compile_policy p) (\<lambda>c. compile_all (m(policy_id p \<mapsto> c)) ps)"

text \<open>\<^verbatim>\<open>deque(maxlen=n)\<close> raises for an \<open>n\<close> beyond \<^verbatim>\<open>sys.maxsize\<close>.\<close>

definition checker_init ::
  "path_policy list \<Rightarrow> callable_policy list \<Rightarrow> int \<Rightarrow> string \<Rightarrow> pybag \<Rightarrow> checker_error + checker"
where
  "checker_init ps cps window agent shared =
     (if window \<le> 0 then Inl CkValueError
      else if 2 ^ 63 \<le> window then Inl CkOverflowError
      else sbind (compile_all Map.empty ps) (\<lambda>m. Inr
        \<lparr> ck_policies = ps, ck_callables = cps, ck_window_size = nat window, ck_agent_id = agent,
          ck_shared_state = shared, ck_history = [], ck_compiled = m, ck_last_score = Fin 0 \<rparr>))"

definition keep_last :: "nat \<Rightarrow> 'a list \<Rightarrow> 'a list" where
  "keep_last n xs = drop (length xs - n) xs"

definition ck_record :: "path_step \<Rightarrow> checker \<Rightarrow> checker" where
  "ck_record step ck = ck\<lparr>ck_history := keep_last (ck_window_size ck) (ck_history ck @ [step])\<rparr>"

text \<open>\<^verbatim>\<open>d[k] = v\<close> on a dict that keeps insertion order.\<close>

fun dict_set :: "string \<Rightarrow> pyval \<Rightarrow> pybag \<Rightarrow> pybag" where
  "dict_set k v [] = [(k, v)]"
| "dict_set k v ((k', v') # d) = (if k = k' then (k, v) # d else (k', v') # dict_set k v d)"

definition update_shared_state :: "pybag \<Rightarrow> checker \<Rightarrow> checker" where
  "update_shared_state upd ck =
     ck\<lparr>ck_shared_state := foldl (\<lambda>d (k, v). dict_set k v d) (ck_shared_state ck) upd\<rparr>"

definition clamp_violation :: "pyval \<Rightarrow> checker_error + pyfloat" where
  "clamp_violation raw =
     (let clamp = (\<lambda>v. if fl_less v (Fin 0) then Fin 0 else if fl_less (Fin 1) v then Fin 1 else v)
      in case raw of
           VBool b \<Rightarrow> Inr (clamp (Fin (if b then 1 else 0)))
         | VInt i \<Rightarrow> (case py_float raw of Inr v \<Rightarrow> Inr (clamp v) | Inl e \<Rightarrow> Inl CkOverflowError)
         | VFloat f s \<Rightarrow> Inr (clamp f)
         | _ \<Rightarrow> Inr (Fin 1))"

definition compose_violation_score :: "pyfloat list \<Rightarrow> pyfloat" where
  "compose_violation_score probs =
     (let product = foldl (\<lambda>acc p. fl_mul acc (fl_sub (Fin 1) p)) (Fin 1) probs;
          v = fl_sub (Fin 1) product
      in if fl_less v (Fin 0) then Fin 0 else if fl_less (Fin 1) v then Fin 1 else v)"

text \<open>
  The two loops of \<^verbatim>\<open>check\<close>. Each yields the violations in order: policy id, probability, and
  whether the policy has severity \<^verbatim>\<open>block\<close>.
\<close>

type_synonym violation = "string \<times> pyfloat \<times> bool"

definition ltlf_score :: "checker \<Rightarrow> path_step list \<Rightarrow> path_policy \<Rightarrow> checker_error + pyfloat option" where
  "ltlf_score ck tr p =
     (case ck_compiled ck (policy_id p) of
        None \<Rightarrow> Inr None
      | Some NoFormula \<Rightarrow> Inr None
      | Some Invalid \<Rightarrow> Inr (Some (Fin 1))
      | Some (Compiled a) \<Rightarrow>
          (case evaluate_compiled a tr of
             Inl e \<Rightarrow> Inl CkOverflowError
           | Inr holds \<Rightarrow> Inr (Some (if holds then Fin 0 else Fin 1))))"

fun ltlf_loop :: "checker \<Rightarrow> path_step list \<Rightarrow> path_policy list \<Rightarrow> checker_error + violation list" where
  "ltlf_loop ck tr [] = Inr []"
| "ltlf_loop ck tr (p # ps) = sbind (ltlf_score ck tr p) (\<lambda>s.
     sbind (ltlf_loop ck tr ps) (\<lambda>vs.
       Inr (case s of
              None \<Rightarrow> vs
            | Some pj \<Rightarrow> if fl_less (Fin 0) pj then (policy_id p, pj, severity p = SevBlock) # vs else vs)))"

definition callable_score ::
  "checker \<Rightarrow> path_step list \<Rightarrow> pybag \<Rightarrow> callable_policy \<Rightarrow> checker_error + pyfloat" where
  "callable_score ck tr action cp =
     (case cp_fn cp [(''agent_id'', VStr (ck_agent_id ck))] tr action (ck_shared_state ck) of
        Inl _ \<Rightarrow> Inr (Fin 1)
      | Inr raw \<Rightarrow> clamp_violation raw)"

fun callable_loop ::
  "checker \<Rightarrow> path_step list \<Rightarrow> pybag \<Rightarrow> callable_policy list \<Rightarrow> checker_error + violation list" where
  "callable_loop ck tr action [] = Inr []"
| "callable_loop ck tr action (cp # cps) = sbind (callable_score ck tr action cp) (\<lambda>pj.
     sbind (callable_loop ck tr action cps) (\<lambda>vs.
       Inr (if fl_less (Fin 0) pj then (cp_policy_id cp, pj, cp_severity cp = SevBlock) # vs else vs)))"

definition check :: "checker \<Rightarrow> pybag \<Rightarrow> checker_error + (checker \<times> bool \<times> string list)" where
  "check ck candidate_action =
     (let tr = ck_history ck @ [([], candidate_action, [])]
      in sbind (ltlf_loop ck tr (ck_policies ck)) (\<lambda>vs1.
         sbind (callable_loop ck tr candidate_action (ck_callables ck)) (\<lambda>vs2.
           let vs = vs1 @ vs2;
               any_block = list_ex (\<lambda>(i, p, blk). blk) vs
           in Inr (ck\<lparr>ck_last_score := compose_violation_score (map (\<lambda>(i, p, blk). p) vs)\<rparr>,
                   \<not> any_block, map fst vs))))"

section \<open>The bridge to the decision point\<close>

record request =
  action_type :: string
  channel :: string
  recipient :: "string option"
  req_agent_id :: "string option"
  metadata :: pybag

record path_outcome =
  po_checked :: bool
  has_block :: bool
  has_warn :: bool
  violated_policy_ids :: "string list"
  block_policy_ids :: "string list"
  warn_policy_ids :: "string list"
  audit_policy_ids :: "string list"
  violation_score :: pyfloat
  po_findings :: "finding list"
  n_policies :: nat
  history_length :: nat

definition neutral_path_outcome :: path_outcome where
  "neutral_path_outcome =
     \<lparr> po_checked = False, has_block = False, has_warn = False, violated_policy_ids = [],
       block_policy_ids = [], warn_policy_ids = [], audit_policy_ids = [], violation_score = Fin 0,
       po_findings = [], n_policies = 0, history_length = 0 \<rparr>"

text \<open>\<^verbatim>\<open>m.get(k, default)\<close>.\<close>

definition dict_get :: "pybag \<Rightarrow> string \<Rightarrow> pyval \<Rightarrow> pyval" where
  "dict_get m k d = (case map_of m k of Some v \<Rightarrow> v | None \<Rightarrow> d)"

definition mappings3 :: "pyval \<Rightarrow> pyval \<Rightarrow> pyval \<Rightarrow> path_step option" where
  "mappings3 s a ob = (case (s, a, ob) of (VMap m1 _, VMap m2 _, VMap m3 _) \<Rightarrow> Some (m1, m2, m3)
     | _ \<Rightarrow> None)"

definition empty_map :: pyval where
  "empty_map = VMap [] ''{}''"

definition coerce_step :: "pyval \<Rightarrow> path_step option" where
  "coerce_step raw = (case raw of
       VList [s, a, ob] _ \<Rightarrow> mappings3 s a ob
     | VMap m _ \<Rightarrow> mappings3 (dict_get m ''state'' empty_map) (dict_get m ''action'' empty_map)
                     (dict_get m ''observation'' empty_map)
     | _ \<Rightarrow> None)"

definition severity_of :: "pyval \<Rightarrow> severity" where
  "severity_of v = (if v = VStr ''block'' then SevBlock else if v = VStr ''warn'' then SevWarn
     else SevAudit)"

definition coerce_policy :: "pyval \<Rightarrow> path_policy option" where
  "coerce_policy entry = (case entry of
       VMap m _ \<Rightarrow>
         (case dict_get m ''policy_id'' VNone of
            VStr pid \<Rightarrow>
              if py_strip pid = [] then None
              else Some \<lparr> policy_id = pid,
                          description = py_str (dict_get m ''description'' (VStr [])),
                          ltl_formula = py_str (dict_get m ''ltl_formula'' (VStr [])),
                          severity = severity_of (dict_get m ''severity'' (VStr ''audit'')) \<rparr>
          | _ \<Rightarrow> None)
     | _ \<Rightarrow> None)"

text \<open>A list or tuple; a \<^verbatim>\<open>str\<close> is a sequence too, of items that are not mappings.\<close>

definition coerce_policies :: "pyval \<Rightarrow> path_policy list" where
  "coerce_policies raw = (case raw of VList xs _ \<Rightarrow> List.map_filter coerce_policy xs | _ \<Rightarrow> [])"

definition default_candidate_action :: "request \<Rightarrow> pybag" where
  "default_candidate_action r =
     [(''tool'', VStr (action_type r)), (''type'', VStr (action_type r)),
      (''channel'', VStr (channel r)),
      (''recipient'', VStr (case recipient r of None \<Rightarrow> [] | Some x \<Rightarrow> x))]"

definition window_of :: "pyval \<Rightarrow> int" where
  "window_of v = (case v of
       VInt i \<Rightarrow> (if i \<le> 0 then 256 else i)
     | VBool b \<Rightarrow> (if b then 1 else 256)
     | _ \<Rightarrow> 256)"

definition steps_of :: "pyval \<Rightarrow> path_step list" where
  "steps_of raw_trace = (case raw_trace of VList xs _ \<Rightarrow> List.map_filter coerce_step xs | _ \<Rightarrow> [])"

definition severity_by_id :: "path_policy list \<Rightarrow> string \<Rightarrow> severity" where
  "severity_by_id ps pid =
     (case map_of (rev (map (\<lambda>p. (policy_id p, severity p)) ps)) pid of
        Some s \<Rightarrow> s | None \<Rightarrow> SevAudit)"

definition candidate_of :: "pybag \<Rightarrow> request \<Rightarrow> pybag" where
  "candidate_of raw r = (case dict_get raw ''candidate_action'' VNone of
       VMap c _ \<Rightarrow> c | _ \<Rightarrow> default_candidate_action r)"

fun severity_label :: "severity \<Rightarrow> string" where
  "severity_label SevBlock = ''block''"
| "severity_label SevWarn = ''warn''"
| "severity_label SevAudit = ''audit''"

fun finding_severity :: "severity \<Rightarrow> Severity" where
  "finding_severity SevBlock = CRITICAL"
| "finding_severity SevWarn = WARNING"
| "finding_severity SevAudit = INFO"

definition path_message :: "severity \<Rightarrow> nat \<Rightarrow> string \<Rightarrow> string" where
  "path_message sev hist pid = ''Path policy '' @ [CHR 39] @ pid @ [CHR 39] @ '' ('' @ severity_label sev
     @ '') violated by the candidate action given the '' @ nat_digits hist @ ''-step execution path.''"

definition path_finding :: "severity \<Rightarrow> nat \<Rightarrow> string \<Rightarrow> checker_error + finding" where
  "path_finding sev hist pid = (case Finding_init
       \<lparr>fd_source = ''path_policy.runtime'', fd_rule_name = pid, fd_severity = finding_severity sev,
        fd_message = path_message sev hist pid, fd_matched_text = None, fd_start_index = None, fd_end_index = None\<rparr>
     of Inl _ \<Rightarrow> Inl CkValidationError | Inr f \<Rightarrow> Inr f)"

definition path_outcome_of ::
  "path_policy list \<Rightarrow> string list \<Rightarrow> pyfloat \<Rightarrow> nat \<Rightarrow> checker_error + path_outcome" where
  "path_outcome_of ps violated score hist =
     (let sev = severity_by_id ps;
          block_ids = filter (\<lambda>i. sev i = SevBlock) violated;
          warn_ids = filter (\<lambda>i. sev i = SevWarn) violated;
          audit_ids = filter (\<lambda>i. sev i = SevAudit) violated
      in sbind (err_map (\<lambda>i. path_finding (sev i) hist i) violated) (\<lambda>findings. Inr
         \<lparr> po_checked = True, has_block = block_ids \<noteq> [], has_warn = warn_ids \<noteq> [],
           violated_policy_ids = violated, block_policy_ids = block_ids,
           warn_policy_ids = warn_ids, audit_policy_ids = audit_ids, violation_score = score,
           po_findings = findings, n_policies = length ps, history_length = hist \<rparr>))"

definition evaluate_path_policies_for_request :: "request \<Rightarrow> checker_error + path_outcome" where
  "evaluate_path_policies_for_request r =
     (case dict_get (metadata r) ''path_policy'' VNone of
        VMap raw _ \<Rightarrow>
          (let ps = coerce_policies (dict_get raw ''policies'' VNone);
               steps = steps_of (dict_get raw ''trace'' (VList [] ''[]''))
           in if ps = [] then Inr neutral_path_outcome
              else sbind (checker_init ps [] (window_of (dict_get raw ''window_size'' (VInt 256)))
                     (case req_agent_id r of Some a \<Rightarrow> a | None \<Rightarrow> ''default-agent'') []) (\<lambda>ck0.
                   let ck = fold ck_record steps ck0
                   in sbind (check ck (candidate_of raw r)) (\<lambda>(ck', allowed, violated).
                        path_outcome_of ps violated (ck_last_score ck') (length steps))))
      | _ \<Rightarrow> Inr neutral_path_outcome)"

section \<open>The RV4 bridge\<close>

record rv4_violation =
  rv_policy_id :: string
  rv_verdict4 :: RV4Verdict
  rv_formula :: string

record rv4_outcome =
  rv_checked :: bool
  rv_violations :: "rv4_violation list"

definition rv4_violation_is_permanent :: "rv4_violation \<Rightarrow> bool" where
  "rv4_violation_is_permanent v \<longleftrightarrow> rv_verdict4 v = PERMANENTLY_VIOLATED"

definition rv4_permanent :: "rv4_outcome \<Rightarrow> rv4_violation list" where
  "rv4_permanent out = filter rv4_violation_is_permanent (rv_violations out)"

definition rv4_recoverable :: "rv4_outcome \<Rightarrow> rv4_violation list" where
  "rv4_recoverable out = filter (\<lambda>v. \<not> rv4_violation_is_permanent v) (rv_violations out)"

definition rv4_has_permanent :: "rv4_outcome \<Rightarrow> bool" where
  "rv4_has_permanent out = list_ex rv4_violation_is_permanent (rv_violations out)"

definition rv4_has_recoverable :: "rv4_outcome \<Rightarrow> bool" where
  "rv4_has_recoverable out = list_ex (\<lambda>v. \<not> rv4_violation_is_permanent v) (rv_violations out)"

definition neutral_rv4_path :: rv4_outcome where
  "neutral_rv4_path = \<lparr>rv_checked = False, rv_violations = []\<rparr>"

definition rv4_coerce_step :: "pyval \<Rightarrow> path_step option" where
  "rv4_coerce_step raw =
     (let parts = (case raw of
            VList [s, a, ob] _ \<Rightarrow> Some (s, a, ob)
          | VMap m _ \<Rightarrow> Some (dict_get m ''state'' empty_map, dict_get m ''action'' empty_map,
                            dict_get m ''observation'' empty_map)
          | _ \<Rightarrow> None)
      in case parts of None \<Rightarrow> None | Some (s, a, ob) \<Rightarrow> mappings3 s a ob)"

definition build_trace :: "pybag \<Rightarrow> request \<Rightarrow> path_step list" where
  "build_trace raw r =
     (let history = (case dict_get raw ''trace'' (VList [] ''[]'') of
            VList xs _ \<Rightarrow> List.map_filter rv4_coerce_step xs | _ \<Rightarrow> [])
      in history @ [([], candidate_of raw r, [])])"

text \<open>One round of the policy loop: no violation (\<open>None\<close>), or one.\<close>

definition classify_entry ::
  "path_step list \<Rightarrow> pyval \<Rightarrow> ltlf_error + rv4_violation option" where
  "classify_entry tr entry = (case entry of
       VMap m _ \<Rightarrow>
         (case dict_get m ''policy_id'' VNone of
            VStr pid \<Rightarrow>
              (let formula = py_str (dict_get m ''ltl_formula'' (VStr []))
               in if py_strip pid = [] \<or> py_strip formula = [] then Inr None
                  else case compile_formula formula of
                    Inl LtlfParseError \<Rightarrow> Inr (Some \<lparr>rv_policy_id = pid,
                      rv_verdict4 = CURRENTLY_VIOLATED, rv_formula = formula\<rparr>)
                  | Inl e \<Rightarrow> Inl e
                  | Inr a \<Rightarrow> sbind (evaluate_rv4_compiled a tr) (\<lambda>v.
                      Inr (if rv4_is_satisfied v then None
                           else Some \<lparr>rv_policy_id = pid, rv_verdict4 = v, rv_formula = formula\<rparr>)))
          | _ \<Rightarrow> Inr None)
     | _ \<Rightarrow> Inr None)"

definition classify :: "request \<Rightarrow> ltlf_error + rv4_outcome" where
  "classify r = (case dict_get (metadata r) ''rv4_path_policies'' VNone of
       VMap raw _ \<Rightarrow>
         (let go = (\<lambda>entries. sbind (err_map (classify_entry (build_trace raw r)) entries)
                (\<lambda>vs. Inr \<lparr>rv_checked = True, rv_violations = List.map_filter id vs\<rparr>))
          in case dict_get raw ''policies'' VNone of
               VList xs _ \<Rightarrow> if xs = [] then Inr neutral_rv4_path else go xs
             | VStr s \<Rightarrow> if s = [] then Inr neutral_rv4_path else go []
             | _ \<Rightarrow> Inr neutral_rv4_path)
     | _ \<Rightarrow> Inr neutral_rv4_path)"

section \<open>Facts about the checker\<close>

definition policy_compiled :: "path_policy \<Rightarrow> compiled" where
  "policy_compiled p = (if ltl_formula p = [] then NoFormula
     else case compile_formula (ltl_formula p) of Inr a \<Rightarrow> Compiled a | Inl _ \<Rightarrow> Invalid)"

lemma compile_policy_total: "compile_policy p = Inr (policy_compiled p)"
  using ltlf_parse_error[of "ltl_formula p"]
  by (auto simp: compile_policy_def policy_compiled_def compile_formula_def
      split: sum.splits ltlf_error.splits)

lemma compile_all_total:
  "compile_all m ps = Inr (m ++ map_of (rev (map (\<lambda>p. (policy_id p, policy_compiled p)) ps)))"
  by (induction ps arbitrary: m) (simp_all add: compile_policy_total)

lemma checker_init_total:
  "0 < n \<Longrightarrow> n < 2 ^ 63 \<Longrightarrow> \<exists>ck. checker_init ps cps n ag sh = Inr ck \<and> ck_policies ck = ps \<and> ck_callables ck = cps \<and>
     ck_window_size ck = nat n \<and> ck_history ck = [] \<and> ck_shared_state ck = sh \<and> ck_agent_id ck = ag \<and>
     ck_compiled ck = map_of (rev (map (\<lambda>p. (policy_id p, policy_compiled p)) ps))"
  by (simp add: checker_init_def compile_all_total)

lemma map_of_rev_distinct:
  "distinct (map f xs) \<Longrightarrow> x \<in> set xs \<Longrightarrow> map_of (rev (map (\<lambda>x. (f x, g x)) xs)) (f x) = Some (g x)"
proof (rule map_of_is_SomeI)
  assume "distinct (map f xs)"
  then show "distinct (map fst (rev (map (\<lambda>x. (f x, g x)) xs)))"
    by (simp add: rev_map[symmetric] comp_def)
qed auto

lemma keep_last_append: "keep_last n (keep_last n xs @ ys) = keep_last n (xs @ ys)"
  by (cases "n \<le> length xs") (auto simp: keep_last_def add.commute)

lemma keep_last_length: "length (keep_last n xs) = min n (length xs)"
  by (simp add: keep_last_def)

lemma keep_last_nil [simp]: "keep_last n [] = []"
  by (simp add: keep_last_def)

text \<open>The window after any number of recorded steps.\<close>

lemma fold_ck_record:
  "fold ck_record steps ck =
     (if steps = [] then ck
      else ck\<lparr>ck_history := keep_last (ck_window_size ck) (ck_history ck @ steps)\<rparr>)"
proof (induction steps arbitrary: ck)
  case (Cons s steps)
  then show ?case
    by (cases "steps = []") (simp_all add: ck_record_def keep_last_append)
qed simp

text \<open>What it means that a policy is violated on a trace.\<close>

definition policy_violated :: "path_step list \<Rightarrow> path_policy \<Rightarrow> bool" where
  "policy_violated tr p \<longleftrightarrow> ltl_formula p \<noteq> [] \<and>
     (case compile_formula (ltl_formula p) of Inl _ \<Rightarrow> True | Inr a \<Rightarrow> \<not> ltlf_sat a tr 0)"

lemma ltlf_score_violated:
  assumes "ck_compiled ck (policy_id p) = Some (policy_compiled p)" and "list_all step_safe tr"
  shows "\<exists>s. ltlf_score ck tr p = Inr s \<and>
     (case s of None \<Rightarrow> \<not> policy_violated tr p
      | Some x \<Rightarrow> x = Fin (if policy_violated tr p then 1 else 0))"
proof -
  have "ltlf_eval a tr 0 = Inr (ltlf_sat a tr 0)" for a
    using assms(2) by (intro ltlf_eval_total eval_atom_total) (simp add: list_all_iff)
  with assms(1) show ?thesis
    by (cases "ltl_formula p = []"; cases "compile_formula (ltl_formula p)")
       (auto simp: ltlf_score_def policy_compiled_def policy_violated_def evaluate_compiled_def)
qed

lemma ltlf_loop_violated:
  assumes "\<And>p. p \<in> set ps \<Longrightarrow> ck_compiled ck (policy_id p) = Some (policy_compiled p)"
    and "list_all step_safe tr"
  shows "ltlf_loop ck tr ps =
    Inr (map (\<lambda>p. (policy_id p, Fin 1, severity p = SevBlock)) (filter (policy_violated tr) ps))"
  using assms(1)
proof (induction ps)
  case (Cons p ps)
  then obtain s where "ltlf_score ck tr p = Inr s"
    "case s of None \<Rightarrow> \<not> policy_violated tr p | Some x \<Rightarrow> x = Fin (if policy_violated tr p then 1 else 0)"
    using ltlf_score_violated[OF _ assms(2), of ck p] by auto
  with Cons show ?case by (auto split: option.splits)
qed simp

definition callable_violated :: "checker \<Rightarrow> path_step list \<Rightarrow> pybag \<Rightarrow> callable_policy \<Rightarrow> bool" where
  "callable_violated ck tr action cp \<longleftrightarrow>
     (\<exists>x. callable_score ck tr action cp = Inr x \<and> fl_less (Fin 0) x)"

lemma callable_loop_violated:
  "\<forall>cp\<in>set cps. \<exists>x. callable_score ck tr action cp = Inr x \<Longrightarrow>
     \<exists>vs. callable_loop ck tr action cps = Inr vs \<and>
       map (\<lambda>(i, x, blk). (i, blk)) vs =
         map (\<lambda>cp. (cp_policy_id cp, cp_severity cp = SevBlock))
           (filter (callable_violated ck tr action) cps)"
  by (induction cps) (auto simp: callable_violated_def)

lemma list_ex_block:
  "list_ex (\<lambda>(i, x, blk). blk) vs = list_ex snd (map (\<lambda>(i, x, blk). (i, blk)) vs)"
  by (simp add: list_ex_iff split_beta)

lemma map_fst_block: "map fst vs = map fst (map (\<lambda>(i, x, blk). (i, blk)) vs)"
  by (simp add: split_beta)

lemma check_violated:
  assumes "\<And>p. p \<in> set (ck_policies ck) \<Longrightarrow> ck_compiled ck (policy_id p) = Some (policy_compiled p)"
    and "list_all step_safe tr" and tr: "tr = ck_history ck @ [([], action, [])]"
    and cps: "\<forall>cp\<in>set (ck_callables ck). \<exists>x. callable_score ck tr action cp = Inr x"
  shows "\<exists>ck'. check ck action = Inr (ck',
     \<not> ((\<exists>p\<in>set (ck_policies ck). severity p = SevBlock \<and> policy_violated tr p) \<or>
        (\<exists>cp\<in>set (ck_callables ck). cp_severity cp = SevBlock \<and> callable_violated ck tr action cp)),
     map policy_id (filter (policy_violated tr) (ck_policies ck)) @
     map cp_policy_id (filter (callable_violated ck tr action) (ck_callables ck)))"
proof -
  from callable_loop_violated[OF cps] obtain vs where
    vs: "callable_loop ck tr action (ck_callables ck) = Inr vs"
    "map (\<lambda>(i, x, blk). (i, blk)) vs = map (\<lambda>cp. (cp_policy_id cp, cp_severity cp = SevBlock))
           (filter (callable_violated ck tr action) (ck_callables ck))" by blast
  have "list_ex (\<lambda>(i, x, blk). blk) vs \<longleftrightarrow>
      (\<exists>cp\<in>set (ck_callables ck). cp_severity cp = SevBlock \<and> callable_violated ck tr action cp)"
    unfolding list_ex_block vs(2) by (auto simp: list_ex_iff)
  moreover have "map fst vs = map cp_policy_id (filter (callable_violated ck tr action) (ck_callables ck))"
    unfolding map_fst_block[of vs] vs(2) by simp
  moreover have "list_ex (\<lambda>(i, x, blk). blk)
      (map (\<lambda>p. (policy_id p, Fin 1, severity p = SevBlock)) (filter (policy_violated tr) (ck_policies ck)))
      \<longleftrightarrow> (\<exists>p\<in>set (ck_policies ck). severity p = SevBlock \<and> policy_violated tr p)"
    by (auto simp: list_ex_iff)
  ultimately show ?thesis
    using ltlf_loop_violated[OF assms(1,2)] vs(1) unfolding check_def Let_def tr[symmetric]
    by (simp add: list_ex_append comp_def)
qed

text \<open>
  A callable policy is violated if it raises, returns something other than a number, or returns a number above 0. The score of
  an int is its float, which is positive exactly if the int is.
\<close>

definition callable_trips :: "unit + pyval \<Rightarrow> bool" where
  "callable_trips r = (case r of Inl _ \<Rightarrow> True | Inr v \<Rightarrow> (case v of
       VBool b \<Rightarrow> b | VInt i \<Rightarrow> 0 < i | VFloat f _ \<Rightarrow> fl_less (Fin 0) f | _ \<Rightarrow> True))"

lemma int_float_pos: "fl_round (of_int i) = Fin q \<Longrightarrow> 0 < q \<longleftrightarrow> 0 < i"
proof -
  have pos: "1 \<le> q" if "0 < i" "fl_round (of_int i) = Fin q" for i q
    using fl_round_mono(1)[of 1 "of_int i"] that fl_round_int[of 1] by (auto simp: fl_le_def)
  assume q: "fl_round (of_int i) = Fin q"
  have "q < 0" if "i < 0"
  proof -
    have "fl_round (of_int (- i)) = Fin (- q)" using fl_round_minus[of "of_int i"] q by (simp add: fl_neg_def)
    with pos[of "- i" "- q"] that show ?thesis by simp
  qed
  moreover have "q = 0" if "i = 0" using q that fl_round_int[of 0] by simp
  ultimately show ?thesis using pos[OF _ q] by (cases i "0 :: int" rule: linorder_cases) auto
qed

lemma clamp_violation_pos:
  assumes "float_safe v"
  shows "\<exists>x. clamp_violation v = Inr x \<and> (fl_less (Fin 0) x \<longleftrightarrow> callable_trips (Inr v))"
proof (cases v)
  case (VInt i)
  with assms obtain q where q: "fl_round (of_int i) = Fin q" by (auto simp: py_float_def split: pyfloat.splits)
  with VInt int_float_pos[OF q] show ?thesis by (auto simp: clamp_violation_def py_float_def callable_trips_def Let_def)
next
  case (VFloat f s)
  then show ?thesis by (cases f) (auto simp: clamp_violation_def callable_trips_def Let_def)
qed (auto simp: clamp_violation_def callable_trips_def Let_def)

lemma callable_score_trips:
  assumes "\<And>v. cp_fn cp [(''agent_id'', VStr (ck_agent_id ck))] tr action (ck_shared_state ck) = Inr v \<Longrightarrow> float_safe v"
  shows "\<exists>x. callable_score ck tr action cp = Inr x"
    and "callable_violated ck tr action cp \<longleftrightarrow> callable_trips (cp_fn cp [(''agent_id'', VStr (ck_agent_id ck))] tr action (ck_shared_state ck))"
  using assms clamp_violation_pos
  by (cases "cp_fn cp [(''agent_id'', VStr (ck_agent_id ck))] tr action (ck_shared_state ck)";
      fastforce simp: callable_score_def callable_violated_def callable_trips_def)+

lemma check_total_distinct:
  fixes agent :: string and shared :: pybag
  assumes "0 < n" and "n < 2 ^ 63" and "distinct (map policy_id ps)"
    and "list_all step_safe steps" and "step_safe ([], action, [])"
  defines "tr \<equiv> keep_last (nat n) steps @ [([], action, [])]"
  defines "result \<equiv> \<lambda>cp. cp_fn cp [(''agent_id'', VStr agent)] tr action shared"
  assumes "\<forall>cp\<in>set cps. \<forall>v. result cp = Inr v \<longrightarrow> float_safe v"
  shows "\<exists>ck0 ck'. checker_init ps cps n agent shared = Inr ck0 \<and>
     check (fold ck_record steps ck0) action = Inr (ck',
       \<not> ((\<exists>p\<in>set ps. severity p = SevBlock \<and> policy_violated tr p) \<or> (\<exists>cp\<in>set cps. cp_severity cp = SevBlock \<and> callable_trips (result cp))),
       map policy_id (filter (policy_violated tr) ps) @ map cp_policy_id (filter (\<lambda>cp. callable_trips (result cp)) cps))"
proof -
  obtain ck0 where ck0: "checker_init ps cps n agent shared = Inr ck0" "ck_policies ck0 = ps"
    "ck_callables ck0 = cps" "ck_window_size ck0 = nat n" "ck_history ck0 = []" "ck_shared_state ck0 = shared" "ck_agent_id ck0 = agent"
    "ck_compiled ck0 = map_of (rev (map (\<lambda>p. (policy_id p, policy_compiled p)) ps))"
    using checker_init_total[OF assms(1,2), of ps cps agent shared] by blast
  let ?ck = "fold ck_record steps ck0"
  have ck: "ck_policies ?ck = ps" "ck_callables ?ck = cps" "ck_compiled ?ck = ck_compiled ck0" "ck_shared_state ?ck = shared" "ck_agent_id ?ck = agent"
    "ck_history ?ck = keep_last (nat n) steps"
    using ck0 by (auto simp: fold_ck_record)
  have safe: "list_all step_safe tr"
    using assms(4,5) by (auto simp: tr_def keep_last_def list_all_iff dest: in_set_dropD)
  have c: "(\<exists>x. callable_score ?ck tr action cp = Inr x) \<and> callable_violated ?ck tr action cp = callable_trips (result cp)" if "cp \<in> set cps" for cp
    using callable_score_trips[of cp ?ck tr action] assms(8) that by (simp add: ck result_def)
  have comp: "ck_compiled ?ck (policy_id p) = Some (policy_compiled p)" if "p \<in> set (ck_policies ?ck)" for p
    using that ck ck0(8) by (simp add: map_of_rev_distinct[OF assms(3)])
  obtain ck' where "check ?ck action = Inr (ck',
     \<not> ((\<exists>p\<in>set (ck_policies ?ck). severity p = SevBlock \<and> policy_violated tr p) \<or>
        (\<exists>cp\<in>set (ck_callables ?ck). cp_severity cp = SevBlock \<and> callable_violated ?ck tr action cp)),
     map policy_id (filter (policy_violated tr) (ck_policies ?ck)) @
     map cp_policy_id (filter (callable_violated ?ck tr action) (ck_callables ?ck)))"
    using check_violated[OF comp safe] c ck by (auto simp: tr_def)
  moreover have "filter (callable_violated ?ck tr action) cps = filter (\<lambda>cp. callable_trips (result cp)) cps"
    using c by (intro filter_cong) auto
  moreover have "(\<exists>cp\<in>set cps. cp_severity cp = SevBlock \<and> callable_violated ?ck tr action cp) \<longleftrightarrow>
      (\<exists>cp\<in>set cps. cp_severity cp = SevBlock \<and> callable_trips (result cp))" using c by auto
  ultimately show ?thesis using ck0(1) unfolding ck by auto
qed

text \<open>
  (C21) What the checker allows. For a checker built from formula policies with distinct ids and any callable policies, with a window
  that a deque accepts, and fed any steps, \<^verbatim>\<open>check\<close> returns; the trace it judges is the last \<^verbatim>\<open>window_size\<close> steps followed by the
  candidate; the candidate is allowed exactly when no policy of severity block is violated; and every violated policy is
  reported, in order. A formula that does not parse counts as violated, at the severity of its policy, an empty one does not; a
  callable counts as violated if it raises, returns no number, or returns a positive one. Excluded are steps and
  callable results with ints beyond the range of a float, for which the code raises.
\<close>

theorem check_correct:
  fixes agent :: string and shared :: pybag
  assumes "0 < n" and "n < 2 ^ 63" and "distinct (map policy_id ps)"
    and "list_all step_safe steps" and "step_safe ([], action, [])"
  defines "tr \<equiv> keep_last (nat n) steps @ [([], action, [])]"
  defines "result \<equiv> \<lambda>cp. cp_fn cp [(''agent_id'', VStr agent)] tr action shared"
  assumes "\<forall>cp\<in>set cps. \<forall>v. result cp = Inr v \<longrightarrow> float_safe v"
  shows "\<exists>ck0 ck'. checker_init ps cps n agent shared = Inr ck0 \<and>
     check (fold ck_record steps ck0) action = Inr (ck',
       \<not> ((\<exists>p\<in>set ps. severity p = SevBlock \<and> policy_violated tr p) \<or> (\<exists>cp\<in>set cps. cp_severity cp = SevBlock \<and> callable_trips (result cp))),
       map policy_id (filter (policy_violated tr) ps) @ map cp_policy_id (filter (\<lambda>cp. callable_trips (result cp)) cps))"
  using check_total_distinct[OF assms(1-5)] assms(8) unfolding result_def tr_def by blast

definition no_wire :: "severity \<Rightarrow> path_policy" where
  "no_wire s = \<lparr>policy_id = ''no-wire'', description = [], ltl_formula = ''G !(tool=wire)'', severity = s\<rparr>"

definition wire :: pybag where
  "wire = [(''tool'', VStr ''wire'')]"

lemma no_wire_compiled:
  "compile_formula ''G !(tool=wire)'' = Inr (FG (FNot (FAtom ''tool'' ''='' ''wire'')))"
  by code_simp

lemma wire_atom:
  "eval_atom ([], wire, []) ''tool'' ''='' ''wire'' = Inr True"
  by (simp add: eval_atom_def atom_value_def wire_def coerce_compare_def equal_literal_def py_str_def)

lemma no_wire_violated: "policy_violated [([], wire, [])] (no_wire s)"
  by (simp add: policy_violated_def no_wire_def no_wire_compiled wire_atom)

definition late_policy :: callable_policy where
  "late_policy = \<lparr>cp_policy_id = ''late'', cp_description = [], cp_fn = (\<lambda>a tr c sh. Inr (VInt (int (length tr) - 2))),
     cp_severity = SevWarn, requires_path = True\<rparr>"

theorem check_correct_witness:
  "\<exists>ck0 ck'. checker_init [no_wire SevBlock] [late_policy] 2 ''a'' [] = Inr ck0 \<and>
     check (fold ck_record [([], [], []), ([], [], []), ([], [], [])] ck0) wire = Inr (ck', False, [''no-wire'', ''late''])"
proof -
  have s: "step_safe ([], wire, [])" "step_safe ([], [], [])" by (simp_all add: step_safe_def wire_def)
  have sat: "ltlf_sat (FG (FNot (FAtom ''tool'' ''='' ''wire''))) [([], [], []), ([], [], []), ([], wire, [])] 0 = False"
    using wire_atom by (auto intro!: exI[of _ 2])
  then have v: "policy_violated [([], [], []), ([], [], []), ([], wire, [])] (no_wire SevBlock)"
    by (simp add: policy_violated_def no_wire_def no_wire_compiled del: ltlf_sat.simps)
  show ?thesis
    using check_correct [of 2 "[no_wire SevBlock]" "[([], [], []), ([], [], []), ([], [], [])]" wire "[late_policy]" "''a''" "[]"] s v
    by (simp add: late_policy_def keep_last_def py_float_def fl_round_int[of 1, simplified] callable_trips_def no_wire_def)
qed

section \<open>The bridge\<close>

lemma window_of_pos: "0 < window_of v"
  by (auto simp: window_of_def split: pyval.splits)

lemma severity_by_id_distinct:
  "distinct (map policy_id ps) \<Longrightarrow> p \<in> set ps \<Longrightarrow> severity_by_id ps (policy_id p) = severity p"
  using map_of_rev_distinct[of policy_id ps p severity] by (simp add: severity_by_id_def)

lemma has_block_iff:
  assumes "distinct (map policy_id ps)" and "path_outcome_of ps (map policy_id (filter P ps)) sc h = Inr out"
  shows "has_block out \<longleftrightarrow> (\<exists>p\<in>set ps. severity p = SevBlock \<and> P p)" and "po_checked out"
proof -
  have "filter (\<lambda>i. severity_by_id ps i = SevBlock) (map policy_id (filter P ps)) \<noteq> [] \<longleftrightarrow> (\<exists>p\<in>set ps. severity p = SevBlock \<and> P p)"
    using severity_by_id_distinct[OF assms(1)] by (auto simp: filter_empty_conv)
  then show "has_block out \<longleftrightarrow> (\<exists>p\<in>set ps. severity p = SevBlock \<and> P p)"
    using assms(2) unfolding path_outcome_of_def Let_def sbind_eq_Inr by force
  show "po_checked out" using assms(2) unfolding path_outcome_of_def Let_def sbind_eq_Inr by force
qed

text \<open>The findings of the bridge are valid for ids of up to 150 characters.\<close>

lemma path_finding_total:
  assumes "py_strip pid \<noteq> []" and "length pid \<le> 150" and "length (nat_digits hist) \<le> 200"
  shows "\<exists>f. path_finding sev hist pid = Inr f"
proof -
  have src: "finding_text 100 ''path_policy.runtime'' = Inr ''path_policy.runtime''" by code_simp
  have ne: "pid \<noteq> []" using assms(1) by (auto simp: py_strip_Nil_iff)
  have "length (path_message sev hist pid) \<le> 500" using assms(2,3) by (cases sev) (simp_all add: path_message_def)
  moreover have "py_strip (path_message sev hist pid) \<noteq> []" by (simp add: path_message_def py_strip_Nil_iff py_char_defs)
  moreover have "path_message sev hist pid \<noteq> []" by (simp add: path_message_def)
  ultimately show ?thesis
    using assms(1,2) ne
    by (simp add: path_finding_def Finding_init_def src) (simp add: finding_text_def normalize_non_blank_def)
qed

lemma err_map_returns: "(\<And>x. x \<in> set xs \<Longrightarrow> \<exists>y. f x = Inr y) \<Longrightarrow> \<exists>ys. err_map f xs = Inr ys"
  by (induction xs) fastforce+

lemma path_outcome_of_total:
  assumes "\<And>i. i \<in> set ids \<Longrightarrow> py_strip i \<noteq> [] \<and> length i \<le> 150" and "length (nat_digits hist) \<le> 200"
  shows "\<exists>out. path_outcome_of ps ids sc hist = Inr out"
proof -
  have "\<exists>fs. err_map (\<lambda>i. path_finding (severity_by_id ps i) hist i) ids = Inr fs"
    using assms by (intro err_map_returns path_finding_total) auto
  then show ?thesis by (auto simp: path_outcome_of_def Let_def)
qed

lemma coerce_policy_named: "coerce_policy v = Some p \<Longrightarrow> py_strip (policy_id p) \<noteq> []"
  by (auto simp: coerce_policy_def split: pyval.splits if_splits)

lemma in_map_filter: "y \<in> set (List.map_filter f xs) \<Longrightarrow> \<exists>x\<in>set xs. f x = Some y"
  by (induction xs) (auto simp: List.map_filter_simps split: option.splits)

lemma coerce_policies_named: "p \<in> set (coerce_policies raw) \<Longrightarrow> py_strip (policy_id p) \<noteq> []"
  using in_map_filter coerce_policy_named by (cases raw) (fastforce simp: coerce_policies_def)+

lemma bridge_outcome:
  assumes "dict_get (metadata r) ''path_policy'' VNone = VMap raw s"
    and "coerce_policies (dict_get raw ''policies'' VNone) = ps" and "ps \<noteq> []"
    and "steps_of (dict_get raw ''trace'' (VList [] ''[]'')) = steps"
    and "checker_init ps [] (window_of (dict_get raw ''window_size'' (VInt 256)))
           (case req_agent_id r of Some a \<Rightarrow> a | None \<Rightarrow> ''default-agent'') [] = Inr ck0"
    and "check (fold ck_record steps ck0) (candidate_of raw r) = Inr (ck', allowed, ids)"
  shows "evaluate_path_policies_for_request r = path_outcome_of ps ids (ck_last_score ck') (length steps)"
  using assms by (simp add: evaluate_path_policies_for_request_def Let_def)

text \<open>
  (C26) The bridge agrees with the policies when their ids are distinct and fit a finding: on a request that carries
  path policies and a window that a deque accepts it returns an outcome, and \<^verbatim>\<open>has_block\<close> (the signal that forbids the action) is set
  exactly when some block policy is violated on the windowed trace with the candidate appended.
\<close>

theorem path_bridge_block_correct:
  assumes "dict_get (metadata r) ''path_policy'' VNone = VMap raw s"
    and "ps = coerce_policies (dict_get raw ''policies'' VNone)" and "ps \<noteq> []"
    and "distinct (map policy_id ps)" and "\<forall>p\<in>set ps. length (policy_id p) \<le> 150"
    and "steps = steps_of (dict_get raw ''trace'' (VList [] ''[]''))" and "length (nat_digits (length steps)) \<le> 200"
    and "list_all step_safe steps" and "step_safe ([], candidate_of raw r, [])"
    and "n = window_of (dict_get raw ''window_size'' (VInt 256))" and "n < 2 ^ 63"
  shows "\<exists>out. evaluate_path_policies_for_request r = Inr out \<and> po_checked out \<and>
    (has_block out \<longleftrightarrow> (\<exists>p\<in>set ps. severity p = SevBlock \<and>
       policy_violated (keep_last (nat n) steps @ [([], candidate_of raw r, [])]) p))"
proof -
  let ?tr = "keep_last (nat n) steps @ [([], candidate_of raw r, [])]"
  let ?ag = "case req_agent_id r of Some a \<Rightarrow> a | None \<Rightarrow> ''default-agent''"
  have "0 < n" unfolding assms(10) by (rule window_of_pos)
  from check_total_distinct[OF this assms(11,4,8,9), of "[]" ?ag "[]"] obtain ck0 ck' where
    init: "checker_init ps [] n ?ag [] = Inr ck0"
    and chk: "check (fold ck_record steps ck0) (candidate_of raw r) = Inr (ck',
       \<not> (\<exists>p\<in>set ps. severity p = SevBlock \<and> policy_violated ?tr p),
       map policy_id (filter (policy_violated ?tr) ps))" by auto
  have named: "py_strip i \<noteq> [] \<and> length i \<le> 150" if "i \<in> set (map policy_id (filter (policy_violated ?tr) ps))" for i
    using that assms(5) coerce_policies_named unfolding assms(2) by auto
  note run = bridge_outcome[OF assms(1) assms(2)[symmetric] assms(3) assms(6)[symmetric] init[unfolded assms(10)] chk]
  obtain out where out: "path_outcome_of ps (map policy_id (filter (policy_violated ?tr) ps)) (ck_last_score ck') (length steps) = Inr out"
    using path_outcome_of_total[OF named assms(7)] by blast
  with run has_block_iff[OF assms(4) out] show ?thesis by simp
qed

definition path_request :: "pyval list \<Rightarrow> request" where
  "path_request pols = \<lparr>action_type = ''wire'', channel = ''api'', recipient = None,
     req_agent_id = None, metadata = [(''path_policy'', VMap [(''policies'', VList pols [])] [])]\<rparr>"

definition raw_policy :: "string \<Rightarrow> string \<Rightarrow> string \<Rightarrow> pyval" where
  "raw_policy pid f sev = VMap [(''policy_id'', VStr pid), (''ltl_formula'', VStr f),
     (''severity'', VStr sev)] []"

lemma coerce_raw_policy:
  "py_strip pid \<noteq> [] \<Longrightarrow> coerce_policy (raw_policy pid f sev) =
     Some \<lparr>policy_id = pid, description = [], ltl_formula = f, severity = severity_of (VStr sev)\<rparr>"
  by (simp add: coerce_policy_def raw_policy_def dict_get_def py_str_def)

theorem path_bridge_block_correct_witness:
  "\<exists>out. evaluate_path_policies_for_request
      (path_request [raw_policy ''p'' ''G !(tool=wire)'' ''block'']) = Inr out \<and> has_block out"
proof -
  let ?r = "path_request [raw_policy ''p'' ''G !(tool=wire)'' ''block'']"
  let ?raw = "[(''policies'', VList [raw_policy ''p'' ''G !(tool=wire)'' ''block''] [])]"
  let ?p = "\<lparr>policy_id = ''p'', description = [], ltl_formula = ''G !(tool=wire)'', severity = SevBlock\<rparr>"
  have "py_strip ''p'' \<noteq> []" by code_simp
  from coerce_raw_policy[OF this]
  have ps: "coerce_policies (dict_get ?raw ''policies'' VNone) = [?p]"
    by (simp add: coerce_policies_def dict_get_def List.map_filter_simps severity_of_def)
  let ?c = "candidate_of ?raw ?r"
  have c: "eval_atom ([], ?c, []) ''tool'' ''='' ''wire'' = Inr True" "step_safe ([], ?c, [])"
    by (simp_all add: candidate_of_def dict_get_def default_candidate_action_def path_request_def
        eval_atom_def atom_value_def coerce_compare_def equal_literal_def py_str_def step_safe_def)
  have "\<exists>out. evaluate_path_policies_for_request ?r = Inr out \<and> po_checked out \<and>
    (has_block out \<longleftrightarrow> (\<exists>p\<in>set [?p]. severity p = SevBlock \<and> policy_violated (keep_last (nat 256) [] @ [([], ?c, [])]) p))"
    using path_bridge_block_correct [of ?r ?raw "[]" "[?p]" "[]" 256] ps c(2)
    by (simp add: path_request_def dict_get_def steps_of_def List.map_filter_simps window_of_def nat_digits.simps)
  moreover have "policy_violated [([], ?c, [])] ?p"
    using c(1) by (simp add: policy_violated_def no_wire_compiled)
  ultimately show ?thesis by auto
qed

text \<open>
  With duplicate ids the bridge can lose a block. Two policies share an id and a formula, the
  first has severity block and the second audit: the checker refuses the candidate, but the
  severity table of the bridge keeps only the last entry, so the outcome has no block and the
  action is not forbidden.
\<close>

theorem path_bridge_duplicate_ids_fail_open:
  "\<exists>ck0 ck' out. checker_init [no_wire SevBlock, no_wire SevAudit] [] 256 ''default-agent'' [] = Inr ck0 \<and>
     check ck0 (default_candidate_action (path_request [])) = Inr (ck', False, [''no-wire'', ''no-wire'']) \<and>
     evaluate_path_policies_for_request (path_request
       [raw_policy ''no-wire'' ''G !(tool=wire)'' ''block'',
        raw_policy ''no-wire'' ''G !(tool=wire)'' ''audit'']) = Inr out \<and>
     violated_policy_ids out = [''no-wire'', ''no-wire''] \<and> \<not> has_block out"
proof -
  let ?ps = "[no_wire SevBlock, no_wire SevAudit]"
  let ?act = "default_candidate_action (path_request [])"
  let ?pols = "[raw_policy ''no-wire'' ''G !(tool=wire)'' ''block'', raw_policy ''no-wire'' ''G !(tool=wire)'' ''audit'']"
  obtain ck0 where ck0: "checker_init ?ps [] 256 ''default-agent'' [] = Inr ck0"
    "ck_policies ck0 = ?ps" "ck_callables ck0 = []" "ck_history ck0 = []"
    "ck_compiled ck0 = map_of (rev (map (\<lambda>p. (policy_id p, policy_compiled p)) ?ps))"
    using checker_init_total[of 256 ?ps "[]" "''default-agent''" "[]"] by auto
  have atom: "eval_atom ([], ?act, []) ''tool'' ''='' ''wire'' = Inr True" "step_safe ([], ?act, [])"
    by (simp_all add: default_candidate_action_def path_request_def eval_atom_def atom_value_def
        coerce_compare_def equal_literal_def py_str_def step_safe_def)
  then have v: "policy_violated [([], ?act, [])] (no_wire s)" for s
    by (simp add: policy_violated_def no_wire_def no_wire_compiled)
  have "ck_compiled ck0 (policy_id p) = Some (policy_compiled p)" if "p \<in> set ?ps" for p
    using that ck0(5) by (auto simp: no_wire_def policy_compiled_def)
  then obtain ck' where chk: "check ck0 ?act = Inr (ck', False, [''no-wire'', ''no-wire''])"
    using check_violated[of ck0 "[([], ?act, [])]" ?act] ck0 v atom(2) by (auto simp: no_wire_def)
  have "py_strip ''no-wire'' \<noteq> []" by code_simp
  note cp = coerce_raw_policy[OF this]
  have "evaluate_path_policies_for_request (path_request ?pols) =
      path_outcome_of ?ps [''no-wire'', ''no-wire''] (ck_last_score ck') 0"
    using ck0(1) chk
    by (subst bridge_outcome[where raw = "[(''policies'', VList ?pols [])]" and s = "[]" and ps = ?ps
          and steps = "[]" and ids = "[''no-wire'', ''no-wire'']" and allowed = False])
       (auto simp: path_request_def dict_get_def coerce_policies_def cp List.map_filter_simps
         severity_of_def no_wire_def steps_of_def window_of_def candidate_of_def default_candidate_action_def)
  moreover obtain f where "path_finding SevAudit 0 ''no-wire'' = Inr f"
    using path_finding_total[of "''no-wire''" 0 SevAudit] \<open>py_strip ''no-wire'' \<noteq> []\<close> by (auto simp: nat_digits.simps)
  ultimately show ?thesis
    using ck0(1) chk by (auto simp: path_outcome_of_def Let_def severity_by_id_def no_wire_def)
qed

section \<open>Callable policies and the composed score\<close>

text \<open>
  A callable policy that returns NaN passes. Both range tests of \<^verbatim>\<open>_clamp_violation\<close> are false
  on NaN and so is \<^verbatim>\<open>pi_j > 0.0\<close>: a block policy whose score is not a number neither blocks nor is
  reported, although one that raises or returns a wrong type counts as a full violation.
\<close>

theorem callable_nan_fail_open:
  assumes "ck_policies ck = []" and "ck_callables ck = [cp]" and "cp_severity cp = SevBlock"
    and "\<And>a tr c sh. cp_fn cp a tr c sh = raw"
  shows "(raw = Inr (VFloat NaN txt) \<longrightarrow> (\<exists>ck'. check ck act = Inr (ck', True, []))) \<and>
    (raw = Inl () \<or> raw = Inr VNone \<longrightarrow> (\<exists>ck'. check ck act = Inr (ck', False, [cp_policy_id cp])))"
  using assms by (auto simp: check_def callable_score_def clamp_violation_def Let_def)

definition nan_policy :: callable_policy where
  "nan_policy = \<lparr>cp_policy_id = ''exfil'', cp_description = [],
     cp_fn = (\<lambda>a tr c sh. Inr (VFloat NaN ''nan'')), cp_severity = SevBlock, requires_path = True\<rparr>"

definition nan_checker :: checker where
  "nan_checker = \<lparr>ck_policies = [], ck_callables = [nan_policy], ck_window_size = 1, ck_agent_id = [],
     ck_shared_state = [], ck_history = [], ck_compiled = Map.empty, ck_last_score = Fin 0\<rparr>"

theorem callable_nan_fail_open_witness: "\<exists>ck'. check nan_checker wire = Inr (ck', True, [])"
  using callable_nan_fail_open [of nan_checker nan_policy "Inr (VFloat NaN ''nan'')" "''nan''" wire]
  by (simp add: nan_checker_def nan_policy_def)

definition unit_float :: "pyfloat \<Rightarrow> bool" where
  "unit_float x \<longleftrightarrow> (case x of Fin q \<Rightarrow> 0 \<le> q \<and> q \<le> 1 | _ \<Rightarrow> False)"

lemma unit_float_cases: "unit_float x \<longleftrightarrow> (\<exists>q. x = Fin q \<and> 0 \<le> q \<and> q \<le> 1)"
  by (auto simp: unit_float_def split: pyfloat.splits)

lemma unit_float_round: "0 \<le> x \<Longrightarrow> x \<le> 1 \<Longrightarrow> unit_float (fl_round x)"
  using fl_round_unit[of x] by (auto simp: unit_float_cases)

lemma unit_float_sub: "unit_float x \<Longrightarrow> unit_float (fl_sub (Fin 1) x)"
  by (auto simp: unit_float_cases[of x] fl_sub_def fl_neg_def intro!: unit_float_round)

lemma unit_float_mul: "unit_float x \<Longrightarrow> unit_float y \<Longrightarrow> unit_float (fl_mul x y)"
  by (auto simp: unit_float_cases[of x] unit_float_cases[of y] fl_mul_def mult_le_one
      intro!: unit_float_round)

lemma compose_unit:
  assumes "\<forall>p\<in>set ps. unit_float p"
  shows "unit_float (compose_violation_score ps)"
proof -
  have "unit_float acc \<Longrightarrow> unit_float (foldl (\<lambda>acc p. fl_mul acc (fl_sub (Fin 1) p)) acc ps)" for acc
    using assms by (induction ps arbitrary: acc) (auto intro: unit_float_mul unit_float_sub)
  from this[of "Fin 1"] have
    "unit_float (fl_sub (Fin 1) (foldl (\<lambda>acc p. fl_mul acc (fl_sub (Fin 1) p)) (Fin 1) ps))"
    by (intro unit_float_sub) (simp add: unit_float_def)
  then show ?thesis by (auto simp: compose_violation_score_def Let_def unit_float_def)
qed

lemma clamp_unit: "clamp_violation raw = Inr x \<Longrightarrow> fl_less (Fin 0) x \<Longrightarrow> unit_float x"
  by (cases raw; cases x)
     (auto simp: clamp_violation_def Let_def unit_float_def split: if_splits sum.splits pyfloat.splits)

lemma callable_score_unit:
  "callable_score ck tr act cp = Inr x \<Longrightarrow> fl_less (Fin 0) x \<Longrightarrow> unit_float x"
  by (auto simp: callable_score_def unit_float_cases[of "Fin 1"] dest: clamp_unit split: sum.splits)

lemma ltlf_score_unit: "ltlf_score ck tr p = Inr (Some x) \<Longrightarrow> unit_float x"
  by (auto simp: ltlf_score_def unit_float_cases split: option.splits sum.splits compiled.splits)

lemma callable_loop_unit:
  "callable_loop ck tr act cps = Inr vs \<Longrightarrow> \<forall>v\<in>set vs. unit_float (fst (snd v))"
proof (induction cps arbitrary: vs)
  case (Cons cp cps)
  then obtain x vs' where x: "callable_score ck tr act cp = Inr x"
    and l: "callable_loop ck tr act cps = Inr vs'"
    and "vs = (if fl_less (Fin 0) x then (cp_policy_id cp, x, cp_severity cp = SevBlock) # vs' else vs')"
    by (auto simp: sbind_rules)
  with Cons.IH[OF l] callable_score_unit[OF x] show ?case by auto
qed simp

lemma ltlf_loop_unit: "ltlf_loop ck tr ps = Inr vs \<Longrightarrow> \<forall>v\<in>set vs. unit_float (fst (snd v))"
proof (induction ps arbitrary: vs)
  case (Cons p ps)
  then obtain sc vs' where s: "ltlf_score ck tr p = Inr sc" and l: "ltlf_loop ck tr ps = Inr vs'"
    and "vs = (case sc of None \<Rightarrow> vs' | Some x \<Rightarrow>
      if fl_less (Fin 0) x then (policy_id p, x, severity p = SevBlock) # vs' else vs')"
    by (auto simp: sbind_rules)
  with Cons.IH[OF l] show ?case
    by (auto split: option.splits if_splits dest: ltlf_score_unit)
qed simp

text \<open>
  (C27) The composed violation score stays a number between 0 and 1 under binary64 rounding, for
  any policies and any scores the callables return.
\<close>

theorem violation_score_bounds:
  assumes "check ck act = Inr (ck', allowed, ids)"
  shows "\<exists>q. ck_last_score ck' = Fin q \<and> 0 \<le> q \<and> q \<le> 1"
proof -
  from assms obtain vs1 vs2 where "ltlf_loop ck (ck_history ck @ [([], act, [])]) (ck_policies ck) = Inr vs1"
    "callable_loop ck (ck_history ck @ [([], act, [])]) act (ck_callables ck) = Inr vs2"
    and s: "ck_last_score ck' = compose_violation_score (map (\<lambda>(i, p, blk). p) (vs1 @ vs2))"
    by (fastforce simp: check_def Let_def sbind_rules)
  then have "\<forall>v\<in>set (vs1 @ vs2). unit_float (fst (snd v))"
    using ltlf_loop_unit callable_loop_unit by fastforce
  then have "unit_float (ck_last_score ck')"
    unfolding s by (intro compose_unit) (auto simp: split_beta)
  then show ?thesis by (simp add: unit_float_cases)
qed

definition half_policy :: callable_policy where
  "half_policy = nan_policy\<lparr>cp_fn := (\<lambda>a tr c sh. Inr (VFloat (Fin (1 / 2)) ''0.5''))\<rparr>"

theorem violation_score_bounds_witness:
  "\<exists>ck' q. check (nan_checker\<lparr>ck_callables := [half_policy]\<rparr>) wire = Inr (ck', False, [''exfil'']) \<and>
     ck_last_score ck' = Fin q \<and> 0 \<le> q \<and> q \<le> 1"
proof -
  obtain ck' where "check (nan_checker\<lparr>ck_callables := [half_policy]\<rparr>) wire = Inr (ck', False, [''exfil''])"
    by (auto simp: check_def callable_score_def clamp_violation_def Let_def nan_checker_def half_policy_def
        nan_policy_def)
  with violation_score_bounds [OF this] show ?thesis by blast
qed

section \<open>The RV4 bridge forbids on proof\<close>

text \<open>Both bridges read a trace entry in the same way.\<close>

lemma rv4_coerce_step_eq: "rv4_coerce_step = coerce_step"
  by (rule ext) (simp add: rv4_coerce_step_def coerce_step_def Let_def split: pyval.splits list.splits)

lemma build_trace_steps:
  "build_trace raw r = steps_of (dict_get raw ''trace'' (VList [] ''[]'')) @ [([], candidate_of raw r, [])]"
  by (simp add: build_trace_def steps_of_def rv4_coerce_step_eq Let_def split: pyval.splits)

lemma classify_entry_permanent:
  assumes "classify_entry tr e = Inr (Some v)" and "rv4_violation_is_permanent v"
  shows "evaluate (rv_formula v) (tr @ ext) \<noteq> Inr True"
proof -
  from assms obtain a where a: "ltlf_parse (rv_formula v) = Inr a"
    "evaluate_rv4_compiled a tr = Inr PERMANENTLY_VIOLATED"
    by (auto simp: classify_entry_def rv4_violation_is_permanent_def compile_formula_def sbind_rules Let_def
        split: pyval.splits if_splits sum.splits ltlf_error.splits)
  then have "\<not> ltlf_sat a (tr @ ext) 0"
    using ltlf_rv.final_report[of a tr False ext] by (simp add: rv4_is_satisfied_def rv4_is_permanent_def)
  with a(1) show ?thesis by (auto simp: evaluate_sat dest: ltlf_eval_sat)
qed

lemma classify_violations:
  assumes "classify r = Inr out" and "dict_get (metadata r) ''rv4_path_policies'' VNone = VMap raw s"
    and "v \<in> set (rv_violations out)"
  shows "\<exists>e. classify_entry (build_trace raw r) e = Inr (Some v)"
proof -
  from assms obtain es vs where "err_map (classify_entry (build_trace raw r)) es = Inr vs" "Some v \<in> set vs"
    by (auto simp: classify_def neutral_rv4_path_def Let_def sbind_rules List.map_filter_def
        split: pyval.splits if_splits)
  then show ?thesis by (blast dest: err_map_source)
qed

text \<open>
  The RV4 bridge forbids on proof only: when it reports a permanent violation, no continuation
  of the trace (the completed steps with the candidate appended) satisfies the policy's formula.
\<close>

theorem rv4_forbid_sound:
  assumes "classify r = Inr out" and "dict_get (metadata r) ''rv4_path_policies'' VNone = VMap raw s"
    and "v \<in> set (rv4_permanent out)"
  shows "evaluate (rv_formula v) (build_trace raw r @ ext) \<noteq> Inr True"
  using classify_violations[OF assms(1,2), of v] classify_entry_permanent assms(3)
  by (auto simp: rv4_permanent_def)

definition rv4_request :: "pyval list \<Rightarrow> request" where
  "rv4_request pols = \<lparr>action_type = ''wire'', channel = ''api'', recipient = None,
     req_agent_id = None, metadata = [(''rv4_path_policies'', VMap [(''policies'', VList pols [])] [])]\<rparr>"

lemma rv4_request_trace:
  "build_trace [(''policies'', VList pols [])] (rv4_request pols) =
     [([], default_candidate_action (rv4_request pols), [])]"
  by (simp add: build_trace_steps dict_get_def steps_of_def List.map_filter_simps candidate_of_def)

theorem rv4_forbid_sound_witness:
  "\<exists>out v. classify (rv4_request [raw_policy ''p'' ''G !(tool=wire)'' []]) = Inr out \<and>
     v \<in> set (rv4_permanent out) \<and>
     evaluate ''G !(tool=wire)'' ([([], default_candidate_action (rv4_request []), [])] @ [([], [], [])]) \<noteq> Inr True"
proof -
  let ?pols = "[raw_policy ''p'' ''G !(tool=wire)'' []]"
  let ?raw = "[(''policies'', VList ?pols [])]"
  let ?v = "\<lparr>rv_policy_id = ''p'', rv_verdict4 = PERMANENTLY_VIOLATED, rv_formula = ''G !(tool=wire)''\<rparr>"
  have act: "default_candidate_action (rv4_request ?pols) = default_candidate_action (rv4_request [])"
    by (simp add: default_candidate_action_def rv4_request_def)
  have "eval_atom ([], default_candidate_action (rv4_request []), []) ''tool'' ''='' ''wire'' = Inr True"
    by (simp add: default_candidate_action_def rv4_request_def eval_atom_def atom_value_def
        coerce_compare_def equal_literal_def py_str_def)
  then have "evaluate_rv4_compiled (FG (FNot (FAtom ''tool'' ''='' ''wire'')))
      [([], default_candidate_action (rv4_request []), [])] = Inr PERMANENTLY_VIOLATED"
    by (simp add: evaluate_rv4_compiled_def)
  moreover have "py_strip ''p'' \<noteq> []" "py_strip ''G !(tool=wire)'' \<noteq> []" by code_simp+
  ultimately have e: "classify_entry (build_trace ?raw (rv4_request ?pols)) (hd ?pols) = Inr (Some ?v)"
    unfolding rv4_request_trace act
    by (simp add: classify_entry_def raw_policy_def dict_get_def py_str_def no_wire_compiled
        rv4_is_satisfied_def)
  then have c: "classify (rv4_request ?pols) = Inr \<lparr>rv_checked = True, rv_violations = [?v]\<rparr>"
    by (simp add: classify_def dict_get_def rv4_request_def List.map_filter_simps)
  have "?v \<in> set (rv4_permanent \<lparr>rv_checked = True, rv_violations = [?v]\<rparr>)"
    by (simp add: rv4_permanent_def rv4_violation_is_permanent_def)
  with c rv4_forbid_sound [OF c, of ?raw "[]" ?v "[([], [], [])]"] show ?thesis
    unfolding rv4_request_trace act by (auto simp: dict_get_def rv4_request_def)
qed

text \<open>
  Nothing unmet passes silently: when classification returns, every listed policy whose formula
  does not parse or does not hold on the trace appears among the violations, and one that does not
  parse only as a recoverable one.
\<close>

theorem rv4_violation_reported:
  assumes "classify r = Inr out" and "dict_get (metadata r) ''rv4_path_policies'' VNone = VMap raw s"
    and "dict_get raw ''policies'' VNone = VList es t" and "VMap m u \<in> set es"
    and "dict_get m ''policy_id'' VNone = VStr pid" and "py_strip pid \<noteq> []"
    and "f = py_str (dict_get m ''ltl_formula'' (VStr []))" and "py_strip f \<noteq> []"
    and "compile_formula f = Inl e \<or> (\<exists>a. compile_formula f = Inr a \<and> \<not> ltlf_sat a (build_trace raw r) 0)"
  shows "\<exists>v\<in>set (rv_violations out). rv_policy_id v = pid \<and> rv_formula v = f \<and>
    (compile_formula f = Inl e \<longrightarrow> v \<in> set (rv4_recoverable out))"
proof -
  let ?tr = "build_trace raw r"
  from assms(1-4) obtain vs where vs: "err_map (classify_entry ?tr) es = Inr vs"
    "out = \<lparr>rv_checked = True, rv_violations = List.map_filter id vs\<rparr>"
    by (auto simp: classify_def Let_def sbind_rules split: if_splits)
  then obtain o' where o': "classify_entry ?tr (VMap m u) = Inr o'" "o' \<in> set vs"
    using assms(4) by (blast dest: err_map_target)
  have "\<exists>v. o' = Some v \<and> rv_policy_id v = pid \<and> rv_formula v = f \<and>
      (compile_formula f = Inl e \<longrightarrow> rv_verdict4 v = CURRENTLY_VIOLATED)"
    using assms(9)
  proof
    assume p: "compile_formula f = Inl e"
    then have "e = LtlfParseError"
      using ltlf_parse_error[of f] by (cases e) (auto simp: compile_formula_def)
    with p o'(1) assms(5-8) show ?thesis by (auto simp: classify_entry_def Let_def)
  next
    assume "\<exists>a. compile_formula f = Inr a \<and> \<not> ltlf_sat a ?tr 0"
    with o'(1) assms(5-8) show ?thesis
      by (auto simp: classify_entry_def Let_def sbind_rules split: if_splits
          dest: evaluate_rv4_compiled_satisfied)
  qed
  with o'(2) vs(2) show ?thesis
    by (force simp: rv4_recoverable_def rv4_violation_is_permanent_def List.map_filter_def)
qed

theorem rv4_violation_reported_witness:
  "\<exists>out. classify (rv4_request [raw_policy ''p'' ''G ('' []]) = Inr out \<and>
     (\<exists>v\<in>set (rv_violations out). rv_policy_id v = ''p'')"
proof -
  let ?pols = "[raw_policy ''p'' ''G ('' []]"
  let ?raw = "[(''policies'', VList ?pols [])]"
  have s: "py_strip ''p'' \<noteq> []" "py_strip ''G ('' \<noteq> []" by code_simp+
  have f: "compile_formula ''G ('' = Inl LtlfParseError" by code_simp
  obtain out where c: "classify (rv4_request ?pols) = Inr out"
    using s f by (simp add: classify_def classify_entry_def raw_policy_def dict_get_def rv4_request_def py_str_def)
  have "\<exists>v\<in>set (rv_violations out). rv_policy_id v = ''p'' \<and> rv_formula v = ''G ('' \<and>
    (compile_formula ''G ('' = Inl LtlfParseError \<longrightarrow> v \<in> set (rv4_recoverable out))"
    by (rule rv4_violation_reported [OF c, of ?raw "[]" ?pols "[]"])
       (use s f in \<open>auto simp: rv4_request_def dict_get_def raw_policy_def py_str_def\<close>)
  with c show ?thesis by blast
qed

end
