(* ===== verification/Label_Lattice.thy ===== *)
theory Label_Lattice
  imports Prelude
begin

text \<open>
  The interface of a label lattice, shared by the integrity and confidentiality ladders, the FIDES
  product label and the capability sets of CaMeL: a value derived from several values is labelled by
  joining their labels, one after the other, starting from the bottom label
  (\<^verbatim>\<open>for v in from_values: merged = merged | v.caps\<close>). \<open>label_map\<close> is a projection from one such
  lattice to another, e.g. from a capability set to its integrity level.
\<close>

locale label_lattice =
  fixes le :: "'l \<Rightarrow> 'l \<Rightarrow> bool" and join :: "'l \<Rightarrow> 'l \<Rightarrow> 'l" and bot :: 'l
  assumes le_refl: "le a a"
    and le_trans: "le a b \<Longrightarrow> le b c \<Longrightarrow> le a c"
    and le_antisym: "le a b \<Longrightarrow> le b a \<Longrightarrow> a = b"
    and join_upper1: "le a (join a b)"
    and join_upper2: "le b (join a b)"
    and join_least: "le a c \<Longrightarrow> le b c \<Longrightarrow> le (join a b) c"
    and bot_least: "le bot a"
begin

lemma join_le_iff: "le (join a b) c \<longleftrightarrow> le a c \<and> le b c"
  by (meson join_least join_upper1 join_upper2 le_trans)

lemma foldl_join_le: "le (foldl join a xs) c \<longleftrightarrow> le a c \<and> (\<forall>x\<in>set xs. le x c)"
  by (induction xs arbitrary: a) (auto simp: join_le_iff)

text \<open>The label of a derived value is an upper bound of its inputs, and the least one.\<close>

lemma derived_upper: "x \<in> set xs \<Longrightarrow> le x (foldl join bot xs)"
  using foldl_join_le[of bot xs "foldl join bot xs"] le_refl by blast

lemma derived_least: "(\<And>x. x \<in> set xs \<Longrightarrow> le x c) \<Longrightarrow> le (foldl join bot xs) c"
  by (simp add: foldl_join_le bot_least)

text \<open>It depends on the set of inputs only, and grows with it.\<close>

lemma derived_mono: "set xs \<subseteq> set ys \<Longrightarrow> le (foldl join bot xs) (foldl join bot ys)"
  by (meson derived_least derived_upper subsetD)

lemma derived_set_cong: "set xs = set ys \<Longrightarrow> foldl join bot xs = foldl join bot ys"
  by (simp add: derived_mono le_antisym)

lemma join_bot: "join bot a = a"
  by (meson bot_least join_least join_upper2 le_antisym le_refl)

end

locale label_map = src: label_lattice le1 join1 bot1 + dst: label_lattice le2 join2 bot2
  for le1 :: "'a \<Rightarrow> 'a \<Rightarrow> bool" and join1 bot1 and le2 :: "'b \<Rightarrow> 'b \<Rightarrow> bool" and join2 bot2 +
  fixes proj :: "'a \<Rightarrow> 'b"
  assumes proj_join: "proj (join1 a b) = join2 (proj a) (proj b)"
    and proj_bot: "proj bot1 = bot2"
begin

lemma proj_foldl: "proj (foldl join1 a xs) = foldl join2 (proj a) (map proj xs)"
  by (induction xs arbitrary: a) (auto simp: proj_join)

text \<open>Projecting the derived label is deriving the projected labels.\<close>

lemma proj_derived: "proj (foldl join1 bot1 xs) = foldl join2 bot2 (map proj xs)"
  by (simp add: proj_foldl proj_bot)

lemma proj_mono: "le1 a b \<Longrightarrow> le2 (proj a) (proj b)"
  by (metis dst.join_upper1 proj_join src.join_least src.join_upper2 src.le_antisym src.le_refl)

end

end
