(* ===== verification/Camel_Labels.thy ===== *)
theory Camel_Labels
  imports Label_Lattice Py_Value "HOL-Library.FSet" "HOL-Library.List_Lexorder" "HOL-Library.Char_ord"
begin

text \<open>
  CaMeL capabilities and tool policies: \<^verbatim>\<open>camel/capability.py\<close>, \<^verbatim>\<open>camel/value.py\<close> and
  \<^verbatim>\<open>camel/policy.py\<close>. The two \<^verbatim>\<open>IntEnum\<close> ladders are datatypes ordered as their numbers; a
  \<^verbatim>\<open>frozenset\<close> is an \<open>fset\<close>. The four label types interpret \<open>label_lattice\<close> and the projections
  between them \<open>label_map\<close>, so that what holds of joins is proved once.
\<close>

section \<open>Levels\<close>

datatype CapabilityLevel = TRUSTED | USER | UNTRUSTED

datatype ConfidentialityLevel = PUBLIC | INTERNAL | CONFIDENTIAL | RESTRICTED

primrec level_int :: "CapabilityLevel \<Rightarrow> nat" where
  "level_int TRUSTED = 0" | "level_int USER = 1" | "level_int UNTRUSTED = 2"

primrec conf_int :: "ConfidentialityLevel \<Rightarrow> nat" where
  "conf_int PUBLIC = 0" | "conf_int INTERNAL = 1" | "conf_int CONFIDENTIAL = 2" | "conf_int RESTRICTED = 3"

lemma level_int_inject [simp]: "level_int a = level_int b \<longleftrightarrow> a = b"
  by (cases a; cases b) simp_all

lemma conf_int_inject [simp]: "conf_int a = conf_int b \<longleftrightarrow> a = b"
  by (cases a; cases b) simp_all

instantiation CapabilityLevel :: linorder
begin

definition less_eq_CapabilityLevel :: "CapabilityLevel \<Rightarrow> CapabilityLevel \<Rightarrow> bool" where
  "a \<le> b \<longleftrightarrow> level_int a \<le> level_int b"

definition less_CapabilityLevel :: "CapabilityLevel \<Rightarrow> CapabilityLevel \<Rightarrow> bool" where
  "a < b \<longleftrightarrow> level_int a < level_int b"

instance
  by standard (auto simp: less_eq_CapabilityLevel_def less_CapabilityLevel_def)

end

instantiation ConfidentialityLevel :: linorder
begin

definition less_eq_ConfidentialityLevel :: "ConfidentialityLevel \<Rightarrow> ConfidentialityLevel \<Rightarrow> bool" where
  "a \<le> b \<longleftrightarrow> conf_int a \<le> conf_int b"

definition less_ConfidentialityLevel :: "ConfidentialityLevel \<Rightarrow> ConfidentialityLevel \<Rightarrow> bool" where
  "a < b \<longleftrightarrow> conf_int a < conf_int b"

instance
  by standard (auto simp: less_eq_ConfidentialityLevel_def less_ConfidentialityLevel_def)

end

lemmas level_order_defs = less_eq_CapabilityLevel_def less_CapabilityLevel_def
  less_eq_ConfidentialityLevel_def less_ConfidentialityLevel_def

definition level_join :: "CapabilityLevel \<Rightarrow> CapabilityLevel \<Rightarrow> CapabilityLevel" where
  "level_join a b = max a b"

definition is_untrusted_level :: "CapabilityLevel \<Rightarrow> bool" where
  "is_untrusted_level l \<longleftrightarrow> l = UNTRUSTED"

definition conf_join :: "ConfidentialityLevel \<Rightarrow> ConfidentialityLevel \<Rightarrow> ConfidentialityLevel" where
  "conf_join a b = max a b"

definition conf_is_sensitive :: "ConfidentialityLevel \<Rightarrow> bool" where
  "conf_is_sensitive c \<longleftrightarrow> CONFIDENTIAL \<le> c"

primrec level_name :: "CapabilityLevel \<Rightarrow> string" where
  "level_name TRUSTED = ''TRUSTED''" | "level_name USER = ''USER''" | "level_name UNTRUSTED = ''UNTRUSTED''"

lemma TRUSTED_least [simp]: "TRUSTED \<le> l"
  by (simp add: level_order_defs)

lemma UNTRUSTED_greatest [simp]: "UNTRUSTED \<le> l \<longleftrightarrow> l = UNTRUSTED"
  by (cases l) (simp_all add: level_order_defs)

lemma PUBLIC_least [simp]: "PUBLIC \<le> c"
  by (simp add: level_order_defs)

lemma le_TRUSTED [simp]: "l \<le> TRUSTED \<longleftrightarrow> l = TRUSTED"
  by (cases l) (simp_all add: level_order_defs)

interpretation integrity: label_lattice "(\<le>)" level_join TRUSTED
  by unfold_locales (auto simp: level_join_def)

interpretation confid: label_lattice "(\<le>)" conf_join PUBLIC
  by unfold_locales (auto simp: conf_join_def)

section \<open>Capabilities and labels\<close>

record capability =
  c_level :: CapabilityLevel
  c_confidentiality :: ConfidentialityLevel
  c_source :: string
  c_provenance_id :: "string option"

definition cap_trusted :: "string \<Rightarrow> ConfidentialityLevel \<Rightarrow> capability" where
  "cap_trusted src conf = \<lparr>c_level = TRUSTED, c_confidentiality = conf, c_source = src, c_provenance_id = None\<rparr>"

definition cap_user :: "string \<Rightarrow> ConfidentialityLevel \<Rightarrow> capability" where
  "cap_user src conf = \<lparr>c_level = USER, c_confidentiality = conf, c_source = src, c_provenance_id = None\<rparr>"

definition cap_untrusted :: "string \<Rightarrow> string option \<Rightarrow> ConfidentialityLevel \<Rightarrow> capability" where
  "cap_untrusted src prov conf =
     \<lparr>c_level = UNTRUSTED, c_confidentiality = conf, c_source = src, c_provenance_id = prov\<rparr>"

definition cap_sensitive ::
  "string \<Rightarrow> CapabilityLevel \<Rightarrow> ConfidentialityLevel \<Rightarrow> string option \<Rightarrow> capability" where
  "cap_sensitive src l conf prov =
     \<lparr>c_level = l, c_confidentiality = conf, c_source = src, c_provenance_id = prov\<rparr>"

record fides_label =
  f_integrity :: CapabilityLevel
  f_confidentiality :: ConfidentialityLevel

definition fides_join :: "fides_label \<Rightarrow> fides_label \<Rightarrow> fides_label" where
  "fides_join a b = \<lparr>f_integrity = level_join (f_integrity a) (f_integrity b),
                     f_confidentiality = conf_join (f_confidentiality a) (f_confidentiality b)\<rparr>"

definition fides_is_untrusted :: "fides_label \<Rightarrow> bool" where
  "fides_is_untrusted l = is_untrusted_level (f_integrity l)"

definition fides_is_sensitive :: "fides_label \<Rightarrow> bool" where
  "fides_is_sensitive l = conf_is_sensitive (f_confidentiality l)"

definition fides_is_flow_violation :: "fides_label \<Rightarrow> bool" where
  "fides_is_flow_violation l \<longleftrightarrow> fides_is_untrusted l \<and> fides_is_sensitive l"

definition fides_le :: "fides_label \<Rightarrow> fides_label \<Rightarrow> bool" where
  "fides_le a b \<longleftrightarrow> f_integrity a \<le> f_integrity b \<and> f_confidentiality a \<le> f_confidentiality b"

definition fides_default :: fides_label where
  "fides_default = \<lparr>f_integrity = TRUSTED, f_confidentiality = PUBLIC\<rparr>"

interpretation fides: label_lattice fides_le fides_join fides_default
  by unfold_locales
     (auto simp: fides_le_def fides_join_def fides_default_def level_join_def conf_join_def)

text \<open>Capability sets: \<^verbatim>\<open>level\<close> and \<^verbatim>\<open>confidentiality\<close> are maxima over the members.\<close>

type_synonym capability_set = "capability fset"

definition cs_level :: "capability_set \<Rightarrow> CapabilityLevel" where
  "cs_level cs = (if cs = {||} then TRUSTED else Max (c_level ` fset cs))"

definition cs_confidentiality :: "capability_set \<Rightarrow> ConfidentialityLevel" where
  "cs_confidentiality cs = (if cs = {||} then PUBLIC else Max (c_confidentiality ` fset cs))"

definition cs_fides_label :: "capability_set \<Rightarrow> fides_label" where
  "cs_fides_label cs = \<lparr>f_integrity = cs_level cs, f_confidentiality = cs_confidentiality cs\<rparr>"

definition cs_sources :: "capability_set \<Rightarrow> string fset" where
  "cs_sources cs = c_source |`| cs"

definition cs_is_trusted :: "capability_set \<Rightarrow> bool" where
  "cs_is_trusted cs \<longleftrightarrow> cs_level cs = TRUSTED"

definition cs_is_untrusted :: "capability_set \<Rightarrow> bool" where
  "cs_is_untrusted cs \<longleftrightarrow> cs_level cs = UNTRUSTED"

definition cs_is_sensitive :: "capability_set \<Rightarrow> bool" where
  "cs_is_sensitive cs = conf_is_sensitive (cs_confidentiality cs)"

definition cs_is_flow_violation :: "capability_set \<Rightarrow> bool" where
  "cs_is_flow_violation cs = fides_is_flow_violation (cs_fides_label cs)"

definition cs_join :: "capability_set \<Rightarrow> capability_set \<Rightarrow> capability_set" where
  "cs_join a b = a |\<union>| b"

definition cs_add :: "capability_set \<Rightarrow> capability \<Rightarrow> capability_set" where
  "cs_add a c = a |\<union>| {|c|}"

lemma max_TRUSTED [simp]: "max TRUSTED l = l" "max l TRUSTED = l"
  by (simp_all add: max_def)

lemma max_PUBLIC [simp]: "max PUBLIC c = c" "max c PUBLIC = c"
  by (cases c; simp add: max_def level_order_defs)+

lemma cs_level_join: "cs_level (cs_join a b) = level_join (cs_level a) (cs_level b)"
  by (cases "a = {||}"; cases "b = {||}")
     (auto simp: cs_level_def cs_join_def level_join_def image_Un Max_Un bot_fset.rep_eq fset_inject[symmetric])

lemma cs_confidentiality_join:
  "cs_confidentiality (cs_join a b) = conf_join (cs_confidentiality a) (cs_confidentiality b)"
  by (cases "a = {||}"; cases "b = {||}")
     (auto simp: cs_confidentiality_def cs_join_def conf_join_def image_Un Max_Un bot_fset.rep_eq
       fset_inject[symmetric])

lemma cs_empty [simp]: "cs_level {||} = TRUSTED" "cs_confidentiality {||} = PUBLIC"
  by (simp_all add: cs_level_def cs_confidentiality_def)

interpretation caps: label_lattice "(|\<subseteq>|)" cs_join "{||}"
  by unfold_locales (auto simp: cs_join_def)

interpretation caps_level: label_map "(|\<subseteq>|)" cs_join "{||}" "(\<le>)" level_join TRUSTED cs_level
  by unfold_locales (simp_all add: cs_level_join)

interpretation caps_conf: label_map "(|\<subseteq>|)" cs_join "{||}" "(\<le>)" conf_join PUBLIC cs_confidentiality
  by unfold_locales (simp_all add: cs_confidentiality_join)

interpretation caps_fides: label_map "(|\<subseteq>|)" cs_join "{||}" fides_le fides_join fides_default cs_fides_label
  by unfold_locales
     (simp_all add: cs_fides_label_def fides_join_def fides_default_def cs_level_join
       cs_confidentiality_join)

section \<open>Values\<close>

record cap_value =
  cv_value :: pyval
  cv_caps :: capability_set

definition cv_trusted :: "pyval \<Rightarrow> string \<Rightarrow> cap_value" where
  "cv_trusted v src = \<lparr>cv_value = v, cv_caps = {|cap_trusted src PUBLIC|}\<rparr>"

definition cv_user :: "pyval \<Rightarrow> string \<Rightarrow> cap_value" where
  "cv_user v src = \<lparr>cv_value = v, cv_caps = {|cap_user src PUBLIC|}\<rparr>"

definition cv_untrusted :: "pyval \<Rightarrow> string \<Rightarrow> string option \<Rightarrow> cap_value" where
  "cv_untrusted v src prov = \<lparr>cv_value = v, cv_caps = {|cap_untrusted src prov PUBLIC|}\<rparr>"

definition cv_derived :: "pyval \<Rightarrow> cap_value list \<Rightarrow> cap_value" where
  "cv_derived v from_values =
     \<lparr>cv_value = v, cv_caps = foldl (\<lambda>merged x. cs_join merged (cv_caps x)) {||} from_values\<rparr>"

definition cv_level :: "cap_value \<Rightarrow> CapabilityLevel" where
  "cv_level v = cs_level (cv_caps v)"

lemma cv_derived_caps: "cv_caps (cv_derived v xs) = foldl cs_join {||} (map cv_caps xs)"
  by (simp add: cv_derived_def foldl_map)

text \<open>
  (C28) Taint propagates exactly: the capabilities of a derived value are those of its inputs, its
  integrity level is the least level that bounds the level of every input (\<^verbatim>\<open>TRUSTED\<close> for no input),
  and it is a flow violation as soon as one input is untrusted and one (perhaps another) is
  sensitive.
\<close>

theorem cv_derived_labels:
  "(\<forall>c. c |\<in>| cv_caps (cv_derived v xs) \<longleftrightarrow> (\<exists>x\<in>set xs. c |\<in>| cv_caps x)) \<and>
   (\<forall>l. cv_level (cv_derived v xs) \<le> l \<longleftrightarrow> (\<forall>x\<in>set xs. cv_level x \<le> l)) \<and>
   (cs_is_flow_violation (cv_caps (cv_derived v xs)) \<longleftrightarrow>
      (\<exists>x\<in>set xs. cs_is_untrusted (cv_caps x)) \<and> (\<exists>x\<in>set xs. cs_is_sensitive (cv_caps x)))"
proof -
  have "c |\<in>| foldl cs_join a (map cv_caps xs) \<longleftrightarrow> c |\<in>| a \<or> (\<exists>x\<in>set xs. c |\<in>| cv_caps x)" for c a
    by (induction xs arbitrary: a) (auto simp: cs_join_def)
  then have m: "c |\<in>| cv_caps (cv_derived v xs) \<longleftrightarrow> (\<exists>x\<in>set xs. c |\<in>| cv_caps x)" for c
    by (simp add: cv_derived_caps)
  have lev: "cv_level (cv_derived v xs) \<le> l \<longleftrightarrow> (\<forall>x\<in>set xs. cv_level x \<le> l)" for l
    by (simp add: cv_level_def cv_derived_caps caps_level.proj_derived integrity.foldl_join_le)
  have conf: "cs_confidentiality (cv_caps (cv_derived v xs)) \<le> l \<longleftrightarrow>
      (\<forall>x\<in>set xs. cs_confidentiality (cv_caps x) \<le> l)" for l
    by (simp add: cv_derived_caps caps_conf.proj_derived confid.foldl_join_le)
  have u: "l = UNTRUSTED \<longleftrightarrow> \<not> l \<le> USER" for l by (cases l) (simp_all add: level_order_defs)
  have s: "CONFIDENTIAL \<le> k \<longleftrightarrow> \<not> k \<le> INTERNAL" for k by (cases k) (simp_all add: level_order_defs)
  show ?thesis
    using m lev lev[of USER] conf[of INTERNAL]
    by (auto simp: cs_is_flow_violation_def fides_is_flow_violation_def fides_is_untrusted_def
        is_untrusted_level_def fides_is_sensitive_def conf_is_sensitive_def cs_fides_label_def
        cs_is_untrusted_def cs_is_sensitive_def u s cv_level_def)
qed

theorem cv_derived_labels_witness:
  "cs_is_flow_violation (cv_caps (cv_derived VNone
     [cv_untrusted (VStr ''mail'') ''email'' None,
      \<lparr>cv_value = VNone, cv_caps = {|cap_sensitive ''crm'' TRUSTED RESTRICTED None|}\<rparr>]))"
  using cv_derived_labels [of VNone "[cv_untrusted (VStr ''mail'') ''email'' None,
      \<lparr>cv_value = VNone, cv_caps = {|cap_sensitive ''crm'' TRUSTED RESTRICTED None|}\<rparr>]"]
  by (simp add: cs_is_untrusted_def cs_is_sensitive_def cs_level_def cs_confidentiality_def
      cv_untrusted_def cap_untrusted_def cap_sensitive_def conf_is_sensitive_def level_order_defs)

section \<open>Tool policies\<close>

record tool_policy =
  tp_tool_name :: string
  tp_max_arg_levels :: "CapabilityLevel list"
  tp_forbidden_sources :: "string fset"
  tp_description :: "string option"

text \<open>The text of a denial: \<^verbatim>\<open>repr()\<close> of a string, and of a sorted list of strings.\<close>

definition py_repr_list :: "string list \<Rightarrow> string" where
  "py_repr_list xs = ''['' @ py_join '', '' (map py_repr xs) @ '']''"

fun check_args :: "tool_policy \<Rightarrow> nat \<Rightarrow> capability_set list \<Rightarrow> CapabilityLevel list \<Rightarrow> string option" where
  "check_args p i (caps # cs) (m # ms) =
     (if m < cs_level caps then
        Some (''arg #'' @ nat_digits i @ '' of '' @ py_repr (tp_tool_name p) @ '': level '' @
              level_name (cs_level caps) @ '' exceeds max '' @ level_name m)
      else if cs_sources caps |\<inter>| tp_forbidden_sources p \<noteq> {||} then
        Some (''arg #'' @ nat_digits i @ '' of '' @ py_repr (tp_tool_name p) @ '': source(s) '' @
              py_repr_list (sorted_list_of_fset (cs_sources caps |\<inter>| tp_forbidden_sources p)) @
              '' are forbidden'')
      else check_args p (i + 1) cs ms)"
| "check_args p i _ _ = None"

text \<open>\<^verbatim>\<open>ToolPolicy.check\<close>: \<open>None\<close> is \<^verbatim>\<open>(True, None)\<close>, \<open>Some r\<close> is \<^verbatim>\<open>(False, r)\<close>.\<close>

definition tool_policy_check :: "tool_policy \<Rightarrow> capability_set list \<Rightarrow> string option" where
  "tool_policy_check p arg_caps =
     (if length arg_caps \<noteq> length (tp_max_arg_levels p) then
        Some (''arity mismatch: tool '' @ py_repr (tp_tool_name p) @ '' expects '' @
              nat_digits (length (tp_max_arg_levels p)) @ '' args, got '' @ nat_digits (length arg_caps))
      else check_args p 0 arg_caps (tp_max_arg_levels p))"

record policy_registry =
  pr_policies :: "string \<rightharpoonup> tool_policy"
  pr_frozen :: bool

datatype registry_error = RegistryRuntimeError | RegistryValueError

definition registry_init :: policy_registry where
  "registry_init = \<lparr>pr_policies = Map.empty, pr_frozen = False\<rparr>"

definition registry_register :: "tool_policy \<Rightarrow> policy_registry \<Rightarrow> registry_error + policy_registry" where
  "registry_register p r =
     (if pr_frozen r then Inl RegistryRuntimeError
      else if pr_policies r (tp_tool_name p) \<noteq> None then Inl RegistryValueError
      else Inr (r\<lparr>pr_policies := (pr_policies r)(tp_tool_name p \<mapsto> p)\<rparr>))"

definition registry_freeze :: "policy_registry \<Rightarrow> policy_registry" where
  "registry_freeze r = r\<lparr>pr_frozen := True\<rparr>"

definition registry_get :: "policy_registry \<Rightarrow> string \<Rightarrow> tool_policy option" where
  "registry_get r t = pr_policies r t"

text \<open>
  The default policy takes the name of the tool as it is: a \<^verbatim>\<open>Call\<close> node already limits it to the 1 to 128 characters that
  \<^verbatim>\<open>ToolPolicy\<close> asks for, so the validation of the default policy cannot fail in a run.
\<close>

definition policy_for :: "policy_registry \<Rightarrow> string \<Rightarrow> nat \<Rightarrow> tool_policy" where
  "policy_for r t arity = (case pr_policies r t of
       Some p \<Rightarrow> p
     | None \<Rightarrow> \<lparr>tp_tool_name = t, tp_max_arg_levels = replicate arity TRUSTED,
               tp_forbidden_sources = {||},
               tp_description = Some ''auto-generated fail-closed default''\<rparr>)"

lemma check_args_None:
  "length cs = length ms \<Longrightarrow> check_args p i cs ms = None \<longleftrightarrow>
     list_all2 (\<lambda>caps m. cs_level caps \<le> m \<and> cs_sources caps |\<inter>| tp_forbidden_sources p = {||}) cs ms"
  by (induction p i cs ms rule: check_args.induct) (auto simp: not_less)

lemma tool_policy_check_None:
  "tool_policy_check p cs = None \<longleftrightarrow>
     list_all2 (\<lambda>caps m. cs_level caps \<le> m \<and> cs_sources caps |\<inter>| tp_forbidden_sources p = {||})
       cs (tp_max_arg_levels p)"
  by (auto simp: tool_policy_check_def check_args_None dest: list_all2_lengthD)

text \<open>What an authorized call satisfies.\<close>

definition call_authorised :: "policy_registry \<Rightarrow> string \<Rightarrow> cap_value list \<Rightarrow> bool" where
  "call_authorised r t args = (case pr_policies r t of
       None \<Rightarrow> \<forall>v\<in>set args. cv_level v = TRUSTED
     | Some p \<Rightarrow> list_all2 (\<lambda>v m. cv_level v \<le> m \<and>
         (\<forall>c. c |\<in>| cv_caps v \<longrightarrow> c_source c |\<notin>| tp_forbidden_sources p)) args (tp_max_arg_levels p))"

lemma list_all2_replicate: "list_all2 P xs (replicate (length xs) y) \<longleftrightarrow> (\<forall>x\<in>set xs. P x y)"
  by (induction xs) auto

lemma sources_disjoint:
  "cs_sources cs |\<inter>| F = {||} \<longleftrightarrow> (\<forall>c. c |\<in>| cs \<longrightarrow> c_source c |\<notin>| F)"
  by (auto simp: cs_sources_def)

lemma tool_gate_iff:
  "tool_policy_check (policy_for r t (length args)) (map cv_caps args) = None \<longleftrightarrow> call_authorised r t args"
  by (auto simp: tool_policy_check_None policy_for_def call_authorised_def list_all2_map1 cv_level_def
      sources_disjoint list_all2_replicate split: option.splits)

text \<open>
  (C29) The tool gate decides what it documents: a call passes \<^verbatim>\<open>policy_for(...).check(...)\<close> exactly
  when, for a registered tool, the number of arguments is right, each argument's level is at most
  the maximum of its position and none of its sources is forbidden; and, for an unregistered tool,
  every argument is \<^verbatim>\<open>TRUSTED\<close>.
\<close>

theorem tool_gate_correct:
  "tool_policy_check (policy_for r t (length args)) (map cv_caps args) = None \<longleftrightarrow> call_authorised r t args"
  by (rule tool_gate_iff)

lemma registry_frozen_register: "pr_frozen r \<Longrightarrow> registry_register p r = Inl RegistryRuntimeError"
  by (simp add: registry_register_def)

end
