(* ===== verification/Rule_Of_Two.thy ===== *)
theory Rule_Of_Two
  imports Camel_Labels Path_Checker
begin

text \<open>
  The Rule-of-Two contract, \<^verbatim>\<open>contracts/rule_of_two.py\<close>: three buckets, declared or derived from
  FIDES labels, and the conjunction that forbids. The reason text is left out; the evidence dict
  keeps its keys and values.
\<close>

datatype evidence_value = EvSources "string list" | EvFlag

record rule_of_two_outcome =
  r2_fired :: bool
  r2_untrusted_input :: bool
  r2_sensitive_access :: bool
  r2_state_change :: bool
  r2_human_oversight :: bool
  r2_evidence :: "(string \<times> evidence_value) list"

definition neutral_rule_of_two :: rule_of_two_outcome where
  "neutral_rule_of_two = \<lparr>r2_fired = False, r2_untrusted_input = False, r2_sensitive_access = False,
     r2_state_change = False, r2_human_oversight = False, r2_evidence = []\<rparr>"

definition present_buckets :: "rule_of_two_outcome \<Rightarrow> string list" where
  "present_buckets o2 = (if r2_untrusted_input o2 then [''untrusted_input''] else []) @
     (if r2_sensitive_access o2 then [''sensitive_access''] else []) @
     (if r2_state_change o2 then [''state_change''] else [])"

definition as_bool :: "pyval \<Rightarrow> bool" where
  "as_bool v = (case v of
       VBool b \<Rightarrow> b
     | VInt i \<Rightarrow> i = 1
     | VFloat f s \<Rightarrow> fl_eq f (Fin 1)
     | VStr s \<Rightarrow> py_casefold (py_strip s) \<in> {''true'', ''1'', ''yes''}
     | _ \<Rightarrow> False)"

definition level_member :: "string \<Rightarrow> CapabilityLevel option" where
  "level_member = map_of [(''TRUSTED'', TRUSTED), (''USER'', USER), (''UNTRUSTED'', UNTRUSTED)]"

definition conf_member :: "string \<Rightarrow> ConfidentialityLevel option" where
  "conf_member = map_of [(''PUBLIC'', PUBLIC), (''INTERNAL'', INTERNAL), (''CONFIDENTIAL'', CONFIDENTIAL),
     (''RESTRICTED'', RESTRICTED)]"

text \<open>What one capability entry contributes: its source, whether untrusted, whether sensitive.\<close>

definition entry_label :: "pyval \<Rightarrow> (string \<times> bool \<times> bool) option" where
  "entry_label entry = (case entry of
       VMap m _ \<Rightarrow> Some (py_str (dict_get m ''source'' (VStr ''?'')),
         level_member (py_upper (py_strip (py_str (dict_get m ''level'' (VStr []))))) = Some UNTRUSTED,
         (case conf_member (py_upper (py_strip (py_str (dict_get m ''confidentiality'' (VStr []))))) of
            Some c \<Rightarrow> conf_is_sensitive c | None \<Rightarrow> False))
     | _ \<Rightarrow> None)"

definition derive_from_capabilities :: "pybag \<Rightarrow> bool \<times> bool \<times> (string \<times> evidence_value) list" where
  "derive_from_capabilities raw = (case dict_get raw ''capabilities'' VNone of
       VList caps _ \<Rightarrow>
         (let es = List.map_filter entry_label caps;
              us = map fst (filter (\<lambda>(s, u, c). u) es);
              ss = map fst (filter (\<lambda>(s, u, c). c) es)
          in (us \<noteq> [], ss \<noteq> [],
              (if us \<noteq> [] then [(''untrusted_sources'', EvSources us)] else []) @
              (if ss \<noteq> [] then [(''sensitive_sources'', EvSources ss)] else [])))
     | _ \<Rightarrow> (False, False, []))"

definition derive_state_change :: "pybag \<Rightarrow> bool \<times> (string \<times> evidence_value) list" where
  "derive_state_change raw = (case dict_get raw ''action'' VNone of
       VMap action _ \<Rightarrow>
         (let keys = [''state_change'', ''external'', ''irreversible'', ''egress''];
              fired = filter (\<lambda>k. as_bool (dict_get action k VNone)) keys
          in (fired \<noteq> [], map (\<lambda>k. (''action_'' @ k, EvFlag)) fired))
     | _ \<Rightarrow> (False, []))"

definition has_key :: "pybag \<Rightarrow> string \<Rightarrow> bool" where
  "has_key m k \<longleftrightarrow> map_of m k \<noteq> None"

definition classify_rule_of_two :: "pybag \<Rightarrow> rule_of_two_outcome" where
  "classify_rule_of_two raw =
     (let (untrusted, sensitive, ev1) =
            (if has_key raw ''untrusted_input'' \<or> has_key raw ''sensitive_access''
             then (as_bool (dict_get raw ''untrusted_input'' VNone),
                   as_bool (dict_get raw ''sensitive_access'' VNone), [])
             else derive_from_capabilities raw);
          (state_change, ev2) =
            (if has_key raw ''state_change'' then (as_bool (dict_get raw ''state_change'' VNone), [])
             else derive_state_change raw);
          human_oversight = as_bool (dict_get raw ''human_oversight'' VNone);
          trifecta = (untrusted \<and> sensitive \<and> state_change)
      in \<lparr>r2_fired = (trifecta \<and> \<not> human_oversight), r2_untrusted_input = untrusted,
          r2_sensitive_access = sensitive, r2_state_change = state_change,
          r2_human_oversight = human_oversight, r2_evidence = ev1 @ ev2\<rparr>)"

definition evaluate_rule_of_two :: "request \<Rightarrow> rule_of_two_outcome" where
  "evaluate_rule_of_two r = (case dict_get (metadata r) ''rule_of_two'' VNone of
       VMap raw _ \<Rightarrow> classify_rule_of_two raw
     | _ \<Rightarrow> neutral_rule_of_two)"

section \<open>What makes it fire\<close>

text \<open>The FIDES capabilities that a metadata block declares, as CaMeL carries them.\<close>

definition entry_capability :: "pyval \<Rightarrow> capability option" where
  "entry_capability entry = (case entry of
       VMap m _ \<Rightarrow> Some \<lparr>
         c_level = (case level_member (py_upper (py_strip (py_str (dict_get m ''level'' (VStr []))))) of
            Some l \<Rightarrow> l | None \<Rightarrow> TRUSTED),
         c_confidentiality = (case conf_member (py_upper (py_strip (py_str (dict_get m ''confidentiality'' (VStr []))))) of
            Some c \<Rightarrow> c | None \<Rightarrow> PUBLIC),
         c_source = py_str (dict_get m ''source'' (VStr ''?'')), c_provenance_id = None\<rparr>
     | _ \<Rightarrow> None)"

definition declared_capabilities :: "pybag \<Rightarrow> capability_set" where
  "declared_capabilities raw = (case dict_get raw ''capabilities'' VNone of
       VList caps _ \<Rightarrow> fset_of_list (List.map_filter entry_capability caps) | _ \<Rightarrow> {||})"

definition action_changes_state :: "pybag \<Rightarrow> bool" where
  "action_changes_state raw = (case dict_get raw ''action'' VNone of
       VMap a _ \<Rightarrow> \<exists>k\<in>{''state_change'', ''external'', ''irreversible'', ''egress''}. as_bool (dict_get a k VNone)
     | _ \<Rightarrow> False)"

lemma cs_untrusted_iff: "cs_is_untrusted cs \<longleftrightarrow> (\<exists>c. c |\<in>| cs \<and> c_level c = UNTRUSTED)"
proof (cases "cs = {||}")
  case False
  then have "c_level ` fset cs \<noteq> {}" by auto
  then have "UNTRUSTED \<le> Max (c_level ` fset cs) \<longleftrightarrow> (\<exists>l\<in>c_level ` fset cs. UNTRUSTED \<le> l)"
    by (intro Max_ge_iff) auto
  also have "\<dots> \<longleftrightarrow> (\<exists>c. c |\<in>| cs \<and> c_level c = UNTRUSTED)"
    by (auto intro: rev_image_eqI)
  finally show ?thesis using False by (simp add: cs_is_untrusted_def cs_level_def)
qed (simp add: cs_is_untrusted_def)

lemma cs_sensitive_iff: "cs_is_sensitive cs \<longleftrightarrow> (\<exists>c. c |\<in>| cs \<and> conf_is_sensitive (c_confidentiality c))"
proof (cases "cs = {||}")
  case False
  then have "c_confidentiality ` fset cs \<noteq> {}" by auto
  then have "CONFIDENTIAL \<le> Max (c_confidentiality ` fset cs) \<longleftrightarrow>
      (\<exists>l\<in>c_confidentiality ` fset cs. CONFIDENTIAL \<le> l)"
    by (intro Max_ge_iff) auto
  with False show ?thesis by (auto simp: cs_is_sensitive_def cs_confidentiality_def conf_is_sensitive_def)
qed (simp add: cs_is_sensitive_def conf_is_sensitive_def level_order_defs)

text \<open>The label an entry contributes is that of its capability.\<close>

lemma entry_label_capability:
  "entry_label e = map_option (\<lambda>c. (c_source c, c_level c = UNTRUSTED, conf_is_sensitive (c_confidentiality c)))
     (entry_capability e)"
  by (auto simp: entry_capability_def entry_label_def conf_is_sensitive_def level_order_defs
      split: pyval.splits option.splits)

lemma map_filter_entry_label:
  "List.map_filter entry_label es =
     map (\<lambda>c. (c_source c, c_level c = UNTRUSTED, conf_is_sensitive (c_confidentiality c)))
       (List.map_filter entry_capability es)"
  by (induction es) (auto simp: List.map_filter_simps entry_label_capability split: option.splits)

lemma derive_from_capabilities_labels:
  "fst (derive_from_capabilities raw) = cs_is_untrusted (declared_capabilities raw)"
  "fst (snd (derive_from_capabilities raw)) = cs_is_sensitive (declared_capabilities raw)"
  by (auto simp: derive_from_capabilities_def declared_capabilities_def cs_untrusted_iff cs_sensitive_iff
      fset_of_list_elem map_filter_entry_label filter_map filter_empty_conv comp_def Let_def Bex_def
      split: pyval.splits)

lemma derive_state_change_iff: "fst (derive_state_change raw) = action_changes_state raw"
  by (auto simp: derive_state_change_def action_changes_state_def Let_def split: pyval.splits)

text \<open>
  The contract fires on the trifecta and only then. With labelled sources, it forbids exactly when
  the joined label of the declared capabilities is a FIDES flow violation (untrusted and sensitive),
  the action changes state, communicates outside, is irreversible or egresses, and no human
  oversight is declared. With declared booleans, exactly when the three are affirmative.
\<close>

theorem rule_of_two_fires_iff:
  "r2_fired (classify_rule_of_two raw) \<longleftrightarrow>
     (if has_key raw ''untrusted_input'' \<or> has_key raw ''sensitive_access''
      then as_bool (dict_get raw ''untrusted_input'' VNone) \<and> as_bool (dict_get raw ''sensitive_access'' VNone)
      else cs_is_flow_violation (declared_capabilities raw)) \<and>
     (if has_key raw ''state_change'' then as_bool (dict_get raw ''state_change'' VNone)
      else action_changes_state raw) \<and>
     \<not> as_bool (dict_get raw ''human_oversight'' VNone)"
proof -
  have fv: "cs_is_flow_violation cs \<longleftrightarrow> cs_is_untrusted cs \<and> cs_is_sensitive cs" for cs
    by (simp add: cs_is_flow_violation_def fides_is_flow_violation_def fides_is_untrusted_def
        fides_is_sensitive_def is_untrusted_level_def cs_fides_label_def cs_is_untrusted_def cs_is_sensitive_def)
  show ?thesis
    unfolding fv derive_from_capabilities_labels[symmetric] derive_state_change_iff[symmetric]
    by (auto simp: classify_rule_of_two_def Let_def split: prod.splits)
qed

text \<open>
  Declaring one bucket hides the other: as soon as a block declares \<^verbatim>\<open>untrusted_input\<close> or
  \<^verbatim>\<open>sensitive_access\<close>, the labelled sources are ignored for both, so a block that affirms untrusted
  input, lists a restricted source and changes state does not fire.
\<close>

theorem rule_of_two_partial_declaration:
  assumes "has_key raw ''untrusted_input''" and "\<not> has_key raw ''sensitive_access''"
  shows "\<not> r2_fired (classify_rule_of_two raw) \<and> \<not> r2_sensitive_access (classify_rule_of_two raw)"
  using assms by (auto simp: classify_rule_of_two_def Let_def dict_get_def has_key_def as_bool_def
      split: prod.splits option.splits)

definition partial_block :: pybag where
  "partial_block = [(''untrusted_input'', VBool True),
     (''capabilities'', VList [VMap [(''level'', VStr ''UNTRUSTED''), (''source'', VStr ''mail'')] [],
        VMap [(''confidentiality'', VStr ''RESTRICTED''), (''source'', VStr ''crm'')] []] []),
     (''state_change'', VBool True)]"

theorem rule_of_two_partial_declaration_witness:
  "\<not> r2_fired (classify_rule_of_two partial_block) \<and> r2_fired (classify_rule_of_two (tl partial_block))"
proof -
  have "r2_fired (classify_rule_of_two (tl partial_block))" by code_simp
  then show ?thesis
    using rule_of_two_partial_declaration [of partial_block] by (simp add: partial_block_def has_key_def)
qed

end
