(* ===== verification/Camel_Interpreter.thy ===== *)
theory Camel_Interpreter
  imports Camel_Labels
begin

text \<open>
  The CaMeL plan interpreter: \<^verbatim>\<open>camel/plan.py\<close>, \<^verbatim>\<open>camel/q_llm.py\<close> and \<^verbatim>\<open>camel/interpreter.py\<close>.

  Correspondence. A plan is a list of nodes. The tools are parameters: a tool maps its arguments and
  the outside world \<open>'w\<close> to a result and a new world, where the result is a \<^verbatim>\<open>CapValue\<close>, a raw object
  that the value field accepts, one it refuses, or an exception, which may be the interpreter's own. The quarantined LLM is a
  parameter too. A run threads the variables, the world and, for the statements only, the
  list of tool calls made, also through exceptions. The length limit of 500 characters on the note of a trace entry is kept,
  since a longer denial text makes the run raise.

  Results: every tool call made was authorized; a halted run yields an untrusted empty value and
  a denied call has no effect; the trace, the sequence of tool calls with the labels of their arguments, and the data
  labelled as trusted do not depend on the contents of untrusted inputs.
\<close>

section \<open>Plans\<close>

datatype expr = Literal pyval | Var string | Read string "string option"

datatype plan_node =
    Assign string expr
  | Call string "expr list" "string option"
  | QLLM string "string list" string
  | Return expr

fun is_Return_node :: "plan_node \<Rightarrow> bool" where
  "is_Return_node (Return e) = True"
| "is_Return_node n = False"

text \<open>\<^verbatim>\<open>Plan.validate_structure\<close>: the loop over the nodes, with \<^verbatim>\<open>seen_return\<close>.\<close>

fun validate_nodes :: "bool \<Rightarrow> plan_node list \<Rightarrow> string + unit" where
  "validate_nodes seen [] = (if seen then Inr () else Inl ''Plan must end with a Return node'')"
| "validate_nodes seen (n # ns) =
     (if is_Return_node n then
        (if ns \<noteq> [] then Inl ''Return must be the final node'' else validate_nodes True ns)
      else validate_nodes seen ns)"

definition validate_structure :: "plan_node list \<Rightarrow> string + unit" where
  "validate_structure nodes = validate_nodes False nodes"

section \<open>Errors and the quarantined LLM\<close>

text \<open>\<open>CamelForeignError\<close>: an exception of a tool or of the quarantined LLM that is not one of the interpreter.\<close>

datatype camel_error = CamelInterpreterError string | CamelValidationError | CamelForeignError

type_synonym q_llm = "string \<Rightarrow> string list \<Rightarrow> camel_error + string"

definition stub_answer :: "nat \<Rightarrow> q_llm" where
  "stub_answer max_len query inputs = Inr (take max_len (query @ '' :: '' @ py_join '' | '' inputs))"

text \<open>\<^verbatim>\<open>CallableQuarantinedLLM\<close>: a wrapped function whose result is not a string raises.\<close>

definition callable_answer :: "(string \<Rightarrow> string list \<Rightarrow> camel_error + pyval) \<Rightarrow> q_llm" where
  "callable_answer fn query inputs = sbind (fn query inputs) (\<lambda>v. case v of VStr s \<Rightarrow> Inr s | _ \<Rightarrow> Inl CamelForeignError)"

section \<open>The interpreter\<close>

datatype tool_result = ToolCap cap_value | ToolRaw pyval | ToolRefused | ToolRaises camel_error

record 'w interp =
  ip_policies :: policy_registry
  ip_impls :: "string \<rightharpoonup> (cap_value list \<Rightarrow> 'w \<Rightarrow> tool_result \<times> 'w)"
  ip_q_llm :: q_llm
  ip_untrusted :: "string \<rightharpoonup> string"

record trace_entry =
  te_index :: nat
  te_op :: string
  te_target :: "string option"
  te_level :: CapabilityLevel
  te_sources :: "string list"
  te_note :: "string option"

record execution_trace =
  xt_entries :: "trace_entry list"
  xt_final_level :: CapabilityLevel
  xt_final_sources :: "string list"
  xt_halted :: bool
  xt_halt_reason :: "string option"

record 'w run_state =
  rs_env :: "string \<rightharpoonup> cap_value"
  rs_world :: 'w
  rs_calls :: "(string \<times> cap_value list) list"

definition interp_init ::
  "policy_registry \<Rightarrow> (string \<rightharpoonup> (cap_value list \<Rightarrow> 'w \<Rightarrow> tool_result \<times> 'w)) \<Rightarrow>
   q_llm option \<Rightarrow> (string \<rightharpoonup> string) \<Rightarrow> camel_error + 'w interp" where
  "interp_init pols impls q env =
     (if \<not> pr_frozen pols
      then Inl (CamelInterpreterError ''ToolPolicyRegistry must be frozen before interpreter use'')
      else Inr \<lparr>ip_policies = pols, ip_impls = impls,
                ip_q_llm = (case q of Some f \<Rightarrow> f | None \<Rightarrow> stub_answer 2048), ip_untrusted = env\<rparr>)"

definition sorted_sources :: "cap_value \<Rightarrow> string list" where
  "sorted_sources v = sorted_list_of_fset (cs_sources (cv_caps v))"

definition repr_opt :: "string option \<Rightarrow> string" where
  "repr_opt k = (case k of None \<Rightarrow> ''None'' | Some s \<Rightarrow> py_repr s)"

definition read_key :: "string \<Rightarrow> string option \<Rightarrow> string" where
  "read_key source key = (case key of Some k \<Rightarrow> if k = [] then source else source @ '':'' @ k
     | None \<Rightarrow> source)"

definition eval_expr :: "(string \<rightharpoonup> string) \<Rightarrow> (string \<rightharpoonup> cap_value) \<Rightarrow> expr \<Rightarrow> camel_error + cap_value" where
  "eval_expr untrusted env e = (case e of
       Literal v \<Rightarrow> Inr (cv_trusted v ''plan_literal'')
     | Var x \<Rightarrow> (case env x of
           Some v \<Rightarrow> Inr v
         | None \<Rightarrow> Inl (CamelInterpreterError (''unbound variable '' @ py_repr x)))
     | Read source key \<Rightarrow>
         (let raw = untrusted (read_key source key);
              raw' = (if raw = None \<and> key = None then untrusted source else raw)
          in case raw' of
               None \<Rightarrow> Inl (CamelInterpreterError (''no untrusted input registered for '' @
                 py_repr source @ '' (key='' @ repr_opt key @ '')''))
             | Some s \<Rightarrow> if source = ''user'' then Inr (cv_user (VStr s) ''user'')
                         else Inr (cv_untrusted (VStr s) source None)))"

definition entry_for :: "nat \<Rightarrow> string \<Rightarrow> string option \<Rightarrow> cap_value \<Rightarrow> string option \<Rightarrow> trace_entry" where
  "entry_for i op target v note = \<lparr>te_index = i, te_op = op, te_target = target, te_level = cv_level v,
     te_sources = sorted_sources v, te_note = note\<rparr>"

text \<open>A tool result as a value: a raw result is derived from the arguments.\<close>

definition wrap_result :: "cap_value list \<Rightarrow> tool_result \<Rightarrow> camel_error + cap_value" where
  "wrap_result args r = (case r of
       ToolCap v \<Rightarrow> Inr v
     | ToolRaw v \<Rightarrow> Inr (cv_derived v args)
     | ToolRefused \<Rightarrow> Inl CamelValidationError
     | ToolRaises e \<Rightarrow> Inl e)"

definition input_text :: "cap_value \<Rightarrow> string" where
  "input_text v = (if cv_value v = VNone then [] else py_str (cv_value v))"

definition bind_var :: "string \<Rightarrow> cap_value \<Rightarrow> 'w run_state \<Rightarrow> 'w run_state" where
  "bind_var x v st = st\<lparr>rs_env := (rs_env st)(x \<mapsto> v)\<rparr>"

text \<open>
  The operations of \<^verbatim>\<open>_step\<close> change the run state and may raise; what a tool did to the world before it raised, and that it was
  called, stays.
\<close>

type_synonym ('w, 'a) camel = "('w run_state, camel_error, 'a) eff"

definition eval_in :: "'w interp \<Rightarrow> expr \<Rightarrow> ('w, cap_value) camel" where
  "eval_in ip e = (\<lambda>st. (eval_expr (ip_untrusted ip) (rs_env st) e, st))"

definition eval_args :: "'w interp \<Rightarrow> expr list \<Rightarrow> ('w, cap_value list) camel" where
  "eval_args ip es = (\<lambda>st. (err_map (eval_expr (ip_untrusted ip) (rs_env st)) es, st))"

definition invoke_tool :: "string \<Rightarrow> (cap_value list \<Rightarrow> 'w \<Rightarrow> tool_result \<times> 'w) \<Rightarrow> cap_value list \<Rightarrow> ('w, tool_result) camel" where
  "invoke_tool tool impl vs = (\<lambda>st. case impl vs (rs_world st) of (r, w') \<Rightarrow>
     (Inr r, st\<lparr>rs_world := w', rs_calls := rs_calls st @ [(tool, vs)]\<rparr>))"

definition bind_result :: "string option \<Rightarrow> cap_value \<Rightarrow> ('w, unit) camel" where
  "bind_result rv v = (case rv of None \<Rightarrow> eff_return () | Some x \<Rightarrow> eff_modify (bind_var x v))"

definition camel_step :: "'w interp \<Rightarrow> nat \<Rightarrow> plan_node \<Rightarrow> ('w, cap_value option \<times> trace_entry) camel" where
  "camel_step ip i node = (case node of
       Assign x e \<Rightarrow> eff_bind (eval_in ip e) (\<lambda>v. eff_bind (bind_result (Some x) v) (\<lambda>_.
         eff_return (None, entry_for i ''Assign'' (Some x) v None)))
     | Call tool args rv \<Rightarrow>
         eff_bind (eval_args ip args) (\<lambda>vs.
           case tool_policy_check (policy_for (ip_policies ip) tool (length vs)) (map cv_caps vs) of
             Some reason \<Rightarrow> eff_raise (CamelInterpreterError
               (''tool '' @ py_repr tool @ '' call denied: '' @ reason))
           | None \<Rightarrow> (case ip_impls ip tool of
                 None \<Rightarrow> eff_raise (CamelInterpreterError (''no implementation for tool '' @ py_repr tool))
               | Some impl \<Rightarrow>
                   eff_bind (invoke_tool tool impl vs) (\<lambda>r. eff_bind (eff_lift (wrap_result vs r)) (\<lambda>v.
                     eff_bind (bind_result rv v) (\<lambda>_.
                     eff_return (None, entry_for i ''Call'' (Some tool) v
                       (Some (''result_var='' @ (case rv of None \<Rightarrow> ''_'' | Some x \<Rightarrow> if x = [] then ''_'' else x)))))))))
     | QLLM query inputs x \<Rightarrow>
         eff_bind (eval_args ip (map Var inputs)) (\<lambda>vs.
         eff_bind (eff_lift (ip_q_llm ip query (map input_text vs))) (\<lambda>answer.
           let v = cv_derived (VStr answer) vs in eff_bind (bind_result (Some x) v) (\<lambda>_.
           eff_return (None, entry_for i ''QLLM'' (Some x) v (Some (''query_len='' @ nat_digits (length query)))))))
     | Return e \<Rightarrow> eff_bind (eval_in ip e) (\<lambda>v. eff_return (Some v, entry_for i ''Return'' None v None)))"

fun node_name :: "plan_node \<Rightarrow> string" where
  "node_name (Assign x e) = ''Assign''"
| "node_name (Call t as rv) = ''Call''"
| "node_name (QLLM q is x) = ''QLLM''"
| "node_name (Return e) = ''Return''"

definition halt_value :: cap_value where
  "halt_value = \<lparr>cv_value = VNone, cv_caps = {|cap_untrusted ''camel:halt'' None PUBLIC|}\<rparr>"

definition halt_entry :: "nat \<Rightarrow> plan_node \<Rightarrow> string \<Rightarrow> trace_entry" where
  "halt_entry i node msg = \<lparr>te_index = i, te_op = node_name node, te_target = None, te_level = UNTRUSTED,
     te_sources = [], te_note = Some (''halted: '' @ msg)\<rparr>"

text \<open>The loop of \<^verbatim>\<open>run\<close>: final value, trace entries, halt reason.\<close>

fun run_loop :: "'w interp \<Rightarrow> nat \<Rightarrow> plan_node list \<Rightarrow> ('w, cap_value option \<times> trace_entry list \<times> string option) camel" where
  "run_loop ip i [] = eff_return (None, [], None)"
| "run_loop ip i (node # nodes) = (\<lambda>st. case camel_step ip i node st of
       (Inr (v, entry), st') \<Rightarrow>
         (if is_Return_node node then (Inr (v, [entry], None), st')
          else eff_bind (run_loop ip (i + 1) nodes) (\<lambda>(v', entries, halt). eff_return (v', entry # entries, halt)) st')
     | (Inl (CamelInterpreterError msg), st') \<Rightarrow>
         (if 500 < length (''halted: '' @ msg) then (Inl CamelValidationError, st')
          else (Inr (Some halt_value, [halt_entry i node msg], Some msg), st'))
     | (Inl e, st') \<Rightarrow> (Inl e, st'))"

text \<open>\<^verbatim>\<open>run\<close>. The prompt is stored with \<^verbatim>\<open>setdefault\<close> in the interpreter, which is returned too.\<close>

definition with_prompt :: "string \<Rightarrow> 'w interp \<Rightarrow> 'w interp" where
  "with_prompt prompt ip = (if ip_untrusted ip ''user_prompt'' = None
     then ip\<lparr>ip_untrusted := (ip_untrusted ip)(''user_prompt'' \<mapsto> prompt)\<rparr> else ip)"

definition run_start :: "'w \<Rightarrow> 'w run_state" where
  "run_start w = \<lparr>rs_env = Map.empty, rs_world = w, rs_calls = []\<rparr>"

definition trace_of :: "cap_value \<Rightarrow> trace_entry list \<Rightarrow> string option \<Rightarrow> execution_trace" where
  "trace_of v entries halt = \<lparr>xt_entries = entries, xt_final_level = cv_level v,
     xt_final_sources = sorted_sources v, xt_halted = (halt \<noteq> None), xt_halt_reason = halt\<rparr>"

definition outcome_of :: "cap_value option \<times> trace_entry list \<times> string option \<Rightarrow> cap_value \<times> execution_trace" where
  "outcome_of r = (case r of (fv, entries, halt) \<Rightarrow>
     let v = (case fv of Some v \<Rightarrow> v | None \<Rightarrow> \<lparr>cv_value = VNone, cv_caps = {||}\<rparr>) in (v, trace_of v entries halt))"

definition run :: "'w interp \<Rightarrow> plan_node list \<Rightarrow> string \<Rightarrow> 'w \<Rightarrow> (camel_error + cap_value \<times> execution_trace) \<times> 'w interp \<times> 'w run_state" where
  "run ip plan prompt w = (case validate_structure plan of
       Inl m \<Rightarrow> (Inl (CamelInterpreterError (''invalid plan: '' @ m)), ip, run_start w)
     | Inr _ \<Rightarrow> (let ip' = with_prompt prompt ip in case run_loop ip' 0 plan (run_start w) of (r, st) \<Rightarrow>
         (sbind r (\<lambda>x. Inr (outcome_of x)), ip', st)))"

section \<open>Gating\<close>

definition calls_ok :: "'w interp \<Rightarrow> 'w run_state \<Rightarrow> bool" where
  "calls_ok ip st \<longleftrightarrow> (\<forall>(t, args)\<in>set (rs_calls st). call_authorised (ip_policies ip) t args \<and> ip_impls ip t \<noteq> None)"

lemma bind_result_calls: "preserves (calls_ok ip) (bind_result rv v)"
  by (cases rv) (auto simp: bind_result_def bind_var_def calls_ok_def intro: preserves_basic)

lemma eval_calls: "preserves (calls_ok ip) (eval_in ip e)" "preserves (calls_ok ip) (eval_args ip es)"
  by (simp_all add: preserves_def eval_in_def eval_args_def)

lemma invoke_tool_calls:
  assumes "call_authorised (ip_policies ip) tool vs" and "ip_impls ip tool = Some impl"
  shows "preserves (calls_ok ip) (invoke_tool tool impl vs)"
  using assms by (auto simp: preserves_def invoke_tool_def calls_ok_def split: prod.splits)

lemma camel_step_calls: "preserves (calls_ok ip) (camel_step ip i node)"
proof (cases node)
  case (Call tool args rv)
  show ?thesis
    unfolding Call camel_step_def plan_node.case
    by (intro preserves_bind eval_calls)
       (auto simp: tool_gate_iff intro!: preserves_bind preserves_basic invoke_tool_calls bind_result_calls split: option.split)
qed (auto simp: camel_step_def Let_def intro!: preserves_bind preserves_basic eval_calls bind_result_calls)

lemma run_loop_calls: "preserves (calls_ok ip) (run_loop ip i nodes)"
proof (induction nodes arbitrary: i)
  case (Cons n ns)
  show ?case
    unfolding preserves_def
  proof (intro allI impI)
    fix st assume "calls_ok ip st"
    obtain r st1 where r: "camel_step ip i n st = (r, st1)" by (cases "camel_step ip i n st")
    then have "calls_ok ip st1" using preservesD[OF camel_step_calls \<open>calls_ok ip st\<close>, of i n] by simp
    moreover have "preserves (calls_ok ip) (eff_bind (run_loop ip (i + 1) ns) (\<lambda>(v', entries, halt). eff_return (v', e # entries, halt)))" for e
      using Cons by (intro preserves_bind) (auto intro: preserves_basic)
    ultimately show "calls_ok ip (snd (run_loop ip i (n # ns) st))"
      using r by (auto simp: preserves_def split: sum.splits camel_error.splits)
  qed
qed (simp add: preserves_basic)

lemma with_prompt_sel [simp]:
  "ip_policies (with_prompt p ip) = ip_policies ip" "ip_impls (with_prompt p ip) = ip_impls ip"
  "ip_q_llm (with_prompt p ip) = ip_q_llm ip"
  by (simp_all add: with_prompt_def)

text \<open>
  (C12) No tool runs unauthorised: in every run, also one that raises, each call that reached a tool was
  authorised by the registry for exactly the capabilities of its arguments, and the tool exists.
\<close>

theorem run_calls_authorised:
  assumes "run ip plan prompt w = (res, ip', st)" and "(t, args) \<in> set (rs_calls st)"
  shows "call_authorised (ip_policies ip) t args \<and> ip_impls ip t \<noteq> None"
proof -
  have "calls_ok (with_prompt prompt ip) (run_start w)" by (simp add: calls_ok_def run_start_def)
  from preservesD[OF run_loop_calls this, of 0 plan] this have "calls_ok (with_prompt prompt ip) st"
    using assms(1) by (auto simp: run_def Let_def calls_ok_def run_start_def split: sum.splits prod.splits)
  with assms(2) show ?thesis by (auto simp: calls_ok_def)
qed

section \<open>Halting\<close>

text \<open>The three ways a node of a run that returns can go: halt, return, or go on.\<close>

lemma run_loop_Cons_cases:
  assumes "run_loop ip i (n # ns) st = (Inr (v, es, h), st')"
  obtains (halt) msg where "camel_step ip i n st = (Inl (CamelInterpreterError msg), st')"
      "v = Some halt_value" "es = [halt_entry i n msg]" "h = Some msg"
    | (ret) e where "camel_step ip i n st = (Inr (v, e), st')" "is_Return_node n" "es = [e]" "h = None"
    | (cont) v1 e st1 es1 where "camel_step ip i n st = (Inr (v1, e), st1)" "\<not> is_Return_node n"
      "run_loop ip (i + 1) ns st1 = (Inr (v, es1, h), st')" "es = e # es1"
proof -
  obtain r st1 where r: "camel_step ip i n st = (r, st1)" by (cases "camel_step ip i n st")
  show ?thesis
  proof (cases r)
    case (Inl e)
    with assms r show ?thesis by (cases e) (auto split: if_splits intro: halt)
  next
    case (Inr x)
    with assms r show ?thesis
      by (cases x) (auto simp: eff_rules split: if_splits intro: ret cont)
  qed
qed

text \<open>The state after the nodes before position \<open>k\<close>, all of which succeeded.\<close>

fun exec_prefix :: "'w interp \<Rightarrow> nat \<Rightarrow> plan_node list \<Rightarrow> 'w run_state \<Rightarrow> nat \<Rightarrow> 'w run_state option" where
  "exec_prefix ip i ns st 0 = Some st"
| "exec_prefix ip i [] st (Suc k) = None"
| "exec_prefix ip i (n # ns) st (Suc k) = (case camel_step ip i n st of
       (Inr _, st') \<Rightarrow> exec_prefix ip (i + 1) ns st' k | (Inl e, _) \<Rightarrow> None)"

lemma run_loop_halt:
  "run_loop ip i nodes st = (Inr (v, es, Some msg), st') \<Longrightarrow>
     v = Some halt_value \<and> (\<exists>k<length nodes. length es = Suc k \<and> (\<exists>st0. exec_prefix ip i nodes st k = Some st0 \<and>
       camel_step ip (i + k) (nodes ! k) st0 = (Inl (CamelInterpreterError msg), st')))"
proof (induction nodes arbitrary: i st es)
  case (Cons n ns)
  from Cons.prems show ?case
  proof (cases rule: run_loop_Cons_cases)
    case halt
    then show ?thesis by (intro conjI exI[of _ 0]) simp_all
  next
    case (cont v1 e st1 es1)
    from Cons.IH[OF cont(3)] obtain k st0 where "v = Some halt_value" "k < length ns" "length es1 = Suc k"
      "exec_prefix ip (i + 1) ns st1 k = Some st0"
      "camel_step ip (i + 1 + k) (ns ! k) st0 = (Inl (CamelInterpreterError msg), st')" by blast
    with cont show ?thesis by (intro conjI exI[of _ "Suc k"]) simp_all
  qed simp
qed (simp add: eff_rules)

text \<open>A node that fails without having called a tool leaves the state as it was.\<close>

lemma camel_step_failed:
  assumes "camel_step ip i node st = (Inl e, st')"
  shows "st' = st \<or> (\<exists>tool vs impl r w'. ip_impls ip tool = Some impl \<and> impl vs (rs_world st) = (r, w') \<and> wrap_result vs r = Inl e
    \<and> st' = st\<lparr>rs_world := w', rs_calls := rs_calls st @ [(tool, vs)]\<rparr>)"
proof (cases node)
  case (Call tool args rv)
  note step = assms[unfolded Call camel_step_def plan_node.case eval_args_def]
  show ?thesis
  proof (cases "err_map (eval_expr (ip_untrusted ip) (rs_env st)) args")
    case (Inr vs)
    show ?thesis
    proof (cases "tool_policy_check (policy_for (ip_policies ip) tool (length vs)) (map cv_caps vs) = None \<and> ip_impls ip tool \<noteq> None")
      case True
      then obtain impl where impl: "ip_impls ip tool = Some impl" by blast
      obtain r w' where r: "impl vs (rs_world st) = (r, w')" by (cases "impl vs (rs_world st)")
      have "wrap_result vs r = Inl e \<and> st' = st\<lparr>rs_world := w', rs_calls := rs_calls st @ [(tool, vs)]\<rparr>"
        using step True Inr impl r
        by (cases "wrap_result vs r"; cases rv) (simp_all add: eff_defs invoke_tool_def bind_result_def)
      with impl r show ?thesis by blast
    next
      case False
      with step Inr show ?thesis by (auto simp: eff_defs split: option.splits)
    qed
  qed (use step in \<open>simp add: eff_defs\<close>)
qed (use assms in \<open>auto simp: camel_step_def eval_in_def eval_args_def bind_result_def eff_rules Let_def\<close>)

text \<open>
  A halted run fails closed: its value is the empty untrusted one, and the state it leaves (the outside world and the calls made) is the
  one before the node that failed, except for the effect of an authorised tool that itself raised the interpreter's error; a denied
  call and everything after it have no effect.
\<close>

theorem run_halted_fail_closed:
  assumes "run ip plan prompt w = (Inr (v, tr), ip', st)" and "xt_halted tr"
  shows "v = halt_value \<and> cv_level v = UNTRUSTED \<and> xt_final_level tr = UNTRUSTED \<and>
    (\<exists>k<length plan. \<exists>st0. exec_prefix ip' 0 plan (run_start w) k = Some st0 \<and>
       (\<exists>msg. camel_step ip' k (plan ! k) st0 = (Inl (CamelInterpreterError msg), st)) \<and>
       (st = st0 \<or> (\<exists>tool vs. rs_calls st = rs_calls st0 @ [(tool, vs)])))"
proof -
  from assms obtain es msg fv where r: "run_loop ip' 0 plan (run_start w) = (Inr (fv, es, Some msg), st)"
    and v: "v = (case fv of Some v \<Rightarrow> v | None \<Rightarrow> \<lparr>cv_value = VNone, cv_caps = {||}\<rparr>)" "tr = trace_of v es (Some msg)"
    by (auto simp: run_def Let_def outcome_of_def trace_of_def sbind_rules split: sum.splits prod.splits)
  have lv: "cv_level halt_value = UNTRUSTED"
    by (simp add: cv_level_def halt_value_def cs_level_def cap_untrusted_def)
  from run_loop_halt[OF r] obtain k st0 where k: "fv = Some halt_value" "k < length plan" "exec_prefix ip' 0 plan (run_start w) k = Some st0"
    "camel_step ip' k (plan ! k) st0 = (Inl (CamelInterpreterError msg), st)" by auto
  have "st = st0 \<or> (\<exists>tool vs. rs_calls st = rs_calls st0 @ [(tool, vs)])" using camel_step_failed[OF k(4)] by auto
  with k v lv show ?thesis by (auto simp: trace_of_def)
qed

section \<open>Untrusted data influences neither control flow nor trusted data\<close>

text \<open>
  Two values agree up to the levels that satisfy \<open>low\<close>: they carry the same labels, and if their level is low they are equal. The set of
  low levels is closed downwards and does not contain \<^verbatim>\<open>UNTRUSTED\<close>; with no low level at all only labels are compared.
\<close>

definition low_closed :: "(CapabilityLevel \<Rightarrow> bool) \<Rightarrow> bool" where
  "low_closed low \<longleftrightarrow> (\<forall>a b. low b \<longrightarrow> a \<le> b \<longrightarrow> low a) \<and> \<not> low UNTRUSTED"

definition low_eq :: "(CapabilityLevel \<Rightarrow> bool) \<Rightarrow> cap_value \<Rightarrow> cap_value \<Rightarrow> bool" where
  "low_eq low a b \<longleftrightarrow> cv_caps a = cv_caps b \<and> (low (cv_level a) \<longrightarrow> a = b)"

definition state_sim :: "(CapabilityLevel \<Rightarrow> bool) \<Rightarrow> 'w run_state \<Rightarrow> 'v run_state \<Rightarrow> bool" where
  "state_sim low s t \<longleftrightarrow> (\<forall>x. rel_option (low_eq low) (rs_env s x) (rs_env t x)) \<and>
     list_all2 (rel_prod (=) (list_all2 (low_eq low))) (rs_calls s) (rs_calls t)"

text \<open>
  Two implementations of a tool that respect \<open>low\<close>: on arguments that agree they both return values that agree or raise the same error,
  whatever the outside world. A result may be raw or a \<^verbatim>\<open>CapValue\<close> of the tool's own making.
\<close>

definition tools_respect ::
    "(CapabilityLevel \<Rightarrow> bool) \<Rightarrow> (cap_value list \<Rightarrow> 'w \<Rightarrow> tool_result \<times> 'w) \<Rightarrow> (cap_value list \<Rightarrow> 'v \<Rightarrow> tool_result \<times> 'v) \<Rightarrow> bool" where
  "tools_respect low f g \<longleftrightarrow> (\<forall>xs ys w1 w2. list_all2 (low_eq low) xs ys \<longrightarrow>
     rel_sum (=) (low_eq low) (wrap_result xs (fst (f xs w1))) (wrap_result ys (fst (g ys w2))))"

definition llm_respects :: "(CapabilityLevel \<Rightarrow> bool) \<Rightarrow> q_llm \<Rightarrow> q_llm \<Rightarrow> bool" where
  "llm_respects low p q \<longleftrightarrow> (\<forall>query xs ys. rel_sum (=) (\<lambda>_ _. True) (p query xs) (q query ys)) \<and> (low TRUSTED \<longrightarrow> p = q)"

definition interp_sim :: "(CapabilityLevel \<Rightarrow> bool) \<Rightarrow> 'w interp \<Rightarrow> 'v interp \<Rightarrow> bool" where
  "interp_sim low a b \<longleftrightarrow> low_closed low \<and> ip_policies a = ip_policies b
     \<and> (\<forall>t. rel_option (tools_respect low) (ip_impls a t) (ip_impls b t)) \<and> llm_respects low (ip_q_llm a) (ip_q_llm b)
     \<and> dom (ip_untrusted a) = dom (ip_untrusted b)
     \<and> (low USER \<longrightarrow> (\<forall>k. ip_untrusted a (read_key ''user'' k) = ip_untrusted b (read_key ''user'' k)))"

text \<open>Two operations that keep the relation of the states and return related results or raise the same error.\<close>

definition eff_sim ::
    "(CapabilityLevel \<Rightarrow> bool) \<Rightarrow> ('a \<Rightarrow> 'b \<Rightarrow> bool) \<Rightarrow> ('w, 'a) camel \<Rightarrow> ('v, 'b) camel \<Rightarrow> bool" where
  "eff_sim low R m n \<longleftrightarrow> (\<forall>s t. state_sim low s t \<longrightarrow> rel_prod (rel_sum (=) R) (state_sim low) (m s) (n t))"

lemma eff_simD:
  "eff_sim low R m n \<Longrightarrow> state_sim low s t \<Longrightarrow> rel_prod (rel_sum (=) R) (state_sim low) (m s) (n t)"
  by (simp add: eff_sim_def)

lemma eff_sim_bind:
  fixes m :: "('w, 'a) camel" and n :: "('v, 'b) camel"
  assumes "eff_sim low R m n" and "\<And>a b. R a b \<Longrightarrow> eff_sim low S (k a) (l b)"
  shows "eff_sim low S (eff_bind m k) (eff_bind n l)"
  unfolding eff_sim_def
proof (intro allI impI)
  fix s :: "'w run_state" and t :: "'v run_state"
  assume "state_sim low s t"
  obtain x s1 y t1 where xy: "m s = (x, s1)" "n t = (y, t1)" by (cases "m s"; cases "n t")
  from eff_simD[OF assms(1) \<open>state_sim low s t\<close>] have r: "rel_sum (=) R x y" "state_sim low s1 t1" by (simp_all add: xy)
  then show "rel_prod (rel_sum (=) S) (state_sim low) (eff_bind m k s) (eff_bind n l t)"
    using assms(2) by (cases x; cases y) (auto simp: xy eff_bind_def intro: eff_simD)
qed

lemma eff_sim_basic:
  "R a b \<Longrightarrow> eff_sim low R (eff_return a) (eff_return b)" "eff_sim low R (eff_raise e) (eff_raise e)"
  "rel_sum (=) R x y \<Longrightarrow> eff_sim low R (eff_lift x) (eff_lift y)"
  by (simp_all add: eff_sim_def eff_rules)

lemma low_eq_caps_map: "list_all2 (low_eq low) xs ys \<Longrightarrow> map cv_caps ys = map cv_caps xs"
  by (induction rule: list_all2_induct) (auto simp: low_eq_def)

lemma low_eq_level: "low_eq low a b \<Longrightarrow> cv_level a = cv_level b"
  by (simp add: low_eq_def cv_level_def)

lemma derived_level_le: "x \<in> set xs \<Longrightarrow> cv_level x \<le> cv_level (cv_derived v xs)"
proof -
  have "cv_level (cv_derived v xs) \<le> l \<longleftrightarrow> (\<forall>x\<in>set xs. cv_level x \<le> l)" for l
    by (simp add: cv_level_def cv_derived_caps caps_level.proj_derived integrity.foldl_join_le)
  from this[of "cv_level (cv_derived v xs)"] show "x \<in> set xs \<Longrightarrow> cv_level x \<le> cv_level (cv_derived v xs)" by simp
qed

lemma derived_low_inputs:
  assumes "low_closed low" and "list_all2 (low_eq low) xs ys" and "low (cv_level (cv_derived v xs))"
  shows "xs = ys"
proof -
  have "low (cv_level x)" if "x \<in> set xs" for x
    using assms(1,3) derived_level_le[OF that, of v] by (auto simp: low_closed_def)
  with assms(2) show ?thesis by (induction rule: list_all2_induct) (auto simp: low_eq_def)
qed

lemma derived_caps_eq: "list_all2 (low_eq low) xs ys \<Longrightarrow> cv_caps (cv_derived v xs) = cv_caps (cv_derived u ys)"
  by (simp add: cv_derived_caps low_eq_caps_map)

lemma entry_for_low_eq: "low_eq low a b \<Longrightarrow> entry_for i op tg a note = entry_for i op tg b note"
  by (simp add: low_eq_def entry_for_def cv_level_def sorted_sources_def)

lemma eval_expr_sim:
  assumes "interp_sim low a b" and "\<forall>x. rel_option (low_eq low) (env1 x) (env2 x)"
  shows "rel_sum (=) (low_eq low) (eval_expr (ip_untrusted a) env1 e) (eval_expr (ip_untrusted b) env2 e)"
proof (cases e)
  case (Literal v)
  then show ?thesis by (simp add: eval_expr_def low_eq_def)
next
  case (Var x)
  with assms(2) have "rel_option (low_eq low) (env1 x) (env2 x)" by blast
  with Var show ?thesis by (cases "env1 x"; cases "env2 x") (auto simp: eval_expr_def)
next
  case (Read source key)
  let ?u1 = "ip_untrusted a" and ?u2 = "ip_untrusted b"
  have raw: "(if u (read_key source key) = None \<and> key = None then u source else u (read_key source key))
      = u (read_key source key)" for u :: "string \<Rightarrow> string option"
    by (simp add: read_key_def split: option.splits)
  have u: "\<not> low UNTRUSTED" "low USER \<Longrightarrow> source = ''user'' \<Longrightarrow> ?u1 (read_key source key) = ?u2 (read_key source key)"
    using assms(1) by (auto simp: interp_sim_def low_closed_def)
  have "?u1 (read_key source key) = None \<longleftrightarrow> ?u2 (read_key source key) = None"
    using assms(1) unfolding interp_sim_def by (metis domIff)
  then show ?thesis
    using u unfolding Read eval_expr_def expr.case Let_def raw
    by (cases "?u1 (read_key source key)"; cases "?u2 (read_key source key)")
       (auto simp: low_eq_def cv_user_def cv_untrusted_def cv_level_def cs_level_def cap_user_def cap_untrusted_def)
qed

lemma err_map_sim:
  "(\<And>e. rel_sum (=) R (f e) (g e)) \<Longrightarrow> rel_sum (=) (list_all2 R) (err_map f es) (err_map g es)"
proof (induction es)
  case (Cons e es)
  then have "rel_sum (=) R (f e) (g e)" "rel_sum (=) (list_all2 R) (err_map f es) (err_map g es)" by auto
  then show ?case
    by (cases "f e"; cases "g e"; cases "err_map f es"; cases "err_map g es") auto
qed simp

lemma eval_sim:
  assumes "interp_sim low a b"
  shows "eff_sim low (low_eq low) (eval_in a e) (eval_in b e)" "eff_sim low (list_all2 (low_eq low)) (eval_args a es) (eval_args b es)"
  using eval_expr_sim[OF assms]
  by (auto simp: eff_sim_def eval_in_def eval_args_def state_sim_def intro!: err_map_sim)

lemma bind_result_sim: "low_eq low v u \<Longrightarrow> eff_sim low (\<lambda>_ _. True) (bind_result rv v) (bind_result rv u)"
  by (cases rv) (auto simp: bind_result_def eff_sim_def eff_rules bind_var_def state_sim_def)

lemma invoke_tool_sim:
  fixes f :: "cap_value list \<Rightarrow> 'w \<Rightarrow> tool_result \<times> 'w" and g :: "cap_value list \<Rightarrow> 'v \<Rightarrow> tool_result \<times> 'v"
  assumes "tools_respect low f g" and "list_all2 (low_eq low) xs ys"
  shows "eff_sim low (\<lambda>r r'. rel_sum (=) (low_eq low) (wrap_result xs r) (wrap_result ys r')) (invoke_tool tool f xs) (invoke_tool tool g ys)"
  unfolding eff_sim_def
proof (intro allI impI)
  fix s :: "'w run_state" and t :: "'v run_state"
  assume st: "state_sim low s t"
  obtain r w1 r' w2 where r: "f xs (rs_world s) = (r, w1)" "g ys (rs_world t) = (r', w2)"
    by (cases "f xs (rs_world s)"; cases "g ys (rs_world t)")
  have "rel_sum (=) (low_eq low) (wrap_result xs (fst (f xs (rs_world s)))) (wrap_result ys (fst (g ys (rs_world t))))"
    using assms unfolding tools_respect_def by blast
  with st assms(2) show "rel_prod (rel_sum (=) (\<lambda>r r'. rel_sum (=) (low_eq low) (wrap_result xs r) (wrap_result ys r'))) (state_sim low)
      (invoke_tool tool f xs s) (invoke_tool tool g ys t)"
    by (auto simp: invoke_tool_def r state_sim_def intro!: list_all2_appendI)
qed

lemma call_step_sim:
  assumes ip: "interp_sim low a b"
  shows "eff_sim low (rel_prod (rel_option (low_eq low)) (=)) (camel_step a i (Call tool es rv)) (camel_step b i (Call tool es rv))"
  unfolding camel_step_def plan_node.case
proof (rule eff_sim_bind[OF eval_sim(2)[OF ip]])
  fix xs ys assume xy: "list_all2 (low_eq low) xs ys"
  let ?K = "\<lambda>ip vs. case tool_policy_check (policy_for (ip_policies ip) tool (length vs)) (map cv_caps vs) of
             Some reason \<Rightarrow> eff_raise (CamelInterpreterError (''tool '' @ py_repr tool @ '' call denied: '' @ reason))
           | None \<Rightarrow> (case ip_impls ip tool of
                 None \<Rightarrow> eff_raise (CamelInterpreterError (''no implementation for tool '' @ py_repr tool))
               | Some impl \<Rightarrow>
                   eff_bind (invoke_tool tool impl vs) (\<lambda>r. eff_bind (eff_lift (wrap_result vs r)) (\<lambda>v.
                     eff_bind (bind_result rv v) (\<lambda>_.
                     eff_return (None, entry_for i ''Call'' (Some tool) v
                       (Some (''result_var='' @ (case rv of None \<Rightarrow> ''_'' | Some x \<Rightarrow> if x = [] then ''_'' else x))))))))"
  have gate: "map cv_caps ys = map cv_caps xs" "length ys = length xs" "ip_policies b = ip_policies a"
    using xy ip by (auto simp: interp_sim_def dest: low_eq_caps_map list_all2_lengthD)
  have tools: "rel_option (tools_respect low) (ip_impls a tool) (ip_impls b tool)" using ip by (simp add: interp_sim_def)
  show "eff_sim low (rel_prod (rel_option (low_eq low)) (=)) (?K a xs) (?K b ys)"
  proof (cases "tool_policy_check (policy_for (ip_policies a) tool (length xs)) (map cv_caps xs)")
    case (Some reason)
    then show ?thesis by (simp add: gate eff_sim_basic)
  next
    case None
    show ?thesis
    proof (cases "ip_impls a tool")
      case None: None
      with tools show ?thesis using \<open>tool_policy_check _ _ = None\<close> by (simp add: gate eff_sim_basic)
    next
      case (Some f)
      with tools obtain g where g: "ip_impls b tool = Some g" "tools_respect low f g" by (auto simp: option_rel_Some1)
      show ?thesis
        unfolding gate None Some g(1) option.case
        by (rule eff_sim_bind[OF invoke_tool_sim[OF g(2) xy]], rule eff_sim_bind[OF eff_sim_basic(3)], assumption,
            rule eff_sim_bind[OF bind_result_sim], assumption) (simp add: eff_sim_basic entry_for_low_eq)
    qed
  qed
qed

lemma qllm_step_sim:
  assumes ip: "interp_sim low a b"
  shows "eff_sim low (rel_prod (rel_option (low_eq low)) (=)) (camel_step a i (QLLM q ins x)) (camel_step b i (QLLM q ins x))"
  unfolding camel_step_def plan_node.case Let_def
proof (rule eff_sim_bind[OF eval_sim(2)[OF ip]])
  fix xs ys assume xy: "list_all2 (low_eq low) xs ys"
  let ?p = "ip_q_llm a q (map input_text xs)" and ?q = "ip_q_llm b q (map input_text ys)"
  have low: "low_closed low" and llm: "llm_respects low (ip_q_llm a) (ip_q_llm b)" using ip by (simp_all add: interp_sim_def)
  have "low_eq low (cv_derived (VStr u) xs) (cv_derived (VStr v) ys)" if uv: "?p = Inr u" "?q = Inr v" for u v
  proof -
    have "u = v" "xs = ys" if l: "low (cv_level (cv_derived (VStr u) xs))"
    proof -
      show "xs = ys" by (rule derived_low_inputs[OF low xy l])
      have "low TRUSTED" using low l unfolding low_closed_def by (metis TRUSTED_least)
      with llm uv \<open>xs = ys\<close> show "u = v" by (auto simp: llm_respects_def)
    qed
    then show ?thesis using derived_caps_eq[OF xy] by (auto simp: low_eq_def)
  qed
  moreover have "rel_sum (=) (\<lambda>_ _. True) ?p ?q" using llm by (simp add: llm_respects_def)
  ultimately have answers: "rel_sum (=) (\<lambda>u v. low_eq low (cv_derived (VStr u) xs) (cv_derived (VStr v) ys)) ?p ?q"
    by (cases ?p; cases ?q) auto
  show "eff_sim low (rel_prod (rel_option (low_eq low)) (=))
      (eff_bind (eff_lift ?p) (\<lambda>u. eff_bind (bind_result (Some x) (cv_derived (VStr u) xs)) (\<lambda>_.
         eff_return (None, entry_for i ''QLLM'' (Some x) (cv_derived (VStr u) xs) (Some (''query_len='' @ nat_digits (length q)))))))
      (eff_bind (eff_lift ?q) (\<lambda>u. eff_bind (bind_result (Some x) (cv_derived (VStr u) ys)) (\<lambda>_.
         eff_return (None, entry_for i ''QLLM'' (Some x) (cv_derived (VStr u) ys) (Some (''query_len='' @ nat_digits (length q)))))))"
    by (rule eff_sim_bind[OF eff_sim_basic(3)[OF answers]], rule eff_sim_bind[OF bind_result_sim], assumption)
       (simp add: eff_sim_basic entry_for_low_eq)
qed

lemma camel_step_sim:
  assumes ip: "interp_sim low a b"
  shows "eff_sim low (rel_prod (rel_option (low_eq low)) (=)) (camel_step a i node) (camel_step b i node)"
proof (cases node)
  case (Assign x e)
  show ?thesis
    unfolding Assign camel_step_def plan_node.case
    by (rule eff_sim_bind[OF eval_sim(1)[OF ip]], rule eff_sim_bind[OF bind_result_sim], assumption)
       (simp add: eff_sim_basic entry_for_low_eq)
next
  case (Return e)
  show ?thesis
    unfolding Return camel_step_def plan_node.case
    by (rule eff_sim_bind[OF eval_sim(1)[OF ip]]) (simp add: eff_sim_basic entry_for_low_eq)
qed (simp_all add: call_step_sim[OF ip] qllm_step_sim[OF ip])

lemma low_eq_refl [simp]: "low_eq low v v"
  by (simp add: low_eq_def)

lemma run_loop_sim:
  fixes a :: "'w interp" and b :: "'v interp"
  assumes ip: "interp_sim low a b"
  shows "eff_sim low (rel_prod (rel_option (low_eq low)) (=)) (run_loop a i nodes) (run_loop b i nodes)"
proof (induction nodes arbitrary: i)
  case (Cons n ns)
  show ?case
    unfolding eff_sim_def
  proof (intro allI impI)
    fix s :: "'w run_state" and t :: "'v run_state"
    assume st: "state_sim low s t"
    obtain x s1 y t1 where xy: "camel_step a i n s = (x, s1)" "camel_step b i n t = (y, t1)"
      by (cases "camel_step a i n s"; cases "camel_step b i n t")
    from eff_simD[OF camel_step_sim[OF ip] st, of i n]
    have r: "rel_sum (=) (rel_prod (rel_option (low_eq low)) (=)) x y" "state_sim low s1 t1" by (simp_all add: xy)
    have rest: "eff_sim low (rel_prod (rel_option (low_eq low)) (=))
        (eff_bind (run_loop a (i + 1) ns) (\<lambda>(v', entries, halt). eff_return (v', e # entries, halt)))
        (eff_bind (run_loop b (i + 1) ns) (\<lambda>(v', entries, halt). eff_return (v', e # entries, halt)))" for e
      by (rule eff_sim_bind[OF Cons.IH]) (auto intro: eff_sim_basic)
    show "rel_prod (rel_sum (=) (rel_prod (rel_option (low_eq low)) (=))) (state_sim low) (run_loop a i (n # ns) s) (run_loop b i (n # ns) t)"
    proof (cases x)
      case (Inl e)
      with r(1) have "y = Inl e" by (cases y) auto
      with Inl xy r(2) show ?thesis by (cases e) auto
    next
      case (Inr p)
      with r(1) obtain v1 e v2 where "x = Inr (v1, e)" "y = Inr (v2, e)" "rel_option (low_eq low) v1 v2"
        by (cases y; cases p) (auto simp: rel_prod_sel)
      with xy r(2) eff_simD[OF rest r(2), of e] show ?thesis by simp
    qed
  qed
qed (simp add: eff_sim_basic)

lemma read_key_user: "read_key ''user'' k \<noteq> ''user_prompt''"
  by (auto simp: read_key_def split: option.splits)

lemma with_prompt_sim: "interp_sim low a b \<Longrightarrow> interp_sim low (with_prompt p a) (with_prompt q b)"
  by (auto simp: interp_sim_def with_prompt_def dom_def read_key_user split: if_splits)

text \<open>
  (C7) Untrusted data influences neither the control flow nor the data labelled as low. Run one plan in two interpreters with the same
  policies, the same registered inputs except for the contents of untrusted ones, tools that respect \<open>low\<close> (whether they raise, the label of what they return, and its value if low, depend only on the
  labels of the arguments and the low ones among them) and a Q-LLM that answers
  or raises whatever its inputs (the same one, where some level is low). Whatever the prompts, the outside worlds and the contents of
  untrusted inputs, either both runs raise the same error or both return with the same trace (nodes executed, levels,
  sources, halt) and final values that agree; and in both cases the same tools were called in the same order, with
  arguments that carry the same labels and are equal where they are low.
\<close>

theorem run_noninterference:
  assumes "interp_sim low a b"
  shows "rel_prod (rel_sum (=) (rel_prod (low_eq low) (=)))
      (\<lambda>(ip1, s1) (ip2, s2). list_all2 (rel_prod (=) (list_all2 (low_eq low))) (rs_calls s1) (rs_calls s2))
    (run a plan p1 w1) (run b plan p2 w2)"
proof (cases "validate_structure plan")
  case (Inr u)
  let ?a = "with_prompt p1 a" and ?b = "with_prompt p2 b"
  have start: "state_sim low (run_start w1) (run_start w2)" by (simp add: state_sim_def run_start_def)
  obtain x s y t where xy: "run_loop ?a 0 plan (run_start w1) = (x, s)" "run_loop ?b 0 plan (run_start w2) = (y, t)"
    by (cases "run_loop ?a 0 plan (run_start w1)"; cases "run_loop ?b 0 plan (run_start w2)")
  from eff_simD[OF run_loop_sim[OF with_prompt_sim[OF assms, of p1 p2]] start, of 0 plan]
  have r: "rel_sum (=) (rel_prod (rel_option (low_eq low)) (=)) x y" "state_sim low s t" by (simp_all add: xy)
  have out: "rel_prod (low_eq low) (=) (outcome_of (v1, z)) (outcome_of (v2, z))" if "rel_option (low_eq low) v1 v2" for v1 v2 z
  proof -
    let ?d = "\<lambda>fv. case fv of Some v \<Rightarrow> v | None \<Rightarrow> \<lparr>cv_value = VNone, cv_caps = {||}\<rparr>"
    have d: "low_eq low (?d v1) (?d v2)" using that by (cases v1; cases v2) simp_all
    then have "trace_of (?d v1) es h = trace_of (?d v2) es h" for es h
      unfolding trace_of_def sorted_sources_def by (simp add: low_eq_def cv_level_def)
    with d show ?thesis by (cases z) (simp add: outcome_of_def Let_def)
  qed
  have calls: "list_all2 (rel_prod (=) (list_all2 (low_eq low))) (rs_calls s) (rs_calls t)" using r(2) by (simp add: state_sim_def)
  have "rel_sum (=) (rel_prod (low_eq low) (=)) (sbind x (\<lambda>z. Inr (outcome_of z))) (sbind y (\<lambda>z. Inr (outcome_of z)))"
  proof (cases x)
    case (Inl e)
    with r(1) show ?thesis by (cases y) simp_all
  next
    case (Inr p)
    with r(1) obtain v1 z v2 where "x = Inr (v1, z)" "y = Inr (v2, z)" "rel_option (low_eq low) v1 v2"
      by (cases y; cases p) (auto simp: rel_prod_sel)
    with out show ?thesis by simp
  qed
  with calls show ?thesis unfolding run_def Inr sum.case Let_def xy prod.case by simp
qed (simp add: run_def run_start_def)

section \<open>Concrete runs\<close>

definition send_policy :: tool_policy where
  "send_policy = \<lparr>tp_tool_name = ''send'', tp_max_arg_levels = [USER], tp_forbidden_sources = {||},
     tp_description = None\<rparr>"

definition counting_tool :: "cap_value list \<Rightarrow> nat \<Rightarrow> tool_result \<times> nat" where
  "counting_tool args w = (ToolRaw (VStr ''ok''), w + 1)"

definition mail_interp :: "string \<Rightarrow> nat interp" where
  "mail_interp body = \<lparr>ip_policies = \<lparr>pr_policies = [''send'' \<mapsto> send_policy], pr_frozen = True\<rparr>,
     ip_impls = [''send'' \<mapsto> counting_tool], ip_q_llm = stub_answer 2048, ip_untrusted = [''email'' \<mapsto> body]\<rparr>"

definition literal_plan :: "plan_node list" where
  "literal_plan = [Call ''send'' [Literal (VStr ''hi'')] None, Return (Literal VNone)]"

definition forward_plan :: "plan_node list" where
  "forward_plan = [Assign ''m'' (Read ''email'' None), Call ''send'' [Var ''m''] None, Return (Var ''m'')]"

lemmas run_defs = run_def run_start_def validate_structure_def mail_interp_def with_prompt_def camel_step_def
  eval_expr_def policy_for_def tool_policy_check_def send_policy_def bind_var_def read_key_def Let_def
  wrap_result_def counting_tool_def eval_in_def eval_args_def invoke_tool_def bind_result_def eff_defs outcome_of_def

lemma cs_level_single [simp]: "cs_level {|c|} = c_level c"
  by (simp add: cs_level_def)

lemma cv_level_sources [simp]:
  "cs_level (cv_caps (cv_trusted v s)) = TRUSTED" "cs_level (cv_caps (cv_user v s)) = USER"
  "cs_level (cv_caps (cv_untrusted v s p)) = UNTRUSTED"
  by (simp_all add: cv_trusted_def cv_user_def cv_untrusted_def cap_trusted_def cap_user_def cap_untrusted_def)

lemma level_less [simp]: "USER < UNTRUSTED" "\<not> USER < TRUSTED"
  by (simp_all add: level_order_defs)

lemma literal_run:
  "\<exists>v tr ip' st. run (mail_interp ''x'') literal_plan [] 0 = (Inr (v, tr), ip', st) \<and>
     rs_calls st = [(''send'', [cv_trusted (VStr ''hi'') ''plan_literal''])] \<and> \<not> xt_halted tr"
  by (simp add: run_defs literal_plan_def trace_of_def)

theorem run_calls_authorised_witness:
  "\<exists>v tr ip' st t args. run (mail_interp ''x'') literal_plan [] 0 = (Inr (v, tr), ip', st) \<and>
     (t, args) \<in> set (rs_calls st) \<and> call_authorised (ip_policies (mail_interp ''x'')) t args"
  using literal_run run_calls_authorised by (metis list.set_intros(1))

lemma send_repr: "py_repr ''send'' = CHR 0x27 # ''send'' @ [CHR 0x27]"
  by code_simp

lemma forward_halts:
  "\<exists>v tr ip' st. run (mail_interp body) forward_plan p 0 = (Inr (v, tr), ip', st) \<and> xt_halted tr"
  by (simp add: run_defs forward_plan_def trace_of_def send_repr nat_digits.simps)

theorem run_halted_fail_closed_witness:
  "\<exists>v tr ip' st. run (mail_interp ''x'') forward_plan [] 0 = (Inr (v, tr), ip', st) \<and> cv_level v = UNTRUSTED"
proof -
  from forward_halts [of "''x''" "[]"] obtain v tr ip' st where
    "run (mail_interp ''x'') forward_plan [] 0 = (Inr (v, tr), ip', st)" "xt_halted tr" by blast
  with run_halted_fail_closed [OF this] show ?thesis by blast
qed

text \<open>A tool that labels its own result, as the tools of the documentation do, on an untrusted argument.\<close>

definition log_tool :: "cap_value list \<Rightarrow> nat \<Rightarrow> tool_result \<times> nat" where
  "log_tool args w = (ToolCap (cv_derived (VStr ''logged'') args), w + 1)"

definition log_interp :: "string \<Rightarrow> nat interp" where
  "log_interp body = \<lparr>ip_policies = \<lparr>pr_policies = [''log'' \<mapsto> send_policy\<lparr>tp_max_arg_levels := [UNTRUSTED]\<rparr>, ''send'' \<mapsto> send_policy], pr_frozen = True\<rparr>,
     ip_impls = [''log'' \<mapsto> log_tool, ''send'' \<mapsto> counting_tool], ip_q_llm = stub_answer 2048, ip_untrusted = [''email'' \<mapsto> body]\<rparr>"

definition log_plan :: "plan_node list" where
  "log_plan = [Assign ''m'' (Read ''email'' None), Call ''log'' [Var ''m''] (Some ''r''), Call ''send'' [Literal (VStr ''hi'')] None, Return (Var ''r'')]"

lemma derived_respects:
  assumes "low_closed low" and "\<And>args w. wrap_result args (fst (f args w)) = Inr (cv_derived v args)"
  shows "tools_respect low f f"
  unfolding tools_respect_def
proof (intro allI impI)
  fix xs ys w1 w2 assume xy: "list_all2 (low_eq low) xs ys"
  show "rel_sum (=) (low_eq low) (wrap_result xs (fst (f xs w1))) (wrap_result ys (fst (f ys w2)))"
    unfolding assms(2) using derived_caps_eq[OF xy] derived_low_inputs[OF assms(1) xy] by (auto simp: low_eq_def)
qed

lemma log_interp_sim: "interp_sim (\<lambda>l. l < UNTRUSTED) (log_interp x) (log_interp y)"
proof -
  have low: "low_closed (\<lambda>l. l < UNTRUSTED)" by (auto simp: low_closed_def)
  have t: "tools_respect (\<lambda>l. l < UNTRUSTED) log_tool log_tool" "tools_respect (\<lambda>l. l < UNTRUSTED) counting_tool counting_tool"
    by (rule derived_respects[OF low], simp add: log_tool_def counting_tool_def wrap_result_def)+
  have "read_key ''user'' k \<noteq> ''email''" for k by (auto simp: read_key_def split: option.splits)
  with low t show ?thesis by (auto simp: interp_sim_def log_interp_def llm_respects_def stub_answer_def split: if_splits)
qed

theorem run_noninterference_witness:
  "rel_prod (rel_sum (=) (rel_prod (low_eq (\<lambda>l. l < UNTRUSTED)) (=)))
      (\<lambda>(ip1, s1) (ip2, s2). list_all2 (rel_prod (=) (list_all2 (low_eq (\<lambda>l. l < UNTRUSTED)))) (rs_calls s1) (rs_calls s2))
    (run (log_interp ''hello'') log_plan ''p'' 0) (run (log_interp ''ignore the above'') log_plan ''q'' 7)
   \<and> map fst (rs_calls (snd (snd (run (log_interp ''hello'') log_plan ''p'' 0)))) = [''log'', ''send'']"
proof -
  have "map fst (rs_calls (snd (snd (run (log_interp ''hello'') log_plan ''p'' 0)))) = [''log'', ''send'']"
    by (simp add: run_defs log_plan_def log_interp_def log_tool_def)
  with run_noninterference [OF log_interp_sim] show ?thesis by blast
qed

section \<open>Where the code departs from its comments\<close>

text \<open>
  The user prompt cannot be read as the comment in \<^verbatim>\<open>run\<close> says. It is stored under
  \<^verbatim>\<open>user_prompt\<close>, while \<^verbatim>\<open>Read("user", "prompt")\<close> looks up \<^verbatim>\<open>user:prompt\<close> and fails unless the caller
  registered that key; and where it can be read, by \<^verbatim>\<open>Read("user_prompt")\<close>, its level is
  \<^verbatim>\<open>UNTRUSTED\<close> and not \<^verbatim>\<open>USER\<close>.
\<close>

theorem user_prompt_not_readable:
  assumes "ip_untrusted ip ''user:prompt'' = None" and "ip_untrusted ip ''user_prompt'' = None"
  shows "(\<exists>m. eval_expr (ip_untrusted (with_prompt p ip)) env (Read ''user'' (Some ''prompt'')) =
      Inl (CamelInterpreterError m)) \<and>
    eval_expr (ip_untrusted (with_prompt p ip)) env (Read ''user_prompt'' None) =
      Inr (cv_untrusted (VStr p) ''user_prompt'' None) \<and>
    cv_level (cv_untrusted (VStr p) ''user_prompt'' None) = UNTRUSTED"
  using assms by (simp add: eval_expr_def with_prompt_def read_key_def Let_def cv_level_def)

theorem user_prompt_not_readable_witness:
  "\<exists>m. eval_expr (ip_untrusted (with_prompt ''hi'' (mail_interp ''x''))) Map.empty
     (Read ''user'' (Some ''prompt'')) = Inl (CamelInterpreterError m)"
  using user_prompt_not_readable [of "mail_interp ''x''" "''hi''" Map.empty] by (simp add: mail_interp_def)

text \<open>
  An interpreter keeps the prompt of its first run: \<^verbatim>\<open>setdefault\<close> writes it into the instance, so
  a later run of the same instance does not depend on the prompt it is given.
\<close>

theorem run_prompt_sticks:
  assumes "run ip plan p w = (Inr (v, tr), ip', st)"
  shows "run ip' plan2 q w2 = run ip' plan2 p2 w2"
proof -
  from assms have "ip_untrusted ip' ''user_prompt'' \<noteq> None"
    by (auto simp: run_def with_prompt_def Let_def split: sum.splits prod.splits if_splits)
  then have "with_prompt x ip' = ip'" for x by (auto simp: with_prompt_def)
  then show ?thesis unfolding run_def by (simp only:)
qed

theorem run_prompt_sticks_witness:
  "\<exists>v tr ip' st. run (mail_interp ''x'') literal_plan ''first'' 0 = (Inr (v, tr), ip', st) \<and>
     run ip' [Return (Read ''user_prompt'' None)] ''second'' 0 = run ip' [Return (Read ''user_prompt'' None)] ''first'' 0"
proof -
  obtain v tr ip' st where r: "run (mail_interp ''x'') literal_plan ''first'' 0 = (Inr (v, tr), ip', st)"
    by (simp add: run_defs literal_plan_def)
  with run_prompt_sticks [OF r, of "[Return (Read ''user_prompt'' None)]" "''second''" 0 "''first''"]
  show ?thesis by blast
qed

definition launder_interp :: "nat interp" where
  "launder_interp = \<lparr>ip_policies = \<lparr>pr_policies = [''clean'' \<mapsto> send_policy\<lparr>tp_max_arg_levels := [UNTRUSTED]\<rparr>],
       pr_frozen = True\<rparr>,
     ip_impls = [''clean'' \<mapsto> (\<lambda>args w. (ToolCap (cv_trusted (cv_value (hd args)) ''clean''), w)),
                 ''pay'' \<mapsto> counting_tool],
     ip_q_llm = stub_answer 2048, ip_untrusted = [''email'' \<mapsto> ''attacker text'']\<rparr>"

text \<open>
  A tool can shed taint: a result that already is a \<^verbatim>\<open>CapValue\<close> is bound as it is, so a tool that
  wraps its untrusted argument as trusted lets the same content reach an unregistered (hence
  trusted-only) tool. The documented monotonicity holds for raw results only.
\<close>

theorem tool_result_sheds_taint:
  "\<exists>v tr ip' st. run launder_interp [Assign ''m'' (Read ''email'' None), Call ''clean'' [Var ''m''] (Some ''c''),
       Call ''pay'' [Var ''c''] None, Return (Var ''c'')] [] 0 = (Inr (v, tr), ip', st) \<and>
     \<not> xt_halted tr \<and> rs_world st = 1 \<and>
     (''pay'', [cv_trusted (VStr ''attacker text'') ''clean'']) \<in> set (rs_calls st)"
  by (simp add: run_defs launder_interp_def trace_of_def)
     (simp add: cv_untrusted_def)

end
