(* ===== verification/Hash_Log.thy ===== *)
theory Hash_Log
  imports Prelude
begin

text \<open>
  The interface of a hash-chained, append-only log: every entry carries its position and the hash of
  the entry before it, and \<open>append\<close> accepts exactly the entries that continue the chain. What a
  terminal hash pins down is stated without assuming that the hash is injective: two different
  chains with the same terminal hash contain two different entries with the same hash.
\<close>

locale hash_log =
  fixes hash_of :: "'e \<Rightarrow> 'h" and seq_of :: "'e \<Rightarrow> nat" and prev_of :: "'e \<Rightarrow> 'h" and genesis :: 'h
    and append :: "'e \<Rightarrow> 'e list \<Rightarrow> 'x + 'e list" and last_hash :: "'e list \<Rightarrow> 'h"
  assumes last_hash_Nil: "last_hash [] = genesis"
    and last_hash_snoc: "last_hash (log @ [e]) = hash_of e"
    and append_iff: "append e log = Inr log' \<longleftrightarrow>
      seq_of e = length log \<and> prev_of e = last_hash log \<and> log' = log @ [e]"
begin

definition chained :: "'e list \<Rightarrow> bool" where
  "chained log \<longleftrightarrow> (\<forall>i<length log. seq_of (log ! i) = i \<and> prev_of (log ! i) = last_hash (take i log))"

lemma chained_Nil: "chained []"
  by (simp add: chained_def)

lemma chained_snoc: "chained (log @ [e]) \<longleftrightarrow> chained log \<and> seq_of e = length log \<and> prev_of e = last_hash log"
  by (auto simp: chained_def nth_append less_Suc_eq)

lemma append_chained: "chained log \<Longrightarrow> append e log = Inr log' \<Longrightarrow> chained log'"
  by (auto simp: append_iff chained_snoc)

lemma append_next: "seq_of e = length log \<Longrightarrow> prev_of e = last_hash log \<Longrightarrow> append e log = Inr (log @ [e])"
  by (simp add: append_iff)

text \<open>Tampering: a chain is determined by its terminal hash, or there is a collision.\<close>

lemma chained_last_eq:
  assumes "chained l1" and "chained l2" and "l1 \<noteq> []" and "l2 \<noteq> []" and "last_hash l1 = last_hash l2"
  shows "l1 = l2 \<or> (\<exists>a\<in>set l1. \<exists>b\<in>set l2. a \<noteq> b \<and> hash_of a = hash_of b)"
  using assms
proof (induction l1 arbitrary: l2 rule: rev_induct)
  case (snoc a l1)
  obtain l2' b where l2: "l2 = l2' @ [b]" using snoc.prems(4) by (cases l2 rule: rev_cases) auto
  have h: "hash_of a = hash_of b" using snoc.prems(5) by (simp add: l2 last_hash_snoc)
  show ?case
  proof (cases "a = b")
    case False
    then show ?thesis using h l2 by auto
  next
    case True
    then have len: "length l1 = length l2'" and "last_hash l1 = last_hash l2'" "chained l1" "chained l2'"
      using snoc.prems(1,2) by (auto simp: l2 chained_snoc)
    show ?thesis
    proof (cases "l1 = []")
      case False
      with len have "l2' \<noteq> []" by auto
      from snoc.IH[OF \<open>chained l1\<close> \<open>chained l2'\<close> False this \<open>last_hash l1 = last_hash l2'\<close>]
      show ?thesis using True l2 by auto
    qed (use len True l2 in auto)
  qed
qed simp

text \<open>Cutting off the end of a log leaves a chain: the chain alone does not show truncation.\<close>

lemma chained_take: "chained log \<Longrightarrow> chained (take n log)"
  by (auto simp: chained_def min_def)

end

end
