(* ===== verification/Safeflow_Wal.thy ===== *)
theory Safeflow_Wal
  imports Hash_Log Py_Value
begin

text \<open>
  The SAFEFLOW write-ahead log and transaction records: \<^verbatim>\<open>safeflow/wal.py\<close>,
  \<^verbatim>\<open>safeflow/transaction.py\<close>. The hash function is a parameter: \<open>sha text\<close> stands for
  \<^verbatim>\<open>hashlib.sha256(text.encode()).hexdigest()\<close>. The canonical JSON of an entry is computed, and shown
  to determine the entry, so that a collision of entry hashes is a collision of \<open>sha\<close>.

  \<^verbatim>\<open>FileWAL\<close> keeps the same list in its cache; writing the file is left out.
\<close>

section \<open>JSON text\<close>

text \<open>A string literal of \<^verbatim>\<open>json.dumps\<close> with \<^verbatim>\<open>ensure_ascii=False\<close>.\<close>

definition json_char :: "char \<Rightarrow> string" where
  "json_char c =
     (if c = CHR 0x22 then [CHR 0x5C, CHR 0x22]
      else if c = CHR 0x5C then [CHR 0x5C, CHR 0x5C]
      else if code c = 10 then [CHR 0x5C, CHR ''n'']
      else if code c = 13 then [CHR 0x5C, CHR ''r'']
      else if code c = 9 then [CHR 0x5C, CHR ''t'']
      else if code c = 12 then [CHR 0x5C, CHR ''f'']
      else if code c = 8 then [CHR 0x5C, CHR ''b'']
      else if code c < 32 then [CHR 0x5C, CHR ''u'', CHR ''0'', CHR ''0'', hex_digit (code c div 16),
                               hex_digit (code c mod 16)]
      else [c])"

definition json_string :: "string \<Rightarrow> string" where
  "json_string s = CHR 0x22 # concat (map json_char s) @ [CHR 0x22]"

definition json_opt :: "string option \<Rightarrow> string" where
  "json_opt v = (case v of None \<Rightarrow> ''null'' | Some s \<Rightarrow> json_string s)"

text \<open>Reading one character of a literal back.\<close>

definition hex_value :: "char \<Rightarrow> nat" where
  "hex_value c = (if code c < 58 then code c - 48 else code c - 87)"

fun json_unchar :: "string \<Rightarrow> (char \<times> string) option" where
  "json_unchar [] = None"
| "json_unchar (a # r) =
     (if a \<noteq> CHR 0x5C then Some (a, r)
      else case r of
        [] \<Rightarrow> None
      | b # r' \<Rightarrow>
          if b = CHR ''n'' then Some (char_of (10 :: nat), r')
          else if b = CHR ''r'' then Some (char_of (13 :: nat), r')
          else if b = CHR ''t'' then Some (char_of (9 :: nat), r')
          else if b = CHR ''f'' then Some (char_of (12 :: nat), r')
          else if b = CHR ''b'' then Some (char_of (8 :: nat), r')
          else if b = CHR ''u'' then
            Some (char_of (16 * hex_value (r' ! 2) + hex_value (r' ! 3)), drop 4 r')
          else Some (b, r'))"

lemma char_of_code: "char_of (code c) = c"
  by (simp add: code_def)

lemma code_eq: "code c = n \<Longrightarrow> c = char_of n"
  using char_of_code by metis

lemma code_less: "code c < 256"
  by (simp add: code_def)

lemma hex_value_digit: "d < 16 \<Longrightarrow> hex_value (hex_digit d) = d"
  by (simp add: hex_value_def hex_digit_def code_def)

lemma json_unchar_char: "json_unchar (json_char c @ r) = Some (c, r)"
proof (cases "code c < 32")
  case True
  have "16 * (code c div 16) + code c mod 16 = code c" by simp
  moreover have "code c div 16 < 16" using code_less[of c] by auto
  ultimately show ?thesis
    using True by (auto simp: json_char_def hex_value_digit char_of_code dest: code_eq[symmetric])
next
  case False
  then show ?thesis by (auto simp: json_char_def)
qed

lemma json_char_not_quote: "json_char c = a # r \<Longrightarrow> a \<noteq> CHR 0x22"
  by (auto simp: json_char_def split: if_splits)

lemma json_char_nonempty: "json_char c \<noteq> []"
  by (simp add: json_char_def)

text \<open>A literal ends where it ends: what follows it can be read off.\<close>

lemma json_chars_cancel:
  "concat (map json_char s) @ CHR 0x22 # r = concat (map json_char t) @ CHR 0x22 # u \<Longrightarrow> s = t \<and> r = u"
proof (induction s arbitrary: t)
  case Nil
  then show ?case
    by (cases t) (auto simp: Cons_eq_append_conv dest!: json_char_not_quote[OF sym] simp: json_char_nonempty)
next
  case (Cons c s)
  note prems = Cons.prems and ih = Cons.IH
  show ?case
  proof (cases t)
    case Nil
    with Cons.prems show ?thesis
      by (cases "json_char c") (auto simp: json_char_nonempty dest: json_char_not_quote)
  next
    case (Cons d t')
    with prems have eq: "json_char c @ concat (map json_char s) @ CHR 0x22 # r =
        json_char d @ concat (map json_char t') @ CHR 0x22 # u" by simp
    from arg_cong[OF eq, of json_unchar] have "c = d"
      "concat (map json_char s) @ CHR 0x22 # r = concat (map json_char t') @ CHR 0x22 # u"
      by (simp_all add: json_unchar_char)
    with ih Cons show ?thesis by blast
  qed
qed

lemma json_string_cancel: "json_string s @ r = json_string t @ u \<longleftrightarrow> s = t \<and> r = u"
  by (auto simp: json_string_def dest: json_chars_cancel)

lemma json_opt_cancel: "json_opt s @ r = json_opt t @ u \<longleftrightarrow> s = t \<and> r = u"
  by (auto simp: json_opt_def json_string_cancel split: option.splits) (auto simp: json_string_def)

lemma digits_cancel:
  assumes "nat_digits n @ CHR '','' # r = nat_digits m @ CHR '','' # u"
  shows "n = m \<and> r = u"
proof -
  have "takeWhile py_isdecimal (nat_digits k @ CHR '','' # x) = nat_digits k" for k x
    by (subst takeWhile_append2) (auto dest: nat_digits_decimal simp: py_char_defs)
  with assms have "nat_digits n = nat_digits m" by metis
  then show ?thesis using assms nat_digits_value by (metis append_same_eq same_append_eq list.inject)
qed

section \<open>The write-ahead lg\<close>

datatype WALEntryKind = BEGIN | STEP_BEFORE | STEP_AFTER | COMMIT | ABORT | ROLLBACK_BEFORE | ROLLBACK_AFTER

record wal_entry =
  we_sequence :: nat
  we_txn_id :: string
  we_kind :: WALEntryKind
  we_step_id :: "string option"
  we_tool :: "string option"
  we_args_hash :: "string option"
  we_result_hash :: "string option"
  we_inverse_op :: "string option"
  we_note :: "string option"
  we_timestamp_ms :: nat
  we_prev_hash :: string

primrec kind_value :: "WALEntryKind \<Rightarrow> string" where
  "kind_value BEGIN = ''BEGIN''"
| "kind_value STEP_BEFORE = ''STEP_BEFORE''"
| "kind_value STEP_AFTER = ''STEP_AFTER''"
| "kind_value COMMIT = ''COMMIT''"
| "kind_value ABORT = ''ABORT''"
| "kind_value ROLLBACK_BEFORE = ''ROLLBACK_BEFORE''"
| "kind_value ROLLBACK_AFTER = ''ROLLBACK_AFTER''"

text \<open>\<^verbatim>\<open>canonical_payload\<close>: the fields in the order of their sorted names, without spaces.\<close>

definition json_key :: "string \<Rightarrow> string" where
  "json_key k = json_string k @ '':''"

definition canonical_payload :: "wal_entry \<Rightarrow> string" where
  "canonical_payload e = ''{'' @
     json_key ''args_hash'' @ json_opt (we_args_hash e) @ '','' @
     json_key ''inverse_op'' @ json_opt (we_inverse_op e) @ '','' @
     json_key ''kind'' @ json_string (kind_value (we_kind e)) @ '','' @
     json_key ''note'' @ json_opt (we_note e) @ '','' @
     json_key ''prev_hash'' @ json_string (we_prev_hash e) @ '','' @
     json_key ''result_hash'' @ json_opt (we_result_hash e) @ '','' @
     json_key ''sequence'' @ nat_digits (we_sequence e) @ '','' @
     json_key ''step_id'' @ json_opt (we_step_id e) @ '','' @
     json_key ''timestamp_ms'' @ nat_digits (we_timestamp_ms e) @ '','' @
     json_key ''tool'' @ json_opt (we_tool e) @ '','' @
     json_key ''txn_id'' @ json_string (we_txn_id e) @ ''}''"

definition wal_hash :: "(string \<Rightarrow> string) \<Rightarrow> wal_entry \<Rightarrow> string" where
  "wal_hash sha e = sha (canonical_payload e)"

definition genesis_hash :: string where
  "genesis_hash = replicate 64 CHR ''0''"

type_synonym wal = "wal_entry list"

definition wal_last_hash :: "(string \<Rightarrow> string) \<Rightarrow> wal \<Rightarrow> string" where
  "wal_last_hash sha lg = (if lg = [] then genesis_hash else wal_hash sha (last lg))"

definition wal_next_sequence :: "wal \<Rightarrow> nat" where
  "wal_next_sequence lg = length lg"

datatype wal_error = WalSequenceMismatch | WalChainBreak

definition wal_append :: "(string \<Rightarrow> string) \<Rightarrow> wal_entry \<Rightarrow> wal \<Rightarrow> wal_error + wal" where
  "wal_append sha e lg =
     (if we_sequence e \<noteq> length lg then Inl WalSequenceMismatch
      else if we_prev_hash e \<noteq> wal_last_hash sha lg then Inl WalChainBreak
      else Inr (lg @ [e]))"

interpretation wal: hash_log "wal_hash sha" we_sequence we_prev_hash genesis_hash "wal_append sha"
  "wal_last_hash sha" for sha
  by unfold_locales (auto simp: wal_last_hash_def wal_append_def)

text \<open>\<^verbatim>\<open>replay\<close>: the terminal state per transaction.\<close>

datatype replay_state = RPending | RCommitted | RAborted | RRollingBack

definition replay_step :: "(string \<rightharpoonup> replay_state) \<Rightarrow> wal_entry \<Rightarrow> (string \<rightharpoonup> replay_state)" where
  "replay_step m e = (case we_kind e of
       BEGIN \<Rightarrow> m(we_txn_id e \<mapsto> RPending)
     | COMMIT \<Rightarrow> m(we_txn_id e \<mapsto> RCommitted)
     | ABORT \<Rightarrow> m(we_txn_id e \<mapsto> RAborted)
     | ROLLBACK_BEFORE \<Rightarrow> m(we_txn_id e \<mapsto> RRollingBack)
     | ROLLBACK_AFTER \<Rightarrow> m(we_txn_id e \<mapsto> RRollingBack)
     | _ \<Rightarrow> m)"

definition replay :: "wal \<Rightarrow> (string \<rightharpoonup> replay_state)" where
  "replay lg = foldl replay_step Map.empty lg"

section \<open>What the chain proves\<close>

lemma kind_value_inject [simp]: "kind_value a = kind_value b \<longleftrightarrow> a = b"
  by (cases a; cases b) simp_all

lemma digits_comma_cancel:
  "nat_digits n @ '','' @ r = nat_digits m @ '','' @ u \<longleftrightarrow> n = m \<and> r = u"
  using digits_cancel[of n r m u] by auto

lemma canonical_payload_inject: "canonical_payload a = canonical_payload b \<longleftrightarrow> a = b"
proof
  assume "canonical_payload a = canonical_payload b"
  then have "we_args_hash a = we_args_hash b \<and> we_inverse_op a = we_inverse_op b \<and> we_kind a = we_kind b \<and>
      we_note a = we_note b \<and> we_prev_hash a = we_prev_hash b \<and> we_result_hash a = we_result_hash b \<and>
      we_sequence a = we_sequence b \<and> we_step_id a = we_step_id b \<and>
      we_timestamp_ms a = we_timestamp_ms b \<and> we_tool a = we_tool b \<and> we_txn_id a = we_txn_id b"
    unfolding canonical_payload_def same_append_eq json_opt_cancel json_string_cancel digits_comma_cancel
      kind_value_inject by blast
  then show "a = b" by (simp add: wal_entry.equality)
qed simp

text \<open>
  The canonical JSON of a log entry determines the entry: no two entries that differ in any
  field, the optional ones included, have the same payload, whatever text the fields contain.
\<close>

theorem wal_payload_injective: "canonical_payload a = canonical_payload b \<longleftrightarrow> a = b"
  by (rule canonical_payload_inject)

definition wal_chained :: "(string \<Rightarrow> string) \<Rightarrow> wal \<Rightarrow> bool" where
  "wal_chained sha lg \<longleftrightarrow> (\<forall>i<length lg. we_sequence (lg ! i) = i \<and>
     we_prev_hash (lg ! i) = wal_last_hash sha (take i lg))"

lemma wal_chained_eq: "wal.chained sha lg = wal_chained sha lg"
  by (simp add: wal.chained_def wal_chained_def)

text \<open>
  (C23) The log is tamper-evident against its terminal hash: two non-empty logs that are chains and end
  in the same hash are the same log, entry by entry, unless an entry of one and an entry of the other
  have different payloads with the same SHA-256.
\<close>

theorem wal_terminal_hash_pins_log:
  assumes "wal_chained sha l1" and "wal_chained sha l2" and "l1 \<noteq> []" and "l2 \<noteq> []"
    and "wal_last_hash sha l1 = wal_last_hash sha l2"
  shows "l1 = l2 \<or> (\<exists>a\<in>set l1. \<exists>b\<in>set l2. canonical_payload a \<noteq> canonical_payload b \<and>
    sha (canonical_payload a) = sha (canonical_payload b))"
  using wal.chained_last_eq[of sha l1 l2] assms canonical_payload_inject
  by (auto simp: wal_chained_eq wal_hash_def)

definition begin_entry :: wal_entry where
  "begin_entry = \<lparr>we_sequence = 0, we_txn_id = ''t'', we_kind = BEGIN, we_step_id = None, we_tool = None,
     we_args_hash = None, we_result_hash = None, we_inverse_op = None, we_note = Some ''transaction begin'',
     we_timestamp_ms = 1, we_prev_hash = genesis_hash\<rparr>"

theorem wal_terminal_hash_pins_log_witness:
  "wal_append id begin_entry [] = Inr [begin_entry] \<and>
   {l. wal_chained id l \<and> l \<noteq> [] \<and> wal_last_hash id l = wal_last_hash id [begin_entry]} = {[begin_entry]}"
proof -
  have c: "wal_chained id [begin_entry]" by (simp add: wal_chained_def begin_entry_def wal_last_hash_def)
  have a: "wal_append id begin_entry [] = Inr [begin_entry]"
    by (simp add: wal_append_def begin_entry_def wal_last_hash_def)
  have "l = [begin_entry]"
    if "wal_chained id l" "l \<noteq> []" "wal_last_hash id l = wal_last_hash id [begin_entry]" for l
    using wal_terminal_hash_pins_log [OF that(1) c that(2) _ that(3)] by auto
  with a c show ?thesis by auto
qed

text \<open>
  Replay does not look at the chain: changing every \<^verbatim>\<open>prev_hash\<close>, sequence number and hash field of
  a log leaves its replay as it was, so a tampered log is not detected there; nor is a truncated one,
  whose remaining prefix still is a chain.
\<close>

theorem wal_replay_ignores_chain:
  "replay (map (\<lambda>e. e\<lparr>we_prev_hash := h, we_sequence := n, we_args_hash := a, we_result_hash := r\<rparr>) lg) = replay lg \<and>
   (wal_chained sha lg \<longrightarrow> wal_chained sha (take k lg))"
proof -
  have "foldl replay_step m (map (\<lambda>e. e\<lparr>we_prev_hash := h, we_sequence := n, we_args_hash := a, we_result_hash := r\<rparr>) lg)
      = foldl replay_step m lg" for m
    by (induction lg arbitrary: m) (simp_all add: replay_step_def split: WALEntryKind.splits)
  then show ?thesis using wal.chained_take[of sha lg k] by (simp add: replay_def wal_chained_eq)
qed

theorem wal_replay_ignores_chain_witness:
  "replay [begin_entry\<lparr>we_prev_hash := ''forged''\<rparr>] = replay [begin_entry] \<and> \<not> wal_chained id [begin_entry\<lparr>we_prev_hash := ''forged''\<rparr>]"
  using wal_replay_ignores_chain [where h = "''forged''" and n = 0 and a = None and r = None
      and lg = "[begin_entry]" and sha = id and k = 0]
  by (simp add: begin_entry_def wal_chained_def wal_last_hash_def genesis_hash_def numeral_eq_Suc)

section \<open>Transactions\<close>

datatype TransactionState = PENDING | COMMITTED | ROLLED_BACK | FAILED

record txn_step =
  ts_step_id :: string
  ts_tool :: string
  ts_args_hash :: string
  ts_result_hash :: "string option"
  ts_inverse_op :: "string option"
  ts_started_at_ms :: nat
  ts_completed_at_ms :: "nat option"
  ts_error :: "string option"

record transaction =
  tx_txn_id :: string
  tx_state :: TransactionState
  tx_steps :: "txn_step list"
  tx_created_at_ms :: nat
  tx_completed_at_ms :: "nat option"
  tx_failure_reason :: "string option"

primrec state_value :: "TransactionState \<Rightarrow> string" where
  "state_value PENDING = ''PENDING''"
| "state_value COMMITTED = ''COMMITTED''"
| "state_value ROLLED_BACK = ''ROLLED_BACK''"
| "state_value FAILED = ''FAILED''"

definition text_or_empty :: "string option \<Rightarrow> string" where
  "text_or_empty v = (case v of None \<Rightarrow> [] | Some s \<Rightarrow> s)"

definition transaction_hash :: "(string \<Rightarrow> string) \<Rightarrow> transaction \<Rightarrow> string" where
  "transaction_hash sha t = sha (tx_txn_id t @ state_value (tx_state t) @
     concat (map (\<lambda>s. ts_step_id s @ ts_tool s @ ts_args_hash s @ text_or_empty (ts_result_hash s) @
       text_or_empty (ts_inverse_op s)) (tx_steps t)) @ text_or_empty (tx_failure_reason t))"

definition with_step :: "txn_step \<Rightarrow> transaction \<Rightarrow> transaction" where
  "with_step s t = t\<lparr>tx_steps := tx_steps t @ [s]\<rparr>"

definition with_state :: "TransactionState \<Rightarrow> nat option \<Rightarrow> string option \<Rightarrow> transaction \<Rightarrow> transaction" where
  "with_state st completed reason t =
     (let t1 = t\<lparr>tx_state := st\<rparr>;
          t2 = (case completed of None \<Rightarrow> t1 | Some c \<Rightarrow> t1\<lparr>tx_completed_at_ms := Some c\<rparr>)
      in case reason of None \<Rightarrow> t2 | Some r \<Rightarrow> t2\<lparr>tx_failure_reason := Some r\<rparr>)"

text \<open>
  The transaction hash does not separate its fields: the parts are concatenated without
  delimiters, so a step named \<^verbatim>\<open>ab\<close> of tool \<^verbatim>\<open>c\<close> and a step named \<^verbatim>\<open>a\<close> of tool \<^verbatim>\<open>bc\<close> give the same hash,
  for every hash function.
\<close>

theorem transaction_hash_ambiguous:
  "\<exists>t1 t2. t1 \<noteq> t2 \<and> tx_txn_id t1 = tx_txn_id t2 \<and> tx_steps t1 \<noteq> tx_steps t2 \<and>
     (\<forall>sha. transaction_hash sha t1 = transaction_hash sha t2)"
proof -
  define s where "s i tl = \<lparr>ts_step_id = i, ts_tool = tl, ts_args_hash = ''0'', ts_result_hash = None,
     ts_inverse_op = None, ts_started_at_ms = 0, ts_completed_at_ms = None, ts_error = None\<rparr>" for i tl
  define t where "t i tl = \<lparr>tx_txn_id = ''x'', tx_state = PENDING, tx_steps = [s i tl], tx_created_at_ms = 0,
     tx_completed_at_ms = None, tx_failure_reason = None\<rparr>" for i tl
  show ?thesis
    by (rule exI[of _ "t ''ab'' ''c''"], rule exI[of _ "t ''a'' ''bc''"])
       (simp add: t_def s_def transaction_hash_def)
qed

end
