(* ===== verification/Safeflow.thy ===== *)
theory Safeflow
  imports Safeflow_Wal "HOL-Library.List_Lexorder" "HOL-Library.Char_ord"
begin

text \<open>
  The SAFEFLOW transactional executor: \<^verbatim>\<open>safeflow/executor.py\<close> and the inverse-operation registry
  \<^verbatim>\<open>safeflow/rollback.py\<close>.

  Correspondence. An operation returns its result or exception together with the state it leaves,
  since a raising operation keeps what it did before. Tools and inverse operations are parameters
  that act on an outside world \<open>'w\<close>; a tool returns an object or raises with a message, an inverse
  returns or raises. The clock is the stream \<open>ex_clock\<close>, read at successive ticks. The length limits
  of the pydantic records are kept where they can fail. Hashes have the length that SHA-256 gives.

  Results: the log stays a chain; the states and the log records agree along every sequence of
  operations, and a finished transaction stays finished; with distinct step ids an abort undoes the
  steps in reverse order with their own arguments and results and restores the world, and with
  repeated ids it does not; a step with an empty id runs its tool and is never recorded.
\<close>

section \<open>The registry of inverse operations\<close>

type_synonym 'w inverse_fn = "string \<Rightarrow> pyval \<Rightarrow> pyval \<Rightarrow> 'w \<Rightarrow> string option \<times> 'w"
type_synonym 'w tool_fn = "pyval \<Rightarrow> 'w \<Rightarrow> (string + pyval) \<times> 'w"

datatype registry_fault = InvalidName | AlreadyRegistered

definition inverse_register ::
  "string \<Rightarrow> 'w inverse_fn \<Rightarrow> (string \<rightharpoonup> 'w inverse_fn) \<Rightarrow> registry_fault + (string \<rightharpoonup> 'w inverse_fn)" where
  "inverse_register name fn reg =
     (let core = filter (\<lambda>c. c \<noteq> CHR ''_'') name
      in if name = [] \<or> core = [] \<or> \<not> list_all py_isalnum core then Inl InvalidName
         else if reg name \<noteq> None then Inl AlreadyRegistered
         else Inr (reg(name \<mapsto> fn)))"

definition inverse_get :: "(string \<rightharpoonup> 'w inverse_fn) \<Rightarrow> string \<Rightarrow> 'w inverse_fn option" where
  "inverse_get reg name = reg name"

definition inverse_has :: "(string \<rightharpoonup> 'w inverse_fn) \<Rightarrow> string \<Rightarrow> bool" where
  "inverse_has reg name \<longleftrightarrow> reg name \<noteq> None"

section \<open>The executor\<close>

datatype safeflow_error = SafeflowError string | SafeflowValidationError | SafeflowWalError wal_error

record 'w executor =
  ex_txn :: transaction
  ex_wal :: wal
  ex_inverses :: "string \<rightharpoonup> 'w inverse_fn"
  ex_tools :: "string \<rightharpoonup> 'w tool_fn"
  ex_inverse_args :: "string \<rightharpoonup> (string \<times> pyval \<times> pyval)"
  ex_rollback_failures :: "string list"
  ex_clock :: "nat \<Rightarrow> nat"
  ex_ticks :: nat
  ex_world :: 'w

record txn_outcome =
  to_txn_id :: string
  to_state :: TransactionState
  to_transaction_hash :: string
  to_wal_terminal_hash :: string
  to_wal_entries :: nat
  to_rollback_failures :: "string list"
  to_failure_reason :: "string option"

type_synonym ('w, 'a) sf = "'w executor \<Rightarrow> (safeflow_error + 'a) \<times> 'w executor"

text \<open>Operations that keep their effects when they raise.\<close>

abbreviation sf_bind :: "('w, 'a) sf \<Rightarrow> ('a \<Rightarrow> ('w, 'b) sf) \<Rightarrow> ('w, 'b) sf" where
  "sf_bind \<equiv> eff_bind"

abbreviation sf_return :: "'a \<Rightarrow> ('w, 'a) sf" where
  "sf_return \<equiv> eff_return"

abbreviation sf_raise :: "safeflow_error \<Rightarrow> ('w, 'a) sf" where
  "sf_raise \<equiv> eff_raise"

abbreviation sf_modify :: "('w executor \<Rightarrow> 'w executor) \<Rightarrow> ('w, unit) sf" where
  "sf_modify \<equiv> eff_modify"

abbreviation sf_get :: "('w executor \<Rightarrow> 'a) \<Rightarrow> ('w, 'a) sf" where
  "sf_get \<equiv> eff_get"

lemmas sf_defs = eff_defs

definition now_ms :: "('w, nat) sf" where
  "now_ms = (\<lambda>ex. (Inr (ex_clock ex (ex_ticks ex)), ex\<lparr>ex_ticks := Suc (ex_ticks ex)\<rparr>))"

definition max_len :: "nat \<Rightarrow> string option \<Rightarrow> bool" where
  "max_len n v = (case v of None \<Rightarrow> True | Some s \<Rightarrow> length s \<le> n)"

text \<open>
  \<^verbatim>\<open>json.dumps(x, sort_keys=True, separators=(",", ":"), default=str)\<close>, all text in ASCII. A float is
  written as \<^verbatim>\<open>float.__repr__\<close> does, which is its \<^verbatim>\<open>str()\<close>, but for the infinities and NaN.
\<close>

definition json_ascii_char :: "char \<Rightarrow> string" where
  "json_ascii_char c = (if 127 \<le> code c
     then [CHR 0x5C, CHR ''u'', CHR ''0'', CHR ''0'', hex_digit (code c div 16), hex_digit (code c mod 16)]
     else json_char c)"

definition json_ascii :: "string \<Rightarrow> string" where
  "json_ascii s = CHR 0x22 # concat (map json_ascii_char s) @ [CHR 0x22]"

primrec float_json :: "pyfloat \<Rightarrow> string \<Rightarrow> string" where
  "float_json (Fin q) s = s"
| "float_json PosInf s = ''Infinity''"
| "float_json NegInf s = ''-Infinity''"
| "float_json NaN s = ''NaN''"

fun json_dumps :: "pyval \<Rightarrow> string" where
  "json_dumps VNone = ''null''"
| "json_dumps (VBool b) = (if b then ''true'' else ''false'')"
| "json_dumps (VInt i) = int_str i"
| "json_dumps (VFloat f s) = float_json f s"
| "json_dumps (VStr s) = json_ascii s"
| "json_dumps (VList xs s) = ''['' @ py_join '','' (map json_dumps xs) @ '']''"
| "json_dumps (VMap m s) = ''{'' @ py_join '','' (map (\<lambda>(k, t). json_ascii k @ '':'' @ t)
     (sort_key fst (map (\<lambda>(k, v). (k, json_dumps v)) m))) @ ''}''"
| "json_dumps (VOther s) = json_ascii s"

definition hash_args :: "(string \<Rightarrow> string) \<Rightarrow> pyval \<Rightarrow> string" where
  "hash_args sha args = sha (json_dumps args)"

definition hash_result :: "(string \<Rightarrow> string) \<Rightarrow> pyval \<Rightarrow> string" where
  "hash_result sha r = sha (json_dumps r)"

text \<open>\<^verbatim>\<open>_append_wal\<close>: build an entry that continues the log, validate it, append it.\<close>

definition append_wal :: "(string \<Rightarrow> string) \<Rightarrow> WALEntryKind \<Rightarrow> string option \<Rightarrow> string option \<Rightarrow>
    string option \<Rightarrow> string option \<Rightarrow> string option \<Rightarrow> string option \<Rightarrow> ('w, unit) sf" where
  "append_wal sha kind step_id tool args_hash result_hash inverse_op note =
     sf_bind now_ms (\<lambda>ts. sf_bind (sf_get id) (\<lambda>ex.
       let e = \<lparr>we_sequence = wal_next_sequence (ex_wal ex), we_txn_id = tx_txn_id (ex_txn ex), we_kind = kind,
                we_step_id = step_id, we_tool = tool, we_args_hash = args_hash, we_result_hash = result_hash,
                we_inverse_op = inverse_op, we_note = note, we_timestamp_ms = ts,
                we_prev_hash = wal_last_hash sha (ex_wal ex)\<rparr>
       in if \<not> (max_len 64 step_id \<and> max_len 128 tool \<and> max_len 128 inverse_op \<and> max_len 500 note)
          then sf_raise SafeflowValidationError
          else case wal_append sha e (ex_wal ex) of
                 Inl err \<Rightarrow> sf_raise (SafeflowWalError err)
               | Inr w \<Rightarrow> sf_modify (\<lambda>ex. ex\<lparr>ex_wal := w\<rparr>)))"

definition executor_init :: "string \<Rightarrow> wal \<Rightarrow> (string \<rightharpoonup> 'w inverse_fn) \<Rightarrow> (string \<rightharpoonup> 'w tool_fn) \<Rightarrow>
    (nat \<Rightarrow> nat) \<Rightarrow> 'w \<Rightarrow> safeflow_error + 'w executor" where
  "executor_init tid w invs tools clock world =
     (if tid = [] then Inl (SafeflowError ''txn_id is required'')
      else if 128 < length tid then Inl SafeflowValidationError
      else Inr \<lparr>ex_txn = \<lparr>tx_txn_id = tid, tx_state = PENDING, tx_steps = [], tx_created_at_ms = clock 0,
                          tx_completed_at_ms = None, tx_failure_reason = None\<rparr>,
                ex_wal = w, ex_inverses = invs, ex_tools = tools, ex_inverse_args = Map.empty,
                ex_rollback_failures = [], ex_clock = clock, ex_ticks = 1, ex_world = world\<rparr>)"

definition sf_begin :: "(string \<Rightarrow> string) \<Rightarrow> ('w, unit) sf" where
  "sf_begin sha = append_wal sha BEGIN None None None None None (Some ''transaction begin'')"

definition outcome :: "(string \<Rightarrow> string) \<Rightarrow> ('w, txn_outcome) sf" where
  "outcome sha = sf_bind (sf_get id) (\<lambda>ex.
     if \<not> max_len 1000 (tx_failure_reason (ex_txn ex)) then sf_raise SafeflowValidationError
     else sf_return \<lparr>to_txn_id = tx_txn_id (ex_txn ex), to_state = tx_state (ex_txn ex),
       to_transaction_hash = transaction_hash sha (ex_txn ex),
       to_wal_terminal_hash = wal_last_hash sha (ex_wal ex), to_wal_entries = wal_next_sequence (ex_wal ex),
       to_rollback_failures = ex_rollback_failures ex, to_failure_reason = tx_failure_reason (ex_txn ex)\<rparr>)"

definition set_state :: "TransactionState \<Rightarrow> nat option \<Rightarrow> string option \<Rightarrow> ('w, unit) sf" where
  "set_state st completed reason = sf_modify (\<lambda>ex. ex\<lparr>ex_txn := with_state st completed reason (ex_txn ex)\<rparr>)"

definition commit :: "(string \<Rightarrow> string) \<Rightarrow> ('w, txn_outcome) sf" where
  "commit sha = sf_bind (sf_get (\<lambda>ex. tx_state (ex_txn ex))) (\<lambda>st.
     if st \<noteq> PENDING then sf_raise (SafeflowError (''cannot commit: transaction is '' @ state_value st))
     else sf_bind now_ms (\<lambda>t. sf_bind (set_state COMMITTED (Some t) None) (\<lambda>_.
       sf_bind (append_wal sha COMMIT None None None None None (Some ''commit'')) (\<lambda>_. outcome sha))))"

text \<open>One round of \<^verbatim>\<open>_rollback\<close>: \<open>cached.get("args", {})\<close> and \<open>cached.get("result")\<close> are read from the stash.\<close>

definition call_inverse :: "'w inverse_fn \<Rightarrow> string \<Rightarrow> pyval \<Rightarrow> pyval \<Rightarrow> ('w, string option) sf" where
  "call_inverse ivf tool args result = (\<lambda>ex. let (r, w) = ivf tool args result (ex_world ex)
     in (Inr r, ex\<lparr>ex_world := w\<rparr>))"

definition add_failure :: "string \<Rightarrow> ('w, unit) sf" where
  "add_failure m = sf_modify (\<lambda>ex. ex\<lparr>ex_rollback_failures := ex_rollback_failures ex @ [m]\<rparr>)"

definition rollback_step :: "(string \<Rightarrow> string) \<Rightarrow> txn_step \<Rightarrow> ('w, unit) sf" where
  "rollback_step sha s = (case ts_inverse_op s of
       None \<Rightarrow> sf_return ()
     | Some op \<Rightarrow>
         if ts_error s \<noteq> None then sf_return ()
         else sf_bind (sf_get (\<lambda>ex. inverse_get (ex_inverses ex) op)) (\<lambda>iv. case iv of
             None \<Rightarrow> add_failure (''inverse op '' @ py_repr op @ '' disappeared mid-transaction'')
           | Some ivf \<Rightarrow>
               sf_bind (append_wal sha ROLLBACK_BEFORE (Some (ts_step_id s)) (Some (ts_tool s))
                 (Some (ts_args_hash s)) (ts_result_hash s) (Some op) (Some ''rolling back step'')) (\<lambda>_.
               sf_bind (sf_get (\<lambda>ex. ex_inverse_args ex (ts_step_id s))) (\<lambda>cached.
               sf_bind (case cached of
                   None \<Rightarrow> call_inverse ivf (ts_tool s) (VMap [] ''{}'') VNone
                 | Some (tname, args, res) \<Rightarrow> call_inverse ivf (ts_tool s) args res) (\<lambda>r.
               sf_bind (case r of
                   None \<Rightarrow> sf_return ''rollback ok''
                 | Some m \<Rightarrow> sf_bind (add_failure (''inverse '' @ py_repr op @ '' for step '' @ ts_step_id s @
                     '' raised: '' @ m)) (\<lambda>_. sf_return (''rollback error: '' @ take 300 m))) (\<lambda>note.
               append_wal sha ROLLBACK_AFTER (Some (ts_step_id s)) (Some (ts_tool s)) (Some (ts_args_hash s))
                 (ts_result_hash s) (Some op) (Some note)))))))"

fun rollback_steps :: "(string \<Rightarrow> string) \<Rightarrow> txn_step list \<Rightarrow> ('w, unit) sf" where
  "rollback_steps sha [] = sf_return ()"
| "rollback_steps sha (s # ss) = sf_bind (rollback_step sha s) (\<lambda>_. rollback_steps sha ss)"

definition rollback :: "(string \<Rightarrow> string) \<Rightarrow> ('w, unit) sf" where
  "rollback sha = sf_bind (sf_get (\<lambda>ex. tx_steps (ex_txn ex))) (\<lambda>ss. rollback_steps sha (rev ss))"

definition abort :: "(string \<Rightarrow> string) \<Rightarrow> string \<Rightarrow> ('w, txn_outcome) sf" where
  "abort sha reason = sf_bind (sf_get (\<lambda>ex. tx_state (ex_txn ex))) (\<lambda>st.
     if st = COMMITTED then sf_raise (SafeflowError ''cannot abort a committed transaction'')
     else if st = ROLLED_BACK \<or> st = FAILED then outcome sha
     else sf_bind now_ms (\<lambda>t. sf_bind (set_state FAILED (Some t) (Some reason)) (\<lambda>_.
       sf_bind (append_wal sha ABORT None None None None None (Some (''abort: '' @ take 300 reason))) (\<lambda>_.
       sf_bind (rollback sha) (\<lambda>_. sf_bind (sf_get ex_rollback_failures) (\<lambda>fs.
       sf_bind (if fs = [] then set_state ROLLED_BACK None None else sf_return ()) (\<lambda>_. outcome sha)))))))"

text \<open>Calling a tool; recording a step validates it (an empty id or tool name is refused).\<close>

definition call_tool :: "'w tool_fn \<Rightarrow> pyval \<Rightarrow> ('w, string + pyval) sf" where
  "call_tool impl args = (\<lambda>ex. let (r, w) = impl args (ex_world ex) in (Inr r, ex\<lparr>ex_world := w\<rparr>))"

definition record_step :: "string \<Rightarrow> string \<Rightarrow> string \<Rightarrow> string option \<Rightarrow> string option \<Rightarrow> nat \<Rightarrow> string option \<Rightarrow>
    ('w, unit) sf" where
  "record_step step_id tool args_hash result_hash inverse_op started err =
     sf_bind now_ms (\<lambda>t.
       if step_id = [] \<or> 64 < length step_id \<or> tool = [] \<or> 128 < length tool \<or> \<not> max_len 128 inverse_op
       then sf_raise SafeflowValidationError
       else sf_modify (\<lambda>ex. ex\<lparr>ex_txn := with_step \<lparr>ts_step_id = step_id, ts_tool = tool, ts_args_hash = args_hash,
         ts_result_hash = result_hash, ts_inverse_op = inverse_op, ts_started_at_ms = started,
         ts_completed_at_ms = Some t, ts_error = err\<rparr> (ex_txn ex)\<rparr>))"

definition step :: "(string \<Rightarrow> string) \<Rightarrow> string \<Rightarrow> string \<Rightarrow> pyval \<Rightarrow> string option \<Rightarrow> ('w, pyval) sf" where
  "step sha step_id tool args inverse_op = sf_bind (sf_get id) (\<lambda>ex.
     if tx_state (ex_txn ex) \<noteq> PENDING
     then sf_raise (SafeflowError (''cannot step: transaction is '' @ state_value (tx_state (ex_txn ex))))
     else if (case inverse_op of None \<Rightarrow> False | Some op \<Rightarrow> \<not> inverse_has (ex_inverses ex) op)
     then sf_raise (SafeflowError (''inverse op '' @ py_repr (the inverse_op) @
       '' not registered; tool cannot participate in transaction''))
     else case ex_tools ex tool of
       None \<Rightarrow> sf_raise (SafeflowError (''no impl registered for tool '' @ py_repr tool))
     | Some impl \<Rightarrow>
         (let ah = hash_args sha args in
          sf_bind now_ms (\<lambda>started.
          sf_bind (append_wal sha STEP_BEFORE (Some step_id) (Some tool) (Some ah) None inverse_op None) (\<lambda>_.
          sf_bind (call_tool impl args) (\<lambda>r. case r of
            Inl msg \<Rightarrow>
              sf_bind (record_step step_id tool ah None inverse_op started (Some (take 1000 msg))) (\<lambda>_.
              sf_bind (append_wal sha STEP_AFTER (Some step_id) (Some tool) (Some ah) None inverse_op
                (Some (''error: '' @ take 300 msg))) (\<lambda>_.
              sf_bind (abort sha (''step '' @ py_repr step_id @ '' raised: '' @ msg)) (\<lambda>_.
              sf_raise (SafeflowError msg))))
          | Inr result \<Rightarrow>
              (let rh = hash_result sha result in
               sf_bind (record_step step_id tool ah (Some rh) inverse_op started None) (\<lambda>_.
               sf_bind (if inverse_op = None then sf_return ()
                 else sf_modify (\<lambda>ex. ex\<lparr>ex_inverse_args := (ex_inverse_args ex)(step_id \<mapsto> (tool, args, result))\<rparr>)) (\<lambda>_.
               sf_bind (append_wal sha STEP_AFTER (Some step_id) (Some tool) (Some ah) (Some rh) inverse_op None) (\<lambda>_.
               sf_return result)))))))))"

definition recover :: "('w, string \<rightharpoonup> replay_state) sf" where
  "recover = sf_get (\<lambda>ex. replay (ex_wal ex))"

section \<open>Reasoning about operations\<close>

lemma sf_bind_Inr:
  "sf_bind m k ex = (Inr b, ex') \<longleftrightarrow> (\<exists>a ex1. m ex = (Inr a, ex1) \<and> k a ex1 = (Inr b, ex'))"
  by (auto simp: eff_bind_def split: prod.splits sum.splits)

lemma sf_bind_run: "m ex = (Inr a, ex1) \<Longrightarrow> sf_bind m k ex = k a ex1"
  by (simp add: eff_bind_def)

lemma sf_basic_Inr:
  "sf_return a ex = (Inr b, ex') \<longleftrightarrow> b = a \<and> ex' = ex"
  "sf_raise e ex = (Inr b, ex') \<longleftrightarrow> False"
  "sf_modify f ex = (Inr u, ex') \<longleftrightarrow> ex' = f ex"
  "sf_get g ex = (Inr c, ex') \<longleftrightarrow> c = g ex \<and> ex' = ex"
  "now_ms ex = (Inr t, ex') \<longleftrightarrow> t = ex_clock ex (ex_ticks ex) \<and> ex' = ex\<lparr>ex_ticks := Suc (ex_ticks ex)\<rparr>"
  by (auto simp: sf_defs now_ms_def)

lemmas sf_Inr = sf_bind_Inr sf_basic_Inr

section \<open>The log stays a chain\<close>

abbreviation chain_ok :: "(string \<Rightarrow> string) \<Rightarrow> 'w executor \<Rightarrow> bool" where
  "chain_ok sha ex \<equiv> wal_chained sha (ex_wal ex)"

lemma preserves_now: "preserves (chain_ok sha) now_ms"
  by (simp add: preserves_def now_ms_def)

lemma preserves_append: "preserves (chain_ok sha) (append_wal sha k a b c d e f)"
proof -
  have "wal_chained sha w'" if "wal_chained sha w" "wal_append sha en w = Inr w'" for w w' en
    using wal.append_chained[of sha w en w'] that by (simp add: wal_chained_eq)
  then show ?thesis
    by (auto simp: preserves_def append_wal_def sf_defs now_ms_def Let_def split: sum.splits)
qed

lemma preserves_calls:
  "preserves (chain_ok sha) (call_inverse iv t a r)" "preserves (chain_ok sha) (call_tool impl args)"
  by (simp_all add: preserves_def call_inverse_def call_tool_def split: prod.splits)

lemmas preserves_rules = preserves_bind preserves_basic preserves_now preserves_append preserves_calls

lemma preserves_rollback: "preserves (chain_ok sha) (rollback sha)"
proof -
  have s: "preserves (chain_ok sha) (rollback_step sha s)" for s
    unfolding rollback_step_def add_failure_def
    by (auto split: option.splits prod.splits intro!: preserves_rules)
  have "preserves (chain_ok sha) (rollback_steps sha ss)" for ss
    by (induction ss) (auto intro!: preserves_rules s)
  then show ?thesis unfolding rollback_def by (auto intro!: preserves_rules)
qed

lemma preserves_outcome: "preserves (chain_ok sha) (outcome sha)"
  unfolding outcome_def by (auto intro!: preserves_rules)

lemma preserves_commit: "preserves (chain_ok sha) (commit sha)"
  unfolding commit_def set_state_def by (auto intro!: preserves_rules preserves_outcome)

lemma preserves_abort: "preserves (chain_ok sha) (abort sha reason)"
  unfolding abort_def set_state_def
  by (auto intro!: preserves_rules preserves_outcome preserves_rollback)

lemma preserves_step: "preserves (chain_ok sha) (step sha sid tool args op)"
  unfolding step_def record_step_def Let_def
  by (auto split: option.splits sum.splits intro!: preserves_rules preserves_abort)

datatype sf_op = OpBegin | OpStep string string pyval "string option" | OpCommit | OpAbort string

text \<open>The state after one operation, whether it returned or raised.\<close>

fun apply_op :: "(string \<Rightarrow> string) \<Rightarrow> sf_op \<Rightarrow> 'w executor \<Rightarrow> 'w executor" where
  "apply_op sha OpBegin ex = snd (sf_begin sha ex)"
| "apply_op sha (OpStep sid tool args op) ex = snd (step sha sid tool args op ex)"
| "apply_op sha OpCommit ex = snd (commit sha ex)"
| "apply_op sha (OpAbort reason) ex = snd (abort sha reason ex)"

inductive sf_reachable :: "(string \<Rightarrow> string) \<Rightarrow> 'w executor \<Rightarrow> 'w executor \<Rightarrow> bool" for sha ex0 where
  start: "sf_reachable sha ex0 ex0"
| op: "sf_reachable sha ex0 ex \<Longrightarrow> sf_reachable sha ex0 (apply_op sha oper ex)"

lemma apply_op_chained: "chain_ok sha ex \<Longrightarrow> chain_ok sha (apply_op sha oper ex)"
  by (cases oper) (simp_all add: sf_begin_def preservesD[OF preserves_step] preservesD[OF preserves_commit]
      preservesD[OF preserves_abort] preservesD[OF preserves_append])

text \<open>
  The log of an executor is a hash chain at every moment: started from a chain, every sequence of
  begin, step, commit and abort, including those that raise half way, leaves a chain.
\<close>

theorem safeflow_wal_chained:
  assumes "sf_reachable sha ex0 ex" and "wal_chained sha (ex_wal ex0)"
  shows "wal_chained sha (ex_wal ex)"
  using assms by (induction rule: sf_reachable.induct) (auto intro: apply_op_chained)

section \<open>A finished transaction stays finished\<close>

lemma finished_step: "tx_state (ex_txn ex) \<noteq> PENDING \<Longrightarrow> \<exists>m. step sha sid tool args op ex = (Inl (SafeflowError m), ex)"
  by (simp add: step_def sf_defs)

lemma finished_commit: "tx_state (ex_txn ex) \<noteq> PENDING \<Longrightarrow> \<exists>m. commit sha ex = (Inl (SafeflowError m), ex)"
  by (simp add: commit_def sf_defs)

lemma finished_abort: "tx_state (ex_txn ex) \<noteq> PENDING \<Longrightarrow> snd (abort sha reason ex) = ex"
  by (cases "tx_state (ex_txn ex)") (simp_all add: abort_def outcome_def sf_defs)

text \<open>
  Once a transaction has left \<^verbatim>\<open>PENDING\<close>, no later step, commit or abort has any effect: steps and
  commits raise, a committed transaction cannot be aborted, and re-aborting changes nothing.
\<close>

theorem safeflow_finished_is_final:
  assumes "tx_state (ex_txn ex) \<noteq> PENDING"
  shows "(\<exists>m. step sha sid tool args op ex = (Inl (SafeflowError m), ex)) \<and>
    (\<exists>m. commit sha ex = (Inl (SafeflowError m), ex)) \<and>
    snd (abort sha reason ex) = ex \<and>
    (tx_state (ex_txn ex) = COMMITTED \<longrightarrow> (\<exists>m. fst (abort sha reason ex) = Inl (SafeflowError m)))"
  using finished_step[OF assms] finished_commit[OF assms] finished_abort[OF assms]
  by (auto simp: abort_def sf_defs)

section \<open>What an operation does when it succeeds\<close>

text \<open>Appending never fails for lack of continuity; it only changes the log and the clock.\<close>

lemma append_wal_ok:
  assumes "max_len 64 a" "max_len 128 b" "max_len 128 e" "max_len 500 f"
  shows "\<exists>en. append_wal sha k a b c d e f ex =
      (Inr (), ex\<lparr>ex_ticks := Suc (ex_ticks ex), ex_wal := ex_wal ex @ [en]\<rparr>) \<and> we_kind en = k \<and>
    we_txn_id en = tx_txn_id (ex_txn ex)"
  using assms
  by (simp add: append_wal_def sf_defs now_ms_def Let_def wal_append_def wal_next_sequence_def)
     (rule exI, rule conjI, rule refl, simp)

lemma append_wal_Inr:
  assumes "append_wal sha k a b c d e f ex = (Inr u, ex')"
  shows "max_len 64 a \<and> max_len 128 b \<and> max_len 128 e \<and> max_len 500 f \<and>
    (\<exists>en. ex' = ex\<lparr>ex_ticks := Suc (ex_ticks ex), ex_wal := ex_wal ex @ [en]\<rparr> \<and> we_kind en = k \<and>
       we_txn_id en = tx_txn_id (ex_txn ex))"
  using assms
  by (auto simp: append_wal_def sf_defs now_ms_def Let_def wal_append_def wal_next_sequence_def split: if_splits)

lemma step_success:
  assumes "step sha sid tool args iop ex = (Inr r, ex')"
  obtains impl s where "tx_state (ex_txn ex) = PENDING" "ex_tools ex tool = Some impl"
    "impl args (ex_world ex) = (Inr r, ex_world ex')" "\<forall>op. iop = Some op \<longrightarrow> ex_inverses ex op \<noteq> None"
    "ex_inverse_args ex' = (if iop = None then ex_inverse_args ex else (ex_inverse_args ex)(sid \<mapsto> (tool, args, r)))"
    "ex_txn ex' = with_step s (ex_txn ex)" "ts_step_id s = sid" "ts_tool s = tool"
    "ts_inverse_op s = iop" "ts_error s = None" "ex_inverses ex' = ex_inverses ex" "ex_tools ex' = ex_tools ex"
    "ex_rollback_failures ex' = ex_rollback_failures ex" "length sid \<le> 64" "length tool \<le> 128" "max_len 128 iop"
proof -
  from assms obtain impl where p: "tx_state (ex_txn ex) = PENDING" "ex_tools ex tool = Some impl"
    "\<forall>op. iop = Some op \<longrightarrow> ex_inverses ex op \<noteq> None"
    by (auto simp: step_def sf_Inr inverse_has_def Let_def split: if_splits option.splits)
  have guard: "\<not> (case iop of None \<Rightarrow> False | Some op \<Rightarrow> \<not> inverse_has (ex_inverses ex) op)"
    using p(3) by (auto simp: inverse_has_def split: option.splits)
  obtain res w where i: "impl args (ex_world ex) = (res, w)" by (cases "impl args (ex_world ex)")
  show ?thesis
  proof (cases res)
    case (Inl m)
    with assms p(1,2) guard i show ?thesis
      by (auto simp: step_def sf_Inr Let_def call_tool_def dest!: append_wal_Inr split: if_splits)
  next
    case (Inr r')
    let ?s = "\<lparr>ts_step_id = sid, ts_tool = tool, ts_args_hash = hash_args sha args,
      ts_result_hash = Some (hash_result sha r'), ts_inverse_op = iop,
      ts_started_at_ms = ex_clock ex (ex_ticks ex),
      ts_completed_at_ms = Some (ex_clock ex (Suc (Suc (ex_ticks ex)))), ts_error = None\<rparr>"
    from Inr assms p(1,2) guard i have "r = r' \<and> max_len 64 (Some sid) \<and> max_len 128 (Some tool) \<and> max_len 128 iop \<and>
        ex_world ex' = w \<and> ex_txn ex' = with_step ?s (ex_txn ex) \<and> ex_inverses ex' = ex_inverses ex \<and>
        ex_tools ex' = ex_tools ex \<and> ex_rollback_failures ex' = ex_rollback_failures ex \<and>
        ex_inverse_args ex' = (if iop = None then ex_inverse_args ex else (ex_inverse_args ex)(sid \<mapsto> (tool, args, r')))"
      by (auto simp: step_def sf_Inr Let_def call_tool_def record_step_def
          dest!: append_wal_Inr split: if_splits)
    with p i Inr show ?thesis by (intro that[of impl ?s]) (auto simp: max_len_def)
  qed
qed

section \<open>Abort restores the world\<close>

lemma rollback_step_ok:
  assumes "ts_inverse_op s = Some op" "ts_error s = None" "ex_inverses e op = Some iv"
    and "ex_inverse_args e (ts_step_id s) = Some (t, a, r)"
    and "iv (ts_tool s) a r (ex_world e) = (None, w)"
    and "length (ts_step_id s) \<le> 64" "length (ts_tool s) \<le> 128" "length op \<le> 128"
  obtains e' where "rollback_step sha s e = (Inr (), e')" "ex_world e' = w" "ex_txn e' = ex_txn e"
    "ex_inverses e' = ex_inverses e" "ex_inverse_args e' = ex_inverse_args e"
    "ex_rollback_failures e' = ex_rollback_failures e"
proof -
  obtain e1 where 1: "append_wal sha ROLLBACK_BEFORE (Some (ts_step_id s)) (Some (ts_tool s))
      (Some (ts_args_hash s)) (ts_result_hash s) (Some op) (Some ''rolling back step'') e =
      (Inr (), e\<lparr>ex_ticks := Suc (ex_ticks e), ex_wal := ex_wal e @ [e1]\<rparr>)"
    using append_wal_ok[of "Some (ts_step_id s)" "Some (ts_tool s)" "Some op" "Some ''rolling back step''"]
      assms(6-8) by (fastforce simp: max_len_def)
  let ?e2 = "e\<lparr>ex_ticks := Suc (ex_ticks e), ex_wal := ex_wal e @ [e1], ex_world := w\<rparr>"
  obtain e3 where 3: "append_wal sha ROLLBACK_AFTER (Some (ts_step_id s)) (Some (ts_tool s))
      (Some (ts_args_hash s)) (ts_result_hash s) (Some op) (Some ''rollback ok'') ?e2 =
      (Inr (), ?e2\<lparr>ex_ticks := Suc (ex_ticks ?e2), ex_wal := ex_wal ?e2 @ [e3]\<rparr>)"
    using append_wal_ok[of "Some (ts_step_id s)" "Some (ts_tool s)" "Some op" "Some ''rollback ok''"]
      assms(6-8) by (fastforce simp: max_len_def)
  show ?thesis
    using assms(1-5) 3
    by (intro that[of "?e2\<lparr>ex_ticks := Suc (ex_ticks ?e2), ex_wal := ex_wal ?e2 @ [e3]\<rparr>"])
       (simp_all add: rollback_step_def 1 eff_get_def eff_return_def eff_bind_def
         inverse_get_def call_inverse_def)
qed

text \<open>
  The steps recorded in \<open>ex\<close> can be undone back to the world \<open>w0\<close>, from every state that has the same
  world, inverse operations and stashed arguments.
\<close>

definition undoable :: "(string \<Rightarrow> string) \<Rightarrow> 'w executor \<Rightarrow> 'w \<Rightarrow> bool" where
  "undoable sha ex w0 \<longleftrightarrow> (\<forall>e. ex_world e = ex_world ex \<and> ex_inverses e = ex_inverses ex \<and>
     (\<forall>s\<in>set (tx_steps (ex_txn ex)). ex_inverse_args e (ts_step_id s) = ex_inverse_args ex (ts_step_id s)) \<longrightarrow>
     (\<exists>e'. rollback_steps sha (rev (tx_steps (ex_txn ex))) e = (Inr (), e') \<and> ex_world e' = w0 \<and>
        ex_txn e' = ex_txn e \<and> ex_rollback_failures e' = ex_rollback_failures e))"

lemma undoable_start: "tx_steps (ex_txn ex) = [] \<Longrightarrow> undoable sha ex (ex_world ex)"
  by (simp add: undoable_def eff_return_def)

text \<open>The contract of an inverse operation: it takes the world back to where the tool found it.\<close>

definition undoes :: "'w inverse_fn \<Rightarrow> string \<Rightarrow> 'w tool_fn \<Rightarrow> bool" where
  "undoes iv tool impl \<longleftrightarrow> (\<forall>args w r w'. impl args w = (Inr r, w') \<longrightarrow> iv tool args r w' = (None, w))"

text \<open>
  A step can be taken back: with an inverse operation, if that undoes the tool; without one, which is the default of \<^verbatim>\<open>step\<close>, only
  if the tool leaves the world as it is.
\<close>

definition reversible :: "'w executor \<Rightarrow> string \<Rightarrow> string option \<Rightarrow> bool" where
  "reversible ex tool iop \<longleftrightarrow> (\<forall>impl. ex_tools ex tool = Some impl \<longrightarrow> (case iop of
       None \<Rightarrow> (\<forall>args w. snd (impl args w) = w)
     | Some op \<Rightarrow> (\<forall>iv. ex_inverses ex op = Some iv \<longrightarrow> undoes iv tool impl)))"

lemma rollback_step_reversible:
  assumes st: "step sha sid tool args iop ex = (Inr r, ex')" and rev: "reversible ex tool iop"
    and s: "ex_txn ex' = with_step s (ex_txn ex)" "ts_step_id s = sid" "ts_tool s = tool" "ts_inverse_op s = iop" "ts_error s = None"
    and e: "ex_world e = ex_world ex'" "ex_inverses e = ex_inverses ex'" "ex_inverse_args e sid = ex_inverse_args ex' sid"
  obtains e' where "rollback_step sha s e = (Inr (), e')" "ex_world e' = ex_world ex" "ex_txn e' = ex_txn e"
    "ex_inverses e' = ex_inverses e" "ex_inverse_args e' = ex_inverse_args e" "ex_rollback_failures e' = ex_rollback_failures e"
proof -
  from st obtain impl where i: "ex_tools ex tool = Some impl" "impl args (ex_world ex) = (Inr r, ex_world ex')"
    "\<forall>op. iop = Some op \<longrightarrow> ex_inverses ex op \<noteq> None"
    "ex_inverse_args ex' = (if iop = None then ex_inverse_args ex else (ex_inverse_args ex)(sid \<mapsto> (tool, args, r)))"
    "ex_inverses ex' = ex_inverses ex" "length sid \<le> 64" "length tool \<le> 128" "max_len 128 iop"
    by (rule step_success)
  show ?thesis
  proof (cases iop)
    case None
    have "snd (impl args (ex_world ex)) = ex_world ex" using rev i(1) None by (simp add: reversible_def)
    then have "ex_world ex' = ex_world ex" by (simp add: i(2))
    with None s(4) e(1) show ?thesis by (intro that[of e]) (simp_all add: rollback_step_def eff_return_def)
  next
    case (Some op)
    then obtain iv where iv: "ex_inverses ex op = Some iv" using i(3) by blast
    with rev i(1,2) Some have u: "iv tool args r (ex_world ex') = (None, ex_world ex)" by (auto simp: reversible_def undoes_def)
    have c: "ex_inverses e op = Some iv" "ex_inverse_args e (ts_step_id s) = Some (tool, args, r)"
      "iv (ts_tool s) args r (ex_world e) = (None, ex_world ex)" "length (ts_step_id s) \<le> 64" "length (ts_tool s) \<le> 128" "length op \<le> 128"
      using e s i iv u Some by (auto simp: max_len_def)
    show ?thesis using rollback_step_ok[OF _ s(5) c, where sha = sha] s(4) Some that by metis
  qed
qed

lemma step_undoable:
  assumes "undoable sha ex w0" and st: "step sha sid tool args iop ex = (Inr r, ex')"
    and new: "sid \<notin> ts_step_id ` set (tx_steps (ex_txn ex))" and rev: "reversible ex tool iop"
  shows "undoable sha ex' w0"
proof -
  from st obtain s where s: "ex_inverse_args ex' = (if iop = None then ex_inverse_args ex else (ex_inverse_args ex)(sid \<mapsto> (tool, args, r)))"
    "ex_txn ex' = with_step s (ex_txn ex)" "ts_step_id s = sid" "ts_tool s = tool"
    "ts_inverse_op s = iop" "ts_error s = None" "ex_inverses ex' = ex_inverses ex"
    by (rule step_success)
  have steps: "tx_steps (ex_txn ex') = tx_steps (ex_txn ex) @ [s]" by (simp add: s(2) with_step_def)
  show ?thesis
    unfolding undoable_def steps rev_append
  proof (intro allI impI)
    fix e :: "'a executor"
    assume e: "ex_world e = ex_world ex' \<and> ex_inverses e = ex_inverses ex' \<and>
      (\<forall>x\<in>set (tx_steps (ex_txn ex) @ [s]). ex_inverse_args e (ts_step_id x) = ex_inverse_args ex' (ts_step_id x))"
    then have c: "ex_world e = ex_world ex'" "ex_inverses e = ex_inverses ex'" "ex_inverse_args e sid = ex_inverse_args ex' sid"
      using s(3) by auto
    obtain e1 where e1: "rollback_step sha s e = (Inr (), e1)" "ex_world e1 = ex_world ex" "ex_txn e1 = ex_txn e"
      "ex_inverses e1 = ex_inverses e" "ex_inverse_args e1 = ex_inverse_args e"
      "ex_rollback_failures e1 = ex_rollback_failures e" by (rule rollback_step_reversible[OF st rev s(2-6) c])
    have "ex_inverse_args e1 (ts_step_id x) = ex_inverse_args ex (ts_step_id x)" if "x \<in> set (tx_steps (ex_txn ex))" for x
      using that e e1(5) s(1) new by auto
    with assms(1) e e1 s(7) obtain e' where "rollback_steps sha (rev (tx_steps (ex_txn ex))) e1 = (Inr (), e')"
      "ex_world e' = w0" "ex_txn e' = ex_txn e1" "ex_rollback_failures e' = ex_rollback_failures e1"
      unfolding undoable_def by metis
    with e1 show "\<exists>e'. rollback_steps sha (rev [s] @ rev (tx_steps (ex_txn ex))) e = (Inr (), e') \<and>
        ex_world e' = w0 \<and> ex_txn e' = ex_txn e \<and> ex_rollback_failures e' = ex_rollback_failures e"
      by (auto simp: sf_bind_run)
  qed
qed

lemma abort_undoable:
  assumes "undoable sha ex w0" and "tx_state (ex_txn ex) = PENDING" and "ex_rollback_failures ex = []"
    and "length reason \<le> 1000"
  shows "\<exists>out ex'. abort sha reason ex = (Inr out, ex') \<and> ex_world ex' = w0 \<and>
    tx_state (ex_txn ex') = ROLLED_BACK \<and> to_state out = ROLLED_BACK \<and> to_rollback_failures out = []"
proof -
  define e1 where "e1 = ex\<lparr>ex_ticks := Suc (ex_ticks ex),
    ex_txn := with_state FAILED (Some (ex_clock ex (ex_ticks ex))) (Some reason) (ex_txn ex)\<rparr>"
  have l: "max_len 500 (Some (''abort: '' @ take 300 reason))"
    by (simp add: max_len_def min.coboundedI2)
  have n: "max_len k None" for k by (simp add: max_len_def)
  obtain en where ap: "append_wal sha ABORT None None None None None (Some (''abort: '' @ take 300 reason)) e1 =
      (Inr (), e1\<lparr>ex_ticks := Suc (ex_ticks e1), ex_wal := ex_wal e1 @ [en]\<rparr>)"
    using append_wal_ok[OF n n n l, of sha ABORT None None e1] by blast
  let ?e2 = "e1\<lparr>ex_ticks := Suc (ex_ticks e1), ex_wal := ex_wal e1 @ [en]\<rparr>"
  have t: "ex_txn ?e2 = with_state FAILED (Some (ex_clock ex (ex_ticks ex))) (Some reason) (ex_txn ex)"
    "tx_steps (ex_txn ?e2) = tx_steps (ex_txn ex)"
    by (simp_all add: e1_def with_state_def)
  from assms(1) obtain e3 where r: "rollback_steps sha (rev (tx_steps (ex_txn ex))) ?e2 = (Inr (), e3)"
    "ex_world e3 = w0" "ex_txn e3 = ex_txn ?e2" "ex_rollback_failures e3 = ex_rollback_failures ?e2"
    unfolding undoable_def by (auto simp: e1_def dest!: spec[of _ ?e2])
  have f: "ex_rollback_failures e3 = []" using r(4) assms(3) by (simp add: e1_def)
  let ?e4 = "e3\<lparr>ex_txn := with_state ROLLED_BACK None None (ex_txn e3)\<rparr>"
  have o: "max_len 1000 (tx_failure_reason (ex_txn ?e4))" "tx_state (ex_txn ?e4) = ROLLED_BACK"
    "ex_rollback_failures ?e4 = []" "ex_world ?e4 = w0"
    using r(2,3) f assms(4) unfolding t(1) by (simp_all add: with_state_def max_len_def)
  have "set_state FAILED (Some (ex_clock ex (ex_ticks ex))) (Some reason)
      (ex\<lparr>ex_ticks := Suc (ex_ticks ex)\<rparr>) = (Inr (), e1)"
    by (simp add: set_state_def eff_modify_def e1_def)
  moreover have "rollback sha ?e2 = (Inr (), e3)"
    using r(1) t(2) by (simp add: rollback_def eff_get_def eff_bind_def)
  moreover have "set_state ROLLED_BACK None None e3 = (Inr (), ?e4)"
    by (simp add: set_state_def eff_modify_def)
  ultimately have "abort sha reason ex = outcome sha ?e4"
    using assms(2) f ap by (simp add: abort_def eff_bind_def eff_get_def now_ms_def)
  then show ?thesis using o by (auto simp: outcome_def eff_bind_def eff_get_def eff_return_def)
qed

text \<open>A sequence of steps, stopping at the first that raises.\<close>

fun run_steps :: "(string \<Rightarrow> string) \<Rightarrow> (string \<times> string \<times> pyval \<times> string option) list \<Rightarrow> ('w, unit) sf" where
  "run_steps sha [] = sf_return ()"
| "run_steps sha ((sid, tool, args, iop) # xs) =
     sf_bind (step sha sid tool args iop) (\<lambda>_. run_steps sha xs)"

lemma run_steps_undoable:
  assumes "run_steps sha xs ex = (Inr (), ex')" and "undoable sha ex w0" and "tx_state (ex_txn ex) = PENDING"
    and "distinct (map fst xs)" and "fst ` set xs \<inter> ts_step_id ` set (tx_steps (ex_txn ex)) = {}"
    and "\<forall>(sid, tool, args, iop)\<in>set xs. reversible ex tool iop"
  shows "undoable sha ex' w0 \<and> tx_state (ex_txn ex') = PENDING \<and>
    ex_rollback_failures ex' = ex_rollback_failures ex"
  using assms
proof (induction xs arbitrary: ex)
  case Nil
  then show ?case by (simp add: eff_return_def)
next
  case (Cons x xs)
  obtain sid tool args iop where x: "x = (sid, tool, args, iop)" by (cases x)
  from Cons.prems(1) obtain r ex1 where st: "step sha sid tool args iop ex = (Inr r, ex1)"
    and rest: "run_steps sha xs ex1 = (Inr (), ex')" by (auto simp: x sf_bind_Inr)
  from st obtain impl s where s: "ex_txn ex1 = with_step s (ex_txn ex)" "ts_step_id s = sid"
    "ex_inverses ex1 = ex_inverses ex" "ex_tools ex1 = ex_tools ex"
    "ex_rollback_failures ex1 = ex_rollback_failures ex" by (rule step_success)
  have same: "reversible ex1 = reversible ex" unfolding fun_eq_iff reversible_def s(3,4) by simp
  have "reversible ex tool iop" using Cons.prems(6) by (auto simp: x)
  moreover have "sid \<notin> ts_step_id ` set (tx_steps (ex_txn ex))" using Cons.prems(5) by (auto simp: x)
  ultimately have "undoable sha ex1 w0" by (intro step_undoable[OF Cons.prems(2) st])
  moreover have "fst ` set xs \<inter> ts_step_id ` set (tx_steps (ex_txn ex1)) = {}"
    using Cons.prems(4,5) s(1,2) by (auto simp: x with_step_def)
  moreover have "\<forall>(sid, tool, args, iop)\<in>set xs. reversible ex1 tool iop"
    using Cons.prems(6) same by simp
  ultimately have "undoable sha ex' w0 \<and> tx_state (ex_txn ex') = PENDING \<and>
      ex_rollback_failures ex' = ex_rollback_failures ex1"
    using Cons.prems(3,4) rest s
    by (intro Cons.IH) (auto simp: x with_step_def)
  with s(5) show ?case by simp
qed

text \<open>
  (C6) Abort restores the world. In a fresh transaction, after any sequence of successful steps with distinct ids, each of which either
  names an inverse operation that undoes its tool or names none and has a tool without effect on the world, \<^verbatim>\<open>abort\<close> with a
  reason of at most 1000 characters returns, the outside world is what it was before the first step, the state is
  \<^verbatim>\<open>ROLLED_BACK\<close> and no failure is reported.
\<close>

theorem safeflow_abort_restores_world:
  assumes "run_steps sha xs ex = (Inr (), ex')" and "tx_state (ex_txn ex) = PENDING"
    and "tx_steps (ex_txn ex) = []" and "ex_rollback_failures ex = []" and "distinct (map fst xs)"
    and "\<forall>(sid, tool, args, iop)\<in>set xs. reversible ex tool iop"
    and "length reason \<le> 1000"
  shows "\<exists>out ex''. abort sha reason ex' = (Inr out, ex'') \<and> ex_world ex'' = ex_world ex \<and>
    tx_state (ex_txn ex'') = ROLLED_BACK \<and> to_state out = ROLLED_BACK \<and> to_rollback_failures out = []"
proof -
  have "undoable sha ex' (ex_world ex) \<and> tx_state (ex_txn ex') = PENDING \<and>
      ex_rollback_failures ex' = ex_rollback_failures ex"
    using assms(3) by (intro run_steps_undoable[OF assms(1) undoable_start[OF assms(3)] assms(2,5) _ assms(6)]) auto
  then show ?thesis using abort_undoable assms(4,7) by metis
qed

text \<open>
  A step without an inverse is not taken back: abort leaves the world that the tool left and still reports \<^verbatim>\<open>ROLLED_BACK\<close> without
  any failure.
\<close>

lemma abort_keeps_uninvertible_step:
  assumes "step sha sid tool args None ex = (Inr r, ex')" and "tx_steps (ex_txn ex) = []" and "ex_rollback_failures ex = []"
    and "length reason \<le> 1000"
  shows "\<exists>out ex''. abort sha reason ex' = (Inr out, ex'') \<and> ex_world ex'' = ex_world ex' \<and> to_state out = ROLLED_BACK
    \<and> to_rollback_failures out = []"
proof -
  from assms(1) obtain s where s: "tx_state (ex_txn ex) = PENDING" "ex_txn ex' = with_step s (ex_txn ex)" "ts_inverse_op s = None"
    "ex_rollback_failures ex' = ex_rollback_failures ex" by (rule step_success)
  have "undoable sha ex' (ex_world ex')"
    using s assms(2) by (simp add: undoable_def with_step_def rollback_step_def eff_return_def eff_bind_def)
  then show ?thesis using abort_undoable[of sha ex' "ex_world ex'" reason] s assms(3,4) by (auto simp: with_step_def)
qed

text \<open>A counter: the tool adds \<^verbatim>\<open>n\<close> and its inverse subtracts it again.\<close>

definition add_tool :: "int tool_fn" where
  "add_tool args w = (case args of VInt n \<Rightarrow> (Inr (VInt (w + n)), w + n) | _ \<Rightarrow> (Inl ''bad argument'', w))"

definition sub_inverse :: "int inverse_fn" where
  "sub_inverse tool args r w = (case args of VInt n \<Rightarrow> (None, w - n) | _ \<Rightarrow> (Some ''bad argument'', w))"

text \<open>Reading the counter, without an inverse.\<close>

definition get_tool :: "int tool_fn" where
  "get_tool args w = (Inr (VInt w), w)"

definition counter :: "int executor" where
  "counter = \<lparr>ex_txn = \<lparr>tx_txn_id = ''t'', tx_state = PENDING, tx_steps = [], tx_created_at_ms = 0,
      tx_completed_at_ms = None, tx_failure_reason = None\<rparr>,
    ex_wal = [], ex_inverses = [''sub'' \<mapsto> sub_inverse], ex_tools = [''add'' \<mapsto> add_tool, ''get'' \<mapsto> get_tool],
    ex_inverse_args = Map.empty, ex_rollback_failures = [], ex_clock = id, ex_ticks = 1, ex_world = 0\<rparr>"

lemma counter_undoes: "undoes sub_inverse tool add_tool"
  by (auto simp: undoes_def add_tool_def sub_inverse_def split: pyval.splits)

lemma counter_init:
  "executor_init ''t'' [] [''sub'' \<mapsto> sub_inverse] [''add'' \<mapsto> add_tool, ''get'' \<mapsto> get_tool] id 0 = Inr counter"
  by (simp add: executor_init_def counter_def)

definition add_one :: "string \<Rightarrow> int \<Rightarrow> string \<times> string \<times> pyval \<times> string option" where
  "add_one sid n = (sid, ''add'', VInt n, Some ''sub'')"

lemmas counter_simps = counter_def add_one_def step_def record_step_def sf_defs now_ms_def append_wal_def
  wal_append_def wal_next_sequence_def wal_last_hash_def genesis_hash_def max_len_def Let_def inverse_has_def call_tool_def add_tool_def
  get_tool_def with_step_def

definition counter_steps :: "(string \<times> string \<times> pyval \<times> string option) list" where
  "counter_steps = [add_one ''a'' 2, (''g'', ''get'', VNone, None), add_one ''b'' 5]"

theorem safeflow_abort_restores_world_witness:
  "\<exists>ex' out ex''. run_steps (\<lambda>_. ''h'') counter_steps counter = (Inr (), ex') \<and> ex_world ex' = 7 \<and>
     abort (\<lambda>_. ''h'') ''stop'' ex' = (Inr out, ex'') \<and> ex_world ex'' = 0 \<and> to_state out = ROLLED_BACK"
proof -
  obtain ex' where r: "run_steps (\<lambda>_. ''h'') counter_steps counter = (Inr (), ex')" and w: "ex_world ex' = 7"
    by (simp add: counter_steps_def counter_simps)
  have "\<exists>out ex''. abort (\<lambda>_. ''h'') ''stop'' ex' = (Inr out, ex'') \<and> ex_world ex'' = ex_world counter \<and>
      tx_state (ex_txn ex'') = ROLLED_BACK \<and> to_state out = ROLLED_BACK \<and> to_rollback_failures out = []"
    by (rule safeflow_abort_restores_world[OF r])
       (auto simp: counter_steps_def counter_def add_one_def counter_undoes reversible_def get_tool_def)
  with r w show ?thesis by (auto simp: counter_def)
qed

theorem safeflow_wal_chained_witness:
  "wal_chained (\<lambda>_. ''h'') (ex_wal (apply_op (\<lambda>_. ''h'') OpCommit (apply_op (\<lambda>_. ''h'') OpBegin counter)))"
  using safeflow_wal_chained[OF sf_reachable.op[OF sf_reachable.op[OF sf_reachable.start]], of "\<lambda>_. ''h''" counter OpCommit OpBegin]
  by (simp add: wal_chained_def counter_def)

theorem safeflow_finished_is_final_witness:
  "let ex = apply_op (\<lambda>_. ''h'') OpCommit counter in tx_state (ex_txn ex) = COMMITTED \<and>
     snd (abort (\<lambda>_. ''h'') ''late'' ex) = ex"
proof -
  have "tx_state (ex_txn (apply_op (\<lambda>_. ''h'') OpCommit counter)) = COMMITTED"
    by (simp add: commit_def set_state_def with_state_def outcome_def counter_simps)
  with safeflow_finished_is_final[where ex = "apply_op (\<lambda>_. ''h'') OpCommit counter" and sha = "\<lambda>_. ''h''" and reason = "''late''"]
  show ?thesis by (simp add: Let_def)
qed

section \<open>Recovery from the log\<close>

text \<open>The states that \<^verbatim>\<open>replay\<close> may report for a transaction in a given state.\<close>

fun recovers :: "TransactionState \<Rightarrow> replay_state \<Rightarrow> bool" where
  "recovers PENDING r = (r = RPending)"
| "recovers COMMITTED r = (r = RCommitted)"
| "recovers ROLLED_BACK r = (r = RAborted \<or> r = RRollingBack)"
| "recovers FAILED r = (r = RAborted \<or> r = RRollingBack)"

definition logged :: "'w executor \<Rightarrow> replay_state option" where
  "logged ex = replay (ex_wal ex) (tx_txn_id (ex_txn ex))"

definition agrees :: "'w executor \<Rightarrow> bool" where
  "agrees ex \<longleftrightarrow> (\<exists>r. logged ex = Some r \<and> recovers (tx_state (ex_txn ex)) r)"

text \<open>Once the abort is logged, only rollback records follow.\<close>

definition undoing :: "'w executor \<Rightarrow> bool" where
  "undoing ex \<longleftrightarrow> (logged ex = Some RAborted \<or> logged ex = Some RRollingBack) \<and>
     (tx_state (ex_txn ex) = FAILED \<or> tx_state (ex_txn ex) = ROLLED_BACK)"

lemma undoing_agrees: "undoing ex \<Longrightarrow> agrees ex"
  by (auto simp: undoing_def agrees_def)


text \<open>What a record of each kind makes \<^verbatim>\<open>replay\<close> report for its transaction.\<close>

fun kind_logs :: "WALEntryKind \<Rightarrow> replay_state option \<Rightarrow> replay_state option" where
  "kind_logs BEGIN r = Some RPending"
| "kind_logs COMMIT r = Some RCommitted"
| "kind_logs ABORT r = Some RAborted"
| "kind_logs ROLLBACK_BEFORE r = Some RRollingBack"
| "kind_logs ROLLBACK_AFTER r = Some RRollingBack"
| "kind_logs STEP_BEFORE r = r"
| "kind_logs STEP_AFTER r = r"

lemma replay_snoc: "replay (lg @ [en]) (we_txn_id en) = kind_logs (we_kind en) (replay lg (we_txn_id en))"
  by (cases "we_kind en") (simp_all add: replay_def replay_step_def)

lemma append_wal_appends:
  "snd (append_wal sha k a b c d e f ex) = ex\<lparr>ex_ticks := Suc (ex_ticks ex)\<rparr> \<or>
   (\<exists>en. snd (append_wal sha k a b c d e f ex) = ex\<lparr>ex_ticks := Suc (ex_ticks ex), ex_wal := ex_wal ex @ [en]\<rparr> \<and>
      we_kind en = k \<and> we_txn_id en = tx_txn_id (ex_txn ex))"
proof (cases "max_len 64 a \<and> max_len 128 b \<and> max_len 128 e \<and> max_len 500 f")
  case True
  then have "\<exists>en. append_wal sha k a b c d e f ex =
      (Inr (), ex\<lparr>ex_ticks := Suc (ex_ticks ex), ex_wal := ex_wal ex @ [en]\<rparr>) \<and> we_kind en = k \<and>
    we_txn_id en = tx_txn_id (ex_txn ex)" by (intro append_wal_ok) auto
  then show ?thesis by (metis snd_conv)
next
  case False
  then have "snd (append_wal sha k a b c d e f ex) = ex\<lparr>ex_ticks := Suc (ex_ticks ex)\<rparr>"
    by (auto simp: append_wal_def sf_defs now_ms_def Let_def)
  then show ?thesis ..
qed

lemma append_wal_logs:
  "ex_txn (snd (append_wal sha k a b c d e f ex)) = ex_txn ex \<and>
   (logged (snd (append_wal sha k a b c d e f ex)) = logged ex \<or>
    logged (snd (append_wal sha k a b c d e f ex)) = kind_logs k (logged ex))"
proof -
  have "logged (ex\<lparr>ex_ticks := n, ex_wal := ex_wal ex @ [en]\<rparr>) = kind_logs (we_kind en) (logged ex)"
    if "we_txn_id en = tx_txn_id (ex_txn ex)" for n en
    using replay_snoc[of "ex_wal ex" en] that by (simp add: logged_def)
  moreover have "logged (ex\<lparr>ex_ticks := n\<rparr>) = logged ex" for n by (simp add: logged_def)
  ultimately show ?thesis
    using append_wal_appends[of sha k a b c d e f ex] by auto
qed

lemma undoing_append:
  "k = ROLLBACK_BEFORE \<or> k = ROLLBACK_AFTER \<Longrightarrow> preserves undoing (append_wal sha k a b c d e f)"
  unfolding preserves_def undoing_def using append_wal_logs by (metis kind_logs.simps(4,5))

lemma agrees_append:
  "k = STEP_BEFORE \<or> k = STEP_AFTER \<Longrightarrow> preserves agrees (append_wal sha k a b c d e f)"
  unfolding preserves_def agrees_def using append_wal_logs by (metis kind_logs.simps(6,7))

lemma undoing_rollback: "preserves undoing (rollback sha)"
proof -
  have c: "preserves undoing (call_inverse iv t a r)" for iv :: "'w inverse_fn" and t a r
    by (simp add: preserves_def undoing_def logged_def call_inverse_def split: prod.splits)
  have f: "preserves undoing (add_failure m)" for m
    by (simp add: preserves_def undoing_def logged_def add_failure_def eff_modify_def)
  have s: "preserves undoing (rollback_step sha s)" for s :: txn_step
    unfolding rollback_step_def
    by (auto split: option.splits prod.splits intro!: preserves_bind preserves_basic(1-3) undoing_append c f)
  have "preserves undoing (rollback_steps sha ss)" for ss :: "txn_step list"
    by (induction ss) (auto intro!: preserves_bind preserves_basic(1-3) s)
  then show ?thesis unfolding rollback_def by (auto intro!: preserves_bind preserves_basic(1-3))
qed

lemma outcome_state: "snd (outcome sha ex) = ex"
  by (simp add: outcome_def sf_defs)

lemma snd_bind: "snd (sf_bind m k ex) = (case m ex of (Inl e, ex1) \<Rightarrow> ex1 | (Inr a, ex1) \<Rightarrow> snd (k a ex1))"
  by (simp add: eff_bind_def split: prod.splits sum.splits)

lemma agrees_commit: "preserves agrees (commit sha)"
  unfolding preserves_def
proof (intro allI impI)
  fix ex :: "'w executor"
  assume a: "agrees ex"
  show "agrees (snd (commit sha ex))"
  proof (cases "tx_state (ex_txn ex) = PENDING")
    case True
    let ?e = "ex\<lparr>ex_ticks := Suc (ex_ticks ex),
      ex_txn := with_state COMMITTED (Some (ex_clock ex (ex_ticks ex))) None (ex_txn ex)\<rparr>"
    obtain en where ap: "append_wal sha COMMIT None None None None None (Some ''commit'') ?e =
        (Inr (), ?e\<lparr>ex_ticks := Suc (ex_ticks ?e), ex_wal := ex_wal ?e @ [en]\<rparr>)"
      and en: "we_kind en = COMMIT" "we_txn_id en = tx_txn_id (ex_txn ?e)"
      using append_wal_ok[of None None None "Some ''commit''" sha COMMIT None None ?e] by (auto simp: max_len_def)
    have "snd (commit sha ex) = ?e\<lparr>ex_ticks := Suc (ex_ticks ?e), ex_wal := ex_wal ?e @ [en]\<rparr>"
      using True ap by (simp add: commit_def snd_bind eff_get_def now_ms_def set_state_def eff_modify_def outcome_state)
    moreover have "replay (ex_wal ex @ [en]) (tx_txn_id (ex_txn ex)) = Some RCommitted"
      using replay_snoc[of "ex_wal ex" en] en by (simp add: with_state_def)
    ultimately show ?thesis by (simp add: agrees_def logged_def with_state_def)
  qed (use finished_commit[of ex sha] a in auto)
qed

lemma agrees_abort: "preserves agrees (abort sha reason)"
  unfolding preserves_def
proof (intro allI impI)
  fix ex :: "'w executor"
  assume a: "agrees ex"
  show "agrees (snd (abort sha reason ex))"
  proof (cases "tx_state (ex_txn ex) = PENDING")
    case True
    let ?e = "ex\<lparr>ex_ticks := Suc (ex_ticks ex),
      ex_txn := with_state FAILED (Some (ex_clock ex (ex_ticks ex))) (Some reason) (ex_txn ex)\<rparr>"
    obtain en where ap: "append_wal sha ABORT None None None None None (Some (''abort: '' @ take 300 reason)) ?e =
        (Inr (), ?e\<lparr>ex_ticks := Suc (ex_ticks ?e), ex_wal := ex_wal ?e @ [en]\<rparr>)"
      and en: "we_kind en = ABORT" "we_txn_id en = tx_txn_id (ex_txn ?e)"
      using append_wal_ok[of None None None "Some (''abort: '' @ take 300 reason)" sha ABORT None None ?e]
      by (auto simp: max_len_def min.coboundedI2)
    define k :: "unit \<Rightarrow> ('w, txn_outcome) sf" where "k = (\<lambda>_. sf_bind (rollback sha) (\<lambda>_. sf_bind (sf_get ex_rollback_failures) (\<lambda>fs.
       sf_bind (if fs = [] then set_state ROLLED_BACK None None else sf_return ()) (\<lambda>_. outcome sha))))"
    have "preserves undoing (set_state ROLLED_BACK None None)"
      by (simp add: preserves_def undoing_def logged_def set_state_def eff_modify_def with_state_def)
    then have k: "preserves undoing (k u)" for u
      unfolding k_def by (auto intro!: preserves_bind preserves_basic(1-3) undoing_rollback
          simp: preserves_def[of _ "outcome sha"] outcome_state)
    have e: "snd (abort sha reason ex) = snd (k () (?e\<lparr>ex_ticks := Suc (ex_ticks ?e), ex_wal := ex_wal ?e @ [en]\<rparr>))"
      using True ap by (simp add: abort_def k_def snd_bind eff_get_def now_ms_def set_state_def eff_modify_def)
    have "undoing (?e\<lparr>ex_ticks := Suc (ex_ticks ?e), ex_wal := ex_wal ?e @ [en]\<rparr>)"
      using replay_snoc[of "ex_wal ex" en] en by (simp add: undoing_def logged_def with_state_def)
    then show ?thesis unfolding e by (intro undoing_agrees preservesD[OF k])
  qed (use finished_abort[of ex sha reason] a in auto)
qed

lemma agrees_step: "preserves agrees (step sha sid tool args op)"
proof -
  have n: "preserves agrees now_ms" by (simp add: preserves_def agrees_def logged_def now_ms_def)
  have c: "preserves agrees (call_tool impl args)" for impl :: "'w tool_fn"
    by (simp add: preserves_def agrees_def logged_def call_tool_def split: prod.splits)
  have w: "preserves agrees (sf_modify (\<lambda>ex. ex\<lparr>ex_txn := with_step s (ex_txn ex)\<rparr>))" for s
    by (simp add: preserves_def agrees_def logged_def eff_modify_def with_step_def)
  have i: "preserves agrees (sf_modify (\<lambda>ex. ex\<lparr>ex_inverse_args := g (ex_inverse_args ex)\<rparr>))" for g
    by (simp add: preserves_def agrees_def logged_def eff_modify_def)
  have r: "preserves agrees (record_step sid' tool' ah rh op' started err :: ('w, unit) sf)" for sid' tool' ah rh op' started err
    unfolding record_step_def by (intro preserves_bind n preserves_if preserves_basic(2) w)
  have o: "preserves agrees (case v of None \<Rightarrow> m | Some x \<Rightarrow> f x)" if "preserves agrees m" "\<And>x. preserves agrees (f x)"
    for v :: "'b option" and m :: "('w, 'c) sf" and f
    using that by (cases v) auto
  have s: "preserves agrees (case v of Inl x \<Rightarrow> g x | Inr y \<Rightarrow> f y)" if "\<And>x. preserves agrees (g x)" "\<And>x. preserves agrees (f x)"
    for v :: "'b + 'd" and g f :: "_ \<Rightarrow> ('w, 'c) sf"
    using that by (cases v) auto
  show ?thesis
    unfolding step_def Let_def
    by (intro preserves_bind preserves_if preserves_basic(1-3) o s n c r i agrees_append agrees_abort) simp_all
qed

lemma agrees_op: "agrees ex \<Longrightarrow> OpBegin \<noteq> oper \<Longrightarrow> agrees (apply_op sha oper ex)"
  by (cases oper) (simp_all add: preservesD[OF agrees_step] preservesD[OF agrees_commit] preservesD[OF agrees_abort])

lemma agrees_begin:
  assumes "tx_state (ex_txn ex) = PENDING" shows "agrees (apply_op sha OpBegin ex)"
proof -
  obtain en where ap: "sf_begin sha ex = (Inr (), ex\<lparr>ex_ticks := Suc (ex_ticks ex), ex_wal := ex_wal ex @ [en]\<rparr>)"
    and en: "we_kind en = BEGIN" "we_txn_id en = tx_txn_id (ex_txn ex)"
    using append_wal_ok[of None None None "Some ''transaction begin''" sha BEGIN None None ex]
    unfolding sf_begin_def by (auto simp: max_len_def)
  from assms ap show ?thesis
    using replay_snoc[of "ex_wal ex" en] en by (simp add: agrees_def logged_def)
qed

lemma agrees_ops: "agrees ex \<Longrightarrow> OpBegin \<notin> set ops \<Longrightarrow> agrees (fold (apply_op sha) ops ex)"
  by (induction ops arbitrary: ex) (simp_all add: agrees_op)

text \<open>
  (C9) Recovery refines the executor. After \<^verbatim>\<open>begin\<close> on a new executor, over any log, and then any
  sequence of steps, commits and aborts, including those that raise, what \<^verbatim>\<open>recover\<close> reads from the log
  for the transaction is the state the executor is in: pending, committed, or aborted (possibly with
  records of the rollback after the abort).
\<close>

theorem safeflow_recovery_refines_state:
  assumes "executor_init tid lg invs tools clock world = Inr ex0" and "OpBegin \<notin> set ops"
  shows "let ex = fold (apply_op sha) ops (apply_op sha OpBegin ex0) in
    \<exists>m r. recover ex = (Inr m, ex) \<and> m (tx_txn_id (ex_txn ex)) = Some r \<and> recovers (tx_state (ex_txn ex)) r"
proof -
  have "tx_state (ex_txn ex0) = PENDING" using assms(1) by (auto simp: executor_init_def split: if_splits)
  then have "agrees (fold (apply_op sha) ops (apply_op sha OpBegin ex0))"
    by (intro agrees_ops agrees_begin assms(2))
  then show ?thesis by (simp add: agrees_def logged_def recover_def eff_get_def Let_def)
qed

theorem safeflow_recovery_refines_state_witness:
  "let ex = fold (apply_op (\<lambda>_. ''h'')) [OpStep ''a'' ''add'' (VInt 2) (Some ''sub''), OpCommit]
       (apply_op (\<lambda>_. ''h'') OpBegin counter) in
    \<exists>m r. recover ex = (Inr m, ex) \<and> m (tx_txn_id (ex_txn ex)) = Some r \<and> recovers (tx_state (ex_txn ex)) r"
  by (rule safeflow_recovery_refines_state[OF counter_init]) simp

section \<open>Where the transaction is not undone\<close>

text \<open>
  With a repeated step id the stash is overwritten, so the inverse of the earlier step is called
  with the arguments of the later one: adding 2 and then 5 under one id and aborting leaves the
  counter at -3, reported as \<^verbatim>\<open>ROLLED_BACK\<close> without failures.
\<close>

theorem safeflow_duplicate_ids_not_undone:
  "\<exists>ex' out ex''. run_steps (\<lambda>_. ''h'') [add_one ''a'' 2, add_one ''a'' 5] counter = (Inr (), ex') \<and> ex_world ex' = 7 \<and>
     abort (\<lambda>_. ''h'') ''stop'' ex' = (Inr out, ex'') \<and> ex_world ex'' = -3 \<and> to_state out = ROLLED_BACK \<and>
     to_rollback_failures out = []"
  by (simp add: counter_simps abort_def set_state_def with_state_def rollback_def rollback_step_def
      inverse_get_def call_inverse_def sub_inverse_def outcome_def)

text \<open>
  A step with an empty id runs its tool and is then refused by the validation of the step record:
  the world has changed, the transaction is still \<^verbatim>\<open>PENDING\<close> without the step, and no abort will undo it.
\<close>

theorem safeflow_empty_step_id_unrecorded:
  assumes "tx_state (ex_txn ex) = PENDING" and "ex_tools ex tool = Some impl" and "impl args (ex_world ex) = (r, w)"
    and "length tool \<le> 128"
  shows "\<exists>ex'. step sha [] tool args None ex = (Inl SafeflowValidationError, ex') \<and> ex_world ex' = w \<and> ex_txn ex' = ex_txn ex"
proof -
  obtain en where ap: "append_wal sha STEP_BEFORE (Some []) (Some tool) (Some (hash_args sha args)) None None None
      (ex\<lparr>ex_ticks := Suc (ex_ticks ex)\<rparr>) =
      (Inr (), ex\<lparr>ex_ticks := Suc (Suc (ex_ticks ex)), ex_wal := ex_wal ex @ [en]\<rparr>)"
    using append_wal_ok[of "Some []" "Some tool" None None sha STEP_BEFORE "Some (hash_args sha args)" None
        "ex\<lparr>ex_ticks := Suc (ex_ticks ex)\<rparr>"] assms(4) by (auto simp: max_len_def)
  show ?thesis
    using assms(1-3) ap
    by (cases r) (simp_all add: step_def sf_defs now_ms_def Let_def call_tool_def record_step_def)
qed

theorem safeflow_empty_step_id_unrecorded_witness:
  "\<exists>ex'. step (\<lambda>_. ''h'') [] ''add'' (VInt 2) None counter = (Inl SafeflowValidationError, ex') \<and> ex_world ex' = 2 \<and>
     ex_txn ex' = ex_txn counter"
  by (rule safeflow_empty_step_id_unrecorded[where impl = add_tool and r = "Inr (VInt 2)"])
     (simp_all add: counter_def add_tool_def)

end
