(* ===== verification/Pcas_Language.thy ===== *)
theory Pcas_Language
  imports Prelude
begin

text \<open>
  The PCAS policy language: \<^verbatim>\<open>pcas/language/ast.py\<close>, \<^verbatim>\<open>pcas/language/lexer.py\<close> and
  \<^verbatim>\<open>pcas/language/parser.py\<close>.

  Correspondence. Tokens and tree nodes have no line, column and offset, which only appear in
  messages; an exception is its class. The scan position of the lexer is the rest of the source. The
  \<^verbatim>\<open>list.append\<close> of tokens is the list cell in front of the recursive call; what the lexer asks of
  \<^verbatim>\<open>out[-1]\<close> is passed along as \<open>last\<close>. The pydantic validators of \<^verbatim>\<open>Variable\<close>, \<^verbatim>\<open>Atom\<close> and \<^verbatim>\<open>Program\<close>
  raise \<open>ValidationError\<close>.
\<close>

section \<open>Abstract syntax\<close>

datatype fact_value = FStr string | FInt int | FBool bool

datatype pterm = Variable string | Constant fact_value

record atom =
  at_predicate :: string
  at_args :: "pterm list"

datatype body_element = BAtom atom | BNot atom | BHelper string "pterm list"

datatype annotation = Authorize | Deny | PlainRule

record rule =
  ru_annotation :: annotation
  ru_head :: atom
  ru_body :: "body_element list"

record program =
  pg_rules :: "rule list"
  pg_source :: "string option"

datatype pcas_error = LexerError | ParseError | ValidationError | ValueError
  | StratificationError | EvaluationError | IndexError | KeyError

definition is_anonymous :: "string \<Rightarrow> bool" where
  "is_anonymous x \<longleftrightarrow> x = ''_'' \<or> take 1 x = ''_''"

definition name_char :: "char \<Rightarrow> bool" where
  "name_char c \<longleftrightarrow> py_isalnum c \<or> c = CHR ''_''"

definition new_variable :: "string \<Rightarrow> pcas_error + pterm" where
  "new_variable x = (case x of
       [] \<Rightarrow> Inl ValidationError
     | c # _ \<Rightarrow>
         if 64 < length x \<or> (\<not> py_isupper c \<and> c \<noteq> CHR ''_'') \<or> \<not> list_all name_char x
         then Inl ValidationError else Inr (Variable x))"

definition new_atom :: "string \<Rightarrow> pterm list \<Rightarrow> pcas_error + atom" where
  "new_atom p args = (case p of
       [] \<Rightarrow> Inl ValidationError
     | c # _ \<Rightarrow>
         if 64 < length p \<or> \<not> py_islower c \<or> \<not> list_all name_char p
         then Inl ValidationError else Inr \<lparr>at_predicate = p, at_args = args\<rparr>)"

definition at_arity :: "atom \<Rightarrow> nat" where
  "at_arity a = length (at_args a)"

primrec term_vars :: "pterm \<Rightarrow> string list" where
  "term_vars (Variable x) = [x]"
| "term_vars (Constant v) = []"

definition args_vars :: "pterm list \<Rightarrow> string list" where
  "args_vars ts = concat (map term_vars ts)"

definition at_variables :: "atom \<Rightarrow> string list" where
  "at_variables a = args_vars (at_args a)"

definition is_fact :: "rule \<Rightarrow> bool" where
  "is_fact r \<longleftrightarrow> length (ru_body r) = 0"

fun positive_atoms :: "body_element list \<Rightarrow> atom list" where
  "positive_atoms [] = []"
| "positive_atoms (BAtom a # es) = a # positive_atoms es"
| "positive_atoms (_ # es) = positive_atoms es"

fun negated_atoms :: "body_element list \<Rightarrow> atom list" where
  "negated_atoms [] = []"
| "negated_atoms (BNot a # es) = a # negated_atoms es"
| "negated_atoms (_ # es) = negated_atoms es"

fun helper_calls :: "body_element list \<Rightarrow> (string \<times> pterm list) list" where
  "helper_calls [] = []"
| "helper_calls (BHelper h ts # es) = (h, ts) # helper_calls es"
| "helper_calls (_ # es) = helper_calls es"

definition body_positive_atoms :: "rule \<Rightarrow> atom list" where
  "body_positive_atoms r = positive_atoms (ru_body r)"

definition body_negated_atoms :: "rule \<Rightarrow> atom list" where
  "body_negated_atoms r = negated_atoms (ru_body r)"

definition body_helpers :: "rule \<Rightarrow> (string \<times> pterm list) list" where
  "body_helpers r = helper_calls (ru_body r)"

definition annotated_predicates :: "annotation \<Rightarrow> program \<Rightarrow> string list" where
  "annotated_predicates an p =
     remdups (map (\<lambda>r. at_predicate (ru_head r)) (filter (\<lambda>r. ru_annotation r = an) (pg_rules p)))"

section \<open>Lexer\<close>

datatype pcas_token = T_IDENT string | T_INTEGER string | T_STRING string | T_BOOL string | T_LPAREN | T_RPAREN
  | T_COMMA | T_DOT | T_COLON_DASH | T_NOT | T_AT_AUTH | T_AT_DENY | T_EOF

text \<open>The text after the end of a block comment; \<open>None\<close> when it is not terminated.\<close>

fun skip_block :: "string \<Rightarrow> string option" where
  "skip_block (c # d # r) = (if c = CHR ''*'' \<and> d = CHR ''/'' then Some r else skip_block (d # r))"
| "skip_block _ = None"

definition escape_value :: "char \<Rightarrow> char option" where
  "escape_value c = (if c = CHR 0x22 then Some c else if c = CHR 0x5C then Some c
     else if c = CHR ''n'' then Some (CHR 0x0A) else if c = CHR ''t'' then Some (CHR 0x09)
     else if c = CHR ''r'' then Some (CHR 0x0D) else None)"

text \<open>The value of a string literal and the text after its closing quote.\<close>

fun scan_string :: "string \<Rightarrow> pcas_error + (string \<times> string)" where
  "scan_string [] = Inl LexerError"
| "scan_string (c # cs) =
     (if c = CHR 0x22 then Inr ([], cs)
      else if c = CHR 0x5C then
        (case cs of
           [] \<Rightarrow> Inl LexerError
         | d # ds \<Rightarrow> (case escape_value d of
               None \<Rightarrow> Inl LexerError
             | Some e \<Rightarrow> sbind (scan_string ds) (\<lambda>(s, r). Inr (e # s, r))))
      else if c = CHR 0x0A then Inl LexerError
      else sbind (scan_string cs) (\<lambda>(s, r). Inr (c # s, r)))"

definition keyword_token :: "string \<Rightarrow> pcas_token" where
  "keyword_token w = (if w = ''not'' then T_NOT else if w = ''true'' \<or> w = ''false'' then T_BOOL w else T_IDENT w)"

definition annotation_token :: "string \<Rightarrow> pcas_token option" where
  "annotation_token w = (if w = ''@authorize'' then Some T_AT_AUTH else if w = ''@deny'' then Some T_AT_DENY else None)"

text \<open>Whether a minus sign may start an integer: \<^verbatim>\<open>not out or out[-1].kind in (LPAREN, COMMA)\<close>.\<close>

definition minus_allowed :: "pcas_token option \<Rightarrow> bool" where
  "minus_allowed prev \<longleftrightarrow> prev = None \<or> prev = Some T_LPAREN \<or> prev = Some T_COMMA"

lemma skip_block_length: "skip_block s = Some r \<Longrightarrow> length r < length s"
  by (induction s rule: skip_block.induct) (auto split: if_splits)

lemma scan_string_length: "scan_string s = Inr (v, r) \<Longrightarrow> length r < length s"
proof (induction s arbitrary: v rule: scan_string.induct)
  case (2 c cs)
  show ?case
  proof (cases "c = CHR 0x5C")
    case True
    with 2 show ?thesis by (fastforce simp: sbind_rules split: list.splits option.splits)
  next
    case False
    with 2 show ?thesis by (fastforce simp: sbind_rules split: if_splits)
  qed
qed simp

definition emit :: "pcas_token \<Rightarrow> pcas_error + pcas_token list \<Rightarrow> pcas_error + pcas_token list" where
  "emit t m = sbind m (\<lambda>ts. Inr (t # ts))"

function pcas_lex :: "pcas_token option \<Rightarrow> string \<Rightarrow> pcas_error + pcas_token list" where
  "pcas_lex prev [] = Inr [T_EOF]"
| "pcas_lex prev (c # cs) =
     (if c = CHR 0x0A \<or> c = CHR '' '' \<or> c = CHR 0x09 \<or> c = CHR 0x0D then pcas_lex prev cs
      else if c = CHR ''%'' then pcas_lex prev (dropWhile (\<lambda>x. x \<noteq> CHR 0x0A) cs)
      else if c = CHR ''/'' \<and> take 1 cs = ''*'' then
        (case skip_block (drop 1 cs) of None \<Rightarrow> Inl LexerError | Some r \<Rightarrow> pcas_lex prev r)
      else if c = CHR ''('' then emit T_LPAREN (pcas_lex (Some T_LPAREN) cs)
      else if c = CHR '')'' then emit T_RPAREN (pcas_lex (Some T_RPAREN) cs)
      else if c = CHR '','' then emit T_COMMA (pcas_lex (Some T_COMMA) cs)
      else if c = CHR ''.'' then emit T_DOT (pcas_lex (Some T_DOT) cs)
      else if c = CHR '':'' then
        (if take 1 cs = ''-'' then emit T_COLON_DASH (pcas_lex (Some T_COLON_DASH) (drop 1 cs)) else Inl LexerError)
      else if c = CHR ''@'' then
        (case annotation_token (c # takeWhile name_char cs) of
           None \<Rightarrow> Inl LexerError
         | Some t \<Rightarrow> emit t (pcas_lex (Some t) (dropWhile name_char cs)))
      else if c = CHR 0x22 then sbind (scan_string cs) (\<lambda>(v, r). emit (T_STRING v) (pcas_lex (Some (T_STRING v)) r))
      else if py_isdigit c then (let t = T_INTEGER (c # takeWhile py_isdigit cs) in emit t (pcas_lex (Some t) (dropWhile py_isdigit cs)))
      else if c = CHR ''-'' \<and> (\<exists>d\<in>set (take 1 cs). py_isdigit d) \<and> minus_allowed prev
      then (let t = T_INTEGER (c # takeWhile py_isdigit cs) in emit t (pcas_lex (Some t) (dropWhile py_isdigit cs)))
      else if py_isalpha c \<or> c = CHR ''_'' then
        (let t = keyword_token (c # takeWhile name_char cs) in emit t (pcas_lex (Some t) (dropWhile name_char cs)))
      else Inl LexerError)"
  by pat_completeness auto
termination
  by (relation "measure (\<lambda>(prev, s). length s)")
     (auto simp: less_Suc_eq_le length_dropWhile_le dest: skip_block_length scan_string_length intro: le_trans)

definition lexer_tokens :: "string \<Rightarrow> pcas_error + pcas_token list" where
  "lexer_tokens src = pcas_lex None src"

section \<open>Parser\<close>

type_synonym 'a parsed = "pcas_error + ('a \<times> pcas_token list)"

text \<open>
  The token list stands for \<^verbatim>\<open>self._tokens[self._i:]\<close>. It is never empty: the parser never consumes
  \<^verbatim>\<open>EOF\<close>.
\<close>

definition int_constant :: "string \<Rightarrow> pcas_error + int" where
  "int_constant w = (case w of
       CHR ''-'' # ds \<Rightarrow> (case py_int ds of None \<Rightarrow> Inl ValueError | Some n \<Rightarrow> Inr (- int n))
     | _ \<Rightarrow> (case py_int w of None \<Rightarrow> Inl ValueError | Some n \<Rightarrow> Inr (int n)))"

fun parse_term :: "pcas_token list \<Rightarrow> pterm parsed" where
  "parse_term (T_IDENT x # ts) = sbind (new_variable x) (\<lambda>v. Inr (v, ts))"
| "parse_term (T_STRING s # ts) = Inr (Constant (FStr s), ts)"
| "parse_term (T_INTEGER w # ts) = sbind (int_constant w) (\<lambda>n. Inr (Constant (FInt n), ts))"
| "parse_term (T_BOOL b # ts) = Inr (Constant (FBool (b = ''true'')), ts)"
| "parse_term ts = Inl ParseError"

lemma parse_term_length: "parse_term ts = Inr (t, r) \<Longrightarrow> length r < length ts"
  by (induction ts rule: parse_term.induct) (auto simp: sbind_rules)

fun pcas_accept :: "pcas_token \<Rightarrow> pcas_token list \<Rightarrow> pcas_token list option" where
  "pcas_accept k (t # ts) = (if t = k then Some ts else None)"
| "pcas_accept k [] = None"

lemma pcas_accept_Some: "pcas_accept k ts = Some r \<longleftrightarrow> ts = k # r"
  by (cases ts) auto

definition pcas_consume :: "pcas_token \<Rightarrow> pcas_token list \<Rightarrow> pcas_error + pcas_token list" where
  "pcas_consume k ts = (case pcas_accept k ts of None \<Rightarrow> Inl ParseError | Some r \<Rightarrow> Inr r)"

lemma pcas_consume_Inr: "pcas_consume k ts = Inr r \<longleftrightarrow> ts = k # r"
  by (auto simp: pcas_consume_def pcas_accept_Some split: option.splits)

text \<open>The loop over further arguments.\<close>

function parse_more_terms :: "pcas_token list \<Rightarrow> pterm list parsed" where
  "parse_more_terms ts = (case pcas_accept T_COMMA ts of
       None \<Rightarrow> Inr ([], ts)
     | Some r \<Rightarrow> sbind (parse_term r) (\<lambda>(t, r1). sbind (parse_more_terms r1) (\<lambda>(us, r2). Inr (t # us, r2))))"
  by pat_completeness auto
termination
  by (relation "measure length") (auto simp: pcas_accept_Some dest: parse_term_length)

declare parse_more_terms.simps [simp del]

definition parse_atom :: "pcas_token list \<Rightarrow> atom parsed" where
  "parse_atom ts = (case ts of
       T_IDENT p # r \<Rightarrow>
         sbind (case pcas_accept T_LPAREN r of
             None \<Rightarrow> Inr ([], r)
           | Some r1 \<Rightarrow>
               sbind (if pcas_accept T_RPAREN r1 \<noteq> None then Inr ([], r1)
                      else sbind (parse_term r1) (\<lambda>(t, r2). sbind (parse_more_terms r2) (\<lambda>(us, r3). Inr (t # us, r3))))
                 (\<lambda>(args, r4). sbind (pcas_consume T_RPAREN r4) (\<lambda>r5. Inr (args, r5))))
           (\<lambda>(args, r6). sbind (new_atom p args) (\<lambda>a. Inr (a, r6)))
     | _ \<Rightarrow> Inl ParseError)"

definition parse_body_element :: "pcas_token list \<Rightarrow> body_element parsed" where
  "parse_body_element ts = (case pcas_accept T_NOT ts of
       Some r \<Rightarrow> sbind (parse_atom r) (\<lambda>(a, r1). Inr (BNot a, r1))
     | None \<Rightarrow> sbind (parse_atom ts) (\<lambda>(a, r1). Inr (BAtom a, r1)))"

lemma parse_more_terms_length: "parse_more_terms ts = Inr (us, r) \<Longrightarrow> length r \<le> length ts"
proof (induction ts arbitrary: us rule: parse_more_terms.induct)
  case (1 ts)
  then show ?case
    by (fastforce simp: parse_more_terms.simps[of ts] sbind_rules pcas_accept_Some split: option.splits
        dest: parse_term_length)
qed

lemma parse_atom_length: "parse_atom ts = Inr (a, r) \<Longrightarrow> length r < length ts"
  by (fastforce simp: parse_atom_def sbind_rules pcas_accept_Some pcas_consume_Inr
      split: list.splits pcas_token.splits option.splits if_splits
      dest: parse_term_length parse_more_terms_length)

lemma parse_body_element_length: "parse_body_element ts = Inr (e, r) \<Longrightarrow> length r < length ts"
  by (auto simp: parse_body_element_def sbind_rules pcas_accept_Some split: option.splits dest!: parse_atom_length)

function parse_more_body :: "pcas_token list \<Rightarrow> body_element list parsed" where
  "parse_more_body ts = (case pcas_accept T_COMMA ts of
       None \<Rightarrow> Inr ([], ts)
     | Some r \<Rightarrow> sbind (parse_body_element r) (\<lambda>(e, r1). sbind (parse_more_body r1) (\<lambda>(es, r2). Inr (e # es, r2))))"
  by pat_completeness auto
termination
  by (relation "measure length") (auto simp: pcas_accept_Some dest: parse_body_element_length)

declare parse_more_body.simps [simp del]

definition parse_body :: "pcas_token list \<Rightarrow> body_element list parsed" where
  "parse_body ts = sbind (parse_body_element ts) (\<lambda>(e, r). sbind (parse_more_body r) (\<lambda>(es, r1). Inr (e # es, r1)))"

fun parse_annotation :: "pcas_token list \<Rightarrow> annotation \<times> pcas_token list" where
  "parse_annotation (T_AT_AUTH # ts) = (Authorize, ts)"
| "parse_annotation (T_AT_DENY # ts) = (Deny, ts)"
| "parse_annotation ts = (PlainRule, ts)"

definition parse_rule :: "pcas_token list \<Rightarrow> rule parsed" where
  "parse_rule ts = (let (an, r) = parse_annotation ts in
     sbind (parse_atom r) (\<lambda>(h, r1).
       sbind (case pcas_accept T_COLON_DASH r1 of Some r2 \<Rightarrow> parse_body r2 | None \<Rightarrow> Inr ([], r1)) (\<lambda>(b, r3).
         sbind (pcas_consume T_DOT r3) (\<lambda>r4. Inr (\<lparr>ru_annotation = an, ru_head = h, ru_body = b\<rparr>, r4)))))"

lemma parse_more_body_length: "parse_more_body ts = Inr (es, r) \<Longrightarrow> length r \<le> length ts"
proof (induction ts arbitrary: es rule: parse_more_body.induct)
  case (1 ts)
  then show ?case
    by (fastforce simp: parse_more_body.simps[of ts] sbind_rules pcas_accept_Some split: option.splits
        dest: parse_body_element_length)
qed

lemma parse_annotation_length: "parse_annotation ts = (an, r) \<Longrightarrow> length r \<le> length ts"
  by (induction ts rule: parse_annotation.induct) auto

lemma parse_rule_length: "parse_rule ts = Inr (x, r) \<Longrightarrow> length r < length ts"
  by (fastforce simp: parse_rule_def parse_body_def sbind_rules pcas_accept_Some pcas_consume_Inr
      split: prod.splits option.splits
      dest: parse_atom_length parse_annotation_length parse_body_element_length parse_more_body_length)

function parse_rules :: "pcas_token list \<Rightarrow> pcas_error + rule list" where
  "parse_rules ts = (if take 1 ts = [T_EOF] then Inr []
     else sbind (parse_rule ts) (\<lambda>(x, r). sbind (parse_rules r) (\<lambda>xs. Inr (x # xs))))"
  by pat_completeness auto
termination
  by (relation "measure length") (auto dest: parse_rule_length)

declare parse_rules.simps [simp del]

definition parse_program :: "string \<Rightarrow> string option \<Rightarrow> pcas_error + program" where
  "parse_program src name = sbind (lexer_tokens src) (\<lambda>ts. sbind (parse_rules ts) (\<lambda>rs.
     if (case name of None \<Rightarrow> False | Some n \<Rightarrow> 200 < length n) then Inl ValidationError
     else Inr \<lparr>pg_rules = rs, pg_source = name\<rparr>))"

end
