(* ===== verification/Pcas_Tarjan.thy ===== *)
theory Pcas_Tarjan
  imports Prelude "HOL-Library.While_Combinator"
begin

text \<open>
  The strongly-connected-component search of the PCAS stratifier: \<^verbatim>\<open>_tarjan_sccs\<close> in
  \<^verbatim>\<open>pcas/language/stratify.py\<close>, the iterative algorithm of Tarjan with explicit frames.

  Correspondence. \<^verbatim>\<open>stack\<close> and \<^verbatim>\<open>sys_stack\<close> have their top at the head of the list, and the list of
  remaining neighbours is popped from its head: it is the reverse of the Python list. The neighbours
  of a node are enumerated by the parameter \<open>es\<close>, in any order, since a Python set has none.

  Results: the loop terminates; the components partition the nodes; an edge leads to the component
  of its source or to an earlier one. \<open>Pcas_Components\<close> adds that the nodes of a component reach each
  other.
\<close>

section \<open>The search\<close>

record 'a tarjan =
  t_index :: nat
  t_stack :: "'a list"
  t_on_stack :: "'a set"
  t_indices :: "'a \<rightharpoonup> nat"
  t_lowlinks :: "'a \<rightharpoonup> nat"
  t_sccs :: "'a list list"
  t_frames :: "('a \<times> 'a list) list"

text \<open>Number a node and push it on both stacks.\<close>

definition t_visit :: "('a \<Rightarrow> 'a list) \<Rightarrow> 'a \<Rightarrow> 'a tarjan \<Rightarrow> 'a tarjan" where
  "t_visit es n st = st\<lparr>t_indices := (t_indices st)(n \<mapsto> t_index st), t_lowlinks := (t_lowlinks st)(n \<mapsto> t_index st),
     t_index := t_index st + 1, t_stack := n # t_stack st, t_on_stack := insert n (t_on_stack st),
     t_frames := (n, es n) # t_frames st\<rparr>"

definition t_lower :: "'a \<Rightarrow> nat \<Rightarrow> 'a tarjan \<Rightarrow> 'a tarjan" where
  "t_lower n k st = st\<lparr>t_lowlinks := (t_lowlinks st)(n \<mapsto> min (the (t_lowlinks st n)) k)\<rparr>"

text \<open>Pop a component: everything down to the node, and what is below it.\<close>

fun pop_component :: "'a \<Rightarrow> 'a list \<Rightarrow> 'a list \<times> 'a list" where
  "pop_component n [] = ([], [])"
| "pop_component n (w # ws) = (if w = n then ([w], ws) else (let (c, r) = pop_component n ws in (w # c, r)))"

definition t_close :: "'a \<Rightarrow> 'a tarjan \<Rightarrow> 'a tarjan" where
  "t_close n st = (if the (t_lowlinks st n) = the (t_indices st n)
     then (let (c, r) = pop_component n (t_stack st)
           in st\<lparr>t_stack := r, t_on_stack := t_on_stack st - set c, t_sccs := t_sccs st @ [c]\<rparr>)
     else st)"

definition t_step :: "('a \<Rightarrow> 'a list) \<Rightarrow> 'a tarjan \<Rightarrow> 'a tarjan" where
  "t_step es st = (case t_frames st of
       [] \<Rightarrow> st
     | (n, m # ms) # fs \<Rightarrow>
         (let st' = st\<lparr>t_frames := (n, ms) # fs\<rparr>
          in if t_indices st m = None then t_visit es m st'
             else if m \<in> t_on_stack st then t_lower n (the (t_indices st m)) st'
             else st')
     | (n, []) # fs \<Rightarrow>
         (let st' = t_close n (st\<lparr>t_frames := fs\<rparr>)
          in case fs of [] \<Rightarrow> st' | (p, ps) # fs' \<Rightarrow> t_lower p (the (t_lowlinks st' n)) st'))"

definition t_running :: "'a tarjan \<Rightarrow> bool" where
  "t_running st \<longleftrightarrow> t_frames st \<noteq> []"

definition t_from :: "('a \<Rightarrow> 'a list) \<Rightarrow> 'a tarjan \<Rightarrow> 'a \<Rightarrow> 'a tarjan" where
  "t_from es st start = (if t_indices st start \<noteq> None then st else while t_running (t_step es) (t_visit es start st))"

definition t_start :: "'a tarjan" where
  "t_start = \<lparr>t_index = 0, t_stack = [], t_on_stack = {}, t_indices = Map.empty, t_lowlinks = Map.empty,
     t_sccs = [], t_frames = []\<rparr>"

definition tarjan_sccs :: "('a \<Rightarrow> 'a list) \<Rightarrow> 'a list \<Rightarrow> 'a list list" where
  "tarjan_sccs es nodes = t_sccs (foldl (t_from es) t_start nodes)"

section \<open>The invariant\<close>

text \<open>
  The stack is cut into segments, one per frame: the nodes above a frame's node and below the next
  frame are finished. All edges out of finished nodes have been followed, and the low link of the
  frame bounds the index of everything on the stack they lead to.
\<close>

fun frames_ok :: "('a \<Rightarrow> 'a list) \<Rightarrow> ('a \<rightharpoonup> nat) \<Rightarrow> ('a \<rightharpoonup> nat) \<Rightarrow> 'a set \<Rightarrow> ('a \<times> 'a list) list \<Rightarrow> 'a list \<Rightarrow> bool" where
  "frames_ok es ix lo on [] stk \<longleftrightarrow> stk = []"
| "frames_ok es ix lo on ((n, rm) # fs) stk \<longleftrightarrow> (\<exists>us stk'. stk = us @ n # stk' \<and> frames_ok es ix lo on fs stk' \<and>
     the (lo n) \<le> the (ix n) \<and> (\<exists>w\<in>set (n # stk'). the (lo n) = the (ix w)) \<and>
     (\<forall>u\<in>set us. set (es u) \<subseteq> dom ix \<and> (\<forall>v\<in>set (es u) \<inter> on. the (lo n) \<le> the (ix v))) \<and>
     set (es n) \<subseteq> dom ix \<union> set rm \<and> (\<forall>v\<in>(set (es n) - set rm) \<inter> on. the (lo n) \<le> the (ix v)))"

text \<open>Edges lead to the same or an earlier component.\<close>

definition downward :: "('a \<Rightarrow> 'a list) \<Rightarrow> 'a list list \<Rightarrow> bool" where
  "downward es cs \<longleftrightarrow> (\<forall>xs c ys. cs = xs @ c # ys \<longrightarrow> (\<forall>u\<in>set c. set (es u) \<subseteq> set (concat xs) \<union> set c))"

definition t_inv :: "('a \<Rightarrow> 'a list) \<Rightarrow> 'a set \<Rightarrow> 'a tarjan \<Rightarrow> bool" where
  "t_inv es V st \<longleftrightarrow>
     sorted_wrt (\<lambda>a b. the (t_indices st b) < the (t_indices st a)) (t_stack st) \<and>
     t_on_stack st = set (t_stack st) \<and>
     dom (t_indices st) = set (t_stack st) \<union> set (concat (t_sccs st)) \<and>
     set (t_stack st) \<inter> set (concat (t_sccs st)) = {} \<and>
     distinct (concat (t_sccs st)) \<and>
     dom (t_indices st) \<subseteq> V \<and>
     (\<forall>u\<in>dom (t_indices st). the (t_indices st u) < t_index st) \<and>
     downward es (t_sccs st) \<and>
     frames_ok es (t_indices st) (t_lowlinks st) (t_on_stack st) (t_frames st) (t_stack st) \<and>
     (\<forall>f\<in>set (t_frames st). set (snd f) \<subseteq> V)"

lemma downward_snoc:
  "downward es cs \<Longrightarrow> (\<And>u. u \<in> set c \<Longrightarrow> set (es u) \<subseteq> set (concat cs) \<union> set c) \<Longrightarrow> downward es (cs @ [c])"
  unfolding downward_def
proof (intro allI impI)
  fix xs d ys
  assume d: "\<forall>xs c ys. cs = xs @ c # ys \<longrightarrow> (\<forall>u\<in>set c. set (es u) \<subseteq> set (concat xs) \<union> set c)"
    and c: "\<And>u. u \<in> set c \<Longrightarrow> set (es u) \<subseteq> set (concat cs) \<union> set c" and e: "cs @ [c] = xs @ d # ys"
  show "\<forall>u\<in>set d. set (es u) \<subseteq> set (concat xs) \<union> set d"
  proof (cases ys rule: rev_cases)
    case Nil
    with e c show ?thesis by auto
  next
    case (snoc zs z)
    with e have "cs = xs @ d # zs" by auto
    with d show ?thesis by blast
  qed
qed

lemma pop_component_append: "n \<notin> set us \<Longrightarrow> pop_component n (us @ n # stk) = (us @ [n], stk)"
  by (induction us) auto

lemma frames_ok_frames: "frames_ok es ix lo on fs stk \<Longrightarrow> fst ` set fs \<subseteq> set stk"
proof (induction fs arbitrary: stk)
  case (Cons f fs)
  obtain n rm where f: "f = (n, rm)" by (cases f)
  from Cons.prems[unfolded f] obtain us stk' where "stk = us @ n # stk'" "frames_ok es ix lo on fs stk'" by auto
  with Cons.IH[of stk'] show ?case by (auto simp: f)
qed simp

lemma frames_ok_low: "frames_ok es ix lo on fs stk \<Longrightarrow> f \<in> set fs \<Longrightarrow> the (lo (fst f)) \<le> the (ix (fst f))"
proof (induction fs arbitrary: stk)
  case (Cons g fs)
  obtain n rm where g: "g = (n, rm)" by (cases g)
  from Cons.prems(1)[unfolded g] obtain stk' where "frames_ok es ix lo on fs stk'" "the (lo n) \<le> the (ix n)" by auto
  with Cons.IH[of stk'] Cons.prems(2) show ?case by (auto simp: g)
qed simp

text \<open>What the invariant of the frames depends on.\<close>

lemma frames_ok_cong:
  assumes "frames_ok es ix lo on fs stk"
    and "\<And>f. f \<in> set fs \<Longrightarrow> the (lo' (fst f)) = the (lo (fst f))"
    and "\<And>u. u \<in> set stk \<Longrightarrow> ix' u = ix u"
    and "dom ix \<subseteq> dom ix'"
    and "\<And>f v. f \<in> set fs \<Longrightarrow> v \<in> on' \<Longrightarrow> v \<in> on \<and> ix' v = ix v \<or> v \<notin> on \<and> the (ix (fst f)) \<le> the (ix' v)"
  shows "frames_ok es ix' lo' on' fs stk"
  using assms
proof (induction fs arbitrary: stk)
  case (Cons f fs)
  obtain n rm where f: "f = (n, rm)" by (cases f)
  from Cons.prems(1)[unfolded f] obtain us stk' where s: "stk = us @ n # stk'" "frames_ok es ix lo on fs stk'"
    "the (lo n) \<le> the (ix n)" "\<exists>w\<in>set (n # stk'). the (lo n) = the (ix w)"
    "\<forall>u\<in>set us. set (es u) \<subseteq> dom ix \<and> (\<forall>v\<in>set (es u) \<inter> on. the (lo n) \<le> the (ix v))"
    "set (es n) \<subseteq> dom ix \<union> set rm" "\<forall>v\<in>(set (es n) - set rm) \<inter> on. the (lo n) \<le> the (ix v)"
    by auto
  have l: "the (lo' n) = the (lo n)" "ix' n = ix n" using Cons.prems(2)[of f] Cons.prems(3)[of n] s(1) by (auto simp: f)
  have b: "the (lo n) \<le> the (ix' v)" if "v \<in> on'" "v \<in> on \<Longrightarrow> the (lo n) \<le> the (ix v)" for v
    using Cons.prems(5)[of f v] that s(3) by (force simp: f)
  have r: "frames_ok es ix' lo' on' fs stk'"
    using Cons.prems(2-5) s(1,2) by (intro Cons.IH) auto
  have w: "\<exists>w\<in>set (n # stk'). the (lo n) = the (ix' w)" using s(1,4) Cons.prems(3) by auto
  show ?case
    unfolding f frames_ok.simps
    using s(1,3,5,6,7) r w l b Cons.prems(4) by (intro exI[of _ us] exI[of _ stk']) (auto, blast+)
qed simp


abbreviation stack_sorted :: "('a \<rightharpoonup> nat) \<Rightarrow> 'a list \<Rightarrow> bool" where
  "stack_sorted ix \<equiv> sorted_wrt (\<lambda>a b. the (ix b) < the (ix a))"

lemma stack_sorted_distinct: "stack_sorted ix stk \<Longrightarrow> distinct stk"
  by (induction stk) auto

lemma frames_ok_next:
  assumes "frames_ok es ix lo on ((n, m # ms) # fs) stk" and "m \<in> dom ix"
    and "m \<in> on \<Longrightarrow> the (lo n) \<le> the (ix m)"
  shows "frames_ok es ix lo on ((n, ms) # fs) stk"
proof -
  from assms(1) obtain us stk' where "stk = us @ n # stk'" "frames_ok es ix lo on fs stk'"
    "the (lo n) \<le> the (ix n)" "\<exists>w\<in>set (n # stk'). the (lo n) = the (ix w)"
    "\<forall>u\<in>set us. set (es u) \<subseteq> dom ix \<and> (\<forall>v\<in>set (es u) \<inter> on. the (lo n) \<le> the (ix v))"
    "set (es n) \<subseteq> dom ix \<union> set (m # ms)" "\<forall>v\<in>(set (es n) - set (m # ms)) \<inter> on. the (lo n) \<le> the (ix v)"
    by auto
  with assms(2,3) show ?thesis by (simp, intro exI[of _ us] exI[of _ stk']) auto
qed

lemma frames_ok_lower:
  assumes "frames_ok es ix lo on ((n, rm) # fs) stk" and "stack_sorted ix stk" and "w \<in> set stk"
  shows "frames_ok es ix (lo(n \<mapsto> min (the (lo n)) (the (ix w)))) on ((n, rm) # fs) stk"
proof -
  let ?lo = "lo(n \<mapsto> min (the (lo n)) (the (ix w)))"
  from assms(1) obtain us stk' where s: "stk = us @ n # stk'" "frames_ok es ix lo on fs stk'"
    "the (lo n) \<le> the (ix n)" "\<exists>w\<in>set (n # stk'). the (lo n) = the (ix w)"
    "\<forall>u\<in>set us. set (es u) \<subseteq> dom ix \<and> (\<forall>v\<in>set (es u) \<inter> on. the (lo n) \<le> the (ix v))"
    "set (es n) \<subseteq> dom ix \<union> set rm" "\<forall>v\<in>(set (es n) - set rm) \<inter> on. the (lo n) \<le> the (ix v)"
    by auto
  have "n \<notin> fst ` set fs" using frames_ok_frames[OF s(2)] stack_sorted_distinct[OF assms(2)] s(1) by auto
  then have r: "frames_ok es ix ?lo on fs stk'" by (intro frames_ok_cong[OF s(2)]) auto
  have "\<exists>w\<in>set (n # stk'). the (?lo n) = the (ix w)"
  proof (cases "the (ix w) < the (lo n)")
    case True
    with s(3) assms(2,3) have "w \<in> set (n # stk')" by (auto simp: s(1) sorted_wrt_append)
    with True show ?thesis by (auto simp: min_def)
  qed (use s(4) in \<open>auto simp: min_def\<close>)
  with s r show ?thesis by (simp, intro exI[of _ us] exI[of _ stk']) (auto simp: min.coboundedI1)
qed

lemma frames_ok_push:
  "frames_ok es ix lo on fs stk \<Longrightarrow> the (lo m) = the (ix m) \<Longrightarrow> frames_ok es ix lo on ((m, es m) # fs) (m # stk)"
  by (simp, intro exI[of _ "[]"] exI[of _ stk]) auto

text \<open>A frame that is finished but does not close its component joins the frame below.\<close>

lemma frames_ok_merge:
  assumes "frames_ok es ix lo on ((n, []) # (p, ps) # fs) stk" and "the (lo n) \<noteq> the (ix n)" and "stack_sorted ix stk"
  shows "frames_ok es ix (lo(p \<mapsto> min (the (lo p)) (the (lo n)))) on ((p, ps) # fs) stk"
proof -
  from assms(1)[unfolded frames_ok.simps(2)[of es ix lo on n "[]" "(p, ps) # fs" stk]]
  obtain us stk1 where s: "stk = us @ n # stk1" "frames_ok es ix lo on ((p, ps) # fs) stk1"
    "\<exists>w\<in>set (n # stk1). the (lo n) = the (ix w)"
    "\<forall>u\<in>set us. set (es u) \<subseteq> dom ix \<and> (\<forall>v\<in>set (es u) \<inter> on. the (lo n) \<le> the (ix v))"
    "set (es n) \<subseteq> dom ix" "\<forall>v\<in>set (es n) \<inter> on. the (lo n) \<le> the (ix v)"
    by (auto simp del: frames_ok.simps)
  from s(3) assms(2) obtain w where w: "w \<in> set stk1" "the (lo n) = the (ix w)" by auto
  let ?lo = "lo(p \<mapsto> min (the (lo p)) (the (lo n)))"
  from frames_ok_lower[OF s(2) _ w(1)] assms(3) have "frames_ok es ix ?lo on ((p, ps) # fs) stk1"
    by (simp add: w(2) s(1) sorted_wrt_append)
  then obtain us' stk2 where t: "stk1 = us' @ p # stk2" "frames_ok es ix ?lo on fs stk2"
    "the (?lo p) \<le> the (ix p)" "\<exists>w\<in>set (p # stk2). the (?lo p) = the (ix w)"
    "\<forall>u\<in>set us'. set (es u) \<subseteq> dom ix \<and> (\<forall>v\<in>set (es u) \<inter> on. the (?lo p) \<le> the (ix v))"
    "set (es p) \<subseteq> dom ix \<union> set ps" "\<forall>v\<in>(set (es p) - set ps) \<inter> on. the (?lo p) \<le> the (ix v)"
    unfolding frames_ok.simps by blast
  have "\<forall>u\<in>set (us @ n # us'). set (es u) \<subseteq> dom ix \<and> (\<forall>v\<in>set (es u) \<inter> on. the (?lo p) \<le> the (ix v))"
    using s(4-6) t(5) by (auto simp: min.coboundedI2)
  with s(1) t show ?thesis unfolding frames_ok.simps by (intro exI[of _ "us @ n # us'"] exI[of _ stk2]) auto
qed

section \<open>Every step keeps the invariant\<close>

lemma t_invD:
  assumes "t_inv es V st"
  shows "stack_sorted (t_indices st) (t_stack st)" "t_on_stack st = set (t_stack st)"
    "dom (t_indices st) = set (t_stack st) \<union> set (concat (t_sccs st))"
    "set (t_stack st) \<inter> set (concat (t_sccs st)) = {}" "distinct (concat (t_sccs st))"
    "dom (t_indices st) \<subseteq> V" "\<And>u. u \<in> dom (t_indices st) \<Longrightarrow> the (t_indices st u) < t_index st"
    "downward es (t_sccs st)"
    "frames_ok es (t_indices st) (t_lowlinks st) (t_on_stack st) (t_frames st) (t_stack st)"
    "\<And>f. f \<in> set (t_frames st) \<Longrightarrow> set (snd f) \<subseteq> V"
  using assms unfolding t_inv_def by blast+

lemma frames_ok_visit:
  assumes "frames_ok es ix lo (set stk) fs stk" and "\<And>u. u \<in> dom ix \<Longrightarrow> the (ix u) < k" and "set stk \<subseteq> dom ix"
    and "m \<notin> dom ix"
  shows "frames_ok es (ix(m \<mapsto> k)) (lo(m \<mapsto> k)) (insert m (set stk)) fs stk"
proof (rule frames_ok_cong[OF assms(1)])
  fix f v
  assume f: "f \<in> set fs" and v: "v \<in> insert m (set stk)"
  have "fst f \<in> dom ix" using frames_ok_frames[OF assms(1)] f assms(3) by auto
  then show "v \<in> set stk \<and> (ix(m \<mapsto> k)) v = ix v \<or> v \<notin> set stk \<and> the (ix (fst f)) \<le> the ((ix(m \<mapsto> k)) v)"
    using assms(2)[of "fst f"] assms(3,4) v by (cases "v = m") auto
qed (use frames_ok_frames[OF assms(1)] assms(3,4) in auto)

lemma t_inv_visit:
  assumes "t_inv es V st" and "t_indices st m = None" and "m \<in> V" and "set (es m) \<subseteq> V"
    and "frames_ok es ((t_indices st)(m \<mapsto> t_index st)) ((t_lowlinks st)(m \<mapsto> t_index st)) (insert m (set (t_stack st))) fs (t_stack st)"
    and "\<And>f. f \<in> set fs \<Longrightarrow> set (snd f) \<subseteq> V"
  shows "t_inv es V (t_visit es m (st\<lparr>t_frames := fs\<rparr>))"
proof -
  note i = t_invD[OF assms(1)]
  have m: "m \<notin> dom (t_indices st)" using assms(2) by auto
  have "stack_sorted ((t_indices st)(m \<mapsto> t_index st)) (m # t_stack st)"
  proof -
    have "stack_sorted ((t_indices st)(m \<mapsto> t_index st)) (t_stack st)"
      using i(1,3) m by (intro sorted_wrt_mono_rel[OF _ i(1)]) auto
    moreover have "the (((t_indices st)(m \<mapsto> t_index st)) u) < t_index st" if "u \<in> set (t_stack st)" for u
      using i(3) i(7)[of u] m that by auto
    ultimately show ?thesis by simp
  qed
  moreover have "frames_ok es ((t_indices st)(m \<mapsto> t_index st)) ((t_lowlinks st)(m \<mapsto> t_index st))
      (insert m (set (t_stack st))) ((m, es m) # fs) (m # t_stack st)"
    by (rule frames_ok_push[OF assms(5)]) simp
  ultimately show ?thesis
    using i(2-8) m assms(3,4,6) unfolding t_inv_def t_visit_def
    by (auto simp: less_Suc_eq simp del: frames_ok.simps)
qed

lemma t_inv_lowlinks:
  assumes "t_inv es V st" and "frames_ok es (t_indices st) lo (t_on_stack st) fs (t_stack st)"
    and "\<And>f. f \<in> set fs \<Longrightarrow> set (snd f) \<subseteq> V"
  shows "t_inv es V (st\<lparr>t_frames := fs, t_lowlinks := lo\<rparr>)"
proof -
  let ?st = "st\<lparr>t_frames := fs, t_lowlinks := lo\<rparr>"
  have e: "t_indices ?st = t_indices st" "t_stack ?st = t_stack st" "t_on_stack ?st = t_on_stack st"
    "t_sccs ?st = t_sccs st" "t_index ?st = t_index st" "t_frames ?st = fs" "t_lowlinks ?st = lo" by simp_all
  have "\<forall>f\<in>set fs. set (snd f) \<subseteq> V" using assms(3) by blast
  with assms(1,2) show ?thesis unfolding t_inv_def e by blast
qed

lemma t_inv_next:
  assumes inv: "t_inv es V st" and fr: "t_frames st = (n, m # ms) # fs" and V: "\<And>u. u \<in> V \<Longrightarrow> set (es u) \<subseteq> V"
  shows "t_inv es V (t_step es st)"
proof -
  note i = t_invD[OF inv]
  have ok: "frames_ok es (t_indices st) (t_lowlinks st) (set (t_stack st)) ((n, m # ms) # fs) (t_stack st)"
    using i(2,9) fr by simp
  have f: "set (snd f) \<subseteq> V" if "f \<in> set ((n, ms) # fs)" for f
    using i(10)[of f] i(10)[of "(n, m # ms)"] fr that by auto
  have m: "m \<in> V" using i(10)[of "(n, m # ms)"] fr by auto
  consider (new) "t_indices st m = None" | (stack) "m \<in> dom (t_indices st)" "m \<in> t_on_stack st"
    | (old) "m \<in> dom (t_indices st)" "m \<notin> t_on_stack st" by (cases "t_indices st m") auto
  then show ?thesis
  proof cases
    case new
    let ?ix = "(t_indices st)(m \<mapsto> t_index st)" and ?lo = "(t_lowlinks st)(m \<mapsto> t_index st)"
    have v: "frames_ok es ?ix ?lo (insert m (set (t_stack st))) ((n, m # ms) # fs) (t_stack st)"
      using i(3,7) new by (intro frames_ok_visit[OF ok]) auto
    have n: "n \<in> set (t_stack st)" using frames_ok_frames[OF ok] by auto
    have "the (t_lowlinks st n) \<le> the (t_indices st n)" using ok by auto
    then have "the (?lo n) \<le> the (?ix m)" using i(3) i(7)[of n] n new by auto
    then have "frames_ok es ?ix ?lo (insert m (set (t_stack st))) ((n, ms) # fs) (t_stack st)"
      by (intro frames_ok_next[OF v]) auto
    from t_inv_visit[OF inv new m V[OF m] this f] show ?thesis
      using new fr by (simp add: t_step_def)
  next
    case stack
    let ?lo = "(t_lowlinks st)(n \<mapsto> min (the (t_lowlinks st n)) (the (t_indices st m)))"
    have "frames_ok es (t_indices st) ?lo (set (t_stack st)) ((n, m # ms) # fs) (t_stack st)"
      using stack i(1,2) by (intro frames_ok_lower[OF ok]) auto
    then have "frames_ok es (t_indices st) ?lo (t_on_stack st) ((n, ms) # fs) (t_stack st)"
      unfolding i(2) using stack(1) by (rule frames_ok_next) simp
    from t_inv_lowlinks[OF inv this f] show ?thesis
      using stack fr by (auto simp: t_step_def t_lower_def)
  next
    case old
    then have "frames_ok es (t_indices st) (t_lowlinks st) (t_on_stack st) ((n, ms) # fs) (t_stack st)"
      unfolding i(2) by (intro frames_ok_next[OF ok]) auto
    from t_inv_lowlinks[OF inv this f] show ?thesis
      using old fr by (auto simp: t_step_def)
  qed
qed

text \<open>Closing a component: the stack above the frame's node is emitted.\<close>

lemma t_inv_component:
  assumes inv: "t_inv es V st" and fr: "t_frames st = (n, []) # fs"
    and root: "the (t_lowlinks st n) = the (t_indices st n)"
  shows "t_inv es V (t_close n (st\<lparr>t_frames := fs\<rparr>)) \<and> n \<notin> fst ` set fs \<and>
    (\<forall>f\<in>set fs. the (t_lowlinks st (fst f)) \<le> the (t_indices st n))"
proof -
  note i = t_invD[OF inv]
  obtain us stk' where s: "t_stack st = us @ n # stk'"
    "frames_ok es (t_indices st) (t_lowlinks st) (t_on_stack st) fs stk'"
    "\<forall>u\<in>set us. set (es u) \<subseteq> dom (t_indices st) \<and> (\<forall>v\<in>set (es u) \<inter> t_on_stack st. the (t_lowlinks st n) \<le> the (t_indices st v))"
    "set (es n) \<subseteq> dom (t_indices st)"
    "\<forall>v\<in>set (es n) \<inter> t_on_stack st. the (t_lowlinks st n) \<le> the (t_indices st v)"
    using i(9) unfolding fr frames_ok.simps(2) by auto
  have d: "distinct (us @ n # stk')" using stack_sorted_distinct[OF i(1)] s(1) by simp
  then have pc: "pop_component n (t_stack st) = (us @ [n], stk')"
    unfolding s(1) by (intro pop_component_append) auto
  have below: "the (t_indices st v) < the (t_indices st n)" if "v \<in> set stk'" for v
    using i(1) that by (auto simp: s(1) sorted_wrt_append)
  have out: "set (es u) \<subseteq> set (concat (t_sccs st)) \<union> set (us @ [n])" if "u \<in> set (us @ [n])" for u
  proof
    fix v
    assume v: "v \<in> set (es u)"
    then have vd: "v \<in> dom (t_indices st)" using s(3,4) that by auto
    show "v \<in> set (concat (t_sccs st)) \<union> set (us @ [n])"
    proof (cases "v \<in> set (t_stack st)")
      case True
      then have "the (t_indices st n) \<le> the (t_indices st v)" using v s(3,5) that root i(2) by auto
      then have "v \<notin> set stk'" using below[of v] by auto
      then show ?thesis using True by (auto simp: s(1))
    qed (use vd i(3) in auto)
  qed
  have dw: "downward es (t_sccs st @ [us @ [n]])" by (intro downward_snoc i(8) out)
  have fr': "frames_ok es (t_indices st) (t_lowlinks st) (set stk') fs stk'"
    using i(2) s(1) by (intro frames_ok_cong[OF s(2)]) auto
  have on: "t_on_stack st - set (us @ [n]) = set stk'" using i(2) s(1) d by auto
  have so: "stack_sorted (t_indices st) stk'" using i(1) by (simp add: s(1) sorted_wrt_append)
  have dc: "distinct (concat (t_sccs st @ [us @ [n]]))" using i(4,5) d by (auto simp: s(1))
  have "t_inv es V (t_close n (st\<lparr>t_frames := fs\<rparr>))"
    unfolding t_inv_def t_close_def using root pc on so dc dw fr' i(3,4,6,7,10) d
    by (auto simp: s(1) fr simp del: frames_ok.simps)
  moreover have "n \<notin> fst ` set fs" using frames_ok_frames[OF s(2)] d by auto
  moreover have "the (t_lowlinks st (fst f)) \<le> the (t_indices st n)" if "f \<in> set fs" for f
    using frames_ok_low[OF s(2) that] frames_ok_frames[OF s(2)] that below[of "fst f"] by force
  ultimately show ?thesis by blast
qed


lemma t_frames_same: "t_frames st = fs \<Longrightarrow> st\<lparr>t_frames := fs\<rparr> = st"
  by auto

lemma t_inv_finish:
  assumes inv: "t_inv es V st" and fr: "t_frames st = (n, []) # fs"
  shows "t_inv es V (t_step es st)"
proof -
  note i = t_invD[OF inv]
  have V: "set (snd f) \<subseteq> V" if "f \<in> set fs" for f using i(10)[of f] fr that by auto
  show ?thesis
  proof (cases "the (t_lowlinks st n) = the (t_indices st n)")
    case True
    let ?c = "t_close n (st\<lparr>t_frames := fs\<rparr>)"
    have c: "t_inv es V ?c" "n \<notin> fst ` set fs" "\<forall>f\<in>set fs. the (t_lowlinks st (fst f)) \<le> the (t_indices st n)"
      using t_inv_component[OF inv fr True] by auto
    have e: "t_lowlinks ?c = t_lowlinks st" "t_frames ?c = fs" by (auto simp: t_close_def split: prod.splits)
    show ?thesis
    proof (cases fs)
      case (Cons f fs')
      obtain q qs where f: "f = (q, qs)" by (cases f)
      let ?lo = "(t_lowlinks st)(q \<mapsto> min (the (t_lowlinks st q)) (the (t_lowlinks st n)))"
      have "the (?lo x) = the (t_lowlinks st x)" for x using c(3) True by (auto simp: Cons f)
      then have "frames_ok es (t_indices ?c) ?lo (t_on_stack ?c) fs (t_stack ?c)"
        using t_invD(9)[OF c(1)] by (intro frames_ok_cong[OF t_invD(9)[OF c(1), unfolded e]]) auto
      from t_inv_lowlinks[OF c(1) this V, unfolded t_frames_same[OF e(2)]] show ?thesis
        using fr by (simp add: t_step_def Cons f t_lower_def e[unfolded Cons f])
    qed (use c fr in \<open>simp add: t_step_def\<close>)
  next
    case False
    have ok: "frames_ok es (t_indices st) (t_lowlinks st) (t_on_stack st) ((n, []) # fs) (t_stack st)"
      using i(9) fr by simp
    show ?thesis
    proof (cases fs)
      case Nil
      with ok False show ?thesis by auto
    next
      case (Cons f fs')
      obtain q qs where f: "f = (q, qs)" by (cases f)
      from frames_ok_merge[OF ok[unfolded Cons f] False i(1)] V
      have "t_inv es V (st\<lparr>t_frames := fs, t_lowlinks := (t_lowlinks st)(q \<mapsto> min (the (t_lowlinks st q)) (the (t_lowlinks st n)))\<rparr>)"
        by (intro t_inv_lowlinks[OF inv]) (auto simp: Cons f simp del: frames_ok.simps)
      with False fr show ?thesis by (simp add: t_step_def t_close_def t_lower_def Cons f)
    qed
  qed
qed

lemma t_inv_step:
  assumes "t_inv es V st" and "t_running st" and "\<And>u. u \<in> V \<Longrightarrow> set (es u) \<subseteq> V"
  shows "t_inv es V (t_step es st)"
proof -
  obtain n rm fs where "t_frames st = (n, rm) # fs" using assms(2) by (cases "t_frames st") (auto simp: t_running_def)
  then show ?thesis using assms(1,3) by (cases rm) (auto intro: t_inv_finish t_inv_next)
qed

section \<open>The search terminates\<close>

definition t_measure :: "('a \<Rightarrow> 'a list) \<Rightarrow> 'a set \<Rightarrow> 'a tarjan \<Rightarrow> nat" where
  "t_measure es V st = (\<Sum>u\<in>V - dom (t_indices st). Suc (length (es u))) + (\<Sum>f\<leftarrow>t_frames st. Suc (length (snd f)))"

lemma t_measure_step:
  assumes inv: "t_inv es V st" and "t_running st" and "finite V"
  shows "t_measure es V (t_step es st) < t_measure es V st"
proof -
  obtain n rm fs where fr: "t_frames st = (n, rm) # fs" using assms(2) by (cases "t_frames st") (auto simp: t_running_def)
  show ?thesis
  proof (cases rm)
    case Nil
    with fr show ?thesis
      by (cases fs) (auto simp: t_step_def t_measure_def t_close_def t_lower_def Let_def split: prod.splits)
  next
    case (Cons m ms)
    then have m: "m \<in> V" using t_invD(10)[OF inv, of "(n, rm)"] fr by auto
    show ?thesis
    proof (cases "t_indices st m")
      case None
      have "(\<Sum>u\<in>V - dom (t_indices st). Suc (length (es u))) =
          Suc (length (es m)) + (\<Sum>u\<in>V - insert m (dom (t_indices st)). Suc (length (es u)))"
        using m None assms(3) by (subst sum.remove[of _ m]) (auto intro!: arg_cong2[where f = "(+)"] sum.cong)
      with fr Cons None show ?thesis by (simp add: t_step_def t_measure_def t_visit_def)
    qed (use fr Cons in \<open>auto simp: t_step_def t_measure_def t_lower_def Let_def\<close>)
  qed
qed

lemma t_loop:
  assumes "t_inv es V st" and "finite V" and "\<And>u. u \<in> V \<Longrightarrow> set (es u) \<subseteq> V"
  shows "\<exists>st'. while_option t_running (t_step es) st = Some st' \<and> t_inv es V st' \<and> t_frames st' = []"
proof -
  have "\<exists>st'. while_option t_running (t_step es) st = Some st'"
    using assms by (intro measure_while_option_Some[where P = "t_inv es V" and f = "t_measure es V"])
      (auto intro: t_inv_step t_measure_step)
  then obtain st' where w: "while_option t_running (t_step es) st = Some st'" ..
  have "t_inv es V st'" by (rule while_option_rule[where P = "t_inv es V", OF _ w assms(1)]) (rule t_inv_step[OF _ _ assms(3)])
  moreover have "\<not> t_running st'" using while_option_stop[OF w] .
  ultimately show ?thesis using w by (auto simp: t_running_def)
qed

lemma t_step_dom: "dom (t_indices st) \<subseteq> dom (t_indices (t_step es st))"
  by (auto simp: t_step_def t_visit_def t_close_def t_lower_def Let_def split: list.splits prod.splits)

text \<open>Between two starting nodes the stack is empty.\<close>

definition t_idle :: "('a \<Rightarrow> 'a list) \<Rightarrow> 'a set \<Rightarrow> 'a tarjan \<Rightarrow> bool" where
  "t_idle es V st \<longleftrightarrow> t_inv es V st \<and> t_frames st = []"

lemma t_idle_from:
  assumes "t_idle es V st" and "finite V" and "\<And>u. u \<in> V \<Longrightarrow> set (es u) \<subseteq> V" and "s \<in> V"
  shows "t_idle es V (t_from es st s) \<and> insert s (dom (t_indices st)) \<subseteq> dom (t_indices (t_from es st s))"
proof (cases "t_indices st s")
  case None
  have inv: "t_inv es V st" and fr: "t_frames st = []" using assms(1) by (auto simp: t_idle_def)
  let ?st = "t_visit es s st"
  have "frames_ok es ((t_indices st)(s \<mapsto> t_index st)) ((t_lowlinks st)(s \<mapsto> t_index st))
      (insert s (set (t_stack st))) [] (t_stack st)"
    using t_invD(9)[OF inv] fr by simp
  from t_inv_visit[OF inv None assms(4) assms(3)[OF assms(4)] this]
  have inv': "t_inv es V ?st" using fr by (simp add: t_visit_def)
  from t_loop[OF inv' assms(2,3)] obtain st' where
    w: "while_option t_running (t_step es) ?st = Some st'" "t_inv es V st'" "t_frames st' = []" by blast
  have "insert s (dom (t_indices st)) \<subseteq> dom (t_indices st')"
  proof (rule while_option_rule[where P = "\<lambda>x. insert s (dom (t_indices st)) \<subseteq> dom (t_indices x)", OF _ w(1)])
    show "insert s (dom (t_indices st)) \<subseteq> dom (t_indices (t_step es x))"
      if "insert s (dom (t_indices st)) \<subseteq> dom (t_indices x)" for x
      using that t_step_dom[of x es] by (rule subset_trans)
  qed (simp add: t_visit_def subset_insertI)
  moreover have "t_from es st s = st'" using None w(1) by (simp add: t_from_def while_def)
  ultimately show ?thesis using w(2,3) by (simp add: t_idle_def)
qed (use assms(1) in \<open>auto simp: t_from_def\<close>)

lemma t_idle_fold:
  assumes "t_idle es V st" and "finite V" and "\<And>u. u \<in> V \<Longrightarrow> set (es u) \<subseteq> V" and "set ns \<subseteq> V"
  shows "t_idle es V (foldl (t_from es) st ns) \<and> set ns \<union> dom (t_indices st) \<subseteq> dom (t_indices (foldl (t_from es) st ns))"
  using assms(1,4)
proof (induction ns arbitrary: st)
  case (Cons n ns)
  from Cons.prems t_idle_from[OF Cons.prems(1) assms(2,3), of n]
  have n: "t_idle es V (t_from es st n)" "insert n (dom (t_indices st)) \<subseteq> dom (t_indices (t_from es st n))" by auto
  have "set ns \<subseteq> V" using Cons.prems(2) by simp
  from Cons.IH[OF n(1) this] n(2) show ?case by (simp, blast)
qed simp

text \<open>The result: a partition of the nodes in an order in which edges never lead forward.\<close>

lemma tarjan_sccs_correct:
  assumes "\<And>u. u \<in> set nodes \<Longrightarrow> set (es u) \<subseteq> set nodes"
  shows "distinct (concat (tarjan_sccs es nodes)) \<and> set (concat (tarjan_sccs es nodes)) = set nodes \<and>
    downward es (tarjan_sccs es nodes)"
proof -
  let ?st = "foldl (t_from es) t_start nodes"
  have "t_idle es (set nodes) (t_start :: 'a tarjan)"
    by (simp add: t_idle_def t_inv_def t_start_def downward_def)
  from t_idle_fold[OF this, of nodes] assms
  have r: "t_idle es (set nodes) ?st" "set nodes \<subseteq> dom (t_indices ?st)" by auto
  then have inv: "t_inv es (set nodes) ?st" and "t_frames ?st = []" by (auto simp: t_idle_def)
  then have "t_stack ?st = []" using t_invD(9)[OF inv] by simp
  with t_invD(3,5,6,8)[OF inv] r(2) show ?thesis by (auto simp: tarjan_sccs_def)
qed

end
