(* ===== verification/Pcas_Components.thy ===== *)
theory Pcas_Components
  imports Pcas_Tarjan
begin

text \<open>
  The components that the search of \<^verbatim>\<open>pcas/language/stratify.py\<close> reports are strongly connected. The
  invariant says, for every segment of the stack: its frame reaches it, each of its nodes reaches
  something further down, and the low link of the frame is the index of a node that the frame reaches.
  So every node on the stack reaches the frame on top.
\<close>

definition reach :: "('a \<Rightarrow> 'a list) \<Rightarrow> 'a \<Rightarrow> 'a \<Rightarrow> bool" where
  "reach es = (\<lambda>a b. b \<in> set (es a))\<^sup>*\<^sup>*"

lemma reach_refl [simp]: "reach es u u"
  by (simp add: reach_def)

lemma reach_trans: "reach es u v \<Longrightarrow> reach es v w \<Longrightarrow> reach es u w"
  unfolding reach_def by (rule rtranclp_trans)

lemma reach_edge: "v \<in> set (es u) \<Longrightarrow> reach es u v"
  unfolding reach_def by blast

definition connected_comp :: "('a \<Rightarrow> 'a list) \<Rightarrow> 'a list \<Rightarrow> bool" where
  "connected_comp es c \<longleftrightarrow> c \<noteq> [] \<and> (\<forall>u\<in>set c. \<forall>v\<in>set c. reach es u v)"

fun below_reaches :: "('a \<Rightarrow> 'a list) \<Rightarrow> 'a \<Rightarrow> 'a list \<Rightarrow> bool" where
  "below_reaches es n [] = True"
| "below_reaches es n (p # ps) = reach es p n"

fun conn_ok :: "('a \<Rightarrow> 'a list) \<Rightarrow> ('a \<rightharpoonup> nat) \<Rightarrow> ('a \<rightharpoonup> nat) \<Rightarrow> 'a list \<Rightarrow> 'a list \<Rightarrow> bool" where
  "conn_ok es ix lo [] stk \<longleftrightarrow> stk = []"
| "conn_ok es ix lo (n # ns) stk \<longleftrightarrow> (\<exists>us stk'. stk = us @ n # stk' \<and> conn_ok es ix lo ns stk' \<and>
     (\<exists>w\<in>set (n # stk'). the (lo n) = the (ix w) \<and> reach es n w) \<and>
     (\<forall>u\<in>set us. reach es n u \<and> (\<exists>w\<in>set (n # stk'). reach es u w)) \<and> below_reaches es n ns)"

lemma conn_ok_nodes: "conn_ok es ix lo ns stk \<Longrightarrow> set ns \<subseteq> set stk"
proof (induction ns arbitrary: stk)
  case (Cons n ns)
  then obtain us stk' where "stk = us @ n # stk'" "conn_ok es ix lo ns stk'" by auto
  with Cons.IH[of stk'] show ?case by auto
qed simp

lemma conn_ok_cong:
  assumes "conn_ok es ix lo ns stk" and "\<And>n. n \<in> set ns \<Longrightarrow> the (lo' n) = the (lo n)" and "\<And>u. u \<in> set stk \<Longrightarrow> ix' u = ix u"
  shows "conn_ok es ix' lo' ns stk"
  using assms
proof (induction ns arbitrary: stk)
  case (Cons n ns)
  from Cons.prems(1) obtain us stk' where s: "stk = us @ n # stk'" "conn_ok es ix lo ns stk'"
    "\<exists>w\<in>set (n # stk'). the (lo n) = the (ix w) \<and> reach es n w"
    "\<forall>u\<in>set us. reach es n u \<and> (\<exists>w\<in>set (n # stk'). reach es u w)" "below_reaches es n ns" by auto
  have "conn_ok es ix' lo' ns stk'" using Cons.prems(2,3) s(1,2) by (intro Cons.IH) auto
  moreover have "\<exists>w\<in>set (n # stk'). the (lo' n) = the (ix' w) \<and> reach es n w" using s(1,3) Cons.prems(2,3) by auto
  ultimately show ?case using s(1,4,5) unfolding conn_ok.simps by blast
qed simp

text \<open>Every node on the stack reaches the topmost frame.\<close>

lemma conn_ok_top: "conn_ok es ix lo (n # ns) stk \<Longrightarrow> u \<in> set stk \<Longrightarrow> reach es u n"
proof (induction ns arbitrary: n stk u)
  case Nil
  then show ?case by auto
next
  case (Cons p ns)
  from Cons.prems(1)[unfolded conn_ok.simps(2)[of es ix lo n]] obtain us stk' where
    s: "stk = us @ n # stk'" "conn_ok es ix lo (p # ns) stk'"
    "\<forall>u\<in>set us. reach es n u \<and> (\<exists>w\<in>set (n # stk'). reach es u w)" "below_reaches es n (p # ns)" by blast
  have low: "reach es w n" if "w \<in> set (n # stk')" for w
    using that Cons.IH[OF s(2), of w] s(4) by (auto intro: reach_trans)
  from Cons.prems(2) s(1,3) show ?case using low by (auto intro: reach_trans)
qed

lemma conn_ok_push:
  assumes "conn_ok es ix lo ns stk" and "the (lo m) = the (ix m)" and "below_reaches es m ns"
  shows "conn_ok es ix lo (m # ns) (m # stk)"
  unfolding conn_ok.simps using assms by (intro exI[of _ "[]"] exI[of _ stk]) auto

lemma conn_ok_lower:
  assumes "conn_ok es ix lo (n # ns) stk" and "stack_sorted ix stk" and "w \<in> set stk" and "reach es n w"
    and "the (lo n) \<le> the (ix n)"
  shows "conn_ok es ix (lo(n \<mapsto> min (the (lo n)) (the (ix w)))) (n # ns) stk"
proof -
  let ?lo = "lo(n \<mapsto> min (the (lo n)) (the (ix w)))"
  from assms(1) obtain us stk' where s: "stk = us @ n # stk'" "conn_ok es ix lo ns stk'"
    "\<exists>w\<in>set (n # stk'). the (lo n) = the (ix w) \<and> reach es n w"
    "\<forall>u\<in>set us. reach es n u \<and> (\<exists>w\<in>set (n # stk'). reach es u w)" "below_reaches es n ns" by auto
  have "n \<notin> set ns" using conn_ok_nodes[OF s(2)] stack_sorted_distinct[OF assms(2)] s(1) by auto
  then have r: "conn_ok es ix ?lo ns stk'" by (intro conn_ok_cong[OF s(2)]) auto
  have "\<exists>w\<in>set (n # stk'). the (?lo n) = the (ix w) \<and> reach es n w"
  proof (cases "the (ix w) < the (lo n)")
    case True
    with assms(2,3,5) have "w \<in> set (n # stk')" by (auto simp: s(1) sorted_wrt_append)
    with True assms(4) show ?thesis by (auto simp: min_def)
  qed (use s(3) in \<open>auto simp: min_def\<close>)
  with s(1,4,5) r show ?thesis unfolding conn_ok.simps by blast
qed

lemma conn_ok_merge:
  assumes "conn_ok es ix lo (n # p # ns) stk" and "the (lo n) \<noteq> the (ix n)" and "stack_sorted ix stk"
    and "the (lo p) \<le> the (ix p)"
  shows "conn_ok es ix (lo(p \<mapsto> min (the (lo p)) (the (lo n)))) (p # ns) stk"
proof -
  let ?lo = "lo(p \<mapsto> min (the (lo p)) (the (lo n)))"
  from assms(1)[unfolded conn_ok.simps(2)[of es ix lo n]] obtain us stk1 where
    s: "stk = us @ n # stk1" "conn_ok es ix lo (p # ns) stk1" "\<exists>w\<in>set (n # stk1). the (lo n) = the (ix w) \<and> reach es n w"
    "\<forall>u\<in>set us. reach es n u \<and> (\<exists>w\<in>set (n # stk1). reach es u w)" "below_reaches es n (p # ns)" by blast
  from s(3) assms(2) obtain w where w: "w \<in> set stk1" "the (lo n) = the (ix w)" "reach es n w" by auto
  have pn: "reach es p n" using s(5) by simp
  have "conn_ok es ix ?lo (p # ns) stk1"
    using conn_ok_lower[OF s(2) _ w(1) reach_trans[OF pn w(3)] assms(4)] assms(3) by (simp add: w(2) s(1) sorted_wrt_append)
  then obtain us' stk2 where t: "stk1 = us' @ p # stk2" "conn_ok es ix ?lo ns stk2"
    "\<exists>w\<in>set (p # stk2). the (?lo p) = the (ix w) \<and> reach es p w"
    "\<forall>u\<in>set us'. reach es p u \<and> (\<exists>w\<in>set (p # stk2). reach es u w)" "below_reaches es p ns"
    unfolding conn_ok.simps by blast
  have nw: "\<exists>x\<in>set (p # stk2). reach es n x"
  proof (cases "w \<in> set us'")
    case True
    then obtain x where "x \<in> set (p # stk2)" "reach es w x" using t(4) by blast
    with w(3) show ?thesis by (blast intro: reach_trans)
  qed (use w t(1) in auto)
  have "reach es p u \<and> (\<exists>x\<in>set (p # stk2). reach es u x)" if "u \<in> set (us @ n # us')" for u
  proof (cases "u \<in> set us'")
    case False
    with that have u: "u \<in> set (us @ [n])" by auto
    then have "reach es n u" using s(4) by auto
    moreover have "reach es u n" using conn_ok_top[OF assms(1), of u] u s(1) by auto
    ultimately show ?thesis using nw pn by (blast intro: reach_trans)
  qed (use t(4) in blast)
  moreover have "stk = (us @ n # us') @ p # stk2" using s(1) t(1) by simp
  ultimately show ?thesis using t(2,3,5) unfolding conn_ok.simps by blast
qed

section \<open>The invariant of the search\<close>

definition t_conn :: "('a \<Rightarrow> 'a list) \<Rightarrow> 'a tarjan \<Rightarrow> bool" where
  "t_conn es st \<longleftrightarrow> conn_ok es (t_indices st) (t_lowlinks st) (map fst (t_frames st)) (t_stack st) \<and>
     (\<forall>f\<in>set (t_frames st). set (snd f) \<subseteq> set (es (fst f))) \<and> (\<forall>c\<in>set (t_sccs st). connected_comp es c)"

lemma t_conn_visit:
  assumes "t_inv es V st" and "t_conn es (st\<lparr>t_frames := fs\<rparr>)" and "t_indices st m = None" and "below_reaches es m (map fst fs)"
  shows "t_conn es (t_visit es m (st\<lparr>t_frames := fs\<rparr>))"
proof -
  have m: "m \<notin> set (t_stack st)" using t_invD(3)[OF assms(1)] assms(3) by blast
  have c: "conn_ok es (t_indices st) (t_lowlinks st) (map fst fs) (t_stack st)" using assms(2) by (simp add: t_conn_def)
  have "conn_ok es ((t_indices st)(m \<mapsto> t_index st)) ((t_lowlinks st)(m \<mapsto> t_index st)) (map fst fs) (t_stack st)"
    using conn_ok_nodes[OF c] m by (intro conn_ok_cong[OF c]) auto
  from conn_ok_push[OF this _ assms(4)] assms(2) show ?thesis
    by (auto simp: t_conn_def t_visit_def simp del: conn_ok.simps)
qed

lemma t_conn_next:
  assumes inv: "t_inv es V st" and cn: "t_conn es st" and fr: "t_frames st = (n, m # ms) # fs"
  shows "t_conn es (t_step es st)"
proof -
  note i = t_invD[OF inv]
  have c: "conn_ok es (t_indices st) (t_lowlinks st) (n # map fst fs) (t_stack st)" using cn fr by (simp add: t_conn_def del: conn_ok.simps)
  have "m \<in> set (es n)" using cn fr by (simp add: t_conn_def)
  then have m: "reach es n m" by (rule reach_edge)
  have st': "t_conn es (st\<lparr>t_frames := (n, ms) # fs\<rparr>)" using cn fr by (simp add: t_conn_def del: conn_ok.simps)
  consider (new) "t_indices st m = None" | (stack) "t_indices st m \<noteq> None" "m \<in> t_on_stack st"
    | (old) "t_indices st m \<noteq> None" "m \<notin> t_on_stack st" by blast
  then show ?thesis
  proof cases
    case new
    with t_conn_visit[OF inv st' new] m show ?thesis by (simp add: t_step_def fr)
  next
    case stack
    have "the (t_lowlinks st n) \<le> the (t_indices st n)" using frames_ok_low[OF i(9), of "(n, m # ms)"] fr by simp
    from conn_ok_lower[OF c i(1) _ m this] stack i(2) st' show ?thesis
      by (simp add: t_step_def fr t_lower_def t_conn_def del: conn_ok.simps not_None_eq)
  next
    case old
    with st' show ?thesis by (auto simp: t_step_def fr)
  qed
qed

lemma t_conn_finish:
  assumes inv: "t_inv es V st" and cn: "t_conn es st" and fr: "t_frames st = (n, []) # fs"
  shows "t_conn es (t_step es st)"
proof -
  note i = t_invD[OF inv]
  have c: "conn_ok es (t_indices st) (t_lowlinks st) (n # map fst fs) (t_stack st)" using cn fr by (simp add: t_conn_def del: conn_ok.simps)
  have rest: "\<forall>f\<in>set fs. set (snd f) \<subseteq> set (es (fst f))" "\<forall>c\<in>set (t_sccs st). connected_comp es c" using cn fr by (auto simp: t_conn_def)
  show ?thesis
  proof (cases "the (t_lowlinks st n) = the (t_indices st n)")
    case True
    from c obtain us stk' where s: "t_stack st = us @ n # stk'" "conn_ok es (t_indices st) (t_lowlinks st) (map fst fs) stk'"
      "\<forall>u\<in>set us. reach es n u" by auto
    have d: "n \<notin> set us" using stack_sorted_distinct[OF i(1)] s(1) by simp
    have "reach es u n \<and> reach es n u" if "u \<in> set (us @ [n])" for u
      using conn_ok_top[OF c, of u] that s(1,3) by auto
    then have "connected_comp es (us @ [n])" unfolding connected_comp_def by (blast intro: reach_trans)
    moreover have lo: "the (t_lowlinks st (fst f)) \<le> the (t_indices st n)" if "f \<in> set fs" for f
      using t_inv_component[OF inv fr True] that by blast
    moreover have "conn_ok es (t_indices st) ((t_lowlinks st)(p \<mapsto> min (the (t_lowlinks st p)) (the (t_lowlinks st n)))) (map fst fs) stk'"
      if "p \<in> fst ` set fs" for p
      using that lo True by (intro conn_ok_cong[OF s(2)]) (auto simp: min_def)
    ultimately show ?thesis
      using s(2) rest True pop_component_append[OF d, of stk']
      by (cases fs; cases "hd fs") (simp_all add: t_step_def fr t_conn_def t_close_def t_lower_def s(1) del: conn_ok.simps)
  next
    case False
    show ?thesis
    proof (cases fs)
      case Nil
      with c False show ?thesis by auto
    next
      case (Cons f fs')
      have "the (t_lowlinks st (fst f)) \<le> the (t_indices st (fst f))" using frames_ok_low[OF i(9), of f] fr Cons by simp
      from conn_ok_merge[OF c[unfolded Cons list.map] False i(1) this] rest False show ?thesis
        by (cases f) (auto simp: t_step_def fr Cons t_conn_def t_close_def t_lower_def simp del: conn_ok.simps)
    qed
  qed
qed

lemma t_conn_step:
  assumes "t_inv es V st" and "t_conn es st" and "t_running st"
  shows "t_conn es (t_step es st)"
proof -
  obtain n rm fs where "t_frames st = (n, rm) # fs" using assms(3) by (cases "t_frames st") (auto simp: t_running_def)
  then show ?thesis using assms(1,2) by (cases rm) (auto intro: t_conn_finish t_conn_next)
qed

lemma t_conn_from:
  assumes "t_idle es V st" and "t_conn es st" and "finite V" and "\<And>u. u \<in> V \<Longrightarrow> set (es u) \<subseteq> V" and "s \<in> V"
  shows "t_conn es (t_from es st s)"
proof (cases "t_indices st s")
  case None
  have inv: "t_inv es V st" and fr: "t_frames st = []" using assms(1) by (auto simp: t_idle_def)
  let ?st = "t_visit es s st"
  have "frames_ok es ((t_indices st)(s \<mapsto> t_index st)) ((t_lowlinks st)(s \<mapsto> t_index st))
      (insert s (set (t_stack st))) [] (t_stack st)"
    using t_invD(9)[OF inv] fr by simp
  from t_inv_visit[OF inv None assms(5) assms(4)[OF assms(5)] this]
  have inv': "t_inv es V ?st" using fr by (simp add: t_visit_def)
  have cn': "t_conn es ?st" using t_conn_visit[OF inv _ None, of "[]"] assms(2) t_frames_same[OF fr] by simp
  from t_loop[OF inv' assms(3,4)] obtain st' where w: "while_option t_running (t_step es) ?st = Some st'" by blast
  have "t_inv es V st' \<and> t_conn es st'"
  proof (rule while_option_rule[where P = "\<lambda>x. t_inv es V x \<and> t_conn es x", OF _ w])
    show "t_inv es V (t_step es x) \<and> t_conn es (t_step es x)" if "t_inv es V x \<and> t_conn es x" "t_running x" for x
      using t_inv_step[of es V x] t_conn_step[of es V x] that assms(4) by blast
  qed (use inv' cn' in simp)
  then show ?thesis using None w by (simp add: t_from_def while_def)
qed (use assms(2) in \<open>auto simp: t_from_def\<close>)

lemma t_conn_fold:
  assumes "t_idle es V st" and "t_conn es st" and "finite V" and "\<And>u. u \<in> V \<Longrightarrow> set (es u) \<subseteq> V" and "set ns \<subseteq> V"
  shows "t_conn es (foldl (t_from es) st ns)"
  using assms(1,2,5)
proof (induction ns arbitrary: st)
  case (Cons n ns)
  have "n \<in> V" using Cons.prems(3) by simp
  with Cons t_idle_from[OF Cons.prems(1) assms(3,4)] t_conn_from[OF Cons.prems(1,2) assms(3,4)] show ?case by simp
qed simp

lemma tarjan_sccs_connected:
  assumes "\<And>u. u \<in> set nodes \<Longrightarrow> set (es u) \<subseteq> set nodes"
  shows "\<forall>c\<in>set (tarjan_sccs es nodes). connected_comp es c"
proof -
  have "t_idle es (set nodes) (t_start :: 'a tarjan)" "t_conn es (t_start :: 'a tarjan)"
    by (simp_all add: t_idle_def t_inv_def t_start_def downward_def t_conn_def)
  from t_conn_fold[OF this _ assms, of nodes] show ?thesis by (simp add: tarjan_sccs_def t_conn_def)
qed

end
