(* ===== verification/Pcas_Stratify.thy ===== *)
theory Pcas_Stratify
  imports Pcas_Language Pcas_Components "HOL-Library.List_Lexorder" "HOL-Library.Char_ord"
begin

text \<open>
  The PCAS stratifier: \<^verbatim>\<open>pcas/language/stratify.py\<close>.

  Correspondence. A set is a list without duplicates. Python does not specify the order in which a
  set is enumerated: that order is the parameter \<open>so\<close>, an arbitrary function that rearranges such a
  list (\<open>set_order\<close>). All failures are \<^verbatim>\<open>StratificationError\<close>.

  Results: what \<^verbatim>\<open>stratify\<close> accepts is safe and stratified, its strata hold the rules of their
  predicates, positive dependencies lead to the same or an earlier stratum and negative ones to an
  earlier one; and it accepts every safe program for which such an order of predicates exists.
\<close>

section \<open>Helper calls and safety\<close>

fun disambiguate_body :: "string list \<Rightarrow> body_element list \<Rightarrow> pcas_error + body_element list" where
  "disambiguate_body hs [] = Inr []"
| "disambiguate_body hs (BAtom a # es) = sbind (disambiguate_body hs es) (\<lambda>es'.
     Inr ((if at_predicate a \<in> set hs then BHelper (at_predicate a) (at_args a) else BAtom a) # es'))"
| "disambiguate_body hs (BNot a # es) =
     (if at_predicate a \<in> set hs then Inl StratificationError
      else sbind (disambiguate_body hs es) (\<lambda>es'. Inr (BNot a # es')))"
| "disambiguate_body hs (BHelper h ts # es) = sbind (disambiguate_body hs es) (\<lambda>es'. Inr (BHelper h ts # es'))"

definition disambiguate_program :: "string list \<Rightarrow> program \<Rightarrow> pcas_error + program" where
  "disambiguate_program hs p = sbind (err_map (\<lambda>r. sbind (disambiguate_body hs (ru_body r)) (\<lambda>b. Inr (r\<lparr>ru_body := b\<rparr>))) (pg_rules p))
     (\<lambda>rs. Inr (p\<lparr>pg_rules := rs\<rparr>))"

definition positive_vars :: "rule \<Rightarrow> string list" where
  "positive_vars r = filter (\<lambda>x. \<not> is_anonymous x) (concat (map at_variables (body_positive_atoms r)))"

definition bound_in :: "string list \<Rightarrow> string \<Rightarrow> bool" where
  "bound_in pv x \<longleftrightarrow> is_anonymous x \<or> x \<in> set pv"

definition rule_safe :: "rule \<Rightarrow> bool" where
  "rule_safe r = (let pv = positive_vars r in
     list_all (\<lambda>x. \<not> is_anonymous x \<and> x \<in> set pv) (at_variables (ru_head r)) \<and>
     list_all (\<lambda>a. list_all (bound_in pv) (at_variables a)) (body_negated_atoms r) \<and>
     list_all (\<lambda>(h, ts). list_all (bound_in pv) (args_vars ts)) (body_helpers r))"

definition check_safety :: "program \<Rightarrow> pcas_error + unit" where
  "check_safety p = (if list_all rule_safe (pg_rules p) then Inr () else Inl StratificationError)"

section \<open>The dependency graph and the strata\<close>

record predicate_graph =
  dg_nodes :: "string list"
  dg_pos :: "string \<Rightarrow> string list"
  dg_neg :: "string \<Rightarrow> string list"

definition pos_edge :: "string \<Rightarrow> predicate_graph \<Rightarrow> atom \<Rightarrow> predicate_graph" where
  "pos_edge p g a = (let q = at_predicate a in
     g\<lparr>dg_nodes := List.insert q (dg_nodes g), dg_pos := (dg_pos g)(p := List.insert q (dg_pos g p))\<rparr>)"

definition neg_edge :: "string \<Rightarrow> predicate_graph \<Rightarrow> atom \<Rightarrow> predicate_graph" where
  "neg_edge p g a = (let q = at_predicate a in
     g\<lparr>dg_nodes := List.insert q (dg_nodes g), dg_neg := (dg_neg g)(p := List.insert q (dg_neg g p))\<rparr>)"

definition graph_rule :: "predicate_graph \<Rightarrow> rule \<Rightarrow> predicate_graph" where
  "graph_rule g r = (let p = at_predicate (ru_head r);
       g1 = foldl (pos_edge p) (g\<lparr>dg_nodes := List.insert p (dg_nodes g)\<rparr>) (body_positive_atoms r)
     in foldl (neg_edge p) g1 (body_negated_atoms r))"

definition build_dependency_graph :: "program \<Rightarrow> predicate_graph" where
  "build_dependency_graph p = foldl graph_rule \<lparr>dg_nodes = [], dg_pos = (\<lambda>_. []), dg_neg = (\<lambda>_. [])\<rparr> (pg_rules p)"

definition edges_of :: "(string list \<Rightarrow> string list) \<Rightarrow> predicate_graph \<Rightarrow> string \<Rightarrow> string list" where
  "edges_of so g n = so (List.union (dg_pos g n) (dg_neg g n))"

definition negative_cycle :: "predicate_graph \<Rightarrow> string list \<Rightarrow> bool" where
  "negative_cycle g c = (if length c \<le> 1 then hd c \<in> set (dg_neg g (hd c))
     else list_ex (\<lambda>u. list_ex (\<lambda>v. v \<in> set c) (dg_neg g u)) c)"

definition check_no_negative_cycles :: "predicate_graph \<Rightarrow> string list list \<Rightarrow> pcas_error + unit" where
  "check_no_negative_cycles g sccs = (if list_ex (negative_cycle g) sccs then Inl StratificationError else Inr ())"

record stratum =
  sm_index :: nat
  sm_predicates :: "string list"
  sm_rules :: "rule list"

definition rules_of :: "program \<Rightarrow> string \<Rightarrow> rule list" where
  "rules_of p q = filter (\<lambda>r. at_predicate (ru_head r) = q) (pg_rules p)"

fun make_strata :: "program \<Rightarrow> nat \<Rightarrow> string list list \<Rightarrow> stratum list" where
  "make_strata p i [] = []"
| "make_strata p i (c # cs) =
     \<lparr>sm_index = i, sm_predicates = c, sm_rules = concat (map (rules_of p) c)\<rparr> # make_strata p (i + 1) cs"

definition stratify :: "(string list \<Rightarrow> string list) \<Rightarrow> string list \<Rightarrow> program \<Rightarrow> pcas_error + (program \<times> stratum list)" where
  "stratify so hs p0 = sbind (disambiguate_program hs p0) (\<lambda>p. sbind (check_safety p) (\<lambda>_.
     let g = build_dependency_graph p;
         sccs = tarjan_sccs (edges_of so g) (sort (dg_nodes g))
     in sbind (check_no_negative_cycles g sccs) (\<lambda>_. Inr (p, make_strata p 0 sccs))))"

section \<open>What the graph holds\<close>

definition set_order :: "('a list \<Rightarrow> 'a list) \<Rightarrow> bool" where
  "set_order so \<longleftrightarrow> (\<forall>xs. set (so xs) = set xs)"

definition pos_preds :: "rule \<Rightarrow> string set" where
  "pos_preds r = at_predicate ` set (body_positive_atoms r)"

definition neg_preds :: "rule \<Rightarrow> string set" where
  "neg_preds r = at_predicate ` set (body_negated_atoms r)"

definition head_pred :: "rule \<Rightarrow> string" where
  "head_pred r = at_predicate (ru_head r)"

lemma pos_edges_fold:
  "set (dg_nodes (foldl (pos_edge p) g as)) = set (dg_nodes g) \<union> at_predicate ` set as"
  "set (dg_pos (foldl (pos_edge p) g as) q) = set (dg_pos g q) \<union> (if q = p then at_predicate ` set as else {})"
  "dg_neg (foldl (pos_edge p) g as) = dg_neg g"
  by (induction as arbitrary: g) (auto simp: pos_edge_def Let_def)

lemma neg_edges_fold:
  "set (dg_nodes (foldl (neg_edge p) g as)) = set (dg_nodes g) \<union> at_predicate ` set as"
  "set (dg_neg (foldl (neg_edge p) g as) q) = set (dg_neg g q) \<union> (if q = p then at_predicate ` set as else {})"
  "dg_pos (foldl (neg_edge p) g as) = dg_pos g"
  by (induction as arbitrary: g) (auto simp: neg_edge_def Let_def)

lemma graph_rule_sets:
  "set (dg_nodes (graph_rule g r)) = insert (head_pred r) (set (dg_nodes g)) \<union> pos_preds r \<union> neg_preds r"
  "set (dg_pos (graph_rule g r) q) = set (dg_pos g q) \<union> (if q = head_pred r then pos_preds r else {})"
  "set (dg_neg (graph_rule g r) q) = set (dg_neg g q) \<union> (if q = head_pred r then neg_preds r else {})"
  by (auto simp: graph_rule_def Let_def pos_edges_fold neg_edges_fold pos_preds_def neg_preds_def head_pred_def)

lemma graph_fold_sets:
  "set (dg_nodes (foldl graph_rule g rs)) = set (dg_nodes g) \<union> (\<Union>r\<in>set rs. insert (head_pred r) (pos_preds r \<union> neg_preds r))"
  "set (dg_pos (foldl graph_rule g rs) q) = set (dg_pos g q) \<union> (\<Union>r\<in>{r\<in>set rs. head_pred r = q}. pos_preds r)"
  "set (dg_neg (foldl graph_rule g rs) q) = set (dg_neg g q) \<union> (\<Union>r\<in>{r\<in>set rs. head_pred r = q}. neg_preds r)"
  by (induction rs arbitrary: g) (auto simp: graph_rule_sets)

lemma graph_sets:
  "set (dg_nodes (build_dependency_graph p)) = (\<Union>r\<in>set (pg_rules p). insert (head_pred r) (pos_preds r \<union> neg_preds r))"
  "set (dg_pos (build_dependency_graph p) q) = (\<Union>r\<in>{r\<in>set (pg_rules p). head_pred r = q}. pos_preds r)"
  "set (dg_neg (build_dependency_graph p) q) = (\<Union>r\<in>{r\<in>set (pg_rules p). head_pred r = q}. neg_preds r)"
  by (simp_all add: build_dependency_graph_def graph_fold_sets)

lemma make_strata_map: "map sm_predicates (make_strata p i cs) = cs"
  by (induction cs arbitrary: i) auto

lemma make_strata_rules: "s \<in> set (make_strata p i cs) \<Longrightarrow> set (sm_rules s) = {r\<in>set (pg_rules p). head_pred r \<in> set (sm_predicates s)}"
  by (induction cs arbitrary: i) (auto simp: rules_of_def head_pred_def)

section \<open>Stratification\<close>

text \<open>
  A list of strata for the rules \<open>rs\<close>: the predicates are partitioned, each stratum has the rules of
  its predicates, and rules depend on what is at hand when their stratum is evaluated.
\<close>

definition stratified :: "rule list \<Rightarrow> stratum list \<Rightarrow> bool" where
  "stratified rs strata \<longleftrightarrow>
     distinct (concat (map sm_predicates strata)) \<and>
     (\<forall>r\<in>set rs. head_pred r \<in> set (concat (map sm_predicates strata))) \<and>
     (\<forall>s\<in>set strata. set (sm_rules s) = {r\<in>set rs. head_pred r \<in> set (sm_predicates s)}) \<and>
     (\<forall>xs s ys r. strata = xs @ s # ys \<longrightarrow> r \<in> set (sm_rules s) \<longrightarrow>
        pos_preds r \<subseteq> set (concat (map sm_predicates xs)) \<union> set (sm_predicates s) \<and>
        neg_preds r \<subseteq> set (concat (map sm_predicates xs)))"

lemma negative_cycle_iff: "c \<noteq> [] \<Longrightarrow> negative_cycle g c \<longleftrightarrow> (\<exists>u\<in>set c. set (dg_neg g u) \<inter> set c \<noteq> {})"
  by (cases c; cases "tl c") (auto simp: negative_cycle_def list_ex_iff)

lemma stratify_cases:
  assumes "stratify so hs p0 = Inr (p, strata)"
  shows "disambiguate_program hs p0 = Inr p \<and> list_all rule_safe (pg_rules p) \<and>
    (let g = build_dependency_graph p; sccs = tarjan_sccs (edges_of so g) (sort (dg_nodes g))
     in \<not> list_ex (negative_cycle g) sccs \<and> strata = make_strata p 0 sccs)"
  using assms
  by (auto simp: stratify_def sbind_rules Let_def check_safety_def check_no_negative_cycles_def split: if_splits)

lemma edges_closed:
  assumes "set_order so" and "u \<in> set (sort (dg_nodes (build_dependency_graph p)))"
  shows "set (edges_of so (build_dependency_graph p) u) \<subseteq> set (sort (dg_nodes (build_dependency_graph p)))"
  using assms(1) by (auto simp: edges_of_def set_order_def graph_sets)

lemma stratify_stratified:
  assumes so: "set_order so" and st: "stratify so hs p0 = Inr (p, strata)"
  shows "stratified (pg_rules p) strata \<and> list_all rule_safe (pg_rules p) \<and> disambiguate_program hs p0 = Inr p"
proof -
  let ?g = "build_dependency_graph p"
  let ?cs = "tarjan_sccs (edges_of so ?g) (sort (dg_nodes ?g))"
  have s: "disambiguate_program hs p0 = Inr p" "list_all rule_safe (pg_rules p)" "\<not> list_ex (negative_cycle ?g) ?cs"
    "strata = make_strata p 0 ?cs" using stratify_cases[OF st] by (auto simp: Let_def)
  have t: "distinct (concat ?cs)" "set (concat ?cs) = set (sort (dg_nodes ?g))" "downward (edges_of so ?g) ?cs"
    using tarjan_sccs_correct[of "sort (dg_nodes ?g)" "edges_of so ?g", OF edges_closed[OF so]] by blast+
  have m: "map sm_predicates strata = ?cs" unfolding s(4) by (rule make_strata_map)
  have "pos_preds r \<subseteq> set (concat (map sm_predicates xs)) \<union> set (sm_predicates x) \<and>
      neg_preds r \<subseteq> set (concat (map sm_predicates xs))"
    if e: "strata = xs @ x # ys" and r: "r \<in> set (sm_rules x)" for xs x ys r
  proof -
    have c: "?cs = map sm_predicates xs @ sm_predicates x # map sm_predicates ys" using m e by simp
    have x: "x \<in> set (make_strata p 0 ?cs)" using e s(4) by simp
    from make_strata_rules[OF x] r have h: "head_pred r \<in> set (sm_predicates x)" "r \<in> set (pg_rules p)" by auto
    have d: "set (edges_of so ?g (head_pred r)) \<subseteq> set (concat (map sm_predicates xs)) \<union> set (sm_predicates x)"
      using t(3) h(1) c unfolding downward_def by blast
    have e: "pos_preds r \<union> neg_preds r \<subseteq> set (edges_of so ?g (head_pred r))"
      using so h(2) by (auto simp: edges_of_def set_order_def graph_sets)
    have "\<not> negative_cycle ?g (sm_predicates x)" using s(3) c by (simp add: list_ex_iff)
    moreover have "sm_predicates x \<noteq> []" using h(1) by auto
    ultimately have "set (dg_neg ?g (head_pred r)) \<inter> set (sm_predicates x) = {}"
      using h(1) negative_cycle_iff[of "sm_predicates x" ?g] by blast
    moreover have "neg_preds r \<subseteq> set (dg_neg ?g (head_pred r))" using h(2) by (auto simp: graph_sets)
    ultimately have "neg_preds r \<inter> set (sm_predicates x) = {}" by blast
    with d e show ?thesis by blast
  qed
  moreover have "\<forall>r\<in>set (pg_rules p). head_pred r \<in> set (concat ?cs)"
    unfolding t(2) by (auto simp: graph_sets)
  moreover have "\<forall>x\<in>set strata. set (sm_rules x) = {r\<in>set (pg_rules p). head_pred r \<in> set (sm_predicates x)}"
    unfolding s(4) using make_strata_rules by blast
  ultimately show ?thesis unfolding stratified_def m using t(1) s(1,2) by blast
qed

section \<open>Completeness\<close>

text \<open>The levels of predicates that stratification asks for.\<close>

definition stratifiable :: "rule list \<Rightarrow> bool" where
  "stratifiable rs \<longleftrightarrow> (\<exists>lv :: string \<Rightarrow> nat. \<forall>r\<in>set rs.
     (\<forall>q\<in>pos_preds r. lv q \<le> lv (head_pred r)) \<and> (\<forall>q\<in>neg_preds r. lv q < lv (head_pred r)))"

definition level_of :: "stratum list \<Rightarrow> string \<Rightarrow> nat" where
  "level_of strata q = length (takeWhile (\<lambda>s. q \<notin> set (sm_predicates s)) strata)"

lemma level_of_split:
  assumes "q \<notin> set (concat (map sm_predicates xs))" and "q \<in> set (sm_predicates s)"
  shows "level_of (xs @ s # ys) q = length xs"
proof -
  have "takeWhile (\<lambda>s. q \<notin> set (sm_predicates s)) (xs @ s # ys) = xs @ takeWhile (\<lambda>s. q \<notin> set (sm_predicates s)) (s # ys)"
    using assms(1) by (intro takeWhile_append2) auto
  with assms(2) show ?thesis by (simp add: level_of_def)
qed

lemma level_of_within:
  assumes "q \<in> set (concat (map sm_predicates xs))"
  shows "level_of (xs @ ys) q < length xs"
proof -
  from assms obtain x where x: "x \<in> set xs" "q \<in> set (sm_predicates x)" by auto
  then have "takeWhile (\<lambda>s. q \<notin> set (sm_predicates s)) (xs @ ys) = takeWhile (\<lambda>s. q \<notin> set (sm_predicates s)) xs"
    by (intro takeWhile_append1) auto
  moreover have "length (takeWhile (\<lambda>s. q \<notin> set (sm_predicates s)) xs) \<noteq> length xs"
    using x takeWhile_eq_all_conv[of "\<lambda>s. q \<notin> set (sm_predicates s)" xs] length_takeWhile_le[of "\<lambda>s. q \<notin> set (sm_predicates s)" xs]
      takeWhile_eq_take[of "\<lambda>s. q \<notin> set (sm_predicates s)" xs] by (metis take_all_iff order_refl)
  ultimately show ?thesis using length_takeWhile_le[of "\<lambda>s. q \<notin> set (sm_predicates s)" xs] by (simp add: level_of_def)
qed

lemma stratified_stratifiable:
  assumes "stratified rs strata"
  shows "stratifiable rs"
  unfolding stratifiable_def
proof (intro exI[of _ "level_of strata"] ballI)
  fix r
  assume r: "r \<in> set rs"
  with assms have "head_pred r \<in> set (concat (map sm_predicates strata))" by (simp add: stratified_def)
  then obtain s where s: "s \<in> set strata" "head_pred r \<in> set (sm_predicates s)" by auto
  then obtain xs ys where e: "strata = xs @ s # ys" by (meson split_list)
  have rs: "r \<in> set (sm_rules s)" using assms r s by (simp add: stratified_def)
  have d: "pos_preds r \<subseteq> set (concat (map sm_predicates xs)) \<union> set (sm_predicates s)" "neg_preds r \<subseteq> set (concat (map sm_predicates xs))"
    using assms e rs unfolding stratified_def by blast+
  have n: "q \<notin> set (concat (map sm_predicates xs))" if "q \<in> set (sm_predicates s)" for q
    using assms that by (auto simp: stratified_def e)
  have h: "level_of strata (head_pred r) = length xs" unfolding e by (rule level_of_split[OF n[OF s(2)] s(2)])
  have "level_of strata q \<le> length xs" if "q \<in> pos_preds r" for q
  proof (cases "q \<in> set (concat (map sm_predicates xs))")
    case True
    then show ?thesis unfolding e by (rule less_imp_le[OF level_of_within])
  next
    case False
    then have "q \<in> set (sm_predicates s)" using d(1) that by blast
    then show ?thesis unfolding e by (simp add: level_of_split[OF False])
  qed
  moreover have "level_of strata q < length xs" if "q \<in> neg_preds r" for q
    unfolding e using d(2) that by (intro level_of_within) blast
  ultimately show "(\<forall>q\<in>pos_preds r. level_of strata q \<le> level_of strata (head_pred r)) \<and>
      (\<forall>q\<in>neg_preds r. level_of strata q < level_of strata (head_pred r))" unfolding h by blast
qed

text \<open>Levels fall along edges, so a component has one level and no negative edge inside.\<close>

lemma level_reach:
  assumes "reach es u v" and "\<And>a b. b \<in> set (es a) \<Longrightarrow> (lv b :: nat) \<le> lv a"
  shows "lv v \<le> lv u"
  using assms(1) unfolding reach_def by (induction rule: rtranclp_induct) (auto dest: assms(2))

lemma stratifiable_no_cycle:
  assumes "set_order so" and "stratifiable (pg_rules p)"
  shows "\<not> list_ex (negative_cycle (build_dependency_graph p))
    (tarjan_sccs (edges_of so (build_dependency_graph p)) (sort (dg_nodes (build_dependency_graph p))))"
proof
  let ?g = "build_dependency_graph p" and ?es = "edges_of so (build_dependency_graph p)"
  let ?cs = "tarjan_sccs ?es (sort (dg_nodes ?g))"
  assume "list_ex (negative_cycle ?g) ?cs"
  then obtain c where c: "c \<in> set ?cs" "negative_cycle ?g c" by (auto simp: list_ex_iff)
  have conn: "connected_comp ?es c"
    using tarjan_sccs_connected[of "sort (dg_nodes ?g)" ?es, OF edges_closed[OF assms(1)]] c(1) by blast
  from assms(2) obtain lv :: "string \<Rightarrow> nat" where lv: "\<forall>r\<in>set (pg_rules p).
      (\<forall>q\<in>pos_preds r. lv q \<le> lv (head_pred r)) \<and> (\<forall>q\<in>neg_preds r. lv q < lv (head_pred r))"
    unfolding stratifiable_def by blast
  have neg: "lv v < lv u" if "v \<in> set (dg_neg ?g u)" for u v using that lv by (auto simp: graph_sets)
  have mono: "lv b \<le> lv a" if "b \<in> set (?es a)" for a b
    using that lv assms(1) by (auto simp: edges_of_def set_order_def graph_sets intro: less_imp_le)
  have "c \<noteq> []" using conn by (simp add: connected_comp_def)
  with c(2) obtain u v where "u \<in> set c" "v \<in> set c" "v \<in> set (dg_neg ?g u)" by (auto simp: negative_cycle_iff)
  with conn neg[of v u] level_reach[of ?es v u lv, OF _ mono] show False by (auto simp: connected_comp_def)
qed


definition sample_unstratified :: program where
  "sample_unstratified = \<lparr>pg_rules = [\<lparr>ru_annotation = PlainRule, ru_head = \<lparr>at_predicate = ''p'', at_args = []\<rparr>,
     ru_body = [BNot \<lparr>at_predicate = ''q'', at_args = []\<rparr>]\<rparr>, \<lparr>ru_annotation = PlainRule, ru_head = \<lparr>at_predicate = ''q'', at_args = []\<rparr>,
     ru_body = [BAtom \<lparr>at_predicate = ''p'', at_args = []\<rparr>]\<rparr>], pg_source = None\<rparr>"


end
