(* ===== verification/Pcas_Evaluator.thy ===== *)
theory Pcas_Evaluator
  imports Pcas_Stratify
begin

text \<open>
  The PCAS runtime: relations (\<^verbatim>\<open>pcas/runtime/relation.py\<close>) and the bottom-up evaluator
  (\<^verbatim>\<open>pcas/runtime/evaluator.py\<close>). The helper registry is an argument; the registry that the program
  ships is in \<open>Pcas_Monitor\<close>.

  Correspondence. Values compare as in Python, where \<^verbatim>\<open>True == 1\<close> (\<open>fv_eq\<close>), also inside the sets of
  facts, which keep the first of two equal tuples. A relation is a list of facts; it is enumerated
  in the order given by the parameter \<open>fo\<close>. A substitution is a map. \<^verbatim>\<open>_UNBOUND\<close> is \<open>None\<close>. The
  column index of a relation, a cache, is computed at each lookup. A helper returns \<open>None\<close> where it
  raises or returns something that is not a fact value.
\<close>

section \<open>Values, facts and relations\<close>

type_synonym fact = "fact_value list"

fun fv_key :: "fact_value \<Rightarrow> string + int" where
  "fv_key (FStr s) = Inl s"
| "fv_key (FInt i) = Inr i"
| "fv_key (FBool b) = Inr (if b then 1 else 0)"

definition fv_eq :: "fact_value \<Rightarrow> fact_value \<Rightarrow> bool" where
  "fv_eq a b \<longleftrightarrow> fv_key a = fv_key b"

definition fact_eq :: "fact \<Rightarrow> fact \<Rightarrow> bool" where
  "fact_eq f g \<longleftrightarrow> map fv_key f = map fv_key g"

definition fact_in :: "fact \<Rightarrow> fact list \<Rightarrow> bool" where
  "fact_in f fs \<longleftrightarrow> list_ex (fact_eq f) fs"

definition add_fact :: "fact list \<Rightarrow> fact \<Rightarrow> fact list" where
  "add_fact fs f = (if fact_in f fs then fs else fs @ [f])"

record relation =
  rl_name :: string
  rl_arity :: nat
  rl_facts :: "fact list"

definition new_relation :: "string \<Rightarrow> nat \<Rightarrow> fact list \<Rightarrow> pcas_error + relation" where
  "new_relation name arity facts =
     (if name = [] \<or> \<not> py_islower (hd name) then Inl ValueError
      else if list_ex (\<lambda>f. length f \<noteq> arity) facts then Inl ValueError
      else Inr \<lparr>rl_name = name, rl_arity = arity, rl_facts = foldl add_fact [] facts\<rparr>)"

definition with_facts :: "relation \<Rightarrow> fact list \<Rightarrow> pcas_error + relation" where
  "with_facts rel fs = new_relation (rl_name rel) (rl_arity rel) (foldl add_fact (rl_facts rel) fs)"

definition rel_lookup :: "(fact list \<Rightarrow> fact list) \<Rightarrow> nat list \<Rightarrow> fact \<Rightarrow> relation \<Rightarrow> pcas_error + fact list" where
  "rel_lookup fo cols vals rel =
     (if cols = [] then Inr (fo (rl_facts rel))
      else if list_ex (\<lambda>f. list_ex (\<lambda>c. length f \<le> c) cols) (rl_facts rel) then Inl IndexError
      else Inr (filter (\<lambda>f. fact_eq (map (\<lambda>c. f ! c) cols) vals) (fo (rl_facts rel))))"

section \<open>Helpers\<close>

datatype helper_kind = PredicateHelper | FunctionHelper

record helper =
  hp_arity :: nat
  hp_kind :: helper_kind
  hp_fn :: "fact_value list \<Rightarrow> fact_value option"

type_synonym registry = "(string \<times> helper) list"

fun fv_truthy :: "fact_value \<Rightarrow> bool" where
  "fv_truthy (FStr s) = (s \<noteq> [])"
| "fv_truthy (FInt i) = (i \<noteq> 0)"
| "fv_truthy (FBool b) = b"

section \<open>Joins\<close>

type_synonym subst = "string \<rightharpoonup> fact_value"

fun resolve_term :: "subst \<Rightarrow> pterm \<Rightarrow> fact_value option" where
  "resolve_term sub (Constant v) = Some v"
| "resolve_term sub (Variable x) = (if is_anonymous x then None else sub x)"

fun ground_args :: "subst \<Rightarrow> pterm list \<Rightarrow> fact option" where
  "ground_args sub [] = Some []"
| "ground_args sub (t # ts) = (case resolve_term sub t of
       None \<Rightarrow> None
     | Some v \<Rightarrow> (case ground_args sub ts of None \<Rightarrow> None | Some vs \<Rightarrow> Some (v # vs)))"

definition ground_atom :: "subst \<Rightarrow> atom \<Rightarrow> fact option" where
  "ground_atom sub a = ground_args sub (at_args a)"

text \<open>The check of one candidate, column by column: \<open>Inr None\<close> when it does not match.\<close>

fun match_args :: "subst \<Rightarrow> pterm list \<Rightarrow> fact \<Rightarrow> pcas_error + subst option" where
  "match_args sub [] f = Inr (Some sub)"
| "match_args sub (Constant c # ts) f = (case f of
       [] \<Rightarrow> Inl IndexError
     | v # vs \<Rightarrow> if fv_eq v c then match_args sub ts vs else Inr None)"
| "match_args sub (Variable x # ts) f =
     (if is_anonymous x then match_args sub ts (drop 1 f)
      else case f of
        [] \<Rightarrow> Inl IndexError
      | v # vs \<Rightarrow> (case sub x of
            Some w \<Rightarrow> if fv_eq w v then match_args sub ts vs else Inr None
          | None \<Rightarrow> match_args (sub(x \<mapsto> v)) ts vs))"

definition bound_cols :: "subst \<Rightarrow> pterm list \<Rightarrow> nat list" where
  "bound_cols sub ts = filter (\<lambda>i. resolve_term sub (ts ! i) \<noteq> None) [0..<length ts]"

definition join_one :: "(fact list \<Rightarrow> fact list) \<Rightarrow> atom \<Rightarrow> relation \<Rightarrow> subst \<Rightarrow> pcas_error + subst list" where
  "join_one fo a rel sub =
     (let cols = bound_cols sub (at_args a);
          vals = map (\<lambda>i. the (resolve_term sub (at_args a ! i))) cols
      in sbind (rel_lookup fo cols vals rel) (\<lambda>cands.
         sbind (err_map (match_args sub (at_args a)) cands) (\<lambda>ms. Inr (map the (filter (\<lambda>m. m \<noteq> None) ms)))))"

definition join_atom :: "(fact list \<Rightarrow> fact list) \<Rightarrow> (string \<rightharpoonup> relation) \<Rightarrow> atom \<Rightarrow> subst list \<Rightarrow> pcas_error + subst list" where
  "join_atom fo facts a subs = (case facts (at_predicate a) of
       None \<Rightarrow> Inr []
     | Some rel \<Rightarrow> sbind (err_map (join_one fo a rel) subs) (\<lambda>xs. Inr (concat xs)))"

fun join_atoms :: "(fact list \<Rightarrow> fact list) \<Rightarrow> (string \<rightharpoonup> relation) \<Rightarrow> atom list \<Rightarrow> subst list \<Rightarrow> pcas_error + subst list" where
  "join_atoms fo facts [] subs = Inr subs"
| "join_atoms fo facts (a # as) subs = sbind (join_atom fo facts a subs) (\<lambda>subs'.
     if subs' = [] then Inr [] else join_atoms fo facts as subs')"

text \<open>One helper on one substitution: the substitutions it leaves, none or one.\<close>

definition helper_predicate :: "helper \<Rightarrow> pterm list \<Rightarrow> subst \<Rightarrow> subst list" where
  "helper_predicate reg ts sub = (case ground_args sub ts of
       None \<Rightarrow> []
     | Some args \<Rightarrow> (case hp_fn reg args of None \<Rightarrow> [] | Some v \<Rightarrow> if fv_truthy v then [sub] else []))"

definition helper_function :: "helper \<Rightarrow> pterm list \<Rightarrow> subst \<Rightarrow> subst list" where
  "helper_function reg ts sub = (case ground_args sub (butlast ts) of
       None \<Rightarrow> []
     | Some inputs \<Rightarrow> (case hp_fn reg inputs of
           None \<Rightarrow> []
         | Some result \<Rightarrow> (case last ts of
               Constant c \<Rightarrow> if fv_eq result c then [sub] else []
             | Variable x \<Rightarrow>
                 if is_anonymous x then [sub]
                 else (case sub x of
                     Some w \<Rightarrow> if fv_eq w result then [sub] else []
                   | None \<Rightarrow> [sub(x \<mapsto> result)]))))"

fun apply_helpers :: "registry \<Rightarrow> (string \<times> pterm list) list \<Rightarrow> subst list \<Rightarrow> pcas_error + subst list" where
  "apply_helpers hreg [] subs = Inr subs"
| "apply_helpers hreg ((h, ts) # hs) subs = (case map_of hreg h of
       None \<Rightarrow> Inr []
     | Some reg \<Rightarrow>
         if length ts \<noteq> hp_arity reg then Inl EvaluationError
         else if hp_kind reg = FunctionHelper \<and> ts = [] then Inl IndexError
         else (let subs' = concat (map (case hp_kind reg of PredicateHelper \<Rightarrow> helper_predicate reg ts
                                         | FunctionHelper \<Rightarrow> helper_function reg ts) subs)
               in if subs' = [] then Inr [] else apply_helpers hreg hs subs'))"

definition negated_holds :: "(string \<rightharpoonup> relation) \<Rightarrow> subst \<Rightarrow> atom \<Rightarrow> bool" where
  "negated_holds facts sub a = (case ground_atom sub a of
       None \<Rightarrow> False
     | Some g \<Rightarrow> (case facts (at_predicate a) of None \<Rightarrow> True | Some rel \<Rightarrow> \<not> fact_in g (rl_facts rel)))"

definition filter_negated :: "(string \<rightharpoonup> relation) \<Rightarrow> atom list \<Rightarrow> subst list \<Rightarrow> subst list" where
  "filter_negated facts negs subs = filter (\<lambda>sub. list_all (negated_holds facts sub) negs) subs"

definition derive :: "(fact list \<Rightarrow> fact list) \<Rightarrow> registry \<Rightarrow> (string \<rightharpoonup> relation) \<Rightarrow> rule \<Rightarrow> pcas_error + fact list" where
  "derive fo hreg facts r =
     sbind (join_atoms fo facts (body_positive_atoms r) [Map.empty]) (\<lambda>subs1.
       if subs1 = [] then Inr []
       else sbind (apply_helpers hreg (body_helpers r) subs1) (\<lambda>subs2.
         if subs2 = [] then Inr []
         else Inr (List.map_filter (\<lambda>sub. ground_atom sub (ru_head r)) (filter_negated facts (body_negated_atoms r) subs2))))"

section \<open>The fixpoint of a stratum\<close>

text \<open>
  One round: what the rules derive and is not yet known, per predicate. \<^verbatim>\<open>additions\<close> and the buckets are
  lists of pairs of a predicate and its new facts.
\<close>

definition rule_additions :: "(fact list \<Rightarrow> fact list) \<Rightarrow> registry \<Rightarrow> (string \<rightharpoonup> relation) \<Rightarrow> rule \<Rightarrow> pcas_error + fact list" where
  "rule_additions fo hreg facts r =
     (if is_fact r then Inr []
      else sbind (derive fo hreg facts r) (\<lambda>derived.
        if derived = [] then Inr []
        else case facts (at_predicate (ru_head r)) of
          None \<Rightarrow> Inl KeyError
        | Some rel \<Rightarrow> Inr (filter (\<lambda>f. \<not> fact_in f (rl_facts rel)) derived)))"

fun bucket_add :: "string \<Rightarrow> fact list \<Rightarrow> (string \<times> fact list) list \<Rightarrow> (string \<times> fact list) list" where
  "bucket_add p fs [] = [(p, foldl add_fact [] fs)]"
| "bucket_add p fs ((q, gs) # bs) = (if q = p then (q, foldl add_fact gs fs) # bs else (q, gs) # bucket_add p fs bs)"

fun collect_round :: "(fact list \<Rightarrow> fact list) \<Rightarrow> registry \<Rightarrow> (string \<rightharpoonup> relation) \<Rightarrow> rule list \<Rightarrow> (string \<times> fact list) list \<Rightarrow>
    pcas_error + (string \<times> fact list) list" where
  "collect_round fo hreg facts [] bs = Inr bs"
| "collect_round fo hreg facts (r # rs) bs = sbind (rule_additions fo hreg facts r) (\<lambda>adds.
     collect_round fo hreg facts rs (if adds = [] then bs else bucket_add (at_predicate (ru_head r)) adds bs))"

fun commit_round :: "(string \<times> fact list) list \<Rightarrow> (string \<rightharpoonup> relation) \<Rightarrow> pcas_error + (string \<rightharpoonup> relation)" where
  "commit_round [] facts = Inr facts"
| "commit_round ((p, adds) # bs) facts =
     (if adds = [] then commit_round bs facts
      else case facts p of
        None \<Rightarrow> Inl KeyError
      | Some rel \<Rightarrow> sbind (with_facts rel adds) (\<lambda>rel'. commit_round bs (facts(p \<mapsto> rel'))))"

text \<open>The loop with the number of rounds that are left before \<^verbatim>\<open>MAX_ITERATIONS\<close>.\<close>

fun stratum_rounds :: "nat \<Rightarrow> (fact list \<Rightarrow> fact list) \<Rightarrow> registry \<Rightarrow> rule list \<Rightarrow> (string \<rightharpoonup> relation) \<Rightarrow>
    pcas_error + (string \<rightharpoonup> relation)" where
  "stratum_rounds 0 fo hreg rs facts = Inl EvaluationError"
| "stratum_rounds (Suc k) fo hreg rs facts = sbind (collect_round fo hreg facts rs []) (\<lambda>bs.
     if list_all (\<lambda>(p, fs). fs = []) bs then Inr facts
     else sbind (commit_round bs facts) (stratum_rounds k fo hreg rs))"

definition max_iterations :: nat where
  "max_iterations = 1024"

definition evaluate_stratum :: "(fact list \<Rightarrow> fact list) \<Rightarrow> registry \<Rightarrow> stratum \<Rightarrow> (string \<rightharpoonup> relation) \<Rightarrow>
    pcas_error + (string \<rightharpoonup> relation)" where
  "evaluate_stratum fo hreg s facts = stratum_rounds max_iterations fo hreg (sm_rules s) facts"

fun evaluate_strata :: "(fact list \<Rightarrow> fact list) \<Rightarrow> registry \<Rightarrow> stratum list \<Rightarrow> (string \<rightharpoonup> relation) \<Rightarrow>
    pcas_error + (string \<rightharpoonup> relation)" where
  "evaluate_strata fo hreg [] facts = Inr facts"
| "evaluate_strata fo hreg (s # ss) facts = sbind (evaluate_stratum fo hreg s facts) (evaluate_strata fo hreg ss)"

section \<open>The evaluator\<close>

record evaluator =
  ev_program :: program
  ev_strata :: "stratum list"
  ev_helpers :: registry
  ev_arities :: "string \<rightharpoonup> nat"

definition set_default :: "('k \<rightharpoonup> 'v) \<Rightarrow> 'k \<Rightarrow> 'v \<Rightarrow> ('k \<rightharpoonup> 'v)" where
  "set_default m k v = (case m k of None \<Rightarrow> m(k \<mapsto> v) | Some _ \<Rightarrow> m)"

definition arity_rule :: "(string \<rightharpoonup> nat) \<Rightarrow> rule \<Rightarrow> pcas_error + (string \<rightharpoonup> nat)" where
  "arity_rule m r = (let h = ru_head r; m1 = set_default m (at_predicate h) (at_arity h) in
     if m1 (at_predicate h) \<noteq> Some (at_arity h) then Inl EvaluationError
     else Inr (foldl (\<lambda>m a. set_default m (at_predicate a) (at_arity a)) m1
                 (body_positive_atoms r @ body_negated_atoms r)))"

fun arity_table :: "(string \<rightharpoonup> nat) \<Rightarrow> rule list \<Rightarrow> pcas_error + (string \<rightharpoonup> nat)" where
  "arity_table m [] = Inr m"
| "arity_table m (r # rs) = sbind (arity_rule m r) (\<lambda>m'. arity_table m' rs)"

definition evaluator_init :: "(string list \<Rightarrow> string list) \<Rightarrow> registry \<Rightarrow> program \<Rightarrow> pcas_error + evaluator" where
  "evaluator_init so hreg p0 = sbind (stratify so (map fst hreg) p0) (\<lambda>(p, strata).
     sbind (arity_table Map.empty (pg_rules p)) (\<lambda>m.
       Inr \<lparr>ev_program = p, ev_strata = strata, ev_helpers = hreg, ev_arities = m\<rparr>))"

text \<open>The predicates a program mentions, the keys of the arity table.\<close>

definition program_preds :: "program \<Rightarrow> string list" where
  "program_preds p = concat (map (\<lambda>r. at_predicate (ru_head r) #
     map at_predicate (body_positive_atoms r @ body_negated_atoms r)) (pg_rules p))"

text \<open>The extensional database is a list of named relations.\<close>

fun seed_edb :: "(string \<rightharpoonup> nat) \<Rightarrow> (string \<times> relation) list \<Rightarrow> (string \<rightharpoonup> relation) \<Rightarrow> pcas_error + (string \<rightharpoonup> relation)" where
  "seed_edb ar [] facts = Inr facts"
| "seed_edb ar ((n, rel) # es) facts =
     (if ar n \<noteq> None \<and> ar n \<noteq> Some (rl_arity rel) then Inl EvaluationError
      else seed_edb ar es (facts(n \<mapsto> rel)))"

fun seed_empty :: "(string \<rightharpoonup> nat) \<Rightarrow> string list \<Rightarrow> (string \<rightharpoonup> relation) \<Rightarrow> pcas_error + (string \<rightharpoonup> relation)" where
  "seed_empty ar [] facts = Inr facts"
| "seed_empty ar (p # ps) facts =
     (if facts p \<noteq> None then seed_empty ar ps facts
      else sbind (new_relation p (the (ar p)) []) (\<lambda>rel. seed_empty ar ps (facts(p \<mapsto> rel))))"

fun seed_facts :: "rule list \<Rightarrow> (string \<rightharpoonup> relation) \<Rightarrow> pcas_error + (string \<rightharpoonup> relation)" where
  "seed_facts [] facts = Inr facts"
| "seed_facts (r # rs) facts =
     (if \<not> is_fact r then seed_facts rs facts
      else case ground_atom Map.empty (ru_head r) of
        None \<Rightarrow> Inl EvaluationError
      | Some g \<Rightarrow> (case facts (at_predicate (ru_head r)) of
            None \<Rightarrow> Inl KeyError
          | Some rel \<Rightarrow> sbind (with_facts rel [g]) (\<lambda>rel'. seed_facts rs (facts(at_predicate (ru_head r) \<mapsto> rel')))))"

definition pcas_evaluate :: "(fact list \<Rightarrow> fact list) \<Rightarrow> evaluator \<Rightarrow> (string \<times> relation) list \<Rightarrow> pcas_error + (string \<rightharpoonup> relation)" where
  "pcas_evaluate fo ev edb =
     sbind (seed_edb (ev_arities ev) edb Map.empty) (\<lambda>f1.
     sbind (seed_empty (ev_arities ev) (program_preds (ev_program ev)) f1) (\<lambda>f2.
     sbind (seed_facts (pg_rules (ev_program ev)) f2) (\<lambda>f3.
     evaluate_strata fo (ev_helpers ev) (ev_strata ev) f3)))"

end
