(* ===== verification/Pcas_Fixpoint.thy ===== *)
theory Pcas_Fixpoint
  imports Pcas_Evaluator
begin

text \<open>
  What the PCAS evaluator computes: the stable model of the policy over the extensional database.
  The meaning of a rule is given by valuations of its variables, as in the Datalog literature; the
  evaluator's joins, index lookups, substitutions, rounds and strata are shown to compute it.
\<close>

section \<open>The meaning of rules\<close>

definition fact_base :: "(string \<rightharpoonup> relation) \<Rightarrow> (string \<times> fact) set" where
  "fact_base facts = {(n, f). \<exists>rel. facts n = Some rel \<and> f \<in> set (rl_facts rel)}"

fun term_value :: "(string \<Rightarrow> fact_value) \<Rightarrow> pterm \<Rightarrow> fact_value" where
  "term_value \<sigma> (Constant c) = c"
| "term_value \<sigma> (Variable x) = \<sigma> x"

text \<open>An anonymous variable matches anything.\<close>

fun term_matches :: "(string \<Rightarrow> fact_value) \<Rightarrow> pterm \<Rightarrow> fact_value \<Rightarrow> bool" where
  "term_matches \<sigma> (Constant c) v \<longleftrightarrow> v = c"
| "term_matches \<sigma> (Variable x) v \<longleftrightarrow> is_anonymous x \<or> v = \<sigma> x"

definition atom_matches :: "(string \<Rightarrow> fact_value) \<Rightarrow> atom \<Rightarrow> fact \<Rightarrow> bool" where
  "atom_matches \<sigma> a f \<longleftrightarrow> list_all2 (term_matches \<sigma>) (at_args a) f"

definition no_anonymous :: "pterm list \<Rightarrow> bool" where
  "no_anonymous ts \<longleftrightarrow> list_all (\<lambda>x. \<not> is_anonymous x) (args_vars ts)"

text \<open>A helper with ground arguments; a function helper is compared with its last argument.\<close>

definition helper_true :: "registry \<Rightarrow> (string \<Rightarrow> fact_value) \<Rightarrow> string \<times> pterm list \<Rightarrow> bool" where
  "helper_true hreg \<sigma> c = (case map_of hreg (fst c) of
       None \<Rightarrow> False
     | Some reg \<Rightarrow> (case hp_kind reg of
           PredicateHelper \<Rightarrow> no_anonymous (snd c) \<and>
             (\<exists>v. hp_fn reg (map (term_value \<sigma>) (snd c)) = Some v \<and> fv_truthy v)
         | FunctionHelper \<Rightarrow> snd c \<noteq> [] \<and> no_anonymous (butlast (snd c)) \<and>
             (\<exists>v. hp_fn reg (map (term_value \<sigma>) (butlast (snd c))) = Some v \<and>
                (\<not> no_anonymous [last (snd c)] \<or> fv_eq (term_value \<sigma> (last (snd c))) v))))"

definition body_true :: "registry \<Rightarrow> (string \<times> fact) set \<Rightarrow> (string \<times> fact) set \<Rightarrow> rule \<Rightarrow> (string \<Rightarrow> fact_value) \<Rightarrow> bool" where
  "body_true hreg P N r \<sigma> \<longleftrightarrow>
     (\<forall>a\<in>set (body_positive_atoms r). \<exists>f. atom_matches \<sigma> a f \<and> (at_predicate a, f) \<in> P) \<and>
     (\<forall>c\<in>set (body_helpers r). helper_true hreg \<sigma> c) \<and>
     (\<forall>a\<in>set (body_negated_atoms r). \<forall>f. atom_matches \<sigma> a f \<longrightarrow> (at_predicate a, f) \<notin> N)"

definition head_value :: "rule \<Rightarrow> (string \<Rightarrow> fact_value) \<Rightarrow> string \<times> fact" where
  "head_value r \<sigma> = (at_predicate (ru_head r), map (term_value \<sigma>) (at_args (ru_head r)))"

definition consequences :: "registry \<Rightarrow> (string \<times> fact) set \<Rightarrow> (string \<times> fact) set \<Rightarrow> rule \<Rightarrow> (string \<times> fact) set" where
  "consequences hreg P N r = {head_value r \<sigma> | \<sigma>. body_true hreg P N r \<sigma>}"

lemma body_true_mono:
  "(\<And>x. P x \<longrightarrow> P' x) \<Longrightarrow> body_true hreg {x. P x} N r \<sigma> \<longrightarrow> body_true hreg {x. P' x} N r \<sigma>"
  unfolding body_true_def by blast

lemma body_true_subset: "P \<subseteq> P' \<Longrightarrow> body_true hreg P N r \<sigma> \<Longrightarrow> body_true hreg P' N r \<sigma>"
  unfolding body_true_def by blast

text \<open>The least set that holds \<open>B\<close> and is closed under the rules, negation being judged in \<open>N\<close>.\<close>

inductive_set datalog :: "registry \<Rightarrow> rule set \<Rightarrow> (string \<times> fact) set \<Rightarrow> (string \<times> fact) set \<Rightarrow> (string \<times> fact) set"
  for hreg R B N where
  base: "x \<in> B \<Longrightarrow> x \<in> datalog hreg R B N"
| rule: "r \<in> R \<Longrightarrow> body_true hreg (datalog hreg R B N) N r \<sigma> \<Longrightarrow> head_value r \<sigma> \<in> datalog hreg R B N"
  monos body_true_mono

text \<open>
  A stable model of the rules over \<open>B\<close>: a set that is derived from \<open>B\<close> by the rules when negation is
  judged in the set itself.
\<close>

definition stable_model :: "registry \<Rightarrow> rule set \<Rightarrow> (string \<times> fact) set \<Rightarrow> (string \<times> fact) set \<Rightarrow> bool" where
  "stable_model hreg R B M \<longleftrightarrow> M = datalog hreg R B M"

section \<open>Plain values\<close>

text \<open>Away from booleans, Python's equality is equality.\<close>

fun plain :: "fact_value \<Rightarrow> bool" where
  "plain (FBool b) = False"
| "plain v = True"

primrec plain_term :: "pterm \<Rightarrow> bool" where
  "plain_term (Constant c) = plain c"
| "plain_term (Variable x) = True"

lemma fv_key_plain: "plain a \<Longrightarrow> plain b \<Longrightarrow> fv_key a = fv_key b \<longleftrightarrow> a = b"
  by (cases a; cases b) auto

lemma fv_eq_plain: "plain a \<Longrightarrow> plain b \<Longrightarrow> fv_eq a b \<longleftrightarrow> a = b"
  by (simp add: fv_eq_def fv_key_plain)

lemma fact_eq_plain: "list_all plain f \<Longrightarrow> list_all plain g \<Longrightarrow> fact_eq f g \<longleftrightarrow> f = g"
  unfolding fact_eq_def by (intro inj_on_map_eq_map inj_onI) (auto simp: list_all_iff fv_key_plain)

lemma fact_in_plain: "list_all plain f \<Longrightarrow> \<forall>g\<in>set fs. list_all plain g \<Longrightarrow> fact_in f fs \<longleftrightarrow> f \<in> set fs"
  by (auto simp: fact_in_def list_ex_iff fact_eq_plain)

lemma add_facts_plain:
  "\<forall>g\<in>set fs \<union> set gs. list_all plain g \<Longrightarrow> set (foldl add_fact fs gs) = set fs \<union> set gs"
proof (induction gs arbitrary: fs)
  case (Cons g gs)
  have "set (add_fact fs g) = insert g (set fs)" using Cons.prems by (auto simp: add_fact_def fact_in_plain)
  with Cons show ?case by simp
qed simp

definition wf_facts :: "(string \<rightharpoonup> relation) \<Rightarrow> bool" where
  "wf_facts facts \<longleftrightarrow> (\<forall>n rel f. facts n = Some rel \<longrightarrow> f \<in> set (rl_facts rel) \<longrightarrow> length f = rl_arity rel \<and> list_all plain f)"

text \<open>The atoms of a rule have the arity of their relation and no boolean constants.\<close>

definition rule_fits :: "(string \<rightharpoonup> relation) \<Rightarrow> rule \<Rightarrow> bool" where
  "rule_fits facts r \<longleftrightarrow> (\<forall>a\<in>set (ru_head r # body_positive_atoms r @ body_negated_atoms r).
     list_all plain_term (at_args a) \<and> (\<exists>rel. facts (at_predicate a) = Some rel \<and> rl_arity rel = at_arity a))"

section \<open>Joins find the matching substitutions\<close>

fun sub_matches :: "subst \<Rightarrow> pterm \<Rightarrow> fact_value \<Rightarrow> bool" where
  "sub_matches sub (Constant c) v \<longleftrightarrow> v = c"
| "sub_matches sub (Variable x) v \<longleftrightarrow> is_anonymous x \<or> sub x = Some v"

definition named_vars :: "pterm list \<Rightarrow> string set" where
  "named_vars ts = {x\<in>set (args_vars ts). \<not> is_anonymous x}"

lemma named_vars_simps [simp]:
  "named_vars [] = {}" "named_vars (Constant c # ts) = named_vars ts"
  "named_vars (Variable x # ts) = (if is_anonymous x then {} else {x}) \<union> named_vars ts"
  by (auto simp: named_vars_def args_vars_def)

lemma sub_matches_mono: "sub \<subseteq>\<^sub>m sub' \<Longrightarrow> sub_matches sub t v \<Longrightarrow> sub_matches sub' t v"
  by (cases t) (auto simp: map_le_def dom_def)

lemma match_args_sound:
  assumes "match_args sub ts f = Inr (Some sub')" and "length f = length ts" and "list_all plain f"
    and "list_all plain_term ts" and "\<forall>v\<in>ran sub. plain v"
  shows "sub \<subseteq>\<^sub>m sub' \<and> dom sub' = dom sub \<union> named_vars ts \<and> list_all2 (sub_matches sub') ts f \<and> (\<forall>v\<in>ran sub'. plain v)"
  using assms
proof (induction sub ts f rule: match_args.induct)
  case (2 sub c ts f)
  then show ?case by (cases f) (auto simp: fv_eq_plain split: if_splits)
next
  case (3 sub x ts f)
  then obtain v vs where f: "f = v # vs" by (cases f) auto
  show ?case
  proof (cases "is_anonymous x")
    case False
    show ?thesis
    proof (cases "sub x")
      case None
      have "match_args (sub(x \<mapsto> v)) ts vs = Inr (Some sub')" "length vs = length ts" "list_all plain vs"
        "list_all plain_term ts" "\<forall>a\<in>ran (sub(x \<mapsto> v)). plain a"
        using 3(4-8) f False by (simp_all add: ran_map_upd None)
      from 3(2)[OF False f None this] have "sub(x \<mapsto> v) \<subseteq>\<^sub>m sub' \<and> dom sub' = dom (sub(x \<mapsto> v)) \<union> named_vars ts \<and>
          list_all2 (sub_matches sub') ts vs \<and> (\<forall>v\<in>ran sub'. plain v)" .
      moreover from this have "sub' x = Some v" by (auto simp: map_le_def)
      moreover have "sub \<subseteq>\<^sub>m sub(x \<mapsto> v)" using None by (auto simp: map_le_def)
      ultimately show ?thesis using f False by (auto intro: map_le_trans)
    next
      case (Some w)
      then have "plain w" using 3(8) by (auto simp: ran_def)
      then have "w = v" using 3(4,6) f Some False by (auto simp: fv_eq_plain split: if_splits)
      with 3(3)[OF False f Some] 3(4-8) f Some False have "sub \<subseteq>\<^sub>m sub' \<and> dom sub' = dom sub \<union> named_vars ts \<and>
          list_all2 (sub_matches sub') ts vs \<and> (\<forall>v\<in>ran sub'. plain v)" by (auto simp: fv_eq_def)
      moreover from this have "sub' x = Some v" using Some \<open>w = v\<close> by (auto simp: map_le_def dom_def)
      ultimately show ?thesis using f Some False by auto
    qed
  qed (use 3 f in auto)
qed auto

lemma match_args_complete:
  assumes "list_all2 (sub_matches \<tau>) ts f" and "sub \<subseteq>\<^sub>m \<tau>"
  shows "\<exists>sub'. match_args sub ts f = Inr (Some sub') \<and> sub' \<subseteq>\<^sub>m \<tau>"
  using assms
proof (induction sub ts f rule: match_args.induct)
  case (2 sub c ts f)
  then show ?case by (cases f) (auto simp: fv_eq_def)
next
  case (3 sub x ts f)
  then obtain v vs where f: "f = v # vs" "sub_matches \<tau> (Variable x) v" "list_all2 (sub_matches \<tau>) ts vs" by (cases f) auto
  show ?case
  proof (cases "is_anonymous x")
    case False
    show ?thesis
    proof (cases "sub x")
      case None
      have "\<tau> x = Some v" using f(2) False by simp
      then have "sub(x \<mapsto> v) \<subseteq>\<^sub>m \<tau>" using 3(5) by (simp add: map_le_def)
      from 3(2)[OF False f(1) None f(3) this] f None False show ?thesis by (simp del: fun_upd_apply)
    next
      case (Some w)
      then have "w = v" using f False 3(5) by (auto simp: map_le_def dom_def)
      with 3(3)[OF False f(1) Some] f Some False 3(5) show ?thesis by (auto simp: fv_eq_def)
    qed
  qed (use 3 f in auto)
qed auto

lemma join_one_sound:
  assumes "join_one fo a rel sub = Inr out" and "sub' \<in> set out" and "set_order fo"
  shows "\<exists>f\<in>set (rl_facts rel). match_args sub (at_args a) f = Inr (Some sub')"
proof -
  from assms(1) obtain cands ms where c: "rel_lookup fo (bound_cols sub (at_args a))
      (map (\<lambda>i. the (resolve_term sub (at_args a ! i))) (bound_cols sub (at_args a))) rel = Inr cands"
    "err_map (match_args sub (at_args a)) cands = Inr ms" "out = map the (filter (\<lambda>m. m \<noteq> None) ms)"
    by (auto simp: join_one_def Let_def sbind_rules)
  from assms(2) c(3) have "Some sub' \<in> set ms" by auto
  from err_map_source[OF c(2) this] obtain f where "f \<in> set cands" "match_args sub (at_args a) f = Inr (Some sub')" by auto
  moreover have "set cands \<subseteq> set (rl_facts rel)"
    using c(1) assms(3) by (auto simp: rel_lookup_def set_order_def split: if_splits)
  ultimately show ?thesis by auto
qed

lemma bound_cols_match:
  assumes "list_all2 (sub_matches \<tau>) ts f" and "sub \<subseteq>\<^sub>m \<tau>"
  shows "map (\<lambda>c. f ! c) (bound_cols sub ts) = map (\<lambda>i. the (resolve_term sub (ts ! i))) (bound_cols sub ts)"
proof (rule map_cong)
  fix i
  assume "i \<in> set (bound_cols sub ts)"
  then have i: "i < length ts" "resolve_term sub (ts ! i) \<noteq> None" by (auto simp: bound_cols_def)
  with assms(1) have "sub_matches \<tau> (ts ! i) (f ! i)" by (simp add: list_all2_conv_all_nth)
  with i(2) assms(2) show "f ! i = the (resolve_term sub (ts ! i))"
    by (cases "ts ! i") (auto simp: map_le_def dom_def split: if_splits)
qed simp

lemma join_one_complete:
  assumes "join_one fo a rel sub = Inr out" and "set_order fo" and "f \<in> set (rl_facts rel)"
    and "list_all2 (sub_matches \<tau>) (at_args a) f" and "sub \<subseteq>\<^sub>m \<tau>"
  shows "\<exists>sub'\<in>set out. sub' \<subseteq>\<^sub>m \<tau>"
proof -
  from assms(1) obtain cands ms where c: "rel_lookup fo (bound_cols sub (at_args a))
      (map (\<lambda>i. the (resolve_term sub (at_args a ! i))) (bound_cols sub (at_args a))) rel = Inr cands"
    "err_map (match_args sub (at_args a)) cands = Inr ms" "out = map the (filter (\<lambda>m. m \<noteq> None) ms)"
    by (auto simp: join_one_def Let_def sbind_rules)
  have "f \<in> set cands"
    using c(1) assms(2,3) bound_cols_match[OF assms(4,5)]
    by (auto simp: rel_lookup_def set_order_def fact_eq_def split: if_splits)
  from err_map_target[OF c(2) this] match_args_complete[OF assms(4,5)]
  obtain sub' where "Some sub' \<in> set ms" "sub' \<subseteq>\<^sub>m \<tau>" by auto
  with c(3) show ?thesis by force
qed

lemma join_atom_sound:
  assumes "join_atom fo facts a subs = Inr out" and "sub' \<in> set out" and "set_order fo"
  shows "\<exists>sub\<in>set subs. \<exists>f. (at_predicate a, f) \<in> fact_base facts \<and> match_args sub (at_args a) f = Inr (Some sub')"
proof -
  from assms(1,2) obtain rel xss where r: "facts (at_predicate a) = Some rel" "err_map (join_one fo a rel) subs = Inr xss"
    "out = concat xss" by (auto simp: join_atom_def sbind_rules split: option.splits)
  from assms(2) r(3) obtain xs where "xs \<in> set xss" "sub' \<in> set xs" by auto
  from err_map_source[OF r(2) this(1)] obtain sub where s: "sub \<in> set subs" "join_one fo a rel sub = Inr xs" by auto
  from join_one_sound[OF s(2) \<open>sub' \<in> set xs\<close> assms(3)] r(1) s(1) show ?thesis by (auto simp: fact_base_def)
qed

lemma join_atom_complete:
  assumes "join_atom fo facts a subs = Inr out" and "set_order fo" and "sub \<in> set subs" and "sub \<subseteq>\<^sub>m \<tau>"
    and "(at_predicate a, f) \<in> fact_base facts" and "list_all2 (sub_matches \<tau>) (at_args a) f"
  shows "\<exists>sub'\<in>set out. sub' \<subseteq>\<^sub>m \<tau>"
proof -
  from assms(5) obtain rel where r: "facts (at_predicate a) = Some rel" "f \<in> set (rl_facts rel)" by (auto simp: fact_base_def)
  with assms(1) obtain xss where x: "err_map (join_one fo a rel) subs = Inr xss" "out = concat xss"
    by (auto simp: join_atom_def sbind_rules)
  from err_map_target[OF x(1) assms(3)] obtain xs where "xs \<in> set xss" "join_one fo a rel sub = Inr xs" by auto
  with join_one_complete[OF this(2) assms(2) r(2) assms(6,4)] x(2) show ?thesis by auto
qed

definition atoms_vars :: "atom list \<Rightarrow> string set" where
  "atoms_vars as = (\<Union>a\<in>set as. named_vars (at_args a))"

text \<open>The database and the atoms of a rule fit each other.\<close>

definition atoms_fit :: "(string \<rightharpoonup> relation) \<Rightarrow> atom list \<Rightarrow> bool" where
  "atoms_fit facts as \<longleftrightarrow> (\<forall>a\<in>set as. list_all plain_term (at_args a) \<and>
     (\<forall>f. (at_predicate a, f) \<in> fact_base facts \<longrightarrow> length f = at_arity a \<and> list_all plain f))"

lemma join_atoms_sound:
  assumes "join_atoms fo facts as subs = Inr out" and "sub' \<in> set out" and "set_order fo" and "atoms_fit facts as"
    and "\<forall>s\<in>set subs. \<forall>v\<in>ran s. plain v"
  shows "\<exists>sub\<in>set subs. sub \<subseteq>\<^sub>m sub' \<and> dom sub' = dom sub \<union> atoms_vars as \<and> (\<forall>v\<in>ran sub'. plain v) \<and>
    (\<forall>a\<in>set as. \<exists>f. (at_predicate a, f) \<in> fact_base facts \<and> list_all2 (sub_matches sub') (at_args a) f)"
  using assms
proof (induction as arbitrary: subs)
  case (Cons a as)
  from Cons.prems(1,2) obtain mid where m: "join_atom fo facts a subs = Inr mid" "join_atoms fo facts as mid = Inr out"
    by (auto simp: sbind_rules split: if_splits)
  have one: "\<exists>sub\<in>set subs. \<exists>f. (at_predicate a, f) \<in> fact_base facts \<and> sub \<subseteq>\<^sub>m s \<and> dom s = dom sub \<union> named_vars (at_args a) \<and>
      list_all2 (sub_matches s) (at_args a) f \<and> (\<forall>v\<in>ran s. plain v)" if s: "s \<in> set mid" for s
  proof -
    from join_atom_sound[OF m(1) s Cons.prems(3)] obtain sub f where
      "sub \<in> set subs" "(at_predicate a, f) \<in> fact_base facts" "match_args sub (at_args a) f = Inr (Some s)" by auto
    with match_args_sound[OF this(3)] Cons.prems(4,5) show ?thesis by (auto simp: atoms_fit_def at_arity_def)
  qed
  have "atoms_fit facts as" using Cons.prems(4) by (simp add: atoms_fit_def)
  from Cons.IH[OF m(2) Cons.prems(2,3) this] one obtain s where s: "s \<in> set mid" "s \<subseteq>\<^sub>m sub'" "dom sub' = dom s \<union> atoms_vars as"
    "\<forall>v\<in>ran sub'. plain v" "\<forall>a\<in>set as. \<exists>f. (at_predicate a, f) \<in> fact_base facts \<and> list_all2 (sub_matches sub') (at_args a) f"
    by blast
  from one[OF s(1)] obtain sub f where t: "sub \<in> set subs" "(at_predicate a, f) \<in> fact_base facts" "sub \<subseteq>\<^sub>m s"
    "dom s = dom sub \<union> named_vars (at_args a)" "list_all2 (sub_matches s) (at_args a) f" by blast
  have "list_all2 (sub_matches sub') (at_args a) f"
    using t(5) by (rule list_all2_mono) (rule sub_matches_mono[OF s(2)])
  with s t show ?case by (intro bexI[of _ sub]) (auto simp: atoms_vars_def intro: map_le_trans)
next
  case Nil
  then show ?case by (intro bexI[of _ sub']) (auto simp: atoms_vars_def)
qed

lemma join_atoms_complete:
  assumes "join_atoms fo facts as subs = Inr out" and "set_order fo" and "sub \<in> set subs" and "sub \<subseteq>\<^sub>m \<tau>"
    and "\<forall>a\<in>set as. \<exists>f. (at_predicate a, f) \<in> fact_base facts \<and> list_all2 (sub_matches \<tau>) (at_args a) f"
  shows "\<exists>sub'\<in>set out. sub' \<subseteq>\<^sub>m \<tau>"
  using assms
proof (induction as arbitrary: subs sub)
  case (Cons a as)
  from Cons.prems(1) obtain mid where m: "join_atom fo facts a subs = Inr mid"
    "(if mid = [] then Inr [] else join_atoms fo facts as mid) = Inr out" by (auto simp: sbind_rules)
  from Cons.prems(5) join_atom_complete[OF m(1) Cons.prems(2-4)] obtain s where s: "s \<in> set mid" "s \<subseteq>\<^sub>m \<tau>" by auto
  then have "join_atoms fo facts as mid = Inr out" using m(2) by (auto split: if_splits)
  with Cons.IH[OF this Cons.prems(2) s] Cons.prems(5) show ?case by auto
qed auto

section \<open>A rule derives its consequences\<close>

definition sub_value :: "subst \<Rightarrow> string \<Rightarrow> fact_value" where
  "sub_value sub x = (case sub x of Some v \<Rightarrow> v | None \<Rightarrow> FInt 0)"

abbreviation agrees_with :: "subst \<Rightarrow> (string \<Rightarrow> fact_value) \<Rightarrow> bool" where
  "agrees_with sub \<sigma> \<equiv> sub \<subseteq>\<^sub>m (Some \<circ> \<sigma>)"

lemma agrees_sub_value: "agrees_with sub (sub_value sub)"
  by (auto simp: map_le_def sub_value_def dom_def)

lemma sub_matches_total: "sub_matches (Some \<circ> \<sigma>) = term_matches \<sigma>"
proof (intro ext)
  show "sub_matches (Some \<circ> \<sigma>) t v = term_matches \<sigma> t v" for t v by (cases t) auto
qed

lemma no_anonymous_simps [simp]:
  "no_anonymous []" "no_anonymous (Constant c # ts) = no_anonymous ts"
  "no_anonymous (Variable x # ts) \<longleftrightarrow> \<not> is_anonymous x \<and> no_anonymous ts"
  by (auto simp: no_anonymous_def args_vars_def)

lemma ground_args_value:
  assumes "agrees_with sub \<sigma>" and "named_vars ts \<subseteq> dom sub"
  shows "ground_args sub ts = (if no_anonymous ts then Some (map (term_value \<sigma>) ts) else None)"
  using assms(2)
proof (induction ts)
  case (Cons t ts)
  show ?case
  proof (cases t)
    case (Variable x)
    have "sub x = Some (\<sigma> x)" if "\<not> is_anonymous x"
      using Cons.prems assms(1) that by (auto simp: Variable map_le_def)
    with Cons show ?thesis by (auto simp: Variable)
  qed (use Cons in auto)
qed simp

lemma named_vars_append: "named_vars (ts @ us) = named_vars ts \<union> named_vars us"
  by (auto simp: named_vars_def args_vars_def)

lemma named_vars_butlast: "named_vars (butlast ts) \<subseteq> named_vars ts"
  by (cases ts rule: rev_cases) (auto simp: named_vars_append)

lemma helper_step_value:
  assumes "map_of hreg h = Some reg" and "agrees_with sub \<sigma>" and "named_vars ts \<subseteq> dom sub"
    and "hp_kind reg = FunctionHelper \<Longrightarrow> ts \<noteq> []"
  shows "(case hp_kind reg of PredicateHelper \<Rightarrow> helper_predicate reg ts | FunctionHelper \<Rightarrow> helper_function reg ts) sub =
    (if helper_true hreg \<sigma> (h, ts) then [sub] else [])"
proof (cases "hp_kind reg")
  case PredicateHelper
  with assms(1) ground_args_value[OF assms(2,3)] show ?thesis
    by (auto simp: helper_predicate_def helper_true_def split: option.splits)
next
  case FunctionHelper
  have g: "ground_args sub (butlast ts) = (if no_anonymous (butlast ts) then Some (map (term_value \<sigma>) (butlast ts)) else None)"
    using assms(2,3) named_vars_butlast by (intro ground_args_value) auto
  have "named_vars [last ts] \<subseteq> named_vars ts"
    using assms(4)[OF FunctionHelper] by (cases ts rule: rev_cases) (auto simp: named_vars_append)
  then have l: "sub x = Some (\<sigma> x)" if "last ts = Variable x" "\<not> is_anonymous x" for x
    using assms(2,3) that by (auto simp: map_le_def)
  show ?thesis
    using FunctionHelper assms(1) assms(4)[OF FunctionHelper] g l
    by (cases "last ts") (auto simp: helper_function_def helper_true_def fv_eq_def split: option.splits)
qed

lemma apply_helpers_correct:
  assumes "apply_helpers hreg hs subs = Inr out" and "\<forall>s\<in>set subs. \<forall>c\<in>set hs. named_vars (snd c) \<subseteq> dom s"
  shows "set out = {s\<in>set subs. \<forall>c\<in>set hs. helper_true hreg (sub_value s) c}"
  using assms
proof (induction hs arbitrary: subs)
  case (Cons c hs)
  obtain h ts where c: "c = (h, ts)" by (cases c)
  show ?case
  proof (cases "map_of hreg h")
    case None
    with Cons.prems(1) show ?thesis by (simp add: c helper_true_def)
  next
    case (Some reg)
    let ?f = "case hp_kind reg of PredicateHelper \<Rightarrow> helper_predicate reg ts | FunctionHelper \<Rightarrow> helper_function reg ts"
    define subs' where "subs' = concat (map ?f subs)"
    have k: "hp_kind reg = FunctionHelper \<Longrightarrow> ts \<noteq> []" using Cons.prems(1) Some by (auto simp: c split: if_splits)
    have e: "?f s = (if helper_true hreg (sub_value s) (h, ts) then [s] else [])" if "s \<in> set subs" for s
      using Cons.prems(2) that by (intro helper_step_value[OF Some agrees_sub_value _ k]) (auto simp: c)
    have s': "set subs' = {s\<in>set subs. helper_true hreg (sub_value s) (h, ts)}"
      unfolding subs'_def using e by (auto split: if_splits)
    have "(if subs' = [] then Inr [] else apply_helpers hreg hs subs') = Inr out"
    proof -
      have "apply_helpers hreg (c # hs) subs = (if length ts \<noteq> hp_arity reg then Inl EvaluationError
          else if hp_kind reg = FunctionHelper \<and> ts = [] then Inl IndexError
          else if subs' = [] then Inr [] else apply_helpers hreg hs subs')"
        unfolding c subs'_def by (simp only: apply_helpers.simps Some option.case Let_def)
      with Cons.prems(1) show ?thesis by (cases "subs' = []") (simp_all split: if_splits)
    qed
    note j = this
    show ?thesis
    proof (cases "subs' = []")
      case True
      with j have "out = []" by simp
      moreover have "{s\<in>set subs. helper_true hreg (sub_value s) (h, ts)} = {}" using s' True by simp
      ultimately show ?thesis by (auto simp: c)
    next
      case False
      then have "apply_helpers hreg hs subs' = Inr out" using j by simp
      moreover have "\<forall>s\<in>set subs'. \<forall>c\<in>set hs. named_vars (snd c) \<subseteq> dom s" using Cons.prems(2) s' by simp
      ultimately have "set out = {s\<in>set subs'. \<forall>c\<in>set hs. helper_true hreg (sub_value s) c}" by (rule Cons.IH)
      then show ?thesis unfolding s' c by auto
    qed
  qed
qed simp

lemma term_value_matches: "term_matches \<sigma> t (term_value \<sigma> t)"
  by (cases t) auto

lemma atom_matches_ground:
  "no_anonymous (at_args a) \<Longrightarrow> atom_matches \<sigma> a f \<longleftrightarrow> f = map (term_value \<sigma>) (at_args a)"
  unfolding atom_matches_def
proof (induction "at_args a" arbitrary: a f)
  case (Cons t ts)
  have IH: "list_all2 (term_matches \<sigma>) ts g \<longleftrightarrow> g = map (term_value \<sigma>) ts" for g
    using Cons.hyps(1)[of "\<lparr>at_predicate = [], at_args = ts\<rparr>" g] Cons.prems Cons.hyps(2) by (cases t) (auto simp: Cons.hyps(2)[symmetric])
  have "t = Variable x \<Longrightarrow> \<not> is_anonymous x" for x using Cons.prems by (auto simp: Cons.hyps(2)[symmetric])
  then have "term_matches \<sigma> t v \<longleftrightarrow> v = term_value \<sigma> t" for v by (cases t) auto
  with IH show ?case by (cases f) (auto simp: Cons.hyps(2)[symmetric])
qed simp

text \<open>What a rule needs for the evaluator to follow its meaning.\<close>

definition rule_ok :: "rule \<Rightarrow> bool" where
  "rule_ok r \<longleftrightarrow> rule_safe r \<and> list_all plain_term (at_args (ru_head r)) \<and>
     (\<forall>a\<in>set (body_negated_atoms r). no_anonymous (at_args a))"

lemma positive_vars_set: "set (positive_vars r) = atoms_vars (body_positive_atoms r)"
  by (auto simp: positive_vars_def atoms_vars_def named_vars_def at_variables_def)

lemma bound_in_named: "list_all (bound_in pv) (args_vars ts) \<longleftrightarrow> named_vars ts \<subseteq> set pv"
  by (auto simp: list_all_iff bound_in_def named_vars_def)

lemma rule_ok_bound:
  assumes "rule_ok r"
  shows "named_vars (at_args (ru_head r)) \<subseteq> atoms_vars (body_positive_atoms r)"
    "no_anonymous (at_args (ru_head r))"
    "\<And>a. a \<in> set (body_negated_atoms r) \<Longrightarrow> named_vars (at_args a) \<subseteq> atoms_vars (body_positive_atoms r)"
    "\<And>c. c \<in> set (body_helpers r) \<Longrightarrow> named_vars (snd c) \<subseteq> atoms_vars (body_positive_atoms r)"
  using assms
  by (auto simp: rule_ok_def rule_safe_def Let_def at_variables_def bound_in_named positive_vars_set
      list_all_iff[of _ "body_negated_atoms r"] list_all_iff[of _ "body_helpers r"])
     (auto simp: list_all_iff named_vars_def no_anonymous_def)

lemma term_values_plain:
  "list_all plain_term ts \<Longrightarrow> \<forall>x\<in>named_vars ts. plain (\<sigma> x) \<Longrightarrow> no_anonymous ts \<Longrightarrow> list_all plain (map (term_value \<sigma>) ts)"
proof (induction ts)
  case (Cons t ts)
  then show ?case by (cases t) auto
qed simp

lemma term_values_cong:
  "no_anonymous ts \<Longrightarrow> (\<And>x. x \<in> named_vars ts \<Longrightarrow> \<sigma> x = \<sigma>' x) \<Longrightarrow> map (term_value \<sigma>) ts = map (term_value \<sigma>') ts"
proof (induction ts)
  case (Cons t ts)
  then show ?case by (cases t) auto
qed simp

lemma helper_true_cong:
  assumes "\<And>x. x \<in> named_vars (snd c) \<Longrightarrow> \<sigma> x = \<sigma>' x"
  shows "helper_true hreg \<sigma> c = helper_true hreg \<sigma>' c"
proof -
  obtain h ts where c: "c = (h, ts)" by (cases c)
  have a: "no_anonymous us \<Longrightarrow> named_vars us \<subseteq> named_vars ts \<Longrightarrow> map (term_value \<sigma>) us = map (term_value \<sigma>') us" for us
    using assms by (intro term_values_cong) (auto simp: c)
  have l: "ts \<noteq> [] \<Longrightarrow> no_anonymous [last ts] \<Longrightarrow> term_value \<sigma> (last ts) = term_value \<sigma>' (last ts)"
    using a[of "[last ts]"] by (cases ts rule: rev_cases) (auto simp: named_vars_append)
  show ?thesis
    using a[of ts] a[OF _ named_vars_butlast] l
    by (auto simp: helper_true_def c simp del: map_eq_conv split: option.splits helper_kind.splits)
qed

lemma negated_holds_value:
  assumes "agrees_with sub \<sigma>" and "named_vars (at_args a) \<subseteq> dom sub" and "no_anonymous (at_args a)"
    and "atoms_fit facts [a]" and "\<forall>v\<in>ran sub. plain v"
  shows "negated_holds facts sub a \<longleftrightarrow> (\<forall>f. atom_matches \<sigma> a f \<longrightarrow> (at_predicate a, f) \<notin> fact_base facts)"
proof -
  let ?g = "map (term_value \<sigma>) (at_args a)"
  have g: "ground_atom sub a = Some ?g" using assms(1-3) by (simp add: ground_atom_def ground_args_value)
  have "\<forall>x\<in>named_vars (at_args a). plain (\<sigma> x)"
    using assms(1,2,5) by (fastforce simp: map_le_def ran_def dom_def)
  then have p: "list_all plain ?g" using assms(3,4) by (intro term_values_plain) (auto simp: atoms_fit_def)
  have "fact_in ?g (rl_facts rel) \<longleftrightarrow> ?g \<in> set (rl_facts rel)" if "facts (at_predicate a) = Some rel" for rel
    using assms(4) that by (intro fact_in_plain[OF p]) (auto simp: atoms_fit_def fact_base_def)
  then show ?thesis
    unfolding negated_holds_def g atom_matches_ground[OF assms(3)]
    by (auto simp: fact_base_def split: option.splits)
qed

lemma set_map_filter: "set (List.map_filter f xs) = {y. \<exists>x\<in>set xs. f x = Some y}"
  by (induction xs) (auto simp: map_filter_simps split: option.splits)

lemma derive_correct:
  assumes d: "derive fo hreg facts r = Inr out" and fo: "set_order fo" and ok: "rule_ok r"
    and fit: "atoms_fit facts (body_positive_atoms r @ body_negated_atoms r)"
  shows "Pair (at_predicate (ru_head r)) ` set out = consequences hreg (fact_base facts) (fact_base facts) r"
proof -
  let ?D = "fact_base facts" and ?pos = "body_positive_atoms r" and ?neg = "body_negated_atoms r"
  note b = rule_ok_bound[OF ok]
  have fitp: "atoms_fit facts ?pos" and fitn: "\<And>a. a \<in> set ?neg \<Longrightarrow> atoms_fit facts [a]"
    using fit by (auto simp: atoms_fit_def)
  obtain s1 where s1: "join_atoms fo facts ?pos [Map.empty] = Inr s1" using d by (auto simp: derive_def sbind_rules)
  have join: "dom s = atoms_vars ?pos \<and> (\<forall>v\<in>ran s. plain v) \<and>
      (\<forall>a\<in>set ?pos. \<exists>f. (at_predicate a, f) \<in> ?D \<and> list_all2 (sub_matches s) (at_args a) f)" if "s \<in> set s1" for s
    using join_atoms_sound[OF s1 that fo fitp] by auto
  define s2 where "s2 = {s\<in>set s1. \<forall>c\<in>set (body_helpers r). helper_true hreg (sub_value s) c}"
  define s3 where "s3 = {s\<in>s2. \<forall>a\<in>set ?neg. negated_holds facts s a}"
  have out: "set out = {map (term_value (sub_value s)) (at_args (ru_head r)) | s. s \<in> s3}"
  proof -
    have g: "ground_atom s (ru_head r) = Some (map (term_value (sub_value s)) (at_args (ru_head r)))" if "s \<in> set s1" for s
      using join[OF that] b(1,2) by (simp add: ground_atom_def ground_args_value[OF agrees_sub_value])
    show ?thesis
    proof (cases "s1 = []")
      case False
      with d s1 have "sbind (apply_helpers hreg (body_helpers r) s1) (\<lambda>s. if s = [] then Inr []
          else Inr (List.map_filter (\<lambda>sub. ground_atom sub (ru_head r)) (filter_negated facts ?neg s))) = Inr out"
        by (simp add: derive_def)
      then obtain s where s: "apply_helpers hreg (body_helpers r) s1 = Inr s"
        "(if s = [] then Inr [] else Inr (List.map_filter (\<lambda>sub. ground_atom sub (ru_head r)) (filter_negated facts ?neg s))) = (Inr out :: pcas_error + fact list)"
        by (simp only: sbind_eq_Inr) (elim exE conjE, rule that)
      have "\<forall>x\<in>set s1. \<forall>c\<in>set (body_helpers r). named_vars (snd c) \<subseteq> dom x"
      proof (intro ballI)
        fix x c assume "x \<in> set s1" "c \<in> set (body_helpers r)"
        then show "named_vars (snd c) \<subseteq> dom x" using join[of x] b(4)[of c] by simp
      qed
      from apply_helpers_correct[OF s(1) this] have "set s = s2" by (simp add: s2_def)
      then have "set (filter_negated facts ?neg s) = s3" by (auto simp: filter_negated_def s3_def list_all_iff)
      moreover have "set out = {f. \<exists>x\<in>set (filter_negated facts ?neg s). ground_atom x (ru_head r) = Some f}"
        using s(2) by (cases "s = []") (auto simp: set_map_filter filter_negated_def)
      ultimately have "set out = {f. \<exists>x\<in>s3. ground_atom x (ru_head r) = Some f}" by simp
      also have "\<dots> = {map (term_value (sub_value x)) (at_args (ru_head r)) | x. x \<in> s3}"
        using g by (auto simp: s3_def s2_def)
      finally show ?thesis .
    qed (use d s1 in \<open>auto simp: derive_def s3_def s2_def\<close>)
  qed
  show ?thesis
  proof (intro set_eqI iffI)
    fix x
    assume "x \<in> Pair (at_predicate (ru_head r)) ` set out"
    then obtain s where s: "s \<in> s3" "x = head_value r (sub_value s)" by (auto simp: out head_value_def)
    then have s1': "s \<in> set s1" by (simp add: s3_def s2_def)
    note j = join[OF s1']
    have "\<exists>f. atom_matches (sub_value s) a f \<and> (at_predicate a, f) \<in> ?D" if a: "a \<in> set ?pos" for a
    proof -
      from j a obtain f where f: "(at_predicate a, f) \<in> ?D" "list_all2 (sub_matches s) (at_args a) f" by blast
      have "list_all2 (sub_matches (Some \<circ> sub_value s)) (at_args a) f"
        using f(2) by (rule list_all2_mono) (rule sub_matches_mono[OF agrees_sub_value])
      then show ?thesis using f(1) by (auto simp: atom_matches_def sub_matches_total)
    qed
    moreover have "\<forall>f. atom_matches (sub_value s) a f \<longrightarrow> (at_predicate a, f) \<notin> ?D" if a: "a \<in> set ?neg" for a
      using s(1) a j b(3)[OF a] ok negated_holds_value[OF agrees_sub_value _ _ fitn[OF a], of s]
      by (auto simp: s3_def rule_ok_def)
    ultimately have "body_true hreg ?D ?D r (sub_value s)" using s(1) by (auto simp: body_true_def s3_def s2_def)
    with s(2) show "x \<in> consequences hreg ?D ?D r" by (auto simp: consequences_def)
  next
    fix x
    assume "x \<in> consequences hreg ?D ?D r"
    then obtain \<sigma> where x: "x = head_value r \<sigma>" and bt: "body_true hreg ?D ?D r \<sigma>" by (auto simp: consequences_def)
    have "\<exists>s\<in>set s1. agrees_with s \<sigma>"
      using bt by (intro join_atoms_complete[OF s1 fo, of Map.empty]) (auto simp: body_true_def sub_matches_total atom_matches_def)
    then obtain s where s: "s \<in> set s1" "agrees_with s \<sigma>" ..
    note j = join[OF s(1)]
    have v: "sub_value s y = \<sigma> y" if "y \<in> atoms_vars ?pos" for y
      using j s(2) that by (auto simp: sub_value_def map_le_def split: option.splits)
    have "helper_true hreg (sub_value s) c" if c: "c \<in> set (body_helpers r)" for c
      using bt b(4)[OF c] v c helper_true_cong[of c "sub_value s" \<sigma> hreg] by (auto simp: body_true_def)
    moreover have "negated_holds facts s a" if a: "a \<in> set ?neg" for a
      using bt a j b(3)[OF a] ok negated_holds_value[OF s(2) _ _ fitn[OF a]] by (auto simp: body_true_def rule_ok_def)
    ultimately have "s \<in> s3" using s(1) by (auto simp: s3_def s2_def)
    moreover have "map (term_value (sub_value s)) (at_args (ru_head r)) = map (term_value \<sigma>) (at_args (ru_head r))"
      using b(1,2) v by (intro term_values_cong) auto
    ultimately show "x \<in> Pair (at_predicate (ru_head r)) ` set out" unfolding out x head_value_def by force
  qed
qed

section \<open>A round of a stratum\<close>

text \<open>Every fact has the arity of its predicate and no boolean, and so have the atoms of a rule.\<close>

definition typed_base :: "(string \<Rightarrow> nat) \<Rightarrow> (string \<times> fact) set \<Rightarrow> bool" where
  "typed_base ar D \<longleftrightarrow> (\<forall>x\<in>D. length (snd x) = ar (fst x) \<and> list_all plain (snd x))"

definition typed_rule :: "(string \<Rightarrow> nat) \<Rightarrow> rule \<Rightarrow> bool" where
  "typed_rule ar r \<longleftrightarrow> rule_ok r \<and> (\<forall>a\<in>set (ru_head r # body_positive_atoms r @ body_negated_atoms r).
     at_arity a = ar (at_predicate a) \<and> list_all plain_term (at_args a))"

lemma typed_base_simps:
  "typed_base ar (A \<union> B) \<longleftrightarrow> typed_base ar A \<and> typed_base ar B"
  "typed_base ar (Pair p ` F) \<longleftrightarrow> (\<forall>f\<in>F. length f = ar p \<and> list_all plain f)"
  by (auto simp: typed_base_def)

lemma typed_fit:
  "typed_base ar (fact_base facts) \<Longrightarrow> typed_rule ar r \<Longrightarrow> atoms_fit facts (body_positive_atoms r @ body_negated_atoms r)"
  by (auto simp: atoms_fit_def typed_base_def typed_rule_def)

lemma matched_value: "list_all2 (term_matches \<sigma>) ts f \<Longrightarrow> x \<in> named_vars ts \<Longrightarrow> \<sigma> x \<in> set f"
proof (induction ts arbitrary: f)
  case (Cons t ts)
  then show ?case by (cases t; cases f) (auto split: if_splits)
qed simp

lemma consequences_typed:
  assumes "typed_base ar P" and "typed_rule ar r"
  shows "typed_base ar (consequences hreg P N r)"
proof -
  have "length (snd (head_value r \<sigma>)) = ar (fst (head_value r \<sigma>)) \<and> list_all plain (snd (head_value r \<sigma>))"
    if bt: "body_true hreg P N r \<sigma>" for \<sigma>
  proof -
    have ok: "rule_ok r" using assms(2) by (simp add: typed_rule_def)
    have "plain (\<sigma> x)" if x: "x \<in> named_vars (at_args (ru_head r))" for x
    proof -
      from x rule_ok_bound(1)[OF ok] obtain a where a: "a \<in> set (body_positive_atoms r)" "x \<in> named_vars (at_args a)"
        by (auto simp: atoms_vars_def)
      with bt obtain f where f: "atom_matches \<sigma> a f" "(at_predicate a, f) \<in> P" by (auto simp: body_true_def)
      from matched_value[OF f(1)[unfolded atom_matches_def] a(2)] f(2) assms(1) show ?thesis
        by (auto simp: typed_base_def list_all_iff)
    qed
    then have "list_all plain (map (term_value \<sigma>) (at_args (ru_head r)))"
      using assms(2) rule_ok_bound(2)[OF ok] by (intro term_values_plain) (auto simp: typed_rule_def)
    then show ?thesis using assms(2) by (simp add: head_value_def typed_rule_def at_arity_def)
  qed
  then show ?thesis unfolding typed_base_def consequences_def by blast
qed

definition new_consequences :: "registry \<Rightarrow> (string \<times> fact) set \<Rightarrow> rule list \<Rightarrow> (string \<times> fact) set" where
  "new_consequences hreg D rs = (\<Union>r\<in>{r\<in>set rs. \<not> is_fact r}. consequences hreg D D r)"

definition bucket_set :: "(string \<times> fact list) list \<Rightarrow> (string \<times> fact) set" where
  "bucket_set bs = {(p, f). \<exists>fs. (p, fs) \<in> set bs \<and> f \<in> set fs}"

lemma bucket_set_simps [simp]:
  "bucket_set [] = {}" "bucket_set ((p, fs) # bs) = Pair p ` set fs \<union> bucket_set bs"
  by (auto simp: bucket_set_def)

lemma bucket_add_set:
  "\<forall>f\<in>set fs. list_all plain f \<Longrightarrow> \<forall>x\<in>bucket_set bs. list_all plain (snd x) \<Longrightarrow>
   bucket_set (bucket_add p fs bs) = Pair p ` set fs \<union> bucket_set bs"
proof (induction p fs bs rule: bucket_add.induct)
  case (2 p fs q gs bs)
  have "\<forall>f\<in>set gs. list_all plain f" "\<forall>x\<in>bucket_set bs. list_all plain (snd x)"
    using 2(3) unfolding bucket_set_simps ball_Un by simp_all
  moreover from this 2(2) have "set (foldl add_fact gs fs) = set gs \<union> set fs" by (intro add_facts_plain) auto
  ultimately show ?case using 2(1,2) by auto
qed (simp add: add_facts_plain)

lemma rule_additions_set:
  assumes "rule_additions fo hreg facts r = Inr adds" and "set_order fo"
    and "typed_base ar (fact_base facts)" and "typed_rule ar r"
  shows "Pair (at_predicate (ru_head r)) ` set adds =
    (if is_fact r then {} else consequences hreg (fact_base facts) (fact_base facts) r - fact_base facts)"
proof (cases "is_fact r")
  case False
  let ?D = "fact_base facts" and ?p = "at_predicate (ru_head r)"
  from assms(1) False obtain ds where ds: "derive fo hreg facts r = Inr ds" by (auto simp: rule_additions_def sbind_rules)
  have c: "Pair ?p ` set ds = consequences hreg ?D ?D r"
    using assms(4) by (intro derive_correct[OF ds assms(2) _ typed_fit[OF assms(3,4)]]) (simp add: typed_rule_def)
  show ?thesis
  proof (cases "ds = []")
    case True
    with assms(1) ds False c show ?thesis by (auto simp: rule_additions_def)
  next
    case ne: False
    with assms(1) ds False obtain rel where rel: "facts ?p = Some rel" "adds = filter (\<lambda>f. \<not> fact_in f (rl_facts rel)) ds"
      by (auto simp: rule_additions_def split: option.splits)
    have "list_all plain f" if "f \<in> set ds" for f
      using consequences_typed[OF assms(3,4), of hreg ?D] that unfolding c[symmetric] by (auto simp: typed_base_def)
    moreover have "\<forall>g\<in>set (rl_facts rel). list_all plain g"
      using assms(3) rel(1) by (auto simp: typed_base_def fact_base_def)
    ultimately have "set adds = {f\<in>set ds. f \<notin> set (rl_facts rel)}" using rel(2) by (auto simp: fact_in_plain)
    then have "Pair ?p ` set adds = Pair ?p ` set ds - ?D" using rel(1) by (auto simp: fact_base_def)
    then show ?thesis using c False by simp
  qed
qed (use assms(1) in \<open>auto simp: rule_additions_def\<close>)

lemma collect_round_set:
  assumes "collect_round fo hreg facts rs bs0 = Inr bs" and "set_order fo"
    and "typed_base ar (fact_base facts)" and "\<forall>r\<in>set rs. typed_rule ar r" and "typed_base ar (bucket_set bs0)"
  shows "bucket_set bs = bucket_set bs0 \<union> (new_consequences hreg (fact_base facts) rs - fact_base facts)"
  using assms(1,4,5)
proof (induction rs arbitrary: bs0)
  case (Cons r rs)
  let ?D = "fact_base facts"
  from Cons.prems(1) obtain adds where a: "rule_additions fo hreg facts r = Inr adds"
    "collect_round fo hreg facts rs (if adds = [] then bs0 else bucket_add (at_predicate (ru_head r)) adds bs0) = Inr bs"
    by (auto simp: sbind_rules)
  define bs1 where "bs1 = (if adds = [] then bs0 else bucket_add (at_predicate (ru_head r)) adds bs0)"
  have r: "typed_rule ar r" using Cons.prems(2) by simp
  note s = rule_additions_set[OF a(1) assms(2,3) r]
  have t: "typed_base ar (Pair (at_predicate (ru_head r)) ` set adds)"
    unfolding s using consequences_typed[OF assms(3) r, of hreg ?D] by (auto simp: typed_base_def)
  have b: "bucket_set bs1 = Pair (at_predicate (ru_head r)) ` set adds \<union> bucket_set bs0"
    using t Cons.prems(3) unfolding bs1_def by (simp add: typed_base_def bucket_add_set)
  then have "typed_base ar (bucket_set bs1)" using t Cons.prems(3) by (auto simp: typed_base_def)
  with Cons.IH[of bs1] a(2) Cons.prems(2) have "bucket_set bs = bucket_set bs1 \<union> (new_consequences hreg ?D rs - ?D)"
    by (simp add: bs1_def)
  then show ?case unfolding b s by (auto simp: new_consequences_def)
qed (auto simp: new_consequences_def)

lemma with_facts_set:
  assumes "with_facts rel fs = Inr rel'" and "\<forall>f\<in>set (rl_facts rel) \<union> set fs. list_all plain f"
  shows "set (rl_facts rel') = set (rl_facts rel) \<union> set fs"
  using assms by (auto simp: with_facts_def new_relation_def add_facts_plain split: if_splits)

lemma commit_round_set:
  assumes "commit_round bs facts = Inr facts'" and "typed_base ar (fact_base facts)" and "typed_base ar (bucket_set bs)"
  shows "fact_base facts' = fact_base facts \<union> bucket_set bs"
  using assms
proof (induction bs facts rule: commit_round.induct)
  case (2 p adds bs facts)
  show ?case
  proof (cases "adds = []")
    case False
    with 2(3) obtain rel rel' where rel: "facts p = Some rel" "with_facts rel adds = Inr rel'"
      "commit_round bs (facts(p \<mapsto> rel')) = Inr facts'" by (auto simp: sbind_rules split: option.splits)
    have "set (rl_facts rel') = set (rl_facts rel) \<union> set adds"
      using 2(4) 2(5)[unfolded bucket_set_simps typed_base_simps] rel(1)
      by (intro with_facts_set[OF rel(2)]) (auto simp: typed_base_def fact_base_def)
    then have e: "fact_base (facts(p \<mapsto> rel')) = fact_base facts \<union> Pair p ` set adds"
      using rel(1) by (auto simp: fact_base_def split: if_splits)
    have "typed_base ar (fact_base (facts(p \<mapsto> rel')))" "typed_base ar (bucket_set bs)"
      unfolding e using 2(4,5) by (simp_all add: typed_base_simps)
    from 2(2)[OF False rel(1,2,3) this] show ?thesis unfolding e by auto
  qed (use 2 in auto)
qed simp

section \<open>The fixpoint of a stratum\<close>

lemma consequences_pred: "x \<in> consequences hreg P N r \<Longrightarrow> fst x = head_pred r"
  by (auto simp: consequences_def head_value_def head_pred_def)

lemma new_consequences_typed:
  "typed_base ar D \<Longrightarrow> \<forall>r\<in>set rs. typed_rule ar r \<Longrightarrow> typed_base ar (new_consequences hreg D rs)"
  unfolding typed_base_def[of ar "new_consequences hreg D rs"]
proof
  fix x
  assume t: "typed_base ar D" "\<forall>r\<in>set rs. typed_rule ar r" and "x \<in> new_consequences hreg D rs"
  then obtain r where "r \<in> set rs" "x \<in> consequences hreg D D r" by (auto simp: new_consequences_def)
  with consequences_typed[OF t(1), of r hreg D] t(2)
  show "length (snd x) = ar (fst x) \<and> list_all plain (snd x)" by (auto simp: typed_base_def)
qed

lemma typed_base_diff: "typed_base ar A \<Longrightarrow> typed_base ar (A - B)"
  by (auto simp: typed_base_def)

text \<open>
  What the rounds reach: a set closed under the rules, reached from the start by consequences of the
  rules only.
\<close>

lemma stratum_rounds_correct:
  assumes "set_order fo" and "\<forall>r\<in>set rs. typed_rule ar r"
    and "stratum_rounds k fo hreg rs facts = Inr facts'" and "typed_base ar (fact_base facts)"
  shows "typed_base ar (fact_base facts') \<and> fact_base facts \<subseteq> fact_base facts' \<and>
    new_consequences hreg (fact_base facts') rs \<subseteq> fact_base facts' \<and>
    (\<forall>x\<in>fact_base facts' - fact_base facts. fst x \<in> head_pred ` set rs) \<and>
    (\<forall>C. fact_base facts \<subseteq> C \<longrightarrow>
      (\<forall>D. fact_base facts \<subseteq> D \<longrightarrow> D \<subseteq> C \<longrightarrow> (\<forall>x\<in>D - fact_base facts. fst x \<in> head_pred ` set rs) \<longrightarrow>
         new_consequences hreg D rs \<subseteq> C) \<longrightarrow> fact_base facts' \<subseteq> C)"
  using assms(3,4)
proof (induction k arbitrary: facts)
  case (Suc k)
  let ?D = "fact_base facts" and ?h = "head_pred ` set rs"
  from Suc.prems(1) obtain bs where bs: "collect_round fo hreg facts rs [] = Inr bs"
    "(if list_all (\<lambda>(p, fs). fs = []) bs then Inr facts else sbind (commit_round bs facts) (stratum_rounds k fo hreg rs)) = Inr facts'"
    by (simp only: stratum_rounds.simps sbind_eq_Inr) (elim exE conjE, rule that)
  have b: "bucket_set bs = new_consequences hreg ?D rs - ?D"
    using collect_round_set[OF bs(1) assms(1) Suc.prems(2) assms(2)] by (simp add: typed_base_def)
  have np: "fst x \<in> ?h" if "x \<in> new_consequences hreg ?D rs" for x
  proof -
    from that obtain r where r: "r \<in> set rs" "x \<in> consequences hreg ?D ?D r" by (auto simp: new_consequences_def)
    show ?thesis unfolding consequences_pred[OF r(2)] using r(1) by (rule imageI)
  qed
  show ?case
  proof (cases "list_all (\<lambda>(p, fs). fs = []) bs")
    case True
    then have "bucket_set bs = {}" by (auto simp: bucket_set_def list_all_iff)
    then show ?thesis using True bs(2) b Suc.prems(2) by auto
  next
    case False
    with bs(2) obtain mid where m: "commit_round bs facts = Inr mid" "stratum_rounds k fo hreg rs mid = Inr facts'"
      by (auto simp: sbind_rules)
    have t: "typed_base ar (bucket_set bs)"
      unfolding b by (intro typed_base_diff new_consequences_typed Suc.prems(2) assms(2))
    have e: "fact_base mid = ?D \<union> new_consequences hreg ?D rs"
      using commit_round_set[OF m(1) Suc.prems(2) t] b by auto
    have "typed_base ar (fact_base mid)"
      unfolding e using Suc.prems(2) new_consequences_typed[OF Suc.prems(2) assms(2)] by (simp add: typed_base_simps)
    note IH = Suc.IH[OF m(2) this]
    note i = IH[THEN conjunct1] IH[THEN conjunct2, THEN conjunct1] IH[THEN conjunct2, THEN conjunct2, THEN conjunct1]
      IH[THEN conjunct2, THEN conjunct2, THEN conjunct2, THEN conjunct1]
      IH[THEN conjunct2, THEN conjunct2, THEN conjunct2, THEN conjunct2]
    have "fact_base facts' \<subseteq> C" if C: "?D \<subseteq> C"
      and step: "\<And>D. ?D \<subseteq> D \<Longrightarrow> D \<subseteq> C \<Longrightarrow> \<forall>x\<in>D - ?D. fst x \<in> ?h \<Longrightarrow> new_consequences hreg D rs \<subseteq> C" for C
    proof -
      have mC: "fact_base mid \<subseteq> C" using C step[of ?D] e by auto
      moreover have "new_consequences hreg D rs \<subseteq> C"
        if "fact_base mid \<subseteq> D" "D \<subseteq> C" "\<forall>x\<in>D - fact_base mid. fst x \<in> ?h" for D
      proof (rule step)
        show "?D \<subseteq> D" using that(1) e by auto
        show "\<forall>x\<in>D - ?D. fst x \<in> ?h" using that(3) np e by auto
      qed (rule that(2))
      ultimately show ?thesis using i(5) by blast
    qed
    moreover have "?D \<subseteq> fact_base facts'" using i(2) e by auto
    moreover have "fst x \<in> ?h" if "x \<in> fact_base facts' - ?D" for x
      using that i(4) np[of x] e by (cases "x \<in> fact_base mid") auto
    ultimately show ?thesis using i(1,3) by blast
  qed
qed simp

section \<open>The strata\<close>

definition strata_preds :: "stratum list \<Rightarrow> string set" where
  "strata_preds ss = set (concat (map sm_predicates ss))"

lemma evaluate_strata_append:
  "evaluate_strata fo hreg (xs @ ys) facts = sbind (evaluate_strata fo hreg xs facts) (evaluate_strata fo hreg ys)"
  by (induction xs arbitrary: facts) (auto simp: sbind_def split: sum.splits)

lemma evaluate_strata_grows:
  assumes "set_order fo" and "\<forall>s\<in>set ss. \<forall>r\<in>set (sm_rules s). typed_rule ar r \<and> head_pred r \<in> set (sm_predicates s)"
    and "evaluate_strata fo hreg ss facts = Inr facts'" and "typed_base ar (fact_base facts)"
  shows "typed_base ar (fact_base facts') \<and> fact_base facts \<subseteq> fact_base facts' \<and>
    (\<forall>x\<in>fact_base facts' - fact_base facts. fst x \<in> strata_preds ss)"
  using assms(2-4)
proof (induction ss arbitrary: facts)
  case (Cons s ss)
  from Cons.prems(2) obtain mid where m: "evaluate_stratum fo hreg s facts = Inr mid" "evaluate_strata fo hreg ss mid = Inr facts'"
    by (auto simp: sbind_rules)
  have tr: "\<forall>r\<in>set (sm_rules s). typed_rule ar r" using Cons.prems(1) by auto
  note r = stratum_rounds_correct[OF assms(1) tr m(1)[unfolded evaluate_stratum_def] Cons.prems(3)]
  then have t: "typed_base ar (fact_base mid)" "fact_base facts \<subseteq> fact_base mid"
    "\<forall>x\<in>fact_base mid - fact_base facts. fst x \<in> head_pred ` set (sm_rules s)" by blast+
  have rest: "\<forall>s\<in>set ss. \<forall>r\<in>set (sm_rules s). typed_rule ar r \<and> head_pred r \<in> set (sm_predicates s)" using Cons.prems(1) by auto
  have hp: "head_pred ` set (sm_rules s) \<subseteq> set (sm_predicates s)" using Cons.prems(1) by auto
  note IH = Cons.IH[OF rest m(2) t(1)]
  have "fst x \<in> strata_preds (s # ss)" if "x \<in> fact_base facts' - fact_base facts" for x
  proof (cases "x \<in> fact_base mid")
    case True
    with that t(3) hp show ?thesis by (auto simp: strata_preds_def)
  next
    case False
    with that IH have "fst x \<in> strata_preds ss" by blast
    then show ?thesis by (simp add: strata_preds_def)
  qed
  with IH t(2) show ?case by blast
qed simp

lemma strata_disjoint:
  assumes "distinct (concat (map sm_predicates (xs @ ys)))"
  shows "strata_preds xs \<inter> strata_preds ys = {}"
  using assms by (auto simp: strata_preds_def)

text \<open>A run of all strata from a typed start, with what is known of the strata.\<close>

definition strata_run :: "(fact list \<Rightarrow> fact list) \<Rightarrow> registry \<Rightarrow> (string \<Rightarrow> nat) \<Rightarrow> rule list \<Rightarrow> stratum list \<Rightarrow>
    (string \<rightharpoonup> relation) \<Rightarrow> (string \<rightharpoonup> relation) \<Rightarrow> bool" where
  "strata_run fo hreg ar rs strata start final \<longleftrightarrow> set_order fo \<and> stratified rs strata \<and> (\<forall>r\<in>set rs. typed_rule ar r) \<and>
     typed_base ar (fact_base start) \<and> evaluate_strata fo hreg strata start = Inr final"

lemma strata_run_rules:
  assumes "strata_run fo hreg ar rs strata start final" and "strata = xs @ s # ys" and "r \<in> set (sm_rules s)"
  shows "r \<in> set rs" "typed_rule ar r" "pos_preds r \<subseteq> strata_preds (xs @ [s])" "neg_preds r \<subseteq> strata_preds xs"
proof -
  have "s \<in> set strata" using assms(2) by simp
  then have "set (sm_rules s) = {r\<in>set rs. head_pred r \<in> set (sm_predicates s)}"
    using assms(1) unfolding strata_run_def stratified_def by blast
  then show "r \<in> set rs" "typed_rule ar r" using assms(1,3) by (auto simp: strata_run_def)
  have "pos_preds r \<subseteq> set (concat (map sm_predicates xs)) \<union> set (sm_predicates s) \<and>
      neg_preds r \<subseteq> set (concat (map sm_predicates xs))"
    using assms unfolding strata_run_def stratified_def by blast
  then show "pos_preds r \<subseteq> strata_preds (xs @ [s])" "neg_preds r \<subseteq> strata_preds xs" by (auto simp: strata_preds_def)
qed

lemma strata_run_heads:
  assumes "strata_run fo hreg ar rs strata start final" and "set ss \<subseteq> set strata"
  shows "\<forall>s\<in>set ss. \<forall>r\<in>set (sm_rules s). typed_rule ar r \<and> head_pred r \<in> set (sm_predicates s)"
  using assms unfolding strata_run_def stratified_def by blast

lemma strata_run_cut:
  assumes run: "strata_run fo hreg ar rs strata start final" and str: "strata = xs @ ys"
    and ev: "evaluate_strata fo hreg xs start = Inr f1"
  shows "evaluate_strata fo hreg ys f1 = Inr final \<and> typed_base ar (fact_base f1) \<and>
    fact_base start \<subseteq> fact_base f1 \<and> fact_base f1 \<subseteq> fact_base final \<and>
    (\<forall>q f. (q, f) \<in> fact_base final \<longrightarrow> q \<in> strata_preds xs \<longrightarrow> (q, f) \<in> fact_base f1)"
proof -
  have fo: "set_order fo" and ty: "typed_base ar (fact_base start)" and part: "distinct (concat (map sm_predicates (xs @ ys)))"
    using run str by (auto simp: strata_run_def stratified_def)
  have rest: "evaluate_strata fo hreg ys f1 = Inr final"
    using run ev by (simp add: strata_run_def str evaluate_strata_append)
  have g1: "typed_base ar (fact_base f1)" "fact_base start \<subseteq> fact_base f1"
    using evaluate_strata_grows[OF fo strata_run_heads[OF run] ev ty] str by auto
  have g2: "fact_base f1 \<subseteq> fact_base final" "\<forall>x\<in>fact_base final - fact_base f1. fst x \<in> strata_preds ys"
    using evaluate_strata_grows[OF fo strata_run_heads[OF run] rest g1(1)] str by auto
  have "(q, f) \<in> fact_base f1" if "(q, f) \<in> fact_base final" "q \<in> strata_preds xs" for q f
  proof (rule ccontr)
    assume "(q, f) \<notin> fact_base f1"
    then have "q \<in> strata_preds ys" using g2(2) that(1) by force
    then show False using strata_disjoint[OF part] that(2) by auto
  qed
  with rest g1 g2 show ?thesis by blast
qed

lemma strata_run_stratum:
  assumes run: "strata_run fo hreg ar rs strata start final" and str: "strata = xs @ s # ys"
    and ev: "evaluate_strata fo hreg xs start = Inr f1" "evaluate_stratum fo hreg s f1 = Inr f2"
  shows "new_consequences hreg (fact_base f2) (sm_rules s) \<subseteq> fact_base f2"
    "\<And>C. fact_base f1 \<subseteq> C \<Longrightarrow> (\<And>D. fact_base f1 \<subseteq> D \<Longrightarrow> D \<subseteq> C \<Longrightarrow> new_consequences hreg D (sm_rules s) \<subseteq> C) \<Longrightarrow> fact_base f2 \<subseteq> C"
proof -
  have fo: "set_order fo" using run by (simp add: strata_run_def)
  have t1: "typed_base ar (fact_base f1)" using strata_run_cut[OF run str ev(1)] by blast
  have trs: "\<forall>r\<in>set (sm_rules s). typed_rule ar r" using strata_run_rules(2)[OF run str] by blast
  note c = stratum_rounds_correct[OF fo trs ev(2)[unfolded evaluate_stratum_def] t1]
  show "new_consequences hreg (fact_base f2) (sm_rules s) \<subseteq> fact_base f2"
    by (rule c[THEN conjunct2, THEN conjunct2, THEN conjunct1])
  show "fact_base f2 \<subseteq> C" if "fact_base f1 \<subseteq> C"
    "\<And>D. fact_base f1 \<subseteq> D \<Longrightarrow> D \<subseteq> C \<Longrightarrow> new_consequences hreg D (sm_rules s) \<subseteq> C" for C
    by (rule c[THEN conjunct2, THEN conjunct2, THEN conjunct2, THEN conjunct2, rule_format]) (use that in blast)+
qed

text \<open>Nothing is derived that the rules do not give when negation is judged in the result.\<close>

lemma strata_run_sound:
  assumes run: "strata_run fo hreg ar rs strata start final"
    and seeds: "fact_base start = B \<union> {head_value r \<sigma> | r \<sigma>. r \<in> set rs \<and> is_fact r}"
    and "strata = xs @ ys" and "evaluate_strata fo hreg xs start = Inr f1"
  shows "fact_base f1 \<subseteq> datalog hreg (set rs) B (fact_base final)" (is "_ \<subseteq> ?C")
  using assms(3,4)
proof (induction xs arbitrary: ys f1 rule: rev_induct)
  case Nil
  have "head_value r \<sigma> \<in> ?C" if "r \<in> set rs" "is_fact r" for r \<sigma>
    using that by (intro datalog.rule) (auto simp: body_true_def is_fact_def body_positive_atoms_def
        body_helpers_def body_negated_atoms_def)
  with Nil seeds show ?case by (auto intro: datalog.base)
next
  case (snoc s xs)
  from snoc.prems(2) obtain f0 where f0: "evaluate_strata fo hreg xs start = Inr f0" "evaluate_stratum fo hreg s f0 = Inr f1"
    by (auto simp: evaluate_strata_append sbind_rules)
  have str: "strata = xs @ s # ys" using snoc.prems(1) by simp
  show ?case
  proof (rule strata_run_stratum(2)[OF run str f0])
    show "fact_base f0 \<subseteq> ?C" by (rule snoc.IH[OF str f0(1)])
    fix D
    assume D: "fact_base f0 \<subseteq> D" "D \<subseteq> ?C"
    show "new_consequences hreg D (sm_rules s) \<subseteq> ?C"
    proof
      fix x
      assume "x \<in> new_consequences hreg D (sm_rules s)"
      then obtain r \<sigma> where r: "r \<in> set (sm_rules s)" "x = head_value r \<sigma>" "body_true hreg D D r \<sigma>"
        by (auto simp: new_consequences_def consequences_def)
      have "at_predicate a \<in> strata_preds xs" if "a \<in> set (body_negated_atoms r)" for a
        using strata_run_rules(4)[OF run str r(1)] that by (auto simp: neg_preds_def)
      then have "(at_predicate a, f) \<notin> fact_base final" if "a \<in> set (body_negated_atoms r)" "atom_matches \<sigma> a f" for a f
        using strata_run_cut[OF run str f0(1)] D(1) r(3) that unfolding body_true_def by blast
      then have "body_true hreg ?C (fact_base final) r \<sigma>" using r(3) D(2) unfolding body_true_def by blast
      then show "x \<in> ?C" unfolding r(2) using strata_run_rules(1)[OF run str r(1)] by (intro datalog.rule)
    qed
  qed
qed

text \<open>The result is closed under the rules.\<close>

lemma strata_run_closed:
  assumes run: "strata_run fo hreg ar rs strata start final" and r: "r \<in> set rs" "\<not> is_fact r"
    and bt: "body_true hreg (fact_base final) (fact_base final) r \<sigma>"
  shows "head_value r \<sigma> \<in> fact_base final"
proof -
  obtain s where s: "s \<in> set strata" "head_pred r \<in> set (sm_predicates s)" "r \<in> set (sm_rules s)"
    using run r(1) unfolding strata_run_def stratified_def by fastforce
  then obtain xs ys where str: "strata = xs @ s # ys" by (meson split_list)
  obtain f1 f2 where f: "evaluate_strata fo hreg xs start = Inr f1" "evaluate_stratum fo hreg s f1 = Inr f2"
    using run by (auto simp: strata_run_def str evaluate_strata_append sbind_rules)
  have e2: "evaluate_strata fo hreg (xs @ [s]) start = Inr f2" using f by (simp add: evaluate_strata_append)
  have str2: "strata = (xs @ [s]) @ ys" using str by simp
  note cut = strata_run_cut[OF run str2 e2]
  have "at_predicate a \<in> strata_preds (xs @ [s])" if "a \<in> set (body_positive_atoms r)" for a
    using strata_run_rules(3)[OF run str s(3)] that by (auto simp: pos_preds_def)
  then have "body_true hreg (fact_base f2) (fact_base f2) r \<sigma>" using bt cut unfolding body_true_def by blast
  then have "head_value r \<sigma> \<in> new_consequences hreg (fact_base f2) (sm_rules s)"
    using s(3) r(2) by (auto simp: new_consequences_def consequences_def)
  then show ?thesis using strata_run_stratum(1)[OF run str f] cut by blast
qed

lemma strata_run_stable:
  assumes run: "strata_run fo hreg ar rs strata start final"
    and seeds: "fact_base start = B \<union> {head_value r \<sigma> | r \<sigma>. r \<in> set rs \<and> is_fact r}"
  shows "stable_model hreg (set rs) B (fact_base final)"
proof -
  have ev: "evaluate_strata fo hreg strata start = Inr final" using run by (simp add: strata_run_def)
  have up: "fact_base start \<subseteq> fact_base final" using strata_run_cut[OF run, of strata "[]"] ev by simp
  have "x \<in> fact_base final" if "x \<in> datalog hreg (set rs) B (fact_base final)" for x
    using that
  proof (induction rule: datalog.induct)
    case (rule r \<sigma>)
    have bt: "body_true hreg (fact_base final) (fact_base final) r \<sigma>" by (rule body_true_subset[OF _ rule(2)]) auto
    show ?case
    proof (cases "is_fact r")
      case True
      then have "head_value r \<sigma> \<in> fact_base start" unfolding seeds using rule(1) by blast
      then show ?thesis using up by blast
    qed (rule strata_run_closed[OF run rule(1) _ bt])
  qed (use seeds up in auto)
  moreover have "fact_base final \<subseteq> datalog hreg (set rs) B (fact_base final)"
    by (rule strata_run_sound[OF run seeds _ ev]) simp
  ultimately show ?thesis unfolding stable_model_def by blast
qed

section \<open>The evaluator computes a stable model\<close>

definition edb_map :: "(string \<times> relation) list \<Rightarrow> (string \<rightharpoonup> relation)" where
  "edb_map edb = foldl (\<lambda>m e. m(fst e \<mapsto> snd e)) Map.empty edb"

definition edb_base :: "(string \<times> relation) list \<Rightarrow> (string \<times> fact) set" where
  "edb_base edb = fact_base (edb_map edb)"

lemma seed_edb_map: "seed_edb ar edb m = Inr f \<Longrightarrow> f = foldl (\<lambda>m e. m(fst e \<mapsto> snd e)) m edb"
  by (induction ar edb m rule: seed_edb.induct) (auto split: if_splits)

lemma seed_empty_base: "seed_empty ar ps f = Inr f' \<Longrightarrow> fact_base f' = fact_base f"
proof (induction ps arbitrary: f)
  case (Cons p ps)
  show ?case
  proof (cases "f p")
    case None
    with Cons.prems obtain rel where r: "new_relation p (the (ar p)) [] = Inr rel" "seed_empty ar ps (f(p \<mapsto> rel)) = Inr f'"
      by (auto simp: sbind_rules)
    then have "fact_base (f(p \<mapsto> rel)) = fact_base f"
      using None by (auto simp: fact_base_def new_relation_def split: if_splits)
    then show ?thesis by (rule trans[OF Cons.IH[OF r(2)]])
  qed (use Cons in auto)
qed simp

lemma fact_head:
  assumes "rule_ok r" and "is_fact r"
  shows "ground_atom Map.empty (ru_head r) = Some (map (term_value \<sigma>) (at_args (ru_head r)))"
proof -
  have "named_vars (at_args (ru_head r)) = {}"
    using rule_ok_bound(1)[OF assms(1)] assms(2) by (simp add: is_fact_def body_positive_atoms_def atoms_vars_def)
  then show ?thesis using rule_ok_bound(2)[OF assms(1)] by (simp add: ground_atom_def ground_args_value[where \<sigma> = \<sigma>])
qed

lemma seed_facts_base:
  assumes "seed_facts rs f = Inr f'" and "\<forall>r\<in>set rs. typed_rule ar r" and "typed_base ar (fact_base f)"
  shows "fact_base f' = fact_base f \<union> {head_value r \<sigma> | r \<sigma>. r \<in> set rs \<and> is_fact r} \<and> typed_base ar (fact_base f')"
  using assms
proof (induction rs arbitrary: f)
  case (Cons r rs)
  have ok: "rule_ok r" using Cons.prems(2) by (simp add: typed_rule_def)
  let ?p = "at_predicate (ru_head r)"
  show ?case
  proof (cases "is_fact r")
    case True
    note g = fact_head[OF ok True]
    define h where "h = map (term_value (\<lambda>_. FInt 0)) (at_args (ru_head r))"
    have hv: "head_value r \<sigma> = (?p, h)" for \<sigma> using g[of \<sigma>] g[of "\<lambda>_. FInt 0"] by (simp add: head_value_def h_def)
    from Cons.prems(1) True g[of "\<lambda>_. FInt 0"] obtain rel rel' where
      r: "f ?p = Some rel" "with_facts rel [h] = Inr rel'" "seed_facts rs (f(?p \<mapsto> rel')) = Inr f'"
      by (auto simp: sbind_rules h_def split: option.splits)
    have "body_true hreg {} {} r \<sigma>" for hreg \<sigma>
      using True by (auto simp: body_true_def is_fact_def body_positive_atoms_def body_helpers_def body_negated_atoms_def)
    then have "(?p, h) \<in> consequences [] {} {} r" using hv by (auto simp: consequences_def intro: sym)
    then have th: "length h = ar ?p \<and> list_all plain h"
      using consequences_typed[of ar "{}" r "[]" "{}"] Cons.prems(2) by (auto simp: typed_base_def)
    have "set (rl_facts rel') = set (rl_facts rel) \<union> {h}"
      using with_facts_set[OF r(2)] Cons.prems(3) r(1) th by (auto simp: typed_base_def fact_base_def)
    then have e: "fact_base (f(?p \<mapsto> rel')) = fact_base f \<union> {(?p, h)}"
      using r(1) by (auto simp: fact_base_def split: if_splits)
    have "typed_base ar (fact_base (f(?p \<mapsto> rel')))" unfolding e using Cons.prems(3) th by (auto simp: typed_base_def)
    moreover have "\<forall>r\<in>set rs. typed_rule ar r" using Cons.prems(2) by simp
    ultimately have IH: "fact_base f' = fact_base (f(?p \<mapsto> rel')) \<union> {head_value r \<sigma> | r \<sigma>. r \<in> set rs \<and> is_fact r}"
      "typed_base ar (fact_base f')" using Cons.IH[OF r(3)] by blast+
    have "{head_value x \<sigma> | x \<sigma>. x \<in> set (r # rs) \<and> is_fact x} =
        insert (?p, h) {head_value r \<sigma> | r \<sigma>. r \<in> set rs \<and> is_fact r}"
    proof (intro set_eqI iffI)
      fix x assume "x \<in> insert (?p, h) {head_value r \<sigma> | r \<sigma>. r \<in> set rs \<and> is_fact r}"
      then show "x \<in> {head_value x \<sigma> | x \<sigma>. x \<in> set (r # rs) \<and> is_fact x}" using True hv[of "\<lambda>_. FInt 0", symmetric] by auto
    qed (use hv in auto)
    then show ?thesis using IH unfolding e by auto
  next
    case False
    then have e: "{head_value x \<sigma> | x \<sigma>. x \<in> set (r # rs) \<and> is_fact x} = {head_value r \<sigma> | r \<sigma>. r \<in> set rs \<and> is_fact r}" by auto
    have "seed_facts rs f = Inr f'" "\<forall>r\<in>set rs. typed_rule ar r" using Cons.prems(1,2) False by simp_all
    from Cons.IH[OF this Cons.prems(3)] show ?thesis unfolding e .
  qed
qed auto

text \<open>
  The conditions on a policy rule under which the documented meaning applies: atoms have the arity of
  their predicate, no boolean constants, and no anonymous variable in a negated atom.
\<close>

definition policy_rule :: "(string \<Rightarrow> nat) \<Rightarrow> rule \<Rightarrow> bool" where
  "policy_rule ar r \<longleftrightarrow> (\<forall>a\<in>set (body_negated_atoms r). no_anonymous (at_args a)) \<and>
     (\<forall>a\<in>set (ru_head r # body_positive_atoms r @ body_negated_atoms r).
        at_arity a = ar (at_predicate a) \<and> list_all plain_term (at_args a))"

lemma evaluator_init_cases:
  assumes "evaluator_init so hreg p0 = Inr ev"
  shows "stratify so (map fst hreg) p0 = Inr (ev_program ev, ev_strata ev) \<and> ev_helpers ev = hreg \<and>
    arity_table Map.empty (pg_rules (ev_program ev)) = Inr (ev_arities ev)"
  using assms by (auto simp: evaluator_init_def sbind_rules)

lemma pcas_evaluate_stable_model:
  assumes "evaluator_init so hreg p0 = Inr ev" and "set_order so" and "set_order fo"
    and "pcas_evaluate fo ev edb = Inr facts" and "typed_base ar (edb_base edb)"
    and "\<forall>r\<in>set (pg_rules (ev_program ev)). policy_rule ar r"
  shows "stable_model hreg (set (pg_rules (ev_program ev))) (edb_base edb) (fact_base facts)"
proof -
  let ?rs = "pg_rules (ev_program ev)"
  note i = evaluator_init_cases[OF assms(1)]
  have s: "stratified ?rs (ev_strata ev)" "list_all rule_safe ?rs" using stratify_stratified[OF assms(2)] i by blast+
  have tr: "\<forall>r\<in>set ?rs. typed_rule ar r"
    using s(2) assms(6) by (auto simp: typed_rule_def policy_rule_def rule_ok_def list_all_iff)
  from assms(4) obtain f1 f2 f3 where f: "seed_edb (ev_arities ev) edb Map.empty = Inr f1"
    "seed_empty (ev_arities ev) (program_preds (ev_program ev)) f1 = Inr f2" "seed_facts ?rs f2 = Inr f3"
    "evaluate_strata fo hreg (ev_strata ev) f3 = Inr facts"
    using i by (auto simp: pcas_evaluate_def sbind_rules)
  have b: "fact_base f2 = edb_base edb"
    using seed_edb_map[OF f(1)] seed_empty_base[OF f(2)] by (simp add: edb_base_def edb_map_def)
  have t: "fact_base f3 = edb_base edb \<union> {head_value r \<sigma> | r \<sigma>. r \<in> set ?rs \<and> is_fact r}" "typed_base ar (fact_base f3)"
    using seed_facts_base[OF f(3) tr] assms(5) unfolding b by auto
  show ?thesis
    by (rule strata_run_stable[OF _ t(1)]) (use assms(3) s(1) tr t(2) f(4) in \<open>auto simp: strata_run_def\<close>)
qed

section \<open>Stratified rules have one stable model\<close>

lemma stable_model_part:
  assumes st: "stratified rs strata" and m1: "stable_model hreg (set rs) B M1" and m2: "stable_model hreg (set rs) B M2"
    and str: "strata = xs @ s # ys"
    and agree: "\<And>x. fst x \<in> strata_preds xs \<Longrightarrow> x \<in> M1 \<longleftrightarrow> x \<in> M2"
  shows "x \<in> M1 \<Longrightarrow> fst x \<in> set (sm_predicates s) \<Longrightarrow> x \<in> M2"
proof -
  have "x \<in> datalog hreg (set rs) B M1 \<Longrightarrow> fst x \<in> strata_preds (xs @ [s]) \<longrightarrow> x \<in> M2" for x
  proof (induction rule: datalog.induct)
    case (base x)
    then show ?case using m2 datalog.base[of x B hreg "set rs" M2] by (simp add: stable_model_def)
  next
    case (rule r \<sigma>)
    let ?D = "datalog hreg (set rs) B M1 \<inter> {x. fst x \<in> strata_preds (xs @ [s]) \<longrightarrow> x \<in> M2}"
    have inM1: "head_value r \<sigma> \<in> M1"
      using m1 datalog.rule[OF rule(1), of hreg B M1 \<sigma>] body_true_subset[OF _ rule(2)] unfolding stable_model_def by blast
    have hp: "fst (head_value r \<sigma>) = head_pred r" by (simp add: head_value_def head_pred_def)
    have "head_value r \<sigma> \<in> M2" if h: "head_pred r \<in> strata_preds (xs @ [s])"
    proof (cases "head_pred r \<in> strata_preds xs")
      case True
      then show ?thesis using agree[of "head_value r \<sigma>"] inM1 hp by simp
    next
      case False
      then have hs: "head_pred r \<in> set (sm_predicates s)" using h by (simp add: strata_preds_def)
      have rs: "r \<in> set (sm_rules s)" using st rule(1) hs str unfolding stratified_def by fastforce
      have d: "pos_preds r \<subseteq> strata_preds (xs @ [s])" "neg_preds r \<subseteq> strata_preds xs"
        using st str rs unfolding stratified_def strata_preds_def by fastforce+
      have "\<exists>f. atom_matches \<sigma> a f \<and> (at_predicate a, f) \<in> M2" if "a \<in> set (body_positive_atoms r)" for a
        using rule(2) that d(1) by (force simp: body_true_def pos_preds_def)
      moreover have "(at_predicate a, f) \<notin> M2" if "a \<in> set (body_negated_atoms r)" "atom_matches \<sigma> a f" for a f
        using rule(2) that d(2) agree[of "(at_predicate a, f)"] by (auto simp: body_true_def neg_preds_def)
      ultimately have "body_true hreg M2 M2 r \<sigma>" using rule(2) by (auto simp: body_true_def)
      then show ?thesis using m2 datalog.rule[OF rule(1), of hreg B M2 \<sigma>] unfolding stable_model_def by simp
    qed
    then show ?case using hp by simp
  qed
  then show "x \<in> M1 \<Longrightarrow> fst x \<in> set (sm_predicates s) \<Longrightarrow> x \<in> M2"
    using m1 by (auto simp: stable_model_def strata_preds_def)
qed

lemma stable_model_unique:
  assumes st: "stratified rs strata" and m1: "stable_model hreg (set rs) B M1" and m2: "stable_model hreg (set rs) B M2"
  shows "M1 = M2"
proof -
  have pre: "strata = xs @ ys \<Longrightarrow> fst x \<in> strata_preds xs \<Longrightarrow> x \<in> M1 \<longleftrightarrow> x \<in> M2" for xs ys x
  proof (induction xs arbitrary: ys x rule: rev_induct)
    case (snoc s xs)
    have str: "strata = xs @ s # ys" using snoc.prems(1) by simp
    note IH = snoc.IH[OF str]
    show ?case
    proof (cases "fst x \<in> strata_preds xs")
      case False
      then have "fst x \<in> set (sm_predicates s)" using snoc.prems(2) by (simp add: strata_preds_def)
      then show ?thesis
        using stable_model_part[OF st m1 m2 str IH] stable_model_part[OF st m2 m1 str IH[symmetric]] by blast
    qed (rule IH)
  qed (simp add: strata_preds_def)
  have strat: "fst x \<in> strata_preds strata \<Longrightarrow> x \<in> M1 \<longleftrightarrow> x \<in> M2" for x by (rule pre[of strata "[]"]) simp_all
  have base: "x \<in> B" if "stable_model hreg (set rs) B M" "x \<in> M" "fst x \<notin> strata_preds strata" for x M
  proof -
    have "x \<in> datalog hreg (set rs) B M" using that(1,2) by (simp add: stable_model_def)
    then show ?thesis using that(3)
    proof (cases rule: datalog.cases)
      case (rule r \<sigma>)
      then have "fst x \<in> strata_preds strata"
        using st unfolding stratified_def strata_preds_def by (simp add: head_value_def head_pred_def)
      with that(3) show ?thesis by simp
    qed
  qed
  have "B \<subseteq> M1" "B \<subseteq> M2" using m1 m2 datalog.base unfolding stable_model_def by blast+
  with strat base[OF m1] base[OF m2] show ?thesis by blast
qed

section \<open>The iteration cap\<close>

text \<open>
  A round that is not the last one adds a fact, so a stratum that can derive fewer than \<open>n\<close> facts is
  done after \<open>n\<close> rounds and a larger cap changes nothing.
\<close>

lemma stratum_cap_enough:
  assumes "set_order fo" and "\<forall>r\<in>set rs. typed_rule ar r" and "finite C"
    and closed: "\<And>D. D \<subseteq> C \<Longrightarrow> new_consequences hreg D rs \<subseteq> C"
    and "typed_base ar (fact_base facts)" and "fact_base facts \<subseteq> C" and "card (C - fact_base facts) < n" and "n \<le> k"
  shows "stratum_rounds k fo hreg rs facts = stratum_rounds n fo hreg rs facts"
  using assms(5-8)
proof (induction n arbitrary: k facts)
  case (Suc n)
  let ?D = "fact_base facts"
  obtain k' where k: "k = Suc k'" "n \<le> k'" using Suc.prems(4) by (cases k) auto
  show ?case
  proof (cases "collect_round fo hreg facts rs []")
    case (Inr bs)
    have b: "bucket_set bs = new_consequences hreg ?D rs - ?D"
      using collect_round_set[OF Inr assms(1) Suc.prems(1) assms(2)] by (simp add: typed_base_def)
    show ?thesis
    proof (cases "list_all (\<lambda>(p, fs). fs = []) bs")
      case ne: False
      show ?thesis
      proof (cases "commit_round bs facts")
        case m: (Inr mid)
        have t: "typed_base ar (bucket_set bs)"
          unfolding b by (intro typed_base_diff new_consequences_typed Suc.prems(1) assms(2))
        have e: "fact_base mid = ?D \<union> bucket_set bs" by (rule commit_round_set[OF m Suc.prems(1) t])
        have C: "fact_base mid \<subseteq> C" unfolding e b using Suc.prems(2) closed by blast
        from ne obtain q f fs where "(q, f # fs) \<in> set bs" by (auto simp: list_all_iff neq_Nil_conv)
        then have "(q, f) \<in> bucket_set bs" unfolding bucket_set_def by force
        then have "(q, f) \<in> C - ?D" "(q, f) \<in> fact_base mid" using C e b by auto
        then have "C - fact_base mid \<subset> C - ?D" using e by auto
        then have "card (C - fact_base mid) < card (C - ?D)" using assms(3) by (intro psubset_card_mono) auto
        moreover have "typed_base ar (fact_base mid)" unfolding e using Suc.prems(1) t by (simp add: typed_base_simps)
        ultimately have "stratum_rounds k' fo hreg rs mid = stratum_rounds n fo hreg rs mid"
          using Suc.IH[of mid k'] C Suc.prems(3) k(2) by linarith
        then show ?thesis using k(1) Inr m by simp
      qed (use k(1) Inr in simp)
    qed (use k(1) Inr in simp)
  qed (use k(1) in simp)
qed simp

end
