(* ===== verification/Pcas_Total.thy ===== *)
theory Pcas_Total
  imports Pcas_Fixpoint
begin

text \<open>
  When the PCAS evaluator returns. For a policy whose atoms agree in arity and whose helper calls have
  the arity of the helper, no step of an evaluation raises, and the iteration cap is not reached as
  long as fewer facts than rounds can be derived. Predicate names are well formed because the parser
  only builds validated atoms.
\<close>

section \<open>The parser builds validated atoms\<close>

definition name_ok :: "string \<Rightarrow> bool" where
  "name_ok p \<longleftrightarrow> p \<noteq> [] \<and> py_islower (hd p)"

fun element_ok :: "body_element \<Rightarrow> bool" where
  "element_ok (BAtom a) = name_ok (at_predicate a)"
| "element_ok (BNot a) = name_ok (at_predicate a)"
| "element_ok (BHelper h ts) = True"

definition rule_named :: "rule \<Rightarrow> bool" where
  "rule_named r \<longleftrightarrow> name_ok (at_predicate (ru_head r)) \<and> list_all element_ok (ru_body r)"

lemma new_atom_named: "new_atom p args = Inr a \<Longrightarrow> name_ok (at_predicate a)"
  by (auto simp: new_atom_def name_ok_def split: list.splits if_splits)

lemma parse_atom_named: "parse_atom ts = Inr (a, r) \<Longrightarrow> name_ok (at_predicate a)"
  by (auto simp: parse_atom_def sbind_rules new_atom_named split: list.splits pcas_token.splits)

lemma parse_body_element_named: "parse_body_element ts = Inr (e, r) \<Longrightarrow> element_ok e"
  by (auto simp: parse_body_element_def sbind_rules parse_atom_named split: option.splits)

lemma parse_more_body_named: "parse_more_body ts = Inr (es, r) \<Longrightarrow> list_all element_ok es"
proof (induction ts arbitrary: es rule: parse_more_body.induct)
  case (1 ts)
  then show ?case
    by (fastforce simp: parse_more_body.simps[of ts] sbind_rules split: option.splits dest: parse_body_element_named)
qed

lemma parse_rule_named: "parse_rule ts = Inr (x, r) \<Longrightarrow> rule_named x"
  by (auto simp: parse_rule_def parse_body_def sbind_rules rule_named_def split: prod.splits option.splits
      dest!: parse_atom_named parse_body_element_named parse_more_body_named)

lemma parse_rules_named: "parse_rules ts = Inr rs \<Longrightarrow> list_all rule_named rs"
proof (induction ts arbitrary: rs rule: parse_rules.induct)
  case (1 ts)
  then show ?case
    by (fastforce simp: parse_rules.simps[of ts] sbind_rules split: if_splits dest: parse_rule_named)
qed

lemma parse_program_named: "parse_program src name = Inr p \<Longrightarrow> list_all rule_named (pg_rules p)"
  by (auto simp: parse_program_def sbind_rules parse_rules_named split: if_splits)

lemma disambiguate_body_named: "disambiguate_body hs es = Inr es' \<Longrightarrow> list_all element_ok es \<Longrightarrow> list_all element_ok es'"
  by (induction hs es arbitrary: es' rule: disambiguate_body.induct) (auto simp: sbind_rules split: if_splits)

lemma disambiguate_program_named:
  assumes "disambiguate_program hs p = Inr p'" and "list_all rule_named (pg_rules p)"
  shows "list_all rule_named (pg_rules p')"
proof -
  from assms(1) obtain rs where rs: "err_map (\<lambda>r. sbind (disambiguate_body hs (ru_body r)) (\<lambda>b. Inr (r\<lparr>ru_body := b\<rparr>))) (pg_rules p) = Inr rs"
    "pg_rules p' = rs" by (auto simp: disambiguate_program_def sbind_rules)
  have "rule_named x" if "x \<in> set rs" for x
  proof -
    from err_map_source[OF rs(1) that] obtain r where "r \<in> set (pg_rules p)"
      "sbind (disambiguate_body hs (ru_body r)) (\<lambda>b. Inr (r\<lparr>ru_body := b\<rparr>)) = Inr x" by blast
    with assms(2) disambiguate_body_named show ?thesis by (auto simp: sbind_rules rule_named_def list_all_iff)
  qed
  then show ?thesis by (simp add: rs(2) list_all_iff)
qed

lemma rule_named_atoms:
  assumes "rule_named r" and "a \<in> set (ru_head r # body_positive_atoms r @ body_negated_atoms r)"
  shows "name_ok (at_predicate a)"
proof -
  have "a \<in> set (positive_atoms es) \<union> set (negated_atoms es) \<Longrightarrow> list_all element_ok es \<Longrightarrow> name_ok (at_predicate a)" for es
  proof (induction es)
    case (Cons e es)
    then show ?case by (cases e) auto
  qed simp
  then show ?thesis using assms by (auto simp: rule_named_def body_positive_atoms_def body_negated_atoms_def)
qed

section \<open>A rule raises nothing\<close>

lemma err_map_total: "\<forall>x\<in>set xs. \<exists>y. f x = Inr y \<Longrightarrow> \<exists>ys. err_map f xs = Inr ys"
proof (induction xs)
  case (Cons x xs)
  then obtain y ys where "f x = Inr y" "err_map f xs = Inr ys" by auto
  then show ?case by simp
qed simp

lemma match_args_total: "length f = length ts \<Longrightarrow> \<exists>m. match_args sub ts f = Inr m"
proof (induction sub ts f rule: match_args.induct)
  case (2 sub c ts f)
  then show ?case by (cases f) auto
next
  case (3 sub x ts f)
  then obtain v vs where "f = v # vs" "length vs = length ts" by (cases f) auto
  with 3 show ?case by (cases "is_anonymous x"; cases "sub x") (auto simp del: fun_upd_apply)
qed simp

lemma rel_lookup_total:
  assumes "\<forall>f\<in>set (rl_facts rel). length f = n" and "\<forall>c\<in>set cols. c < n" and "set_order fo"
  shows "\<exists>cands. rel_lookup fo cols vals rel = Inr cands \<and> set cands \<subseteq> set (rl_facts rel)"
  using assms by (auto simp: rel_lookup_def list_ex_iff set_order_def)

lemma join_one_total:
  assumes "\<forall>f\<in>set (rl_facts rel). length f = at_arity a" and "set_order fo"
  shows "\<exists>out. join_one fo a rel sub = Inr out"
proof -
  let ?cols = "bound_cols sub (at_args a)"
  have "\<forall>c\<in>set ?cols. c < at_arity a" by (auto simp: bound_cols_def at_arity_def)
  from rel_lookup_total[OF assms(1) this assms(2)] obtain cands where
    c: "rel_lookup fo ?cols (map (\<lambda>i. the (resolve_term sub (at_args a ! i))) ?cols) rel = Inr cands"
    "set cands \<subseteq> set (rl_facts rel)" by blast
  have "\<exists>ms. err_map (match_args sub (at_args a)) cands = Inr ms"
    using c(2) assms(1) by (intro err_map_total ballI match_args_total) (auto simp: at_arity_def)
  with c(1) show ?thesis by (auto simp: join_one_def Let_def)
qed

lemma join_atom_total:
  assumes "atoms_fit facts [a]" and "set_order fo"
  shows "\<exists>out. join_atom fo facts a subs = Inr out"
proof (cases "facts (at_predicate a)")
  case (Some rel)
  then have "\<forall>f\<in>set (rl_facts rel). length f = at_arity a" using assms(1) by (auto simp: atoms_fit_def fact_base_def)
  then have "\<exists>xs. err_map (join_one fo a rel) subs = Inr xs"
    using join_one_total[OF _ assms(2)] by (intro err_map_total) blast
  with Some show ?thesis by (auto simp: join_atom_def)
qed (simp add: join_atom_def)

lemma join_atoms_total:
  assumes "atoms_fit facts as" and "set_order fo"
  shows "\<exists>out. join_atoms fo facts as subs = Inr out"
  using assms(1)
proof (induction as arbitrary: subs)
  case (Cons a as)
  obtain mid where "join_atom fo facts a subs = Inr mid"
    using join_atom_total[of facts a fo subs] Cons.prems assms(2) by (auto simp: atoms_fit_def)
  moreover obtain out where "join_atoms fo facts as mid = Inr out"
    using Cons.IH[of mid] Cons.prems by (auto simp: atoms_fit_def)
  ultimately show ?case by auto
qed simp

text \<open>Every helper call has the arity of the helper, which is not zero for a function.\<close>

definition helpers_fit :: "registry \<Rightarrow> rule \<Rightarrow> bool" where
  "helpers_fit hreg r \<longleftrightarrow> list_all (\<lambda>(h, ts). case map_of hreg h of None \<Rightarrow> True
     | Some reg \<Rightarrow> length ts = hp_arity reg \<and> (hp_kind reg = FunctionHelper \<longrightarrow> ts \<noteq> [])) (body_helpers r)"

lemma apply_helpers_total:
  assumes "list_all (\<lambda>(h, ts). case map_of hreg h of None \<Rightarrow> True
     | Some reg \<Rightarrow> length ts = hp_arity reg \<and> (hp_kind reg = FunctionHelper \<longrightarrow> ts \<noteq> [])) hs"
  shows "\<exists>out. apply_helpers hreg hs subs = Inr out"
  using assms
proof (induction hs arbitrary: subs)
  case (Cons c hs)
  obtain h ts where c: "c = (h, ts)" by (cases c)
  show ?case
  proof (cases "map_of hreg h")
    case (Some reg)
    then have ok: "length ts = hp_arity reg" "\<not> (hp_kind reg = FunctionHelper \<and> ts = [])" using Cons.prems c by auto
    have "\<exists>out. apply_helpers hreg hs s = Inr out" for s using Cons by simp
    then show ?thesis unfolding c apply_helpers.simps Some option.case Let_def using ok by auto
  qed (simp add: c)
qed simp

lemma derive_total:
  assumes "atoms_fit facts (body_positive_atoms r)" and "helpers_fit hreg r" and "set_order fo"
  shows "\<exists>ds. derive fo hreg facts r = Inr ds"
proof -
  obtain subs1 where s: "join_atoms fo facts (body_positive_atoms r) [Map.empty] = Inr subs1"
    using join_atoms_total[OF assms(1,3)] by blast
  obtain subs2 where "apply_helpers hreg (body_helpers r) subs1 = Inr subs2"
    using apply_helpers_total[OF assms(2)[unfolded helpers_fit_def]] by blast
  with s show ?thesis by (simp add: derive_def)
qed


section \<open>A round raises nothing\<close>

text \<open>The relations of a database: well-formed names, and the arities of the schema.\<close>

definition sound_db :: "(string \<Rightarrow> nat) \<Rightarrow> (string \<rightharpoonup> relation) \<Rightarrow> bool" where
  "sound_db ar facts \<longleftrightarrow> (\<forall>p rel. facts p = Some rel \<longrightarrow> name_ok (rl_name rel) \<and> rl_arity rel = ar p)"

lemma add_facts_subset: "set (foldl add_fact fs gs) \<subseteq> set fs \<union> set gs"
proof (induction gs arbitrary: fs)
  case (Cons g gs)
  have "set (add_fact fs g) \<subseteq> insert g (set fs)" by (auto simp: add_fact_def)
  with Cons[of "add_fact fs g"] show ?case by auto
qed simp

lemma with_facts_total:
  assumes "name_ok (rl_name rel)" and "\<forall>f\<in>set (rl_facts rel) \<union> set fs. length f = rl_arity rel"
  shows "\<exists>rel'. with_facts rel fs = Inr rel' \<and> rl_name rel' = rl_name rel \<and> rl_arity rel' = rl_arity rel"
proof -
  have "\<forall>f\<in>set (foldl add_fact (rl_facts rel) fs). length f = rl_arity rel"
    using add_facts_subset[of "rl_facts rel" fs] assms(2) by auto
  then show ?thesis using assms(1) by (simp add: with_facts_def new_relation_def name_ok_def list_ex_iff)
qed

lemma sound_db_upd: "sound_db ar facts \<Longrightarrow> name_ok (rl_name rel) \<Longrightarrow> rl_arity rel = ar p \<Longrightarrow> sound_db ar (facts(p \<mapsto> rel))"
  by (auto simp: sound_db_def)

lemma rule_additions_total:
  assumes "typed_base ar (fact_base facts)" and "typed_rule ar r" and "helpers_fit hreg r" and "set_order fo"
    and "head_pred r \<in> dom facts"
  shows "\<exists>adds. rule_additions fo hreg facts r = Inr adds"
proof -
  have "atoms_fit facts (body_positive_atoms r)" using typed_fit[OF assms(1,2)] by (auto simp: atoms_fit_def)
  from derive_total[OF this assms(3,4)] obtain ds where "derive fo hreg facts r = Inr ds" by blast
  with assms(5) show ?thesis by (auto simp: rule_additions_def head_pred_def)
qed

lemma collect_round_total:
  assumes "typed_base ar (fact_base facts)" and "set_order fo"
    and "\<forall>r\<in>set rs. typed_rule ar r \<and> helpers_fit hreg r \<and> head_pred r \<in> dom facts"
  shows "\<exists>bs'. collect_round fo hreg facts rs bs = Inr bs'"
  using assms(3)
proof (induction rs arbitrary: bs)
  case (Cons r rs)
  then obtain adds where "rule_additions fo hreg facts r = Inr adds"
    using rule_additions_total[OF assms(1) _ _ assms(2)] by fastforce
  with Cons show ?case by simp
qed simp

lemma commit_round_total:
  assumes "sound_db ar facts" and "typed_base ar (fact_base facts)" and "typed_base ar (bucket_set bs)"
    and "fst ` bucket_set bs \<subseteq> dom facts"
  shows "\<exists>facts'. commit_round bs facts = Inr facts' \<and> sound_db ar facts' \<and> dom facts' = dom facts"
  using assms
proof (induction bs arbitrary: facts)
  case (Cons b bs)
  obtain p adds where b: "b = (p, adds)" by (cases b)
  have rest: "typed_base ar (bucket_set bs)" "fst ` bucket_set bs \<subseteq> dom facts"
    using Cons.prems(3,4) unfolding b bucket_set_simps typed_base_simps image_Un by blast+
  show ?case
  proof (cases "adds = []")
    case True
    with Cons.IH[OF Cons.prems(1,2) rest] show ?thesis by (simp add: b)
  next
    case False
    then have "p \<in> fst ` bucket_set (b # bs)" unfolding b bucket_set_simps by (cases adds) force+
    with Cons.prems(4) obtain rel where rel: "facts p = Some rel" by blast
    have k: "name_ok (rl_name rel)" "rl_arity rel = ar p" using Cons.prems(1) rel by (simp_all add: sound_db_def)
    have l: "\<forall>f\<in>set adds. length f = ar p \<and> list_all plain f"
      using Cons.prems(3) unfolding b bucket_set_simps typed_base_simps by blast
    have l': "\<forall>f\<in>set (rl_facts rel). length f = ar p \<and> list_all plain f"
      using Cons.prems(2) rel by (auto simp: typed_base_def fact_base_def)
    obtain rel' where w: "with_facts rel adds = Inr rel'" "name_ok (rl_name rel')" "rl_arity rel' = ar p"
      using with_facts_total[OF k(1), of adds] l l' k by (auto simp: ball_Un)
    have "set (rl_facts rel') = set (rl_facts rel) \<union> set adds" using l l' by (intro with_facts_set[OF w(1)]) auto
    then have "typed_base ar (fact_base (facts(p \<mapsto> rel')))"
      using Cons.prems(2) l l' by (auto simp: typed_base_def fact_base_def split: if_splits)
    moreover have d: "dom (facts(p \<mapsto> rel')) = dom facts" using rel by auto
    ultimately obtain facts' where "commit_round bs (facts(p \<mapsto> rel')) = Inr facts'" "sound_db ar facts'" "dom facts' = dom facts"
      using Cons.IH[OF sound_db_upd[OF Cons.prems(1) w(2,3)] _ rest(1)] rest(2) unfolding d by blast
    then show ?thesis using rel w(1) False by (simp add: b del: fun_upd_apply)
  qed
qed simp

section \<open>The strata return\<close>

lemma stratum_rounds_total:
  assumes fo: "set_order fo" and rs: "\<forall>r\<in>set rs. typed_rule ar r \<and> helpers_fit hreg r \<and> head_pred r \<in> P" and "finite C"
    and closed: "\<And>D. D \<subseteq> C \<Longrightarrow> new_consequences hreg D rs \<subseteq> C"
    and "sound_db ar facts" and "P \<subseteq> dom facts"
    and "typed_base ar (fact_base facts)" and "fact_base facts \<subseteq> C" and "card (C - fact_base facts) < n"
  shows "\<exists>facts'. stratum_rounds n fo hreg rs facts = Inr facts' \<and> sound_db ar facts' \<and> P \<subseteq> dom facts' \<and> fact_base facts' \<subseteq> C"
  using assms(5-9)
proof (induction n arbitrary: facts)
  case (Suc n)
  let ?D = "fact_base facts"
  have tr: "\<forall>r\<in>set rs. typed_rule ar r" using rs by blast
  obtain bs where bs: "collect_round fo hreg facts rs [] = Inr bs"
    using collect_round_total[OF Suc.prems(3) fo] rs Suc.prems(2) by blast
  have b: "bucket_set bs = new_consequences hreg ?D rs - ?D"
    using collect_round_set[OF bs fo Suc.prems(3) tr] by (simp add: typed_base_def)
  show ?case
  proof (cases "list_all (\<lambda>(p, fs). fs = []) bs")
    case True
    with bs Suc.prems show ?thesis by simp
  next
    case ne: False
    have t: "typed_base ar (bucket_set bs)"
      unfolding b by (intro typed_base_diff new_consequences_typed Suc.prems(3) tr)
    have "fst ` bucket_set bs \<subseteq> P"
      unfolding b using rs by (auto simp: new_consequences_def dest!: consequences_pred)
    then have "fst ` bucket_set bs \<subseteq> dom facts" using Suc.prems(2) by blast
    from commit_round_total[OF Suc.prems(1,3) t this] obtain mid where
      m: "commit_round bs facts = Inr mid" "sound_db ar mid" "dom mid = dom facts" by blast
    have e: "fact_base mid = ?D \<union> bucket_set bs" by (rule commit_round_set[OF m(1) Suc.prems(3) t])
    have C: "fact_base mid \<subseteq> C" unfolding e b using Suc.prems(4) closed by blast
    from ne obtain q f fs where "(q, f # fs) \<in> set bs" by (auto simp: list_all_iff neq_Nil_conv)
    then have "(q, f) \<in> bucket_set bs" unfolding bucket_set_def by force
    then have "(q, f) \<in> C - ?D" "(q, f) \<in> fact_base mid" using C e b by auto
    then have "C - fact_base mid \<subset> C - ?D" using e by auto
    then have "card (C - fact_base mid) < card (C - ?D)" using assms(3) by (intro psubset_card_mono) auto
    then have c: "card (C - fact_base mid) < n" using Suc.prems(5) by linarith
    have tm: "typed_base ar (fact_base mid)" unfolding e using Suc.prems(3) t by (simp add: typed_base_simps)
    have "P \<subseteq> dom mid" using m(3) Suc.prems(2) by simp
    from Suc.IH[OF m(2) this tm C c] ne bs m(1) show ?thesis by simp
  qed
qed simp

lemma evaluate_strata_total:
  assumes fo: "set_order fo" and rs: "\<forall>s\<in>set ss. \<forall>r\<in>set (sm_rules s). typed_rule ar r \<and> helpers_fit hreg r \<and> head_pred r \<in> P"
    and fin: "finite C" "card C < max_iterations"
    and closed: "\<And>s D. s \<in> set ss \<Longrightarrow> D \<subseteq> C \<Longrightarrow> new_consequences hreg D (sm_rules s) \<subseteq> C"
    and "sound_db ar facts" and "P \<subseteq> dom facts" and "typed_base ar (fact_base facts)" and "fact_base facts \<subseteq> C"
  shows "\<exists>facts'. evaluate_strata fo hreg ss facts = Inr facts'"
  using assms(2,5-9)
proof (induction ss arbitrary: facts)
  case (Cons s ss)
  have r: "\<forall>r\<in>set (sm_rules s). typed_rule ar r \<and> helpers_fit hreg r \<and> head_pred r \<in> P" using Cons.prems(1) by simp
  then have tr: "\<forall>r\<in>set (sm_rules s). typed_rule ar r" by blast
  have cl: "\<And>D. D \<subseteq> C \<Longrightarrow> new_consequences hreg D (sm_rules s) \<subseteq> C" using Cons.prems(2) by simp
  have "card (C - fact_base facts) < max_iterations"
    using fin card_mono[OF fin(1), of "C - fact_base facts"] by simp
  from stratum_rounds_total[OF fo r fin(1) cl Cons.prems(3-6) this] obtain mid where
    m: "stratum_rounds max_iterations fo hreg (sm_rules s) facts = Inr mid" "sound_db ar mid" "P \<subseteq> dom mid" "fact_base mid \<subseteq> C" by blast
  have "typed_base ar (fact_base mid)" using stratum_rounds_correct[OF fo tr m(1) Cons.prems(5)] by (rule conjunct1)
  from Cons.IH[OF _ _ m(2,3) this m(4)] Cons.prems(1,2) m(1) show ?case by (simp add: evaluate_stratum_def)
qed simp

section \<open>An evaluation returns\<close>

definition schema_ok :: "(string \<Rightarrow> nat) \<Rightarrow> (string \<rightharpoonup> nat) \<Rightarrow> bool" where
  "schema_ok ar m \<longleftrightarrow> (\<forall>p n. m p = Some n \<longrightarrow> n = ar p)"

lemma set_defaults_schema:
  assumes "schema_ok ar m" and "\<forall>a\<in>set as. at_arity a = ar (at_predicate a)"
  shows "schema_ok ar (foldl (\<lambda>m a. set_default m (at_predicate a) (at_arity a)) m as) \<and>
    dom (foldl (\<lambda>m a. set_default m (at_predicate a) (at_arity a)) m as) = dom m \<union> at_predicate ` set as"
  using assms
proof (induction as arbitrary: m)
  case (Cons a as)
  have "schema_ok ar (set_default m (at_predicate a) (at_arity a))"
    "dom (set_default m (at_predicate a) (at_arity a)) = insert (at_predicate a) (dom m)"
    using Cons.prems by (auto simp: schema_ok_def set_default_def split: option.splits)
  with Cons.IH[of "set_default m (at_predicate a) (at_arity a)"] Cons.prems(2) show ?case by auto
qed simp

lemma arity_table_schema:
  assumes "arity_table m rs = Inr m'" and "\<forall>r\<in>set rs. policy_rule ar r" and "schema_ok ar m"
  shows "schema_ok ar m' \<and>
    dom m' = dom m \<union> (\<Union>r\<in>set rs. at_predicate ` set (ru_head r # body_positive_atoms r @ body_negated_atoms r))"
  using assms
proof (induction rs arbitrary: m)
  case (Cons r rs)
  let ?h = "ru_head r" and ?as = "body_positive_atoms r @ body_negated_atoms r"
  from Cons.prems(1) obtain m1 where m1: "arity_rule m r = Inr m1" "arity_table m1 rs = Inr m'" by (auto simp: sbind_rules)
  have a: "\<forall>a\<in>set (?h # ?as). at_arity a = ar (at_predicate a)" using Cons.prems(2) by (simp add: policy_rule_def)
  have e: "m1 = foldl (\<lambda>m a. set_default m (at_predicate a) (at_arity a)) m (?h # ?as)"
    using m1(1) by (auto simp: arity_rule_def Let_def split: if_splits)
  note d = set_defaults_schema[OF Cons.prems(3) a, folded e]
  with Cons.IH[OF m1(2)] Cons.prems(2) show ?case by auto
qed simp

lemma seed_edb_total:
  assumes "\<forall>(n, rel)\<in>set edb. name_ok (rl_name rel) \<and> rl_arity rel = ar n" and "schema_ok ar m" and "sound_db ar facts"
  shows "\<exists>facts'. seed_edb m edb facts = Inr facts' \<and> sound_db ar facts'"
  using assms(1,3)
proof (induction edb arbitrary: facts)
  case (Cons e edb)
  obtain n rel where e: "e = (n, rel)" by (cases e)
  then have k: "name_ok (rl_name rel)" "rl_arity rel = ar n" using Cons.prems(1) by auto
  then have "\<not> (m n \<noteq> None \<and> m n \<noteq> Some (rl_arity rel))" using assms(2) by (cases "m n") (auto simp: schema_ok_def)
  with Cons.IH[OF _ sound_db_upd[OF Cons.prems(2) k]] Cons.prems(1) show ?case by (auto simp: e simp del: fun_upd_apply)
qed simp

lemma seed_empty_total:
  assumes "\<forall>p\<in>set ps. name_ok p \<and> p \<in> dom m" and "schema_ok ar m" and "sound_db ar facts"
  shows "\<exists>facts'. seed_empty m ps facts = Inr facts' \<and> sound_db ar facts' \<and> set ps \<union> dom facts \<subseteq> dom facts'"
  using assms(1,3)
proof (induction ps arbitrary: facts)
  case (Cons p ps)
  show ?case
  proof (cases "facts p")
    case None
    have k: "name_ok p" "the (m p) = ar p" using Cons.prems(1) assms(2) by (auto simp: schema_ok_def)
    then obtain rel where r: "new_relation p (the (m p)) [] = Inr rel" "name_ok (rl_name rel)" "rl_arity rel = ar p"
      by (auto simp: new_relation_def name_ok_def)
    have "\<forall>p\<in>set ps. name_ok p \<and> p \<in> dom m" using Cons.prems(1) by simp
    from Cons.IH[OF this sound_db_upd[OF Cons.prems(2) r(2,3)]] obtain facts' where
      "seed_empty m ps (facts(p \<mapsto> rel)) = Inr facts'" "sound_db ar facts'" "set ps \<union> dom (facts(p \<mapsto> rel)) \<subseteq> dom facts'" by blast
    with None r(1) show ?thesis by (intro exI[of _ facts']) auto
  next
    case (Some rel)
    have "\<forall>p\<in>set ps. name_ok p \<and> p \<in> dom m" using Cons.prems(1) by simp
    from Cons.IH[OF this Cons.prems(2)] obtain facts' where
      "seed_empty m ps facts = Inr facts'" "sound_db ar facts'" "set ps \<union> dom facts \<subseteq> dom facts'" by blast
    with Some show ?thesis by (intro exI[of _ facts']) auto
  qed
qed simp

lemma seed_facts_total:
  assumes "\<forall>r\<in>set rs. typed_rule ar r \<and> head_pred r \<in> dom facts" and "sound_db ar facts" and "typed_base ar (fact_base facts)"
  shows "\<exists>facts'. seed_facts rs facts = Inr facts' \<and> sound_db ar facts' \<and> dom facts' = dom facts"
  using assms
proof (induction rs arbitrary: facts)
  case (Cons r rs)
  let ?p = "at_predicate (ru_head r)"
  show ?case
  proof (cases "is_fact r")
    case True
    have ok: "rule_ok r" "typed_rule ar r" using Cons.prems(1) by (simp_all add: typed_rule_def)
    note g = fact_head[OF ok(1) True, of "\<lambda>_. FInt 0"]
    obtain rel where rel: "facts ?p = Some rel" using Cons.prems(1) by (auto simp: head_pred_def)
    let ?h = "map (term_value (\<lambda>_. FInt 0)) (at_args (ru_head r))"
    have "length ?h = ar ?p" using ok(2) by (simp add: typed_rule_def at_arity_def)
    moreover have k: "name_ok (rl_name rel)" "rl_arity rel = ar ?p" using Cons.prems(2) rel by (simp_all add: sound_db_def)
    moreover have "\<forall>f\<in>set (rl_facts rel). length f = ar ?p" using Cons.prems(3) rel by (auto simp: typed_base_def fact_base_def)
    ultimately obtain rel' where w: "with_facts rel [?h] = Inr rel'" "name_ok (rl_name rel')" "rl_arity rel' = ar ?p"
      using with_facts_total[OF k(1), of "[?h]"] by auto
    have "seed_facts [r] facts = Inr (facts(?p \<mapsto> rel'))" using True g rel w(1) by (simp add: fun_upd_def)
    from seed_facts_base[OF this _ Cons.prems(3)] have t: "typed_base ar (fact_base (facts(?p \<mapsto> rel')))" using ok(2) by auto
    have d: "dom (facts(?p \<mapsto> rel')) = dom facts" using rel by auto
    have "\<forall>r\<in>set rs. typed_rule ar r \<and> head_pred r \<in> dom (facts(?p \<mapsto> rel'))" unfolding d using Cons.prems(1) by simp
    from Cons.IH[OF this sound_db_upd[OF Cons.prems(2) w(2,3)] t] True g rel w(1) show ?thesis
      unfolding d by (simp del: fun_upd_apply)
  next
    case False
    with Cons.IH[OF _ Cons.prems(2,3)] Cons.prems(1) show ?thesis by simp
  qed
qed simp

text \<open>A finite set that holds the database and whatever the rules derive inside of it.\<close>

definition fact_bound :: "registry \<Rightarrow> rule list \<Rightarrow> (string \<times> fact) set \<Rightarrow> (string \<times> fact) set \<Rightarrow> bool" where
  "fact_bound hreg rs B C \<longleftrightarrow> finite C \<and> B \<subseteq> C \<and> (\<forall>D\<subseteq>C. \<forall>r\<in>set rs. consequences hreg D D r \<subseteq> C)"

lemma fact_bound_seeds:
  assumes "fact_bound hreg rs B C"
  shows "{head_value r \<sigma> | r \<sigma>. r \<in> set rs \<and> is_fact r} \<subseteq> C"
proof
  fix x
  assume "x \<in> {head_value r \<sigma> | r \<sigma>. r \<in> set rs \<and> is_fact r}"
  then obtain r \<sigma> where a: "r \<in> set rs" "is_fact r" "x = head_value r \<sigma>" by blast
  then have "head_value r \<sigma> \<in> consequences hreg {} {} r"
    by (auto simp: consequences_def body_true_def is_fact_def body_positive_atoms_def body_helpers_def body_negated_atoms_def)
  moreover have "consequences hreg {} {} r \<subseteq> C" using assms a(1) by (simp add: fact_bound_def)
  ultimately show "x \<in> C" unfolding a(3) by blast
qed

lemma pcas_evaluate_total:
  assumes init: "evaluator_init so hreg p0 = Inr ev" and so: "set_order so" and fo: "set_order fo"
    and edb: "\<forall>(n, rel)\<in>set edb. name_ok (rl_name rel) \<and> rl_arity rel = ar n" and tb: "typed_base ar (edb_base edb)"
    and rs: "\<forall>r\<in>set (pg_rules (ev_program ev)). policy_rule ar r \<and> helpers_fit hreg r \<and> rule_named r"
    and C: "fact_bound hreg (pg_rules (ev_program ev)) (edb_base edb) C" "card C < max_iterations"
  shows "\<exists>facts. pcas_evaluate fo ev edb = Inr facts"
proof -
  let ?rs = "pg_rules (ev_program ev)" and ?P = "set (program_preds (ev_program ev))"
  note i = evaluator_init_cases[OF init]
  have s: "stratified ?rs (ev_strata ev)" "list_all rule_safe ?rs" using stratify_stratified[OF so] i by blast+
  have tr: "\<forall>r\<in>set ?rs. typed_rule ar r"
    using s(2) rs by (auto simp: typed_rule_def policy_rule_def rule_ok_def list_all_iff)
  have hp: "\<forall>r\<in>set ?rs. head_pred r \<in> ?P" by (auto simp: program_preds_def head_pred_def)
  have sch: "schema_ok ar (ev_arities ev)" and dm: "?P \<subseteq> dom (ev_arities ev)"
    using arity_table_schema[of Map.empty ?rs "ev_arities ev" ar] i rs by (auto simp: schema_ok_def program_preds_def)
  obtain f1 where f1: "seed_edb (ev_arities ev) edb Map.empty = Inr f1" "sound_db ar f1"
    using seed_edb_total[OF edb sch, of Map.empty] by (auto simp: sound_db_def)
  have nm: "\<forall>p\<in>?P. name_ok p \<and> p \<in> dom (ev_arities ev)"
  proof
    fix p
    assume p: "p \<in> ?P"
    then obtain r a where ra: "r \<in> set ?rs" "a \<in> set (ru_head r # body_positive_atoms r @ body_negated_atoms r)" "p = at_predicate a"
      by (auto simp: program_preds_def)
    have "rule_named r" using rs ra(1) by blast
    from rule_named_atoms[OF this ra(2)] p dm ra(3) show "name_ok p \<and> p \<in> dom (ev_arities ev)" by blast
  qed
  obtain f2 where f2: "seed_empty (ev_arities ev) (program_preds (ev_program ev)) f1 = Inr f2" "sound_db ar f2" "?P \<subseteq> dom f2"
    using seed_empty_total[OF nm sch f1(2)] by blast
  have b: "fact_base f2 = edb_base edb"
    using seed_edb_map[OF f1(1)] seed_empty_base[OF f2(1)] by (simp add: edb_base_def edb_map_def)
  have "\<forall>r\<in>set ?rs. typed_rule ar r \<and> head_pred r \<in> dom f2" using tr hp f2(3) by blast
  from seed_facts_total[OF this f2(2)] tb b obtain f3 where f3: "seed_facts ?rs f2 = Inr f3" "sound_db ar f3" "dom f3 = dom f2" by auto
  have t3: "fact_base f3 = edb_base edb \<union> {head_value r \<sigma> | r \<sigma>. r \<in> set ?rs \<and> is_fact r}" "typed_base ar (fact_base f3)"
    using seed_facts_base[OF f3(1) tr] tb unfolding b by auto
  have sub: "fact_base f3 \<subseteq> C" unfolding t3(1) using C(1) fact_bound_seeds[OF C(1)] by (simp add: fact_bound_def)
  have sr: "set (sm_rules x) \<subseteq> set ?rs" if "x \<in> set (ev_strata ev)" for x using s(1) that by (auto simp: stratified_def)
  have cl: "new_consequences hreg D (sm_rules x) \<subseteq> C" if "x \<in> set (ev_strata ev)" "D \<subseteq> C" for x D
  proof -
    have "consequences hreg D D r \<subseteq> C" if "r \<in> set (sm_rules x)" for r
      using C(1) \<open>D \<subseteq> C\<close> sr[OF \<open>x \<in> set (ev_strata ev)\<close>] that unfolding fact_bound_def by blast
    then show ?thesis by (auto simp: new_consequences_def)
  qed
  have "\<forall>x\<in>set (ev_strata ev). \<forall>r\<in>set (sm_rules x). typed_rule ar r \<and> helpers_fit hreg r \<and> head_pred r \<in> ?P"
    using sr tr rs hp by blast
  then have "\<exists>facts'. evaluate_strata fo hreg (ev_strata ev) f3 = Inr facts'"
    by (rule evaluate_strata_total[OF fo]) (use C sub cl f3(2,3) f2(3) t3(2) in \<open>auto simp: fact_bound_def\<close>)
  then show ?thesis using f1(1) f2(1) f3(1) i by (simp add: pcas_evaluate_def)
qed

end
