(* ===== verification/Pcas_Monitor.thy ===== *)
theory Pcas_Monitor
  imports Pcas_Total
begin

text \<open>
  The PCAS reference monitor: the built-in helpers (\<^verbatim>\<open>pcas/runtime/helpers.py\<close>), the projection of a
  dependency graph into relations (\<^verbatim>\<open>pcas/graph/adapter.py\<close>) and the monitor (\<^verbatim>\<open>pcas/monitor.py\<close>).

  Correspondence. \<^verbatim>\<open>json_extract\<close> is an argument of the registry, since it parses JSON. The graph view
  and the action are given as validated records. Elapsed time, diagnostics (with their limit of 2000
  characters) and telemetry are left out. An exception that the monitor does not catch is \<open>Inl\<close>.
\<close>

section \<open>Built-in helpers\<close>

type_synonym helper_fn = "fact_value list \<Rightarrow> fact_value option"

fun hf_equals :: helper_fn where
  "hf_equals [x, y] = Some (FBool (fv_eq x y))"
| "hf_equals _ = None"

fun hf_not_equals :: helper_fn where
  "hf_not_equals [x, y] = Some (FBool (\<not> fv_eq x y))"
| "hf_not_equals _ = None"

fun hf_greater :: helper_fn where
  "hf_greater [FInt x, FInt y] = Some (FBool (x > y))"
| "hf_greater [FStr x, FStr y] = Some (FBool (x > y))"
| "hf_greater [x, y] = Some (FBool False)"
| "hf_greater _ = None"

fun hf_less :: helper_fn where
  "hf_less [FInt x, FInt y] = Some (FBool (x < y))"
| "hf_less [FStr x, FStr y] = Some (FBool (x < y))"
| "hf_less [x, y] = Some (FBool False)"
| "hf_less _ = None"

fun hf_has_substring :: helper_fn where
  "hf_has_substring [FStr h, FStr n] = Some (FBool (py_contains n h))"
| "hf_has_substring [x, y] = Some (FBool False)"
| "hf_has_substring _ = None"

fun hf_starts_with :: helper_fn where
  "hf_starts_with [FStr h, FStr p] = Some (FBool (take (length p) h = p))"
| "hf_starts_with [x, y] = Some (FBool False)"
| "hf_starts_with _ = None"

definition helper_registry :: "helper_fn \<Rightarrow> registry" where
  "helper_registry json_extract =
     [(''equals'', \<lparr>hp_arity = 2, hp_kind = PredicateHelper, hp_fn = hf_equals\<rparr>),
      (''not_equals'', \<lparr>hp_arity = 2, hp_kind = PredicateHelper, hp_fn = hf_not_equals\<rparr>),
      (''greater'', \<lparr>hp_arity = 2, hp_kind = PredicateHelper, hp_fn = hf_greater\<rparr>),
      (''less'', \<lparr>hp_arity = 2, hp_kind = PredicateHelper, hp_fn = hf_less\<rparr>),
      (''has_substring'', \<lparr>hp_arity = 2, hp_kind = PredicateHelper, hp_fn = hf_has_substring\<rparr>),
      (''starts_with'', \<lparr>hp_arity = 2, hp_kind = PredicateHelper, hp_fn = hf_starts_with\<rparr>),
      (''json_extract'', \<lparr>hp_arity = 3, hp_kind = FunctionHelper, hp_fn = json_extract\<rparr>)]"

section \<open>The dependency graph\<close>

record graph_action =
  ga_action_id :: string
  ga_kind :: string
  ga_actor :: string
  ga_payload_hash :: string

record graph_message =
  gm_msg_id :: string
  gm_sender :: string
  gm_receiver :: string
  gm_content_hash :: string

record graph_tool_call =
  gt_call_id :: string
  gt_tool :: string
  gt_caller :: string
  gt_args_hash :: string
  gt_result_hash :: string

record graph_data =
  gd_data_id :: string
  gd_source :: string
  gd_label :: string
  gd_content_hash :: string

record graph_denied =
  gn_action_id :: string
  gn_reason :: string

record graph_edge =
  ge_source_id :: string
  ge_target_id :: string

record graph_role =
  gr_actor :: string
  gr_role_name :: string

record graph_approval =
  gp_subject_id :: string
  gp_approver :: string
  gp_decision_id :: string

record graph_view =
  gv_actions :: "graph_action list"
  gv_messages :: "graph_message list"
  gv_tool_calls :: "graph_tool_call list"
  gv_data :: "graph_data list"
  gv_denied :: "graph_denied list"
  gv_edges :: "graph_edge list"
  gv_roles :: "graph_role list"
  gv_approvals :: "graph_approval list"

definition values_action :: "graph_action \<Rightarrow> fact" where
  "values_action v = map FStr [ga_action_id v, ga_kind v, ga_actor v, ga_payload_hash v]"

definition values_message :: "graph_message \<Rightarrow> fact" where
  "values_message v = map FStr [gm_msg_id v, gm_sender v, gm_receiver v, gm_content_hash v]"

definition values_tool_call :: "graph_tool_call \<Rightarrow> fact" where
  "values_tool_call v = map FStr [gt_call_id v, gt_tool v, gt_caller v, gt_args_hash v, gt_result_hash v]"

definition values_data :: "graph_data \<Rightarrow> fact" where
  "values_data v = map FStr [gd_data_id v, gd_source v, gd_label v, gd_content_hash v]"

definition values_denied :: "graph_denied \<Rightarrow> fact" where
  "values_denied v = map FStr [gn_action_id v, gn_reason v]"

definition values_edge :: "graph_edge \<Rightarrow> fact" where
  "values_edge v = map FStr [ge_source_id v, ge_target_id v]"

definition values_role :: "graph_role \<Rightarrow> fact" where
  "values_role v = map FStr [gr_actor v, gr_role_name v]"

definition values_approval :: "graph_approval \<Rightarrow> fact" where
  "values_approval v = map FStr [gp_subject_id v, gp_approver v, gp_decision_id v]"

definition edb_arity :: "string \<Rightarrow> nat" where
  "edb_arity n = the (map_of [(''action'', 4), (''message'', 4), (''tool_call'', 5), (''data'', 4), (''denied'', 2),
     (''depends_on'', 2), (''role'', 2), (''approved'', 3), (''pending_action'', 4)] n)"

definition edb_relation :: "string \<Rightarrow> fact list \<Rightarrow> pcas_error + (string \<times> relation)" where
  "edb_relation n facts = sbind (new_relation n (edb_arity n) facts) (\<lambda>rel. Inr (n, rel))"

definition to_edb :: "graph_view \<Rightarrow> pcas_error + (string \<times> relation) list" where
  "to_edb v = err_map (\<lambda>(n, fs). edb_relation n fs)
     [(''action'', map values_action (gv_actions v)), (''message'', map values_message (gv_messages v)),
      (''tool_call'', map values_tool_call (gv_tool_calls v)), (''data'', map values_data (gv_data v)),
      (''denied'', map values_denied (gv_denied v)), (''depends_on'', map values_edge (gv_edges v)),
      (''role'', map values_role (gv_roles v)), (''approved'', map values_approval (gv_approvals v))]"

section \<open>The monitor\<close>

datatype verdict = PERMIT | ABSTAIN | FORBID

record candidate_action =
  ca_action_id :: string
  ca_kind :: string
  ca_actor :: string
  ca_payload_hash :: string

record policy_decision =
  pd_verdict :: verdict
  pd_action_id :: string
  pd_reasons :: "string list"
  pd_authorize_facts :: "fact list"
  pd_deny_facts :: "fact list"

record monitor =
  mo_source :: string
  mo_evaluator :: "evaluator option"

definition load_caught :: "pcas_error \<Rightarrow> bool" where
  "load_caught e \<longleftrightarrow> e = LexerError \<or> e = ParseError \<or> e = StratificationError \<or> e = EvaluationError"

definition monitor_init :: "(string list \<Rightarrow> string list) \<Rightarrow> helper_fn \<Rightarrow> string \<Rightarrow> string option \<Rightarrow> pcas_error + monitor" where
  "monitor_init so jx src name =
     (let source = (case name of None \<Rightarrow> ''<inline>'' | Some n \<Rightarrow> if n = [] then ''<inline>'' else n)
      in case sbind (parse_program src (Some source)) (evaluator_init so (helper_registry jx)) of
           Inr ev \<Rightarrow> Inr \<lparr>mo_source = source, mo_evaluator = Some ev\<rparr>
         | Inl e \<Rightarrow> if load_caught e then Inr \<lparr>mo_source = source, mo_evaluator = None\<rparr> else Inl e)"

definition values_candidate :: "candidate_action \<Rightarrow> fact" where
  "values_candidate a = map FStr [ca_action_id a, ca_kind a, ca_actor a, ca_payload_hash a]"

text \<open>The database of a request: the graph, the pending action, and the action mirrored in \<^verbatim>\<open>action\<close>.\<close>

definition request_edb :: "candidate_action \<Rightarrow> graph_view \<Rightarrow> pcas_error + (string \<times> relation) list" where
  "request_edb a g = sbind (to_edb g) (\<lambda>edb.
     sbind (edb_relation ''pending_action'' [values_candidate a]) (\<lambda>pend.
     sbind (case map_of edb ''action'' of
         None \<Rightarrow> edb_relation ''action'' [values_candidate a]
       | Some rel \<Rightarrow> sbind (with_facts rel [values_candidate a]) (\<lambda>rel'. Inr (''action'', rel'))) (\<lambda>act.
     Inr (edb @ [pend, act]))))"

definition concerns :: "candidate_action \<Rightarrow> fact \<Rightarrow> bool" where
  "concerns a f \<longleftrightarrow> f \<noteq> [] \<and> fv_eq (hd f) (FStr (ca_action_id a))"

definition matching_facts :: "(fact list \<Rightarrow> fact list) \<Rightarrow> candidate_action \<Rightarrow> (string \<rightharpoonup> relation) \<Rightarrow> string \<Rightarrow> fact list" where
  "matching_facts fo a closure p = (case closure p of None \<Rightarrow> [] | Some rel \<Rightarrow> filter (concerns a) (fo (rl_facts rel)))"

definition refuse :: "candidate_action \<Rightarrow> string \<Rightarrow> policy_decision" where
  "refuse a reason = \<lparr>pd_verdict = FORBID, pd_action_id = ca_action_id a, pd_reasons = [reason],
     pd_authorize_facts = [], pd_deny_facts = []\<rparr>"

definition decide :: "(string list \<Rightarrow> string list) \<Rightarrow> (fact list \<Rightarrow> fact list) \<Rightarrow> candidate_action \<Rightarrow> program \<Rightarrow>
    (string \<rightharpoonup> relation) \<Rightarrow> policy_decision" where
  "decide so fo a p closure =
     (let ap = so (annotated_predicates Authorize p); dp = so (annotated_predicates Deny p);
          afs = map (\<lambda>q. (q, matching_facts fo a closure q)) ap;
          dfs = map (\<lambda>q. (q, matching_facts fo a closure q)) dp;
          auth = concat (map snd afs); deny = concat (map snd dfs);
          reasons = concat (map (\<lambda>(q, fs). map (\<lambda>_. ''authorize:'' @ q) fs) afs) @
                    concat (map (\<lambda>(q, fs). map (\<lambda>_. ''deny:'' @ q) fs) dfs)
      in \<lparr>pd_verdict = (if deny \<noteq> [] then FORBID else if auth \<noteq> [] then PERMIT else ABSTAIN),
          pd_action_id = ca_action_id a,
          pd_reasons = (if deny = [] \<and> auth = [] then reasons @ [''no_matching_rule''] else reasons),
          pd_authorize_facts = auth, pd_deny_facts = deny\<rparr>)"

definition authorize :: "(string list \<Rightarrow> string list) \<Rightarrow> (fact list \<Rightarrow> fact list) \<Rightarrow> monitor \<Rightarrow> candidate_action \<Rightarrow> graph_view \<Rightarrow>
    pcas_error + policy_decision" where
  "authorize so fo m a g = (case mo_evaluator m of
       None \<Rightarrow> Inr (refuse a ''policy_load_error'')
     | Some ev \<Rightarrow> sbind (request_edb a g) (\<lambda>edb. case pcas_evaluate fo ev edb of
           Inl EvaluationError \<Rightarrow> Inr (refuse a ''evaluation_error'')
         | Inl e \<Rightarrow> Inl e
         | Inr closure \<Rightarrow> Inr (decide so fo a (ev_program ev) closure)))"

section \<open>The database of a request\<close>

definition edb_schema :: "(string \<Rightarrow> nat) \<Rightarrow> bool" where
  "edb_schema ar \<longleftrightarrow> list_all (\<lambda>n. ar n = edb_arity n) [''action'', ''message'', ''tool_call'', ''data'', ''denied'',
     ''depends_on'', ''role'', ''approved'', ''pending_action'']"

definition graph_facts :: "graph_view \<Rightarrow> (string \<times> fact list) list" where
  "graph_facts v = [(''action'', map values_action (gv_actions v)), (''message'', map values_message (gv_messages v)),
      (''tool_call'', map values_tool_call (gv_tool_calls v)), (''data'', map values_data (gv_data v)),
      (''denied'', map values_denied (gv_denied v)), (''depends_on'', map values_edge (gv_edges v)),
      (''role'', map values_role (gv_roles v)), (''approved'', map values_approval (gv_approvals v))]"

text \<open>The facts a policy sees: the graph, and the candidate both as pending and as action.\<close>

definition request_facts :: "candidate_action \<Rightarrow> graph_view \<Rightarrow> (string \<times> fact) set" where
  "request_facts a g = bucket_set (graph_facts g) \<union> {(''pending_action'', values_candidate a), (''action'', values_candidate a)}"

lemmas values_defs = values_action_def values_message_def values_tool_call_def values_data_def values_denied_def
  values_edge_def values_role_def values_approval_def values_candidate_def

lemma edb_arity_simps [simp]:
  "edb_arity ''action'' = 4" "edb_arity ''message'' = 4" "edb_arity ''tool_call'' = 5" "edb_arity ''data'' = 4"
  "edb_arity ''denied'' = 2" "edb_arity ''depends_on'' = 2" "edb_arity ''role'' = 2" "edb_arity ''approved'' = 3"
  "edb_arity ''pending_action'' = 4"
  by (simp_all add: edb_arity_def)

lemma edb_relation_total:
  assumes "n \<noteq> []" "py_islower (hd n)" "\<forall>f\<in>set fs. length f = edb_arity n \<and> list_all plain f"
  shows "\<exists>rel. edb_relation n fs = Inr (n, rel) \<and> set (rl_facts rel) = set fs \<and> rl_name rel = n \<and> rl_arity rel = edb_arity n"
  using assms by (auto simp: edb_relation_def new_relation_def list_ex_iff add_facts_plain)

lemma graph_facts_ok:
  "(n, fs) \<in> set (graph_facts g) \<Longrightarrow> n \<noteq> [] \<and> py_islower (hd n) \<and> (\<forall>f\<in>set fs. length f = edb_arity n \<and> list_all plain f)"
  by (auto simp: graph_facts_def values_defs py_char_defs)

text \<open>Building the relations never fails, and they hold exactly the facts.\<close>

lemma edb_relations_total:
  assumes "\<forall>(n, fs)\<in>set nfs. n \<noteq> [] \<and> py_islower (hd n) \<and> (\<forall>f\<in>set fs. length f = edb_arity n \<and> list_all plain f)"
  shows "\<exists>edb. err_map (\<lambda>(n, fs). edb_relation n fs) nfs = Inr edb \<and>
    list_all2 (\<lambda>(n, fs) (n', rel). n' = n \<and> set (rl_facts rel) = set fs \<and> rl_name rel = n \<and> rl_arity rel = edb_arity n) nfs edb"
  using assms
proof (induction nfs)
  case (Cons x nfs)
  obtain n fs where x: "x = (n, fs)" by (cases x)
  from Cons obtain edb where e: "err_map (\<lambda>(n, fs). edb_relation n fs) nfs = Inr edb"
    "list_all2 (\<lambda>(n, fs) (n', rel). n' = n \<and> set (rl_facts rel) = set fs \<and> rl_name rel = n \<and> rl_arity rel = edb_arity n) nfs edb"
    by auto
  from Cons.prems obtain rel where "edb_relation n fs = Inr (n, rel)" "set (rl_facts rel) = set fs" "rl_name rel = n"
    "rl_arity rel = edb_arity n" using edb_relation_total[of n fs] by (auto simp: x)
  with e x show ?case by simp
qed simp

lemma edb_map_snoc: "edb_map (edb @ [(n, rel)]) = (edb_map edb)(n \<mapsto> rel)"
  by (simp add: edb_map_def)

lemma fact_base_upd: "fact_base (m(n \<mapsto> rel)) = {x\<in>fact_base m. fst x \<noteq> n} \<union> Pair n ` set (rl_facts rel)"
  by (auto simp: fact_base_def split: if_splits)

lemma edb_base_relations:
  assumes "list_all2 (\<lambda>(n, fs) (n', rel). n' = n \<and> set (rl_facts rel) = set fs \<and> rl_name rel = n \<and> rl_arity rel = edb_arity n) nfs edb"
    and "distinct (map fst nfs)"
  shows "edb_base edb = bucket_set nfs"
  using assms
proof (induction nfs arbitrary: edb rule: rev_induct)
  case (snoc x nfs)
  obtain n fs where x: "x = (n, fs)" by (cases x)
  from snoc.prems(1) obtain edb' rel where e: "edb = edb' @ [(n, rel)]" "set (rl_facts rel) = set fs"
    "list_all2 (\<lambda>(n, fs) (n', rel). n' = n \<and> set (rl_facts rel) = set fs \<and> rl_name rel = n \<and> rl_arity rel = edb_arity n) nfs edb'"
    by (auto simp: x list_all2_append1 list_all2_Cons1)
  have "edb_base edb' = bucket_set nfs" using snoc.IH[OF e(3)] snoc.prems(2) by simp
  moreover have "fst y \<noteq> n" if "y \<in> bucket_set nfs" for y using that snoc.prems(2) by (force simp: bucket_set_def x)
  ultimately have "edb_base edb = bucket_set nfs \<union> Pair n ` set fs"
    unfolding edb_base_def e(1) edb_map_snoc fact_base_upd e(2) by auto
  moreover have "bucket_set (nfs @ [x]) = bucket_set nfs \<union> Pair n ` set fs" by (auto simp: bucket_set_def x)
  ultimately show ?case by simp
qed (simp add: edb_base_def edb_map_def fact_base_def)

definition edb_names :: "string list" where
  "edb_names = [''action'', ''message'', ''tool_call'', ''data'', ''denied'', ''depends_on'', ''role'', ''approved'', ''pending_action'']"

definition edb_entry_ok :: "string \<times> relation \<Rightarrow> bool" where
  "edb_entry_ok e \<longleftrightarrow> fst e \<in> set edb_names \<and> name_ok (rl_name (snd e)) \<and> rl_arity (snd e) = edb_arity (fst e)"

lemma graph_entries_ok:
  assumes "list_all2 (\<lambda>(n, fs) (n', rel). n' = n \<and> set (rl_facts rel) = set fs \<and> rl_name rel = n \<and> rl_arity rel = edb_arity n) (graph_facts g) edb"
  shows "list_all edb_entry_ok edb"
  using assms unfolding graph_facts_def
  by (auto simp: list_all2_Cons1 edb_entry_ok_def edb_names_def name_ok_def py_char_defs)

lemma request_edb_total:
  "\<exists>edb. request_edb a g = Inr edb \<and> edb_base edb = request_facts a g \<and> list_all edb_entry_ok edb"
proof -
  let ?P = "\<lambda>(n, fs) (n', rel). n' = n \<and> set (rl_facts rel) = set fs \<and> rl_name rel = n \<and> rl_arity rel = edb_arity n"
  have c: "\<forall>f\<in>set [values_candidate a]. length f = 4 \<and> list_all plain f" by (simp add: values_defs)
  obtain edb where e: "to_edb g = Inr edb" "list_all2 ?P (graph_facts g) edb"
    using edb_relations_total[of "graph_facts g"] graph_facts_ok[of _ _ g] unfolding to_edb_def graph_facts_def by blast
  obtain pend where p: "edb_relation ''pending_action'' [values_candidate a] = Inr (''pending_action'', pend)"
    "set (rl_facts pend) = {values_candidate a}" "edb_entry_ok (''pending_action'', pend)"
    using edb_relation_total[of "''pending_action''" "[values_candidate a]"] c
    by (auto simp: py_char_defs edb_entry_ok_def edb_names_def name_ok_def)
  obtain rel rest where r: "edb = (''action'', rel) # rest" "set (rl_facts rel) = values_action ` set (gv_actions g)"
    "rl_name rel = ''action''" "rl_arity rel = 4"
    using e(2) unfolding graph_facts_def by (auto simp: list_all2_Cons1)
  have pl: "\<forall>f\<in>set (rl_facts rel) \<union> set [values_candidate a]. list_all plain f" using r(2) by (auto simp: values_defs)
  have "set (foldl add_fact (rl_facts rel) [values_candidate a]) = set (rl_facts rel) \<union> {values_candidate a}"
    using add_facts_plain[OF pl] by simp
  then have "\<forall>f\<in>set (foldl add_fact (rl_facts rel) [values_candidate a]). length f = 4" using r(2) by (auto simp: values_defs)
  then have "with_facts rel [values_candidate a] \<noteq> Inl x" for x
    using r(3,4) by (simp add: with_facts_def new_relation_def py_char_defs list_ex_iff)
  then obtain act where w: "with_facts rel [values_candidate a] = Inr act" by (cases "with_facts rel [values_candidate a]") auto
  have ws: "set (rl_facts act) = set (rl_facts rel) \<union> {values_candidate a}" using with_facts_set[OF w pl] by simp
  have "edb_entry_ok (''action'', act)"
    using w r(3,4) by (auto simp: with_facts_def new_relation_def edb_entry_ok_def edb_names_def name_ok_def py_char_defs split: if_splits)
  then have "list_all edb_entry_ok (edb @ [(''pending_action'', pend), (''action'', act)])" using p(3) graph_entries_ok[OF e(2)] by simp
  moreover have "request_edb a g = Inr (edb @ [(''pending_action'', pend), (''action'', act)])"
    using e(1) p(1) w by (simp add: request_edb_def r(1))
  moreover have "edb_base edb = bucket_set (graph_facts g)"
    by (rule edb_base_relations[OF e(2)]) (simp add: graph_facts_def)
  moreover have "edb_base (edb @ [(''pending_action'', pend), (''action'', act)]) = request_facts a g"
  proof -
    have s: "edb @ [(''pending_action'', pend), (''action'', act)] = (edb @ [(''pending_action'', pend)]) @ [(''action'', act)]" by simp
    have n: "fst x \<noteq> ''pending_action''" if "x \<in> bucket_set (graph_facts g)" for x
      using that by (auto simp: graph_facts_def)
    have ac: "x \<in> Pair ''action'' ` set (rl_facts rel)" if "x \<in> bucket_set (graph_facts g)" "fst x = ''action''" for x
      using that r(2) by (auto simp: graph_facts_def)
    have ag: "Pair ''action'' ` set (rl_facts rel) \<subseteq> bucket_set (graph_facts g)"
      using r(2) by (auto simp: graph_facts_def)
    have "edb_base (edb @ [(''pending_action'', pend), (''action'', act)]) =
        {x\<in>{x\<in>edb_base edb. fst x \<noteq> ''pending_action''} \<union> {(''pending_action'', values_candidate a)}. fst x \<noteq> ''action''} \<union>
        Pair ''action'' ` (set (rl_facts rel) \<union> {values_candidate a})"
      unfolding s edb_base_def edb_map_snoc fact_base_upd p(2) ws by simp
    also have "\<dots> = request_facts a g"
      unfolding \<open>edb_base edb = bucket_set (graph_facts g)\<close> request_facts_def using n ac ag by auto
    finally show ?thesis .
  qed
  ultimately show ?thesis by blast
qed

lemma request_facts_typed: "edb_schema ar \<Longrightarrow> typed_base ar (request_facts a g)"
  unfolding typed_base_def request_facts_def edb_schema_def
  by (auto simp: graph_facts_def values_defs)

section \<open>What the monitor decides\<close>

lemma matching_facts_iff:
  "set_order fo \<Longrightarrow> matching_facts fo a closure p \<noteq> [] \<longleftrightarrow> (\<exists>f. (p, f) \<in> fact_base closure \<and> concerns a f)"
proof -
  assume "set_order fo"
  then have "set (fo xs) = set xs" for xs by (simp add: set_order_def)
  then show ?thesis by (auto simp: matching_facts_def fact_base_def filter_empty_conv split: option.splits)
qed

definition decided :: "candidate_action \<Rightarrow> program \<Rightarrow> annotation \<Rightarrow> (string \<times> fact) set \<Rightarrow> bool" where
  "decided a p an M \<longleftrightarrow> (\<exists>q\<in>set (annotated_predicates an p). \<exists>f. (q, f) \<in> M \<and> concerns a f)"

lemma decide_verdict:
  assumes "set_order so" and "set_order fo"
  shows "pd_verdict (decide so fo a p closure) =
    (if decided a p Deny (fact_base closure) then FORBID else if decided a p Authorize (fact_base closure) then PERMIT else ABSTAIN)"
proof -
  have "concat (map snd (map (\<lambda>q. (q, matching_facts fo a closure q)) (so (annotated_predicates an p)))) \<noteq> [] \<longleftrightarrow>
      decided a p an (fact_base closure)" for an
    using assms(1) matching_facts_iff[OF assms(2)] by (auto simp: decided_def set_order_def)
  then show ?thesis by (simp add: decide_def Let_def del: concat_eq_Nil_conv)
qed

lemma decide_reasons: "pd_reasons (decide so fo a p closure) \<noteq> [''evaluation_error'']"
proof
  assume e: "pd_reasons (decide so fo a p closure) = [''evaluation_error'']"
  have "r \<noteq> ''evaluation_error''" if "r \<in> set (pd_reasons (decide so fo a p closure))" for r
    using that by (auto simp: decide_def Let_def split: if_splits)
  with e show False by auto
qed

lemma authorize_cases:
  assumes "authorize so fo m a g = Inr d" and "mo_evaluator m = Some ev"
  shows "(\<exists>edb closure. request_edb a g = Inr edb \<and> pcas_evaluate fo ev edb = Inr closure \<and> d = decide so fo a (ev_program ev) closure) \<or>
    d = refuse a ''evaluation_error''"
proof -
  obtain edb where e: "request_edb a g = Inr edb" using request_edb_total[of a g] by blast
  show ?thesis
  proof (cases "pcas_evaluate fo ev edb")
    case (Inl err)
    with e assms show ?thesis by (cases err) (simp_all add: authorize_def)
  next
    case (Inr closure)
    with e assms show ?thesis by (simp add: authorize_def)
  qed
qed

lemma monitor_init_program:
  assumes "monitor_init so jx src name = Inr m" and "mo_evaluator m = Some ev"
  shows "\<exists>n p. parse_program src n = Inr p \<and> evaluator_init so (helper_registry jx) p = Inr ev"
proof -
  define source where "source = (case name of None \<Rightarrow> ''<inline>'' | Some n \<Rightarrow> if n = [] then ''<inline>'' else n)"
  have "sbind (parse_program src (Some source)) (evaluator_init so (helper_registry jx)) = Inr ev"
    using assms unfolding monitor_init_def Let_def source_def[symmetric]
    by (cases "sbind (parse_program src (Some source)) (evaluator_init so (helper_registry jx))") (auto split: if_splits)
  then show ?thesis by (auto simp: sbind_eq_Inr)
qed

lemma monitor_init_evaluator:
  assumes "monitor_init so jx src name = Inr m" and "mo_evaluator m = Some ev"
  shows "\<exists>p. evaluator_init so (helper_registry jx) p = Inr ev"
  using monitor_init_program[OF assms] by blast

text \<open>A small policy, a request and what the monitor makes of them.\<close>

definition sample_policy :: string where
  "sample_policy = ''@deny no(A) :- pending_action(A, K, U, H), role(U, \"guest\"). @authorize ok(A) :- pending_action(A, K, U, H), not no(A).''"

definition sample_monitor :: monitor where
  "sample_monitor = projr (monitor_init id (\<lambda>_. None) sample_policy None)"

definition sample_evaluator :: evaluator where
  "sample_evaluator = the (mo_evaluator sample_monitor)"

definition sample_action :: candidate_action where
  "sample_action = \<lparr>ca_action_id = ''a1'', ca_kind = ''send'', ca_actor = ''bob'', ca_payload_hash = ''h''\<rparr>"

definition sample_graph :: "string \<Rightarrow> graph_view" where
  "sample_graph r = \<lparr>gv_actions = [], gv_messages = [], gv_tool_calls = [], gv_data = [], gv_denied = [], gv_edges = [],
     gv_roles = [\<lparr>gr_actor = ''bob'', gr_role_name = r\<rparr>], gv_approvals = []\<rparr>"

definition sample_arity :: "string \<Rightarrow> nat" where
  "sample_arity n = (if n = ''ok'' \<or> n = ''no'' then 1 else edb_arity n)"

definition sample_decision :: policy_decision where
  "sample_decision = \<lparr>pd_verdict = PERMIT, pd_action_id = ''a1'', pd_reasons = [''authorize:ok''],
     pd_authorize_facts = [[FStr ''a1'']], pd_deny_facts = []\<rparr>"

lemma sample_loads: "monitor_init id (\<lambda>_. None) sample_policy None = Inr sample_monitor"
proof -
  have "\<not> isl (monitor_init id (\<lambda>_. None) sample_policy None)" by code_simp
  then show ?thesis by (simp add: sample_monitor_def)
qed

lemma sample_loaded: "mo_evaluator sample_monitor = Some sample_evaluator"
proof -
  have "\<not> Option.is_none (mo_evaluator sample_monitor)" by code_simp
  then show ?thesis by (simp add: sample_evaluator_def Option.is_none_def)
qed

lemma sample_permits: "authorize id id sample_monitor sample_action (sample_graph ''admin'') = Inr sample_decision"
  by code_simp

lemma sample_schema: "edb_schema sample_arity"
  by code_simp

lemma sample_rules: "\<forall>r\<in>set (pg_rules (ev_program sample_evaluator)). policy_rule sample_arity r"
  by code_simp

lemma id_set_order [simp]: "set_order id"
  by (simp add: set_order_def)

text \<open>
  (C3) The monitor decides by the stable model. For a loaded policy whose atoms agree in arity, without
  boolean constants and without anonymous variables under negation, and in whatever order sets are
  enumerated, a decision that is not an evaluation error is given by the unique stable model of the
  policy over the facts of the graph and the candidate action: FORBID if it denies the action, else
  PERMIT if it authorizes it, else ABSTAIN.
\<close>

theorem monitor_decides_stable_model:
  assumes "monitor_init so jx src name = Inr m" and "mo_evaluator m = Some ev" and "set_order so" and "set_order fo"
    and "edb_schema ar" and "\<forall>r\<in>set (pg_rules (ev_program ev)). policy_rule ar r"
    and "authorize so fo m a g = Inr d" and "pd_reasons d \<noteq> [''evaluation_error'']"
  shows "\<exists>M. stable_model (helper_registry jx) (set (pg_rules (ev_program ev))) (request_facts a g) M \<and>
    (\<forall>M'. stable_model (helper_registry jx) (set (pg_rules (ev_program ev))) (request_facts a g) M' \<longrightarrow> M' = M) \<and>
    pd_verdict d = (if decided a (ev_program ev) Deny M then FORBID
                    else if decided a (ev_program ev) Authorize M then PERMIT else ABSTAIN)"
proof -
  obtain p where init: "evaluator_init so (helper_registry jx) p = Inr ev" using monitor_init_evaluator[OF assms(1,2)] ..
  from authorize_cases[OF assms(7,2)] assms(8) obtain edb closure where
    e: "request_edb a g = Inr edb" "pcas_evaluate fo ev edb = Inr closure" "d = decide so fo a (ev_program ev) closure"
    by (auto simp: refuse_def)
  have b: "edb_base edb = request_facts a g" using request_edb_total[of a g] e(1) by auto
  have st: "stable_model (helper_registry jx) (set (pg_rules (ev_program ev))) (request_facts a g) (fact_base closure)"
    using pcas_evaluate_stable_model[OF init assms(3,4) e(2) _ assms(6)] request_facts_typed[OF assms(5)] unfolding b by blast
  have "stratified (pg_rules (ev_program ev)) (ev_strata ev)"
    using stratify_stratified[OF assms(3)] evaluator_init_cases[OF init] by blast
  with st decide_verdict[OF assms(3,4)] show ?thesis unfolding e(3) using stable_model_unique by blast
qed

theorem monitor_decides_stable_model_witness:
  "\<exists>M. stable_model (helper_registry (\<lambda>_. None)) (set (pg_rules (ev_program sample_evaluator)))
      (request_facts sample_action (sample_graph ''admin'')) M \<and>
    decided sample_action (ev_program sample_evaluator) Authorize M \<and> \<not> decided sample_action (ev_program sample_evaluator) Deny M"
proof -
  have "pd_reasons sample_decision \<noteq> [''evaluation_error'']" "pd_verdict sample_decision = PERMIT"
    by (simp_all add: sample_decision_def)
  then show ?thesis
    using monitor_decides_stable_model[OF sample_loads sample_loaded id_set_order id_set_order sample_schema sample_rules sample_permits]
    by (auto split: if_splits)
qed

lemma monitor_rules_named:
  assumes "monitor_init so jx src name = Inr m" and "mo_evaluator m = Some ev"
  shows "\<exists>p. evaluator_init so (helper_registry jx) p = Inr ev \<and> (\<forall>r\<in>set (pg_rules (ev_program ev)). rule_named r)"
proof -
  from monitor_init_program[OF assms] obtain n p where p: "parse_program src n = Inr p" "evaluator_init so (helper_registry jx) p = Inr ev" by blast
  have "disambiguate_program (map fst (helper_registry jx)) p = Inr (ev_program ev)"
    using evaluator_init_cases[OF p(2)] stratify_cases by blast
  from disambiguate_program_named[OF this parse_program_named[OF p(1)]] p(2) show ?thesis by (auto simp: list_all_iff)
qed

text \<open>
  (C14) The monitor answers. For a loaded policy whose atoms agree in arity and whose helper calls have
  the arity of the helper, without boolean constants and without anonymous variables under negation, authorize returns a
  decision and it is not an evaluation error (no exception escapes and the iteration cap is not reached), as long as the facts of
  the request and those that can be derived from them are fewer than 1024 in total: \<open>C\<close> is any finite set that holds the facts of the
  request and is closed under the rules.
\<close>

theorem monitor_answers:
  assumes "monitor_init so jx src name = Inr m" and "mo_evaluator m = Some ev" and "set_order so" and "set_order fo"
    and "edb_schema ar" and "\<forall>r\<in>set (pg_rules (ev_program ev)). policy_rule ar r \<and> helpers_fit (helper_registry jx) r"
    and "fact_bound (helper_registry jx) (pg_rules (ev_program ev)) (request_facts a g) C" and "card C < max_iterations"
  shows "\<exists>d. authorize so fo m a g = Inr d \<and> pd_reasons d \<noteq> [''evaluation_error'']"
proof -
  obtain p where i: "evaluator_init so (helper_registry jx) p = Inr ev" and n: "\<forall>r\<in>set (pg_rules (ev_program ev)). rule_named r"
    using monitor_rules_named[OF assms(1,2)] by blast
  obtain edb where e: "request_edb a g = Inr edb" "edb_base edb = request_facts a g" "list_all edb_entry_ok edb"
    using request_edb_total[of a g] by blast
  have "name_ok (rl_name (snd x)) \<and> rl_arity (snd x) = ar (fst x)" if "x \<in> set edb" for x
    using that e(3) assms(5) by (auto simp: list_all_iff edb_entry_ok_def edb_names_def edb_schema_def)
  then have edb: "\<forall>(n, rel)\<in>set edb. name_ok (rl_name rel) \<and> rl_arity rel = ar n" by force
  have "\<forall>r\<in>set (pg_rules (ev_program ev)). policy_rule ar r \<and> helpers_fit (helper_registry jx) r \<and> rule_named r"
    using assms(6) n by blast
  from pcas_evaluate_total[OF i assms(3,4) edb _ this _ assms(8)] request_facts_typed[OF assms(5)] assms(7) e(2)
  obtain closure where "pcas_evaluate fo ev edb = Inr closure" by auto
  with e(1) assms(2) decide_reasons[of so fo a "ev_program ev" closure] show ?thesis by (simp add: authorize_def)
qed

definition sample_rule_list :: "rule list" where
  "sample_rule_list = (let pend = BAtom \<lparr>at_predicate = ''pending_action'', at_args = map Variable [''A'', ''K'', ''U'', ''H'']\<rparr> in
     [\<lparr>ru_annotation = Deny, ru_head = \<lparr>at_predicate = ''no'', at_args = [Variable ''A'']\<rparr>,
       ru_body = [pend, BAtom \<lparr>at_predicate = ''role'', at_args = [Variable ''U'', Constant (FStr ''guest'')]\<rparr>]\<rparr>,
      \<lparr>ru_annotation = Authorize, ru_head = \<lparr>at_predicate = ''ok'', at_args = [Variable ''A'']\<rparr>,
       ru_body = [pend, BNot \<lparr>at_predicate = ''no'', at_args = [Variable ''A'']\<rparr>]\<rparr>])"

lemma sample_rules_are: "pg_rules (ev_program sample_evaluator) = sample_rule_list"
  by code_simp

lemma sample_helpers: "\<forall>r\<in>set (pg_rules (ev_program sample_evaluator)). helpers_fit (helper_registry (\<lambda>_. None)) r"
  unfolding sample_rules_are by (simp add: sample_rule_list_def Let_def helpers_fit_def body_helpers_def)

definition sample_bound :: "(string \<times> fact) set" where
  "sample_bound = {(''pending_action'', map FStr [''a1'', ''send'', ''bob'', ''h'']), (''action'', map FStr [''a1'', ''send'', ''bob'', ''h'']),
     (''role'', map FStr [''bob'', ''admin'']), (''no'', [FStr ''a1'']), (''ok'', [FStr ''a1''])}"

lemma sample_fact_bound:
  "fact_bound (helper_registry (\<lambda>_. None)) (pg_rules (ev_program sample_evaluator)) (request_facts sample_action (sample_graph ''admin'')) sample_bound"
proof -
  have "request_facts sample_action (sample_graph ''admin'') \<subseteq> sample_bound"
    by (auto simp: request_facts_def graph_facts_def sample_graph_def sample_action_def values_defs sample_bound_def)
  moreover have "consequences (helper_registry (\<lambda>_. None)) D D r \<subseteq> sample_bound" if D: "D \<subseteq> sample_bound" and r: "r \<in> set sample_rule_list" for D r
  proof
    fix x
    assume "x \<in> consequences (helper_registry (\<lambda>_. None)) D D r"
    then obtain \<sigma> where s: "body_true (helper_registry (\<lambda>_. None)) D D r \<sigma>" "x = head_value r \<sigma>" by (auto simp: consequences_def)
    let ?a = "\<lparr>at_predicate = ''pending_action'', at_args = map Variable [''A'', ''K'', ''U'', ''H'']\<rparr>"
    have "?a \<in> set (body_positive_atoms r)" using r by (auto simp: sample_rule_list_def Let_def body_positive_atoms_def)
    with s(1) obtain f where "atom_matches \<sigma> ?a f" "(''pending_action'', f) \<in> D" by (auto simp: body_true_def)
    with D have "\<sigma> ''A'' = FStr ''a1''" by (auto simp: sample_bound_def atom_matches_def is_anonymous_def)
    with r show "x \<in> sample_bound" unfolding s(2) by (auto simp: sample_rule_list_def Let_def head_value_def sample_bound_def)
  qed
  ultimately show ?thesis unfolding fact_bound_def sample_rules_are by (auto simp: sample_bound_def)
qed

theorem monitor_answers_witness:
  "\<exists>d. authorize id id sample_monitor sample_action (sample_graph ''admin'') = Inr d \<and> pd_reasons d \<noteq> [''evaluation_error'']"
proof (rule monitor_answers[OF sample_loads sample_loaded id_set_order id_set_order sample_schema _ sample_fact_bound])
  show "\<forall>r\<in>set (pg_rules (ev_program sample_evaluator)). policy_rule sample_arity r \<and> helpers_fit (helper_registry (\<lambda>_. None)) r"
    using sample_rules sample_helpers by blast
  have "card sample_bound \<le> 5" unfolding sample_bound_def by (simp add: card_insert_if)
  then show "card sample_bound < max_iterations" by (simp add: max_iterations_def)
qed

text \<open>
  Failing closed: a PERMIT is only given by a policy that was loaded, on an evaluation that
  returned, with an authorizing fact for this action in the closure and no denying one. A policy that
  does not lex, parse or stratify forbids every action.
\<close>

theorem monitor_permit_explicit:
  assumes "set_order so" and "set_order fo" and "authorize so fo m a g = Inr d" and "pd_verdict d = PERMIT"
  shows "\<exists>ev edb closure. mo_evaluator m = Some ev \<and> request_edb a g = Inr edb \<and> pcas_evaluate fo ev edb = Inr closure \<and>
    decided a (ev_program ev) Authorize (fact_base closure) \<and> \<not> decided a (ev_program ev) Deny (fact_base closure)"
proof (cases "mo_evaluator m")
  case None
  with assms(3,4) show ?thesis by (auto simp: authorize_def refuse_def)
next
  case (Some ev)
  from authorize_cases[OF assms(3) Some] assms(4) obtain edb closure where
    "request_edb a g = Inr edb" "pcas_evaluate fo ev edb = Inr closure" "d = decide so fo a (ev_program ev) closure"
    by (auto simp: refuse_def)
  with Some assms(4) decide_verdict[OF assms(1,2)] show ?thesis by (auto split: if_splits)
qed

theorem monitor_permit_explicit_witness:
  "\<exists>edb closure. request_edb sample_action (sample_graph ''admin'') = Inr edb \<and> pcas_evaluate id sample_evaluator edb = Inr closure \<and>
    decided sample_action (ev_program sample_evaluator) Authorize (fact_base closure) \<and>
    \<not> decided sample_action (ev_program sample_evaluator) Deny (fact_base closure)"
proof -
  have "pd_verdict sample_decision = PERMIT" by (simp add: sample_decision_def)
  then show ?thesis
    using monitor_permit_explicit[OF id_set_order id_set_order sample_permits] sample_loaded by auto
qed

section \<open>Where the monitor departs from its documentation\<close>

lemma ground_args_anonymous: "\<not> no_anonymous ts \<Longrightarrow> ground_args sub ts = None"
proof (induction ts)
  case (Cons t ts)
  then show ?case by (cases t) (auto split: option.splits)
qed simp

text \<open>A policy that denies what nobody approved, with anonymous variables under the negation.\<close>

definition unapproved_policy :: string where
  "unapproved_policy = ''@authorize ok(A) :- pending_action(A, _, _, _). @deny no(A) :- pending_action(A, _, _, _), not approved(A, _, _).''"

definition unapproved_rule :: rule where
  "unapproved_rule = \<lparr>ru_annotation = Deny, ru_head = \<lparr>at_predicate = ''no'', at_args = [Variable ''A'']\<rparr>,
     ru_body = [BAtom \<lparr>at_predicate = ''pending_action'', at_args = map Variable [''A'', ''_'', ''_'', ''_'']\<rparr>,
                BNot \<lparr>at_predicate = ''approved'', at_args = map Variable [''A'', ''_'', ''_'']\<rparr>]\<rparr>"

definition unapproved_db :: "string \<rightharpoonup> relation" where
  "unapproved_db = Map.empty(''pending_action'' \<mapsto> \<lparr>rl_name = ''pending_action'', rl_arity = 4, rl_facts = [values_candidate sample_action]\<rparr>)"

text \<open>
  A rule with an anonymous variable under a negation derives nothing, whatever the database
  holds, although the safety check accepts it.
\<close>

theorem anonymous_negation_never_fires:
  assumes "a \<in> set (body_negated_atoms r)" and "\<not> no_anonymous (at_args a)" and "derive fo hreg facts r = Inr out"
  shows "out = []"
proof -
  have "\<not> negated_holds facts sub a" for sub
    using assms(2) by (simp add: negated_holds_def ground_atom_def ground_args_anonymous)
  then have "filter_negated facts (body_negated_atoms r) subs = []" for subs
    using assms(1) by (auto simp: filter_negated_def list_all_iff filter_empty_conv)
  with assms(3) show ?thesis by (auto simp: derive_def sbind_rules map_filter_simps split: if_splits)
qed

theorem anonymous_negation_never_fires_witness:
  "rule_safe unapproved_rule \<and> derive id (helper_registry (\<lambda>_. None)) unapproved_db unapproved_rule = Inr [] \<and>
   sbind (monitor_init id (\<lambda>_. None) unapproved_policy None) (\<lambda>m. authorize id id m sample_action (sample_graph ''admin'')) =
     Inr sample_decision"
proof -
  have "\<not> isl (derive id (helper_registry (\<lambda>_. None)) unapproved_db unapproved_rule)" by code_simp
  then obtain out where d: "derive id (helper_registry (\<lambda>_. None)) unapproved_db unapproved_rule = Inr out"
    by (cases "derive id (helper_registry (\<lambda>_. None)) unapproved_db unapproved_rule") auto
  have "out = []"
    by (rule anonymous_negation_never_fires[OF _ _ d, of "\<lparr>at_predicate = ''approved'', at_args = map Variable [''A'', ''_'', ''_'']\<rparr>"])
       (simp_all add: unapproved_rule_def body_negated_atoms_def is_anonymous_def)
  moreover have "rule_safe unapproved_rule" by code_simp
  moreover have "sbind (monitor_init id (\<lambda>_. None) unapproved_policy None) (\<lambda>m. authorize id id m sample_action (sample_graph ''admin'')) =
     Inr sample_decision" by code_simp
  ultimately show ?thesis using d by simp
qed

text \<open>
  Exceptions that escape the monitor: a body atom with more arguments than its relation has
  columns raises an IndexError in authorize, and a predicate that starts with a capital letter, an
  overlong predicate name or an overlong source name raises a ValidationError on loading.
\<close>

theorem monitor_raises:
  "sbind (monitor_init id (\<lambda>_. None) ''@authorize ok(A) :- pending_action(A, K, U, H), pending_action(A, K, U, H, X).'' None)
     (\<lambda>m. authorize id id m sample_action (sample_graph ''admin'')) = Inl IndexError \<and>
   map_sum id mo_source (monitor_init id (\<lambda>_. None) ''Bad(X) :- p(X).'' None) = Inl ValidationError \<and>
   map_sum id mo_source (monitor_init id (\<lambda>_. None) (replicate 65 CHR ''p'' @ ''.'') None) = Inl ValidationError \<and>
   map_sum id mo_source (monitor_init id (\<lambda>_. None) ''p.'' (Some (replicate 201 CHR ''s''))) = Inl ValidationError"
  by (intro conjI; code_simp)

end
