(* ===== verification/Det_Gate.thy ===== *)
theory Det_Gate
  imports Signals "HOL-Library.Char_ord" "HOL-Library.List_Lexorder" "HOL-Library.Product_Lexorder"
begin

text \<open>
  The deterministic gate (\<^verbatim>\<open>deterministic/gate.py\<close>): it runs the recognizers that the policy enables, removes
  duplicate findings, orders them and blocks when the policy says that a severity blocks. A recognizer is
  a name with a scan function, as the gate is constructed with a tuple of them.
\<close>

record 'q recognizer =
  rc_name :: string
  rc_scan :: "'q \<Rightarrow> finding list"

record gate_result =
  gr_findings :: "finding list"
  gr_enabled_recognizers :: "string list"
  gr_blocked :: bool
  gr_blocking_reasons :: "string list"

type_synonym finding_key = "string \<times> string \<times> string option \<times> nat option \<times> nat option"

definition finding_key :: "finding \<Rightarrow> finding_key" where
  "finding_key f = (fd_rule_name f, fd_message f, fd_matched_text f, fd_start_index f, fd_end_index f)"

fun dedupe_loop :: "finding_key list \<Rightarrow> finding list \<Rightarrow> finding list" where
  "dedupe_loop seen [] = []"
| "dedupe_loop seen (f # fs) =
     (if finding_key f \<in> set seen then dedupe_loop seen fs
      else f # dedupe_loop (finding_key f # seen) fs)"

definition finding_order :: "finding \<Rightarrow> nat \<times> nat \<times> string" where
  "finding_order f = (if fd_severity f = CRITICAL then 0 else if fd_severity f = WARNING then 1 else 2,
     case fd_start_index f of Some i \<Rightarrow> i | None \<Rightarrow> 10 ^ 9, fd_rule_name f)"

definition dedupe_findings :: "finding list \<Rightarrow> finding list" where
  "dedupe_findings fs = sort_key finding_order (dedupe_loop [] fs)"

definition blocking_reason :: "finding \<Rightarrow> string" where
  "blocking_reason f = fd_rule_name f @ '' produced '' @ severity_value (fd_severity f) @ '' finding: '' @ fd_message f"

definition compute_blocking_reasons :: "finding list \<Rightarrow> policy \<Rightarrow> string list" where
  "compute_blocking_reasons fs p = map blocking_reason (filter (\<lambda>f. blocks_severity p (fd_severity f)) fs)"

definition enabled_recognizers :: "'q recognizer list \<Rightarrow> policy \<Rightarrow> 'q recognizer list" where
  "enabled_recognizers rs p = filter (\<lambda>r. ps_enabled_recognizers p = [] \<or> rc_name r \<in> set (ps_enabled_recognizers p)) rs"

definition gate_evaluate :: "'q recognizer list \<Rightarrow> 'q \<Rightarrow> policy \<Rightarrow> gate_result" where
  "gate_evaluate rs q p =
     (let run = enabled_recognizers rs p;
          fs = dedupe_findings (concat (map (\<lambda>r. rc_scan r q) run));
          reasons = compute_blocking_reasons fs p
      in \<lparr>gr_findings = fs, gr_enabled_recognizers = map rc_name run, gr_blocked = (reasons \<noteq> []),
          gr_blocking_reasons = reasons\<rparr>)"

definition suggested_verdict :: "gate_result \<Rightarrow> Verdict option" where
  "suggested_verdict g = (if gr_blocked g then Some FORBID else if gr_findings g \<noteq> [] then Some ABSTAIN else None)"

section \<open>Which findings survive\<close>

lemma dedupe_loop_set: "set (dedupe_loop seen fs) \<subseteq> set fs"
  by (induction seen fs rule: dedupe_loop.induct) auto

lemma dedupe_loop_keys: "finding_key ` set (dedupe_loop seen fs) = finding_key ` set fs - set seen"
  by (induction seen fs rule: dedupe_loop.induct) auto

lemma dedupe_loop_distinct: "distinct (map finding_key (dedupe_loop seen fs))"
proof (induction seen fs rule: dedupe_loop.induct)
  case (2 seen f fs)
  then show ?case using dedupe_loop_keys[of "finding_key f # seen" fs] by auto
qed simp

lemma set_dedupe_findings: "set (dedupe_findings fs) = set (dedupe_loop [] fs)"
  by (simp add: dedupe_findings_def)

lemma dedupe_findings_keys: "finding_key ` set (dedupe_findings fs) = finding_key ` set fs"
  by (simp add: set_dedupe_findings dedupe_loop_keys)

lemma dedupe_findings_distinct: "distinct (map finding_key (dedupe_findings fs))"
proof -
  have "inj_on finding_key (set (dedupe_loop [] fs))" "distinct (dedupe_loop [] fs)"
    using dedupe_loop_distinct[of "[]" fs] by (auto simp: distinct_map)
  then show ?thesis by (simp add: distinct_map dedupe_findings_def)
qed

text \<open>The findings that the enabled recognizers report.\<close>

definition scanned :: "'q recognizer list \<Rightarrow> 'q \<Rightarrow> policy \<Rightarrow> finding list" where
  "scanned rs q p = concat (map (\<lambda>r. rc_scan r q) (enabled_recognizers rs p))"

lemma gate_evaluate_simps:
  "gr_findings (gate_evaluate rs q p) = dedupe_findings (scanned rs q p)"
  "gr_blocked (gate_evaluate rs q p) \<longleftrightarrow> (\<exists>f\<in>set (dedupe_findings (scanned rs q p)). blocks_severity p (fd_severity f))"
  "gr_blocked (gate_evaluate rs q p) \<longleftrightarrow> gr_blocking_reasons (gate_evaluate rs q p) \<noteq> []"
  by (auto simp: gate_evaluate_def Let_def scanned_def compute_blocking_reasons_def filter_empty_conv)

lemma gate_blocked_sound: "gr_blocked (gate_evaluate rs q p) \<Longrightarrow> \<exists>f\<in>set (scanned rs q p). blocks_severity p (fd_severity f)"
  using dedupe_loop_set[of "[]" "scanned rs q p"] by (auto simp: gate_evaluate_simps(2) set_dedupe_findings)

lemma gate_blocked_complete:
  assumes "f \<in> set (scanned rs q p)" and "blocks_severity p (fd_severity f)"
    and "\<forall>g\<in>set (scanned rs q p). finding_key g = finding_key f \<longrightarrow> fd_severity g = fd_severity f"
  shows "gr_blocked (gate_evaluate rs q p)"
proof -
  have "finding_key f \<in> finding_key ` set (dedupe_findings (scanned rs q p))"
    unfolding dedupe_findings_keys using assms(1) by (rule imageI)
  then obtain g where g: "g \<in> set (dedupe_findings (scanned rs q p))" "finding_key g = finding_key f" by (auto simp: image_iff)
  then have "g \<in> set (scanned rs q p)" using dedupe_loop_set[of "[]" "scanned rs q p"] by (auto simp: set_dedupe_findings)
  with g(2) assms(3) have "fd_severity g = fd_severity f" by blast
  with g(1) assms(2) show ?thesis unfolding gate_evaluate_simps(2) by (intro bexI[of _ g]) simp_all
qed

text \<open>
  (C31) The gate blocks a request exactly when an enabled recognizer reports a finding of a severity that
  the policy blocks, provided that recognizers do not report one rule, text and span under two
  severities; every reported finding is represented once, and critical findings come first.
\<close>

theorem gate_blocks_iff:
  assumes "\<forall>f\<in>set (scanned rs q p). \<forall>g\<in>set (scanned rs q p). finding_key g = finding_key f \<longrightarrow> fd_severity g = fd_severity f"
  shows "(gr_blocked (gate_evaluate rs q p) \<longleftrightarrow>
      (\<exists>r\<in>set rs. (ps_enabled_recognizers p = [] \<or> rc_name r \<in> set (ps_enabled_recognizers p))
         \<and> (\<exists>f\<in>set (rc_scan r q). fd_severity f \<in> set (ps_block_severities p))))
    \<and> finding_key ` set (gr_findings (gate_evaluate rs q p)) = finding_key ` set (scanned rs q p)
    \<and> distinct (map finding_key (gr_findings (gate_evaluate rs q p)))
    \<and> sorted (map finding_order (gr_findings (gate_evaluate rs q p)))"
proof -
  have "gr_blocked (gate_evaluate rs q p) \<longleftrightarrow> (\<exists>f\<in>set (scanned rs q p). blocks_severity p (fd_severity f))"
    using gate_blocked_sound gate_blocked_complete assms by metis
  also have "\<dots> \<longleftrightarrow> (\<exists>r\<in>set rs. (ps_enabled_recognizers p = [] \<or> rc_name r \<in> set (ps_enabled_recognizers p))
         \<and> (\<exists>f\<in>set (rc_scan r q). fd_severity f \<in> set (ps_block_severities p)))"
    by (auto simp: scanned_def enabled_recognizers_def blocks_severity_def)
  finally show ?thesis
    by (simp add: gate_evaluate_simps(1) dedupe_findings_keys dedupe_findings_distinct)
      (simp add: dedupe_findings_def)
qed

text \<open>
  Findings are compared without their severity: a critical finding that repeats the rule, message and
  span of an earlier informational one disappears, and the gate does not block.
\<close>

definition masked_finding :: "Severity \<Rightarrow> finding" where
  "masked_finding s = \<lparr>fd_source = ''deterministic'', fd_rule_name = ''r'', fd_severity = s, fd_message = ''m'',
     fd_matched_text = None, fd_start_index = None, fd_end_index = None\<rparr>"

definition example_policy :: policy where
  "example_policy = \<lparr>ps_policy_id = ''default'', ps_version = ''1'', ps_is_active = True, ps_permit_threshold = fl_lit 35 2,
     ps_forbid_threshold = fl_lit 75 2, ps_minimum_confidence = fl_lit 6 1, ps_block_severities = [CRITICAL],
     ps_enabled_recognizers = [], ps_blocked_terms = [], ps_sensitive_entities = [], ps_retrieval_top_k = 5,
     ps_precedent_lookback_limit = 25, ps_precedent_autoresolve = False, ps_precedent_autoresolve_min_count = 3,
     ps_precedent_autoresolve_freshness_days = 90, ps_precedent_autoresolve_min_confidence = Fin (7 / 8),
     ps_specialist_thresholds = [], ps_action_criticality = [],
     ps_channel_criticality = [], ps_environment_criticality = [], ps_fusion_weights = default_fusion_weights\<rparr>"

lemma gate_masked_block:
  "gr_blocked (gate_evaluate [\<lparr>rc_name = ''a'', rc_scan = \<lambda>q. [masked_finding INFO, masked_finding CRITICAL]\<rparr>] () example_policy) = False"
  "gr_blocked (gate_evaluate [\<lparr>rc_name = ''a'', rc_scan = \<lambda>q. [masked_finding CRITICAL, masked_finding INFO]\<rparr>] () example_policy)"
  by (simp_all add: gate_evaluate_def Let_def enabled_recognizers_def dedupe_findings_def compute_blocking_reasons_def
      finding_key_def masked_finding_def example_policy_def blocks_severity_def)

theorem gate_blocks_iff_witness:
  "gr_blocked (gate_evaluate [\<lparr>rc_name = ''a'', rc_scan = \<lambda>q :: unit. [masked_finding CRITICAL]\<rparr>] () example_policy)"
proof -
  let ?rs = "[\<lparr>rc_name = ''a'', rc_scan = \<lambda>q :: unit. [masked_finding CRITICAL]\<rparr>]"
  have s: "scanned ?rs () example_policy = [masked_finding CRITICAL]"
    by (simp add: scanned_def enabled_recognizers_def example_policy_def)
  show ?thesis using gate_blocks_iff[of ?rs "()" example_policy] unfolding s
    by (simp add: example_policy_def masked_finding_def)
qed

end
