(* ===== verification/Fusion.thy ===== *)
theory Fusion
  imports Signals "HOL-Library.Char_ord" "HOL-Library.List_Lexorder"
begin

text \<open>
  Fusion of the specialists (\<^verbatim>\<open>specialists/fusion.py\<close>): the largest risk plus a capped bonus for the
  specialists that fire together.
\<close>

definition frontier_specialist_names :: "string list" where
  "frontier_specialist_names = [''argus'', ''attriguard'', ''vigil'', ''agentarmor'', ''mage'']"

fun corroboration_bonus_by_count :: "nat \<Rightarrow> pyfloat option" where
  "corroboration_bonus_by_count n =
     (if n = 1 then Some (Fin 0) else if n = 2 then Some (fl_lit 5 2) else if n = 3 then Some (fl_lit 10 2)
      else if n = 4 then Some (fl_lit 15 2) else if n = 5 then Some (fl_lit 18 2) else None)"

definition corroboration_bonus_cap :: pyfloat where
  "corroboration_bonus_cap = fl_lit 20 2"

definition pair_bonuses :: "(string \<times> string \<times> pyfloat \<times> string) list" where
  "pair_bonuses =
     [(''mage'', ''agentarmor'', fl_lit 8 2, ''FUSION_MAGE_X_AGENTARMOR_ASI08''),
      (''argus'', ''attriguard'', fl_lit 8 2, ''FUSION_ARGUS_X_ATTRIGUARD_CAUSAL''),
      (''vigil'', ''clawguard'', fl_lit 6 2, ''FUSION_VIGIL_X_CLAWGUARD_TOOL_HIJACK''),
      (''planguard'', ''mage'', fl_lit 6 2, ''FUSION_PLANGUARD_X_MAGE_CROSS_TURN''),
      (''agentarmor'', ''attriguard'', fl_lit 7 2, ''FUSION_AGENTARMOR_X_ATTRIGUARD_EXFIL'')]"

record fusion_verdict =
  fv_base_risk :: pyfloat
  fv_fused_risk :: pyfloat
  fv_corroboration_bonus :: pyfloat
  fv_firing_specialists :: "string list"
  fv_frontier_in_agreement :: "string list"
  fv_pair_signals :: "string list"
  fv_cascading_failure_signal :: bool

definition fires :: "specialist_result \<Rightarrow> bool" where
  "fires r \<longleftrightarrow> fl_le (fl_lit 10 2) (sp_risk_score r) \<and> sp_matched_policy_clause_ids r \<noteq> []"

definition firing_specialists :: "specialist_bundle \<Rightarrow> string list" where
  "firing_specialists b = sort (map sp_specialist_name (filter fires b))"

text \<open>The bonus by the number of firing specialists, before the bonuses of pairs.\<close>

definition base_bonus :: "nat \<Rightarrow> bool \<Rightarrow> pyfloat" where
  "base_bonus n frontier =
     (let b = (if n = 0 then Fin 0
               else case corroboration_bonus_by_count n of None \<Rightarrow> corroboration_bonus_cap | Some x \<Rightarrow> x);
          b = (if n = 1 \<and> frontier then fl_add b (fl_lit 8 2) else b)
      in if frontier then fl_mul b (fl_lit 15 1) else b)"

definition pair_loop :: "string list \<Rightarrow> pyfloat \<Rightarrow> pyfloat \<times> string list" where
  "pair_loop firing bonus = foldl (\<lambda>(bn, sigs) (a, b, pb, nm).
       if a \<in> set firing \<and> b \<in> set firing then (fl_add bn pb, sigs @ [nm]) else (bn, sigs)) (bonus, []) pair_bonuses"

definition fuse :: "specialist_bundle \<Rightarrow> fusion_verdict" where
  "fuse bundle =
     (let base = max_risk_score bundle;
          firing = firing_specialists bundle;
          firing_set = remdups firing;
          frontier = filter (\<lambda>x. x \<in> set frontier_specialist_names) firing_set;
          n = length firing_set;
          (bonus, sigs) = pair_loop firing (base_bonus n (frontier \<noteq> []));
          bonus = py_min bonus corroboration_bonus_cap;
          fused = py_min (Fin 1) (fl_add base bonus)
      in \<lparr>fv_base_risk = py_round 4 base, fv_fused_risk = py_round 4 fused, fv_corroboration_bonus = py_round 4 bonus,
          fv_firing_specialists = firing, fv_frontier_in_agreement = sort frontier, fv_pair_signals = sigs,
          fv_cascading_failure_signal = (3 \<le> n \<and> frontier \<noteq> [])\<rparr>)"

definition fusion_reason_codes :: "fusion_verdict \<Rightarrow> string list" where
  "fusion_reason_codes v = fv_pair_signals v @
     (if fv_cascading_failure_signal v then [''FUSION_CASCADING_FAILURE'', ''ASI08_cascading_failure''] else [])"

section \<open>Bounds\<close>

lemma fl_lit_nn [simp]: "fl_nn (fl_lit n k)"
  unfolding fl_lit_def by (rule fl_round_mono(2)[OF _ order_refl]) simp

lemma fl_lit_unit: "n \<le> 10 ^ k \<Longrightarrow> fl_unit (fl_lit n k)"
proof -
  assume "n \<le> 10 ^ k"
  then have "of_nat n \<le> (of_nat (10 ^ k) :: rat)" by (simp only: of_nat_le_iff)
  then have "(of_nat n :: rat) / 10 ^ k \<le> 1" by simp
  from fl_round_mono[of "of_nat n / 10 ^ k", OF _ this] fl_round_int[of 1]
  show ?thesis by (cases "fl_lit n k") (auto simp: fl_lit_def fl_le_def)
qed

lemma fl_unit_pos_fin: "fl_unit x \<Longrightarrow> fl_pos_fin x"
  by (auto simp: fl_unit_Fin)

lemma fl_mul_nn: "fl_unit a \<Longrightarrow> fl_pos_fin w \<Longrightarrow> fl_nn (fl_mul a w)"
  using fl_mul_mono(2)[of w a a] by (auto simp: fl_unit_Fin)

lemma fl_lit_solo: "fl_unit (fl_add (Fin 0) (fl_lit 8 2))" "fl_pos_fin (fl_lit 15 1)"
  by code_simp+

lemma base_bonus_nn: "fl_nn (base_bonus n f)"
proof -
  define b where "b = (if n = 0 then Fin 0
     else case corroboration_bonus_by_count n of None \<Rightarrow> corroboration_bonus_cap | Some x \<Rightarrow> x)"
  have u: "fl_unit b" unfolding b_def corroboration_bonus_cap_def by (auto simp: fl_lit_unit)
  have s: "n = 1 \<Longrightarrow> b = Fin 0" by (simp add: b_def)
  have "fl_unit (if n = 1 \<and> f then fl_add b (fl_lit 8 2) else b)" using u s fl_lit_solo(1) by auto
  then show ?thesis unfolding base_bonus_def b_def[symmetric] Let_def
    using fl_mul_nn[OF _ fl_lit_solo(2)] fl_pos_fin_nn[OF fl_unit_pos_fin] by auto
qed

lemma pair_loop_nn: "fl_nn bn \<Longrightarrow> fl_nn (fst (pair_loop firing bn))"
  unfolding pair_loop_def pair_bonuses_def by (auto intro!: fl_add_nn)

lemma py_min_unit: "fl_nn b \<Longrightarrow> fl_unit c \<Longrightarrow> fl_unit (py_min b c)" "fl_nn b \<Longrightarrow> fl_unit c \<Longrightarrow> fl_le (py_min b c) c"
  by (cases b; auto simp: py_min_def fl_unit_Fin)+

lemma bonus_cap_unit: "fl_unit corroboration_bonus_cap"
  unfolding corroboration_bonus_cap_def by (rule fl_lit_unit) simp

lemma py_min_one: "fl_unit x \<Longrightarrow> fl_nn y \<Longrightarrow> fl_le x y \<Longrightarrow> fl_unit (py_min (Fin 1) y) \<and> fl_le x (py_min (Fin 1) y)"
  by (cases y) (auto simp: py_min_def fl_unit_Fin)

lemma fl_add_ge:
  assumes "fl_unit x" and "fl_float x" and "fl_nn y"
  shows "fl_le x (fl_add x y)" "fl_nn (fl_add x y)"
proof -
  obtain q where q: "x = Fin q" "0 \<le> q" using assms(1) by (auto simp: fl_unit_Fin)
  have r: "fl_add x (Fin 0) = x" using assms(2) q by simp
  show "fl_nn (fl_add x y)" using q assms(3) by (intro fl_add_nn) auto
  have "fl_le (Fin 0) y" using assms(3) by (cases y) auto
  then show "fl_le x (fl_add x y)" using fl_add_mono[of x "Fin 0" x y] q unfolding r by simp
qed

lemma max_risk_score_unit: "bundle_ok b \<Longrightarrow> fl_unit (max_risk_score b) \<and> fl_float (max_risk_score b)"
  using py_max_default_in[of "map sp_risk_score b" "Fin 0"]
  by (cases "b = []") (auto simp: max_risk_score_def bundle_ok_def specialist_ok_def py_max_default_def fl_round_def)

lemma fuse_bonus:
  obtains bonus where "fl_unit bonus" "fl_le bonus corroboration_bonus_cap"
    "fv_corroboration_bonus (fuse b) = py_round 4 bonus"
    "fv_fused_risk (fuse b) = py_round 4 (py_min (Fin 1) (fl_add (max_risk_score b) bonus))"
    "fv_base_risk (fuse b) = py_round 4 (max_risk_score b)"
proof -
  define raw where "raw = fst (pair_loop (firing_specialists b) (base_bonus (length (remdups (firing_specialists b)))
    (filter (\<lambda>x. x \<in> set frontier_specialist_names) (remdups (firing_specialists b)) \<noteq> [])))"
  have n: "fl_nn raw" unfolding raw_def by (intro pair_loop_nn base_bonus_nn)
  show ?thesis
  proof (rule that[of "py_min raw corroboration_bonus_cap"])
    show "fl_unit (py_min raw corroboration_bonus_cap)" using n bonus_cap_unit by (rule py_min_unit(1))
    show "fl_le (py_min raw corroboration_bonus_cap) corroboration_bonus_cap"
      using n bonus_cap_unit by (rule py_min_unit(2))
  qed (simp_all add: fuse_def Let_def raw_def split: prod.split)
qed

lemma fuse_bounds:
  assumes "bundle_ok b"
  shows "fl_unit (fv_base_risk (fuse b))" "fl_unit (fv_fused_risk (fuse b))" "fl_unit (fv_corroboration_bonus (fuse b))"
    "fl_le (fv_base_risk (fuse b)) (fv_fused_risk (fuse b))"
proof -
  obtain bonus where f: "fl_unit bonus" "fv_corroboration_bonus (fuse b) = py_round 4 bonus"
    "fv_fused_risk (fuse b) = py_round 4 (py_min (Fin 1) (fl_add (max_risk_score b) bonus))"
    "fv_base_risk (fuse b) = py_round 4 (max_risk_score b)" by (rule fuse_bonus)
  have m: "fl_unit (max_risk_score b)" "fl_float (max_risk_score b)" using max_risk_score_unit[OF assms] by auto
  have nn: "fl_nn bonus" using f(1) by (auto simp: fl_unit_Fin)
  note p = py_min_one[OF m(1) fl_add_ge(2)[OF m nn] fl_add_ge(1)[OF m nn]]
  show "fl_unit (fv_base_risk (fuse b))" "fl_unit (fv_fused_risk (fuse b))" "fl_unit (fv_corroboration_bonus (fuse b))"
    unfolding f using f(1) m p by (auto intro: py_round_unit)
  show "fl_le (fv_base_risk (fuse b)) (fv_fused_risk (fuse b))"
    unfolding f using p m(1) by (intro py_round_mono) (auto intro: fl_unit_pos_fin)
qed

end
