(* ===== verification/Router.thy ===== *)
theory Router
  imports Det_Gate Fusion
begin

text \<open>
  The decision router (\<^verbatim>\<open>engine/router.py\<close>): fusion of the evidence streams into a risk score, the
  confidence, the verdict rules R0 to R4 and the routing result with its validators.

  Correspondence. The OWASP findings are built by another module and only stored in the result; that
  function is an argument of \<open>route\<close>. Scores are binary64 numbers.
\<close>

section \<open>The selective-risk rule\<close>

record selective_risk_rule =
  ru_semantic_override_confidence :: pyfloat
  ru_semantic_override_dimension :: pyfloat
  ru_semantic_override_evidence :: pyfloat
  ru_low_evidence_floor :: pyfloat
  ru_specialist_abstain_risk :: pyfloat
  ru_structural_specialist_risk :: pyfloat
  ru_agent_forbid_streak :: nat
  ru_agent_cold_start_fraction :: pyfloat
  ru_agent_pending_fraction :: pyfloat
  ru_structural_specialists :: "string list"

definition default_selective_risk_rule :: selective_risk_rule where
  "default_selective_risk_rule =
     \<lparr>ru_semantic_override_confidence = fl_lit 85 2, ru_semantic_override_dimension = fl_lit 90 2,
      ru_semantic_override_evidence = fl_lit 40 2, ru_low_evidence_floor = fl_lit 25 2,
      ru_specialist_abstain_risk = fl_lit 60 2, ru_structural_specialist_risk = fl_lit 30 2,
      ru_agent_forbid_streak = 3, ru_agent_cold_start_fraction = fl_lit 8 1, ru_agent_pending_fraction = fl_lit 5 1,
      ru_structural_specialists = [''clawguard'', ''mcpshield'', ''planguard'', ''mage'', ''agentarmor'',
        ''argus'', ''attriguard'', ''vigil'']\<rparr>"

section \<open>Scores\<close>

fun severity_score :: "Severity \<Rightarrow> pyfloat" where
  "severity_score CRITICAL = Fin 1"
| "severity_score WARNING = fl_lit 55 2"
| "severity_score INFO = fl_lit 20 2"

definition deterministic_score :: "gate_result \<Rightarrow> pyfloat" where
  "deterministic_score g = (if gr_blocked g then Fin 1 else if gr_findings g = [] then Fin 0
     else py_min (Fin 1) (foldl (\<lambda>highest f. py_max highest (severity_score (fd_severity f))) (Fin 0) (gr_findings g)))"

definition agent_weight_keys :: "string list" where
  "agent_weight_keys = [''agent_identity'', ''agent_capability'', ''agent_behavioral'']"

definition content_weight_keys :: "string list" where
  "content_weight_keys = [''deterministic'', ''specialists'', ''semantic'', ''criticality'']"

type_synonym weights = "(string \<times> pyfloat) list"

definition weight :: "weights \<Rightarrow> string \<Rightarrow> pyfloat" where
  "weight ws k = score_lookup (Fin 0) ws k"

definition update_all :: "(string \<Rightarrow> pyfloat) \<Rightarrow> string list \<Rightarrow> weights \<Rightarrow> weights" where
  "update_all f ks ws = foldl (\<lambda>acc k. AList.update k (f k) acc) ws ks"

definition effective_weights :: "policy \<Rightarrow> bool \<Rightarrow> value_error + weights" where
  "effective_weights p agent_present =
     (let ws = ps_fusion_weights p; zero = update_all (\<lambda>k. Fin 0) agent_weight_keys in
      if agent_present then Inr ws else
      let agent_mass = py_sum (map (weight ws) agent_weight_keys) in
      if fl_le agent_mass (Fin 0) then Inr (zero ws) else
      let content_mass = py_sum (map (weight ws) content_weight_keys) in
      if fl_le content_mass (Fin 0)
      then (case fl_div agent_mass (Fin 4) of
              None \<Rightarrow> Inl ZeroDivisionError
            | Some share \<Rightarrow> Inr (zero (update_all (\<lambda>k. fl_add (weight ws k) share) content_weight_keys ws)))
      else (case fl_div (fl_add content_mass agent_mass) content_mass of
              None \<Rightarrow> Inl ZeroDivisionError
            | Some scale \<Rightarrow> Inr (zero (update_all (\<lambda>k. fl_mul (weight ws k) scale) content_weight_keys ws))))"

definition fl_clamp :: "pyfloat \<Rightarrow> pyfloat" where
  "fl_clamp x = py_min (Fin 1) (py_max (Fin 0) x)"

record streams =
  st_deterministic :: pyfloat
  st_specialists :: pyfloat
  st_semantic :: pyfloat
  st_criticality :: pyfloat
  st_agent_identity :: pyfloat
  st_agent_capability :: pyfloat
  st_agent_behavioral :: pyfloat

text \<open>A constructed policy has all seven keys, so the subscripts \<^verbatim>\<open>weights[...]\<close> do not raise.\<close>

definition weighted_sum :: "weights \<Rightarrow> bool \<Rightarrow> streams \<Rightarrow> pyfloat" where
  "weighted_sum ws agent_present s =
     (let content = fl_add (fl_add (fl_add (fl_mul (st_deterministic s) (weight ws ''deterministic''))
                                           (fl_mul (st_specialists s) (weight ws ''specialists'')))
                                   (fl_mul (st_semantic s) (weight ws ''semantic'')))
                           (fl_mul (st_criticality s) (weight ws ''criticality''))
      in if agent_present
         then fl_add (fl_add (fl_add content (fl_mul (st_agent_identity s) (weight ws ''agent_identity'')))
                             (fl_mul (st_agent_capability s) (weight ws ''agent_capability'')))
                     (fl_mul (st_agent_behavioral s) (weight ws ''agent_behavioral''))
         else content)"

definition fuse_scores :: "streams \<Rightarrow> bool \<Rightarrow> policy \<Rightarrow> value_error + pyfloat" where
  "fuse_scores s agent_present p =
     sbind (effective_weights p agent_present) (\<lambda>ws. Inr (fl_clamp (weighted_sum ws agent_present s)))"

definition agent_present :: "agent_bundle option \<Rightarrow> bool" where
  "agent_present a = (case a of None \<Rightarrow> False | Some b \<Rightarrow> ab_agent_present b)"

section \<open>Confidence\<close>

record confidences =
  cf_deterministic :: pyfloat
  cf_specialist :: pyfloat
  cf_semantic :: pyfloat
  cf_agent :: "pyfloat option"

definition per_stream_confidences ::
    "gate_result \<Rightarrow> specialist_bundle \<Rightarrow> semantic_analysis \<Rightarrow> agent_bundle option \<Rightarrow> value_error + confidences" where
  "per_stream_confidences g b s a =
     sbind (if b = [] then Inr (Fin 0)
            else case py_mean (map sp_confidence b) of None \<Rightarrow> Inl ZeroDivisionError | Some m \<Rightarrow> Inr m) (\<lambda>m.
     Inr \<lparr>cf_deterministic = (if gr_blocked g then fl_lit 95 2 else if gr_findings g \<noteq> [] then fl_lit 75 2 else fl_lit 85 2),
          cf_specialist = m, cf_semantic = sa_overall_confidence s,
          cf_agent = (case a of None \<Rightarrow> None | Some ab \<Rightarrow> if ab_agent_present ab then Some (aggregate_confidence ab) else None)\<rparr>)"

definition compute_confidence :: "confidences \<Rightarrow> semantic_analysis \<Rightarrow> agent_bundle option \<Rightarrow> pyfloat" where
  "compute_confidence c s a =
     (let base = fl_add (fl_add (fl_mul (cf_deterministic c) (fl_lit 25 2)) (fl_mul (cf_specialist c) (fl_lit 20 2)))
                        (fl_mul (cf_semantic c) (fl_lit 55 2));
          base = (if has_low_confidence_dimension s then fl_sub base (fl_lit 8 2) else base);
          base = (if fl_less (sa_evidence_sufficiency s) (fl_lit 30 2) then fl_sub base (fl_lit 5 2) else base);
          base = (case (a, cf_agent c) of
                    (Some ab, Some ca) \<Rightarrow>
                      (let mixed = fl_add (fl_mul base (fl_lit 80 2)) (fl_mul ca (fl_lit 20 2))
                       in if has_capability_violations ab then py_min (Fin 1) (fl_add mixed (fl_lit 10 2)) else mixed)
                  | _ \<Rightarrow> base)
      in fl_clamp base)"

section \<open>The verdict rules\<close>

definition semantic_forbid_bars :: "selective_risk_rule \<Rightarrow> semantic_analysis \<Rightarrow> bool" where
  "semantic_forbid_bars rule s \<longleftrightarrow>
     sr_verdict (sa_recommended_verdict s) = FORBID
     \<and> fl_le (ru_semantic_override_confidence rule) (sr_confidence (sa_recommended_verdict s))
     \<and> fl_le (ru_semantic_override_dimension rule) (max_dimension_score s)
     \<and> fl_le (ru_semantic_override_evidence rule) (sa_evidence_sufficiency s)"

definition semantic_dominance_override_fired :: "selective_risk_rule \<Rightarrow> semantic_analysis \<Rightarrow> gate_result \<Rightarrow> bool" where
  "semantic_dominance_override_fired rule s g = (if gr_blocked g then False else semantic_forbid_bars rule s)"

definition structural_trigger :: "selective_risk_rule \<Rightarrow> policy \<Rightarrow> pyfloat \<Rightarrow> specialist_result \<Rightarrow> bool" where
  "structural_trigger rule p score r \<longleftrightarrow>
     sp_specialist_name r \<in> set (ru_structural_specialists rule)
     \<and> fl_le (ru_structural_specialist_risk rule) (sp_risk_score r)
     \<and> sp_matched_policy_clause_ids r \<noteq> [] \<and> fl_less score (ps_forbid_threshold p)"

definition agent_trigger :: "selective_risk_rule \<Rightarrow> policy \<Rightarrow> pyfloat \<Rightarrow> agent_bundle \<Rightarrow> bool" where
  "agent_trigger rule p score a \<longleftrightarrow> ab_agent_present a \<and>
     (ru_agent_forbid_streak rule \<le> bh_forbid_streak (ab_behavioral a)
      \<or> bh_cold_start (ab_behavioral a) \<and> fl_le (fl_mul (ps_permit_threshold p) (ru_agent_cold_start_fraction rule)) score
      \<or> id_lifecycle_status (ab_identity a) = ''PENDING''
          \<and> fl_le (fl_mul (ps_permit_threshold p) (ru_agent_pending_fraction rule)) score)"

definition should_abstain ::
    "selective_risk_rule \<Rightarrow> semantic_analysis \<Rightarrow> specialist_bundle \<Rightarrow> pyfloat \<Rightarrow> pyfloat \<Rightarrow> policy \<Rightarrow> string list
     \<Rightarrow> agent_bundle option \<Rightarrow> bool" where
  "should_abstain rule s b score confidence p flags a \<longleftrightarrow>
     sr_verdict (sa_recommended_verdict s) = ABSTAIN
     \<or> fl_less confidence (ps_minimum_confidence p)
     \<or> has_low_confidence_dimension s
     \<or> fl_less (sa_evidence_sufficiency s) (ru_low_evidence_floor rule) \<and> fl_le (ps_permit_threshold p) score
     \<or> fl_le (ru_specialist_abstain_risk rule) (max_risk_score b) \<and> fl_less score (ps_forbid_threshold p)
     \<or> list_ex (structural_trigger rule p score) b
     \<or> list_ex (\<lambda>f. py_casefold f = ''no_retrieval_context'') flags \<and> fl_le (ps_permit_threshold p) score
     \<or> fl_less (ps_permit_threshold p) score \<and> fl_less score (ps_forbid_threshold p)
     \<or> (case a of None \<Rightarrow> False | Some ab \<Rightarrow> agent_trigger rule p score ab)"

definition determine_verdict ::
    "selective_risk_rule \<Rightarrow> gate_result \<Rightarrow> semantic_analysis \<Rightarrow> specialist_bundle \<Rightarrow> pyfloat \<Rightarrow> pyfloat \<Rightarrow> policy
     \<Rightarrow> string list \<Rightarrow> agent_bundle option \<Rightarrow> Verdict" where
  "determine_verdict rule g s b score confidence p flags a =
     (let rec = sr_verdict (sa_recommended_verdict s) in
      if gr_blocked g then FORBID
      else case (case a of Some ab \<Rightarrow>
              if ab_agent_present ab
              then if id_lifecycle_status (ab_identity ab) \<in> {''QUARANTINED'', ''SLEEPING''} then Some ABSTAIN
                   else if has_capability_violations ab then Some FORBID else None
              else None
            | None \<Rightarrow> None) of
        Some v \<Rightarrow> v
      | None \<Rightarrow>
        if semantic_forbid_bars rule s then FORBID
        else if rec = FORBID \<and> fl_le (ps_permit_threshold p) score then FORBID
        else if fl_le (ps_forbid_threshold p) score then FORBID
        else if should_abstain rule s b score confidence p flags a then ABSTAIN
        else if fl_le score (ps_permit_threshold p) \<and> fl_le (ps_minimum_confidence p) confidence \<and> rec = PERMIT
        then PERMIT else ABSTAIN)"

section \<open>Reasons and flags\<close>

text \<open>\<^verbatim>\<open>max(results, key=...)\<close>: the first result with the largest risk.\<close>

fun highest_specialist :: "specialist_result \<Rightarrow> specialist_bundle \<Rightarrow> specialist_result" where
  "highest_specialist r [] = r"
| "highest_specialist r (x # xs) = highest_specialist (if fl_less (sp_risk_score r) (sp_risk_score x) then x else r) xs"

definition agent_stream_reason :: "string \<Rightarrow> string list \<Rightarrow> string list" where
  "agent_stream_reason label rs = (if rs = [] then [] else [label @ py_join '' | '' (take 3 rs)])"

definition specialist_reason :: "specialist_bundle \<Rightarrow> string list" where
  "specialist_reason b = (case b of [] \<Rightarrow> [] | r # rs \<Rightarrow> (let h = highest_specialist r rs in
     [''Highest specialist risk came from '' @ sp_specialist_name h @ '' ('' @ fmt2 (sp_risk_score h) @ '').'']))"

definition agent_reasons :: "agent_bundle option \<Rightarrow> string list" where
  "agent_reasons a = (case a of None \<Rightarrow> [] | Some ab \<Rightarrow> if \<not> ab_agent_present ab then [] else
     agent_stream_reason ''Agent identity: '' (as_reasons (ab_identity ab))
     @ agent_stream_reason ''Agent capability: '' (as_reasons (ab_capability ab))
     @ agent_stream_reason ''Agent behavioral: '' (as_reasons (ab_behavioral ab))
     @ [''Agent stream scores: identity='' @ fmt2 (as_risk_score (ab_identity ab))
          @ '', capability='' @ fmt2 (as_risk_score (ab_capability ab))
          @ '', behavioral='' @ fmt2 (as_risk_score (ab_behavioral ab)) @ ''.''])"

definition build_reasons ::
    "gate_result \<Rightarrow> specialist_bundle \<Rightarrow> semantic_analysis \<Rightarrow> pyfloat \<Rightarrow> policy \<Rightarrow> bool \<Rightarrow> agent_bundle option \<Rightarrow> string list" where
  "build_reasons g b s score p override a =
     (if gr_blocked g then gr_blocking_reasons g else [])
     @ (if gr_findings g \<noteq> [] \<and> \<not> gr_blocked g
        then [''Deterministic layer produced '' @ nat_digits (length (gr_findings g)) @ '' finding(s).''] else [])
     @ specialist_reason b
     @ [''Semantic layer recommended '' @ verdict_value (sr_verdict (sa_recommended_verdict s))
          @ '' with confidence '' @ fmt2 (sr_confidence (sa_recommended_verdict s)) @ ''.'',
        ''Fused final score was '' @ fmt2 score @ '' (permit <= '' @ fmt2 (ps_permit_threshold p)
          @ '', forbid >= '' @ fmt2 (ps_forbid_threshold p) @ '').'']
     @ (if semantic_clause_ids s \<noteq> []
        then [''Matched '' @ nat_digits (length (semantic_clause_ids s)) @ '' policy clause(s) in semantic analysis.''] else [])
     @ (if override
        then [''Semantic dominance override engaged: max_dimension='' @ fmt2 (max_dimension_score s)
                @ '', recommendation_confidence='' @ fmt2 (sr_confidence (sa_recommended_verdict s)) @ ''.''] else [])
     @ agent_reasons a"

definition build_uncertainty_flags ::
    "gate_result \<Rightarrow> specialist_bundle \<Rightarrow> semantic_analysis \<Rightarrow> pyfloat \<Rightarrow> policy \<Rightarrow> pyfloat \<Rightarrow> bool \<Rightarrow> agent_bundle option
     \<Rightarrow> string list" where
  "build_uncertainty_flags g b s confidence p score override a = dedupe_preserve_order
     (sa_uncertainty_flags s @ sr_uncertainty_flags (sa_recommended_verdict s) @ bundle_uncertainty_flags b
      @ (if gr_findings g \<noteq> [] \<and> \<not> gr_blocked g then [''deterministic_findings_present''] else [])
      @ (if fl_less confidence (ps_minimum_confidence p) then [''confidence_below_policy_minimum''] else [])
      @ (if has_low_confidence_dimension s then [''low_confidence_semantic_dimension''] else [])
      @ (if fl_less (sa_evidence_sufficiency s) (fl_lit 25 2) then [''weak_semantic_evidence''] else [])
      @ (if fl_less (ps_permit_threshold p) score \<and> fl_less score (ps_forbid_threshold p) then [''borderline_fused_score''] else [])
      @ (if override then [''semantic_dominance_override''] else [])
      @ (case a of None \<Rightarrow> [] | Some ab \<Rightarrow> if ab_agent_present ab then agent_all_uncertainty_flags ab else []))"

section \<open>The routing result\<close>

record 'f routing_result =
  rr_verdict :: Verdict
  rr_confidence :: pyfloat
  rr_final_score :: pyfloat
  rr_reasons :: "string list"
  rr_uncertainty_flags :: "string list"
  rr_findings :: "finding list"
  rr_scores :: "(string \<times> pyfloat) list"
  rr_asi_findings :: "'f list"
  rr_override_fired :: bool

text \<open>Construction: the sequences are normalised, the scores are checked.\<close>

definition RoutingResult_init :: "'f routing_result \<Rightarrow> value_error + 'f routing_result" where
  "RoutingResult_init r =
     (if \<not> fl_unit (rr_confidence r) \<or> \<not> fl_unit (rr_final_score r) then Inl ValueError else
      sbind (normalize_string_sequence (rr_reasons r)) (\<lambda>reasons.
      sbind (normalize_string_sequence (rr_uncertainty_flags r)) (\<lambda>flags.
      if scores_ok (rr_scores r)
      then Inr (r\<lparr>rr_reasons := reasons, rr_uncertainty_flags := flags\<rparr>) else Inl ValueError)))"

definition result_ok :: "'f routing_result \<Rightarrow> bool" where
  "result_ok r \<longleftrightarrow> fl_unit (rr_confidence r) \<and> fl_unit (rr_final_score r) \<and> norm_strings (rr_reasons r)
     \<and> norm_strings (rr_uncertainty_flags r) \<and> scores_ok (rr_scores r)"

definition streams_of :: "gate_result \<Rightarrow> specialist_bundle \<Rightarrow> semantic_analysis \<Rightarrow> pyfloat \<Rightarrow> agent_bundle option \<Rightarrow> streams" where
  "streams_of g b s crit a =
     (let agent = (\<lambda>f. case a of Some ab \<Rightarrow> if ab_agent_present ab then f ab else Fin 0 | None \<Rightarrow> Fin 0) in
      \<lparr>st_deterministic = deterministic_score g, st_specialists = fv_fused_risk (fuse b),
       st_semantic = max_dimension_score s, st_criticality = crit,
       st_agent_identity = agent (\<lambda>ab. as_risk_score (ab_identity ab)),
       st_agent_capability = agent (\<lambda>ab. as_risk_score (ab_capability ab)),
       st_agent_behavioral = agent (\<lambda>ab. as_risk_score (ab_behavioral ab))\<rparr>)"

definition score_table :: "streams \<Rightarrow> bool \<Rightarrow> confidences \<Rightarrow> (string \<times> pyfloat) list" where
  "score_table st ag c =
     [(''deterministic'', py_round 4 (st_deterministic st)), (''specialists'', py_round 4 (st_specialists st)),
      (''semantic'', py_round 4 (st_semantic st)), (''criticality'', py_round 4 (st_criticality st))]
     @ (if ag then [(''agent_identity'', py_round 4 (st_agent_identity st)),
                    (''agent_capability'', py_round 4 (st_agent_capability st)),
                    (''agent_behavioral'', py_round 4 (st_agent_behavioral st))] else [])
     @ [(''conf_stream:deterministic'', py_round 4 (cf_deterministic c)),
        (''conf_stream:specialist'', py_round 4 (cf_specialist c)),
        (''conf_stream:semantic'', py_round 4 (cf_semantic c))]
     @ (case cf_agent c of None \<Rightarrow> [] | Some x \<Rightarrow> [(''conf_stream:agent'', py_round 4 x)])"

type_synonym 'f asi_builder = "gate_result \<Rightarrow> specialist_bundle \<Rightarrow> semantic_analysis \<Rightarrow> bool \<Rightarrow> 'f list"

definition route ::
    "'f asi_builder \<Rightarrow> selective_risk_rule \<Rightarrow> gate_result \<Rightarrow> specialist_bundle \<Rightarrow> semantic_analysis \<Rightarrow> policy
     \<Rightarrow> string \<Rightarrow> string \<Rightarrow> string \<Rightarrow> agent_bundle option \<Rightarrow> value_error + 'f routing_result" where
  "route asi rule g b s p action_type channel environment a =
     sbind (criticality_for p action_type channel environment) (\<lambda>crit.
     let st = streams_of g b s crit a; ag = agent_present a in
     sbind (fuse_scores st ag p) (\<lambda>score.
     sbind (per_stream_confidences g b s a) (\<lambda>confs.
     let confidence = compute_confidence confs s a;
         override = semantic_dominance_override_fired rule s g;
         reasons = build_reasons g b s score p override a;
         flags = build_uncertainty_flags g b s confidence p score override a;
         verdict = determine_verdict rule g s b score confidence p flags a;
         fs = gr_findings g @ (case a of None \<Rightarrow> [] | Some ab \<Rightarrow> if ab_agent_present ab then agent_all_findings ab else [])
     in RoutingResult_init
          \<lparr>rr_verdict = verdict, rr_confidence = py_round 4 confidence, rr_final_score = py_round 4 score,
           rr_reasons = reasons, rr_uncertainty_flags = flags, rr_findings = fs,
           rr_scores = score_table st ag confs, rr_asi_findings = asi g b s override,
           rr_override_fired = override\<rparr>)))"

section \<open>The router returns a valid result\<close>

lemma fl_clamp_unit [simp]: "fl_unit (fl_clamp x)"
  by (simp add: fl_clamp_def)

lemma foldl_severity_unit:
  "fl_unit x \<Longrightarrow> fl_unit (foldl (\<lambda>h f. py_max h (severity_score (fd_severity f))) x fs)"
proof (induction fs arbitrary: x)
  case (Cons f fs)
  have "fl_unit (severity_score (fd_severity f))" by (cases "fd_severity f") (auto simp: fl_lit_unit)
  then have "fl_unit (py_max x (severity_score (fd_severity f)))" using Cons.prems by (simp add: py_max_def)
  then show ?case using Cons.IH by simp
qed simp

lemma deterministic_score_unit: "fl_unit (deterministic_score g)"
proof -
  let ?h = "foldl (\<lambda>h f. py_max h (severity_score (fd_severity f))) (Fin 0) (gr_findings g)"
  have "fl_unit ?h" by (rule foldl_severity_unit) simp
  then have "fl_unit (py_min (Fin 1) ?h)" by (auto simp: py_min_def)
  then show ?thesis by (simp add: deterministic_score_def)
qed

lemma score_lookup_unit: "scores_ok kvs \<Longrightarrow> fl_unit (score_lookup (Fin 0) kvs k)"
  by (auto simp: score_lookup_def scores_ok_def split: option.splits dest!: map_of_SomeD)

lemma third_of_three:
  assumes "fl_unit a" "fl_unit b" "fl_unit c"
  shows "\<exists>q. fl_div (fl_add (fl_add a b) c) (Fin 3) = Some q \<and> fl_unit q"
proof -
  have nn: "fl_nn a" "fl_nn b" "fl_nn c" "fl_le a (Fin 1)" "fl_le b (Fin 1)" "fl_le c (Fin 1)"
    using assms by (auto simp: fl_unit_Fin)
  have two: "fl_add (Fin 1) (Fin 1) = Fin 2" "fl_add (Fin 2) (Fin 1) = Fin 3"
    using fl_round_int[of 2] fl_round_int[of 3] by simp_all
  have ab: "fl_le (fl_add a b) (Fin 2)" "fl_nn (fl_add a b)"
    using fl_add_mono[OF nn(1,2,4,5)] fl_add_nn[OF nn(1,2)] unfolding two by auto
  have "fl_le (fl_add (fl_add a b) c) (Fin 3)" "fl_nn (fl_add (fl_add a b) c)"
    using fl_add_mono[OF ab(2) nn(3) ab(1) nn(6)] fl_add_nn[OF ab(2) nn(3)] unfolding two by auto
  then obtain q where q: "fl_add (fl_add a b) c = Fin q" "0 \<le> q" "q \<le> 3"
    by (cases "fl_add (fl_add a b) c") auto
  have "fl_le (fl_round (q / 3)) (Fin 1)" "fl_nn (fl_round (q / 3))"
    using fl_round_mono[of "q / 3" 1] fl_round_int[of 1] q by auto
  then have "fl_unit (fl_round (q / 3))" by (cases "fl_round (q / 3)") (auto simp: fl_le_def)
  then show ?thesis using q by (simp add: fl_div_def)
qed

lemma normalize_lookup_key_Inr: "py_strip x \<noteq> [] \<Longrightarrow> normalize_lookup_key x = Inr (py_casefold (py_strip x))"
  by (simp add: normalize_lookup_key_def normalize_non_blank_def)

lemma criticality_for_unit:
  assumes "policy_ok p" and "py_strip ac \<noteq> []" "py_strip ch \<noteq> []" "py_strip en \<noteq> []"
  shows "\<exists>q. criticality_for p ac ch en = Inr q \<and> fl_unit q"
proof -
  have "scores_ok (ps_action_criticality p)" "scores_ok (ps_channel_criticality p)" "scores_ok (ps_environment_criticality p)"
    using assms(1) by (auto simp: policy_ok_def)
  note u = this[THEN score_lookup_unit]
  obtain q where "fl_div (fl_add (fl_add (score_lookup (Fin 0) (ps_action_criticality p) (py_casefold (py_strip ac)))
      (score_lookup (Fin 0) (ps_channel_criticality p) (py_casefold (py_strip ch))))
      (score_lookup (Fin 0) (ps_environment_criticality p) (py_casefold (py_strip en)))) (Fin 3) = Some q" "fl_unit q"
    using third_of_three[OF u] by blast
  then show ?thesis using assms(2-) by (simp add: criticality_for_def normalize_lookup_key_Inr Let_def)
qed

lemma fl_div_Some: "\<not> fl_le y (Fin 0) \<Longrightarrow> \<exists>q. fl_div x y = Some q"
  by (cases x; cases y) (auto simp: fl_div_def)

lemma effective_weights_Inr: "\<exists>ws. effective_weights p ag = Inr ws"
proof -
  let ?ws = "ps_fusion_weights p"
  let ?am = "py_sum (map (weight ?ws) agent_weight_keys)" and ?cm = "py_sum (map (weight ?ws) content_weight_keys)"
  obtain share where sh: "fl_div ?am (Fin 4) = Some share" using fl_div_Some[of "Fin 4" ?am] by auto
  show ?thesis
  proof (cases "fl_le ?cm (Fin 0)")
    case True
    then show ?thesis using sh by (auto simp: effective_weights_def Let_def)
  next
    case False
    then obtain sc where "fl_div (fl_add ?cm ?am) ?cm = Some sc" using fl_div_Some by blast
    then show ?thesis using False by (auto simp: effective_weights_def Let_def)
  qed
qed

lemma fuse_scores_unit: "\<exists>q. fuse_scores s ag p = Inr q \<and> fl_unit q"
  using effective_weights_Inr[of p ag] by (auto simp: fuse_scores_def)

lemma py_min_units: "fl_unit x \<Longrightarrow> fl_unit y \<Longrightarrow> fl_unit (py_min x y)"
  by (simp add: py_min_def)

lemma aggregate_confidence_unit: "agent_ok a \<Longrightarrow> fl_unit (aggregate_confidence a)"
  by (simp add: aggregate_confidence_def agent_ok_def stream_ok_def py_min_units)

definition agent_opt_ok :: "agent_bundle option \<Rightarrow> bool" where
  "agent_opt_ok a = (case a of None \<Rightarrow> True | Some ab \<Rightarrow> agent_ok ab)"

lemma per_stream_confidences_ok:
  assumes "bundle_ok b" "length b \<le> 2 ^ 18" "semantic_ok s" "agent_opt_ok a"
  shows "\<exists>c. per_stream_confidences g b s a = Inr c \<and> fl_unit (cf_deterministic c) \<and> fl_unit (py_round 4 (cf_specialist c))
     \<and> fl_unit (cf_semantic c) \<and> (\<forall>x. cf_agent c = Some x \<longrightarrow> fl_unit x)"
proof -
  have d: "fl_unit (if gr_blocked g then fl_lit 95 2 else if gr_findings g \<noteq> [] then fl_lit 75 2 else fl_lit 85 2)"
    by (simp add: fl_lit_unit)
  have z: "fl_unit (py_round 4 (Fin 0))" by (rule py_round_unit) simp
  have m: "\<exists>m. py_mean (map sp_confidence b) = Some m \<and> fl_unit (py_round 4 m)" if "b \<noteq> []"
    using py_mean_score[of "map sp_confidence b"] assms(1,2) that by (auto simp: bundle_ok_def specialist_ok_def)
  show ?thesis
    using d z m assms(3,4) aggregate_confidence_unit
    by (cases "b = []") (auto simp: per_stream_confidences_def semantic_ok_def agent_opt_ok_def split: option.splits)
qed

section \<open>Texts\<close>

lemma text_nonspace [simp]:
  "\<not> py_isspace (CHR ''.'')" "\<not> py_isspace (CHR ''A'')" "\<not> py_isspace (CHR '':'')"
  by (simp_all add: py_char_defs)

definition gate_ok :: "gate_result \<Rightarrow> bool" where
  "gate_ok g \<longleftrightarrow> (\<forall>x\<in>set (gr_blocking_reasons g). py_strip x \<noteq> [])"

lemma gate_evaluate_ok: "gate_ok (gate_evaluate rs q p)"
  by (auto simp: gate_ok_def gate_evaluate_def Let_def compute_blocking_reasons_def blocking_reason_def py_strip_Nil_iff)

lemma nonblank_Cons: "\<not> py_isspace c \<Longrightarrow> py_strip (c # u) \<noteq> []"
  by (simp add: py_strip_Nil_iff)

lemma initials_nonspace:
  "\<not> py_isspace (CHR ''D'')" "\<not> py_isspace (CHR ''H'')" "\<not> py_isspace (CHR ''S'')" "\<not> py_isspace (CHR ''F'')"
  "\<not> py_isspace (CHR ''M'')"
  by (simp_all add: py_char_defs)

lemma agent_stream_reason_nonblank: "label = CHR ''A'' # u \<Longrightarrow> \<forall>x\<in>set (agent_stream_reason label rs). py_strip x \<noteq> []"
  by (simp add: agent_stream_reason_def nonblank_Cons)

lemma build_reasons_nonblank:
  assumes "gate_ok g"
  shows "\<forall>x\<in>set (build_reasons g b s score p override a). py_strip x \<noteq> []"
proof -
  have "\<forall>x\<in>set (specialist_reason b). py_strip x \<noteq> []"
    by (cases b) (simp_all add: specialist_reason_def Let_def nonblank_Cons initials_nonspace)
  moreover have "\<forall>x\<in>set (agent_reasons a). py_strip x \<noteq> []"
    using agent_stream_reason_nonblank by (cases a) (simp_all add: agent_reasons_def ball_Un nonblank_Cons)
  ultimately show ?thesis using assms unfolding build_reasons_def gate_ok_def
    by (simp add: ball_Un nonblank_Cons initials_nonspace)
qed

lemma norm_literal: "py_strip ''deterministic_findings_present'' = ''deterministic_findings_present''"
  "py_strip ''confidence_below_policy_minimum'' = ''confidence_below_policy_minimum''"
  "py_strip ''low_confidence_semantic_dimension'' = ''low_confidence_semantic_dimension''"
  "py_strip ''weak_semantic_evidence'' = ''weak_semantic_evidence''"
  "py_strip ''borderline_fused_score'' = ''borderline_fused_score''"
  "py_strip ''semantic_dominance_override'' = ''semantic_dominance_override''"
  by code_simp+

lemma build_uncertainty_flags_norm:
  assumes "bundle_ok b" "semantic_ok s" "agent_opt_ok a"
  shows "norm_strings (build_uncertainty_flags g b s confidence p score override a)"
proof -
  have b: "\<forall>x\<in>set (bundle_uncertainty_flags b). py_strip x = x \<and> x \<noteq> []"
    using assms(1) dedupe_fold_set[of "[]" "concat (map sp_uncertainty_flags b)"]
    by (auto simp: bundle_uncertainty_flags_def dedupe_preserve_order_def bundle_ok_def specialist_ok_def norm_strings_def)
  have ag: "\<forall>x\<in>set (agent_all_uncertainty_flags ab). py_strip x = x \<and> x \<noteq> []" if "a = Some ab" for ab
    using assms(3) that dedupe_fold_set[of "[]" "as_uncertainty_flags (ab_identity ab) @ as_uncertainty_flags (ab_capability ab)
        @ as_uncertainty_flags (ab_behavioral ab)"]
    by (auto simp: agent_all_uncertainty_flags_def dedupe_preserve_order_def agent_opt_ok_def agent_ok_def stream_ok_def norm_strings_def)
  have s: "\<forall>x\<in>set (sa_uncertainty_flags s @ sr_uncertainty_flags (sa_recommended_verdict s)). py_strip x = x \<and> x \<noteq> []"
    using assms(2) by (auto simp: semantic_ok_def norm_strings_def)
  show ?thesis unfolding build_uncertainty_flags_def
    by (rule dedupe_preserve_order_norm) (use b ag s norm_literal in \<open>auto split: option.splits if_splits\<close>)
qed

section \<open>Totality\<close>

lemma max_dimension_score_unit: "semantic_ok s \<Longrightarrow> fl_unit (max_dimension_score s)"
  unfolding max_dimension_score_def by (rule py_max_default_unit) (auto simp: semantic_ok_def dimension_ok_def)

lemma streams_of_unit:
  assumes "bundle_ok b" "semantic_ok s" "agent_opt_ok a" "fl_unit crit" and "st = streams_of g b s crit a"
  shows "fl_unit (st_deterministic st)" "fl_unit (st_specialists st)" "fl_unit (st_semantic st)" "fl_unit (st_criticality st)"
    "fl_unit (st_agent_identity st)" "fl_unit (st_agent_capability st)" "fl_unit (st_agent_behavioral st)"
  using assms deterministic_score_unit fuse_bounds(2)[OF assms(1)] max_dimension_score_unit[OF assms(2)]
  by (auto simp: streams_of_def Let_def agent_opt_ok_def agent_ok_def stream_ok_def split: option.splits)

lemma score_table_ok:
  assumes "fl_unit (st_deterministic st)" "fl_unit (st_specialists st)" "fl_unit (st_semantic st)" "fl_unit (st_criticality st)"
    "fl_unit (st_agent_identity st)" "fl_unit (st_agent_capability st)" "fl_unit (st_agent_behavioral st)"
    "fl_unit (cf_deterministic c)" "fl_unit (py_round 4 (cf_specialist c))" "fl_unit (cf_semantic c)"
    "\<forall>x. cf_agent c = Some x \<longrightarrow> fl_unit x"
  shows "scores_ok (score_table st ag c)"
  using assms by (auto simp: scores_ok_def score_table_def py_round_unit split: option.splits)

definition inputs_ok ::
    "gate_result \<Rightarrow> specialist_bundle \<Rightarrow> semantic_analysis \<Rightarrow> policy \<Rightarrow> string \<Rightarrow> string \<Rightarrow> string \<Rightarrow> agent_bundle option \<Rightarrow> bool" where
  "inputs_ok g b s p ac ch en a \<longleftrightarrow> gate_ok g \<and> bundle_ok b \<and> length b \<le> 2 ^ 18 \<and> semantic_ok s \<and> policy_ok p
     \<and> py_strip ac \<noteq> [] \<and> py_strip ch \<noteq> [] \<and> py_strip en \<noteq> [] \<and> agent_opt_ok a"

lemma RoutingResult_init_ok:
  assumes "fl_unit (rr_confidence r)" "fl_unit (rr_final_score r)" "\<forall>x\<in>set (rr_reasons r). py_strip x \<noteq> []"
    "norm_strings (rr_uncertainty_flags r)" "scores_ok (rr_scores r)"
  shows "RoutingResult_init r = Inr (r\<lparr>rr_reasons := dedupe_preserve_order (map py_strip (rr_reasons r))\<rparr>)"
    "result_ok (r\<lparr>rr_reasons := dedupe_preserve_order (map py_strip (rr_reasons r))\<rparr>)"
proof -
  have "norm_strings (dedupe_preserve_order (map py_strip (rr_reasons r)))"
    using assms(3) by (intro dedupe_preserve_order_norm) auto
  then show "result_ok (r\<lparr>rr_reasons := dedupe_preserve_order (map py_strip (rr_reasons r))\<rparr>)"
    using assms by (simp add: result_ok_def)
  show "RoutingResult_init r = Inr (r\<lparr>rr_reasons := dedupe_preserve_order (map py_strip (rr_reasons r))\<rparr>)"
    using assms normalize_string_sequence_total[OF assms(3)] normalize_string_sequence_id[OF assms(4)]
    by (simp add: RoutingResult_init_def)
qed

text \<open>The run of the router on valid inputs, with the names that the code gives to the intermediate values.\<close>

lemma route_run:
  assumes "inputs_ok g b s p ac ch en a"
  obtains crit score c r where
    "criticality_for p ac ch en = Inr crit" "fl_unit crit"
    "fuse_scores (streams_of g b s crit a) (agent_present a) p = Inr score" "fl_unit score"
    "per_stream_confidences g b s a = Inr c"
    "route asi rule g b s p ac ch en a = Inr r" "result_ok r"
    "rr_final_score r = py_round 4 score" "rr_confidence r = py_round 4 (compute_confidence c s a)"
    "rr_override_fired r = semantic_dominance_override_fired rule s g"
    "rr_verdict r = determine_verdict rule g s b score (compute_confidence c s a) p
       (build_uncertainty_flags g b s (compute_confidence c s a) p score (semantic_dominance_override_fired rule s g) a) a"
proof -
  have i: "gate_ok g" "bundle_ok b" "length b \<le> 2 ^ 18" "semantic_ok s" "policy_ok p" "py_strip ac \<noteq> []" "py_strip ch \<noteq> []"
    "py_strip en \<noteq> []" "agent_opt_ok a" using assms by (auto simp: inputs_ok_def)
  obtain crit where crit: "criticality_for p ac ch en = Inr crit" "fl_unit crit" using criticality_for_unit[OF i(5-8)] by blast
  obtain score where score: "fuse_scores (streams_of g b s crit a) (agent_present a) p = Inr score" "fl_unit score"
    using fuse_scores_unit by blast
  obtain c where c: "per_stream_confidences g b s a = Inr c" "fl_unit (cf_deterministic c)"
    "fl_unit (py_round 4 (cf_specialist c))" "fl_unit (cf_semantic c)" "\<forall>x. cf_agent c = Some x \<longrightarrow> fl_unit x"
    using per_stream_confidences_ok[OF i(2,3,4,9)] by blast
  let ?conf = "compute_confidence c s a" and ?o = "semantic_dominance_override_fired rule s g"
  have conf: "fl_unit ?conf" by (simp add: compute_confidence_def Let_def)
  define r0 where "r0 = \<lparr>rr_verdict = determine_verdict rule g s b score ?conf p (build_uncertainty_flags g b s ?conf p score ?o a) a,
     rr_confidence = py_round 4 ?conf, rr_final_score = py_round 4 score, rr_reasons = build_reasons g b s score p ?o a,
     rr_uncertainty_flags = build_uncertainty_flags g b s ?conf p score ?o a,
     rr_findings = gr_findings g @ (case a of None \<Rightarrow> [] | Some ab \<Rightarrow> if ab_agent_present ab then agent_all_findings ab else []),
     rr_scores = score_table (streams_of g b s crit a) (agent_present a) c, rr_asi_findings = asi g b s ?o, rr_override_fired = ?o\<rparr>"
  have ok: "fl_unit (rr_confidence r0)" "fl_unit (rr_final_score r0)" "\<forall>x\<in>set (rr_reasons r0). py_strip x \<noteq> []"
    "norm_strings (rr_uncertainty_flags r0)" "scores_ok (rr_scores r0)"
    using py_round_unit[OF conf] py_round_unit[OF score(2)] build_reasons_nonblank[OF i(1)]
      build_uncertainty_flags_norm[OF i(2,4,9)] score_table_ok[OF streams_of_unit[OF i(2,4,9) crit(2) refl] c(2-5)]
    by (simp_all add: r0_def)
  have "route asi rule g b s p ac ch en a = RoutingResult_init r0" using crit score c by (simp add: route_def Let_def r0_def)
  then show ?thesis using that[OF crit score c(1)] RoutingResult_init_ok[OF ok] by (simp add: r0_def)
qed

end
