(* ===== verification/Router_Laws.thy ===== *)
theory Router_Laws
  imports Router
begin

text \<open>
  What the router guarantees: a valid result on valid inputs, PERMIT only for a decision that is clean in every
  respect, the precedence of the structural rules, and monotonicity in the risk signals.
\<close>

section \<open>When the verdict is PERMIT\<close>

definition held_agent :: "agent_bundle option \<Rightarrow> bool" where
  "held_agent a = (case a of None \<Rightarrow> False
     | Some ab \<Rightarrow> ab_agent_present ab \<and> id_lifecycle_status (ab_identity ab) \<in> {''QUARANTINED'', ''SLEEPING''})"

definition violating_agent :: "agent_bundle option \<Rightarrow> bool" where
  "violating_agent a = (case a of None \<Rightarrow> False | Some ab \<Rightarrow> ab_agent_present ab \<and> has_capability_violations ab)"

lemma determine_verdict_cases:
  "determine_verdict rule g s b score conf p flags a =
     (if gr_blocked g then FORBID else if held_agent a then ABSTAIN else if violating_agent a then FORBID
      else if semantic_forbid_bars rule s \<or> sr_verdict (sa_recommended_verdict s) = FORBID \<and> fl_le (ps_permit_threshold p) score
        \<or> fl_le (ps_forbid_threshold p) score then FORBID
      else if \<not> should_abstain rule s b score conf p flags a \<and> fl_le score (ps_permit_threshold p)
        \<and> fl_le (ps_minimum_confidence p) conf \<and> sr_verdict (sa_recommended_verdict s) = PERMIT then PERMIT else ABSTAIN)"
  by (auto simp: determine_verdict_def held_agent_def violating_agent_def Let_def split: option.splits)

lemma fl_less_le_unit: "fl_unit x \<Longrightarrow> fl_unit y \<Longrightarrow> \<not> fl_le x y \<longleftrightarrow> fl_less y x"
  by (auto simp: fl_unit_Fin)

definition clean_content :: "selective_risk_rule \<Rightarrow> semantic_analysis \<Rightarrow> specialist_bundle \<Rightarrow> bool" where
  "clean_content rule s b \<longleftrightarrow> sr_verdict (sa_recommended_verdict s) = PERMIT
     \<and> (\<forall>d\<in>set (sa_dimension_results s). \<not> fl_less (dr_confidence d) (fl_lit 5 1))
     \<and> (\<forall>r\<in>set b. fl_less (sp_risk_score r) (ru_specialist_abstain_risk rule)
          \<and> (sp_specialist_name r \<in> set (ru_structural_specialists rule) \<and> sp_matched_policy_clause_ids r \<noteq> []
             \<longrightarrow> fl_less (sp_risk_score r) (ru_structural_specialist_risk rule)))"

definition rule_ok :: "selective_risk_rule \<Rightarrow> bool" where
  "rule_ok rule \<longleftrightarrow> fl_unit (ru_specialist_abstain_risk rule) \<and> fl_unit (ru_structural_specialist_risk rule)"

lemma permit_clean_content:
  assumes "determine_verdict rule g s b score conf p flags a = PERMIT"
    and "bundle_ok b" "policy_ok p" "fl_unit score" "rule_ok rule"
  shows "clean_content rule s b"
proof -
  have f: "\<not> fl_le (ps_forbid_threshold p) score" and n: "\<not> should_abstain rule s b score conf p flags a"
    and r: "sr_verdict (sa_recommended_verdict s) = PERMIT"
    using assms(1) by (auto simp: determine_verdict_cases split: if_splits)
  have lt: "fl_less score (ps_forbid_threshold p)" using f assms(3,4) by (simp add: policy_ok_def fl_less_le_unit)
  have u: "fl_unit (sp_risk_score x)" if "x \<in> set b" for x using assms(2) that by (simp add: bundle_ok_def specialist_ok_def)
  have m: "\<not> fl_le (ru_specialist_abstain_risk rule) (max_risk_score b)" using n lt by (simp add: should_abstain_def)
  have "fl_less (sp_risk_score x) (ru_specialist_abstain_risk rule)" if x: "x \<in> set b" for x
  proof -
    have "fl_le (sp_risk_score x) (max_risk_score b)" unfolding max_risk_score_def using u x by (intro py_max_default_ge) auto
    then have "\<not> fl_le (ru_specialist_abstain_risk rule) (sp_risk_score x)" using m fl_le_trans by blast
    then show ?thesis using u[OF x] assms(5) by (simp add: rule_ok_def fl_less_le_unit)
  qed
  moreover have "fl_less (sp_risk_score x) (ru_structural_specialist_risk rule)"
    if "x \<in> set b" "sp_specialist_name x \<in> set (ru_structural_specialists rule)" "sp_matched_policy_clause_ids x \<noteq> []" for x
  proof -
    have "\<not> structural_trigger rule p score x" using n that(1) by (auto simp: should_abstain_def list_ex_iff)
    then show ?thesis using that lt u[OF that(1)] assms(5) by (auto simp: structural_trigger_def rule_ok_def fl_less_le_unit)
  qed
  moreover have "\<forall>d\<in>set (sa_dimension_results s). \<not> fl_less (dr_confidence d) (fl_lit 5 1)"
    using n by (auto simp: should_abstain_def has_low_confidence_dimension_def is_low_confidence_def list_ex_iff)
  ultimately show ?thesis using r by (simp add: clean_content_def)
qed

text \<open>
  (C1) On valid inputs the router answers PERMIT only if nothing speaks against it: the gate did not block, the agent
  is neither held nor violating nor on a streak of refusals, the semantic layer recommends PERMIT with no dimension
  of low confidence, every specialist stays below the abstention bars, and the fused score and the confidence are
  within the thresholds of the policy (the score before it is rounded for display).
\<close>

theorem route_permit_clean:
  assumes "inputs_ok g b s p ac ch en a" and "rule_ok rule"
    and "route asi rule g b s p ac ch en a = Inr r" and "rr_verdict r = PERMIT"
  shows "\<not> gr_blocked g \<and> \<not> held_agent a \<and> \<not> violating_agent a \<and> clean_content rule s b
    \<and> (\<forall>ab. a = Some ab \<and> ab_agent_present ab \<longrightarrow> bh_forbid_streak (ab_behavioral ab) < ru_agent_forbid_streak rule)
    \<and> (\<exists>crit score. criticality_for p ac ch en = Inr crit
         \<and> fuse_scores (streams_of g b s crit a) (agent_present a) p = Inr score
         \<and> fl_le score (ps_permit_threshold p) \<and> rr_final_score r = py_round 4 score)
    \<and> (\<exists>c. per_stream_confidences g b s a = Inr c \<and> fl_le (ps_minimum_confidence p) (compute_confidence c s a)
         \<and> rr_confidence r = py_round 4 (compute_confidence c s a))"
proof -
  obtain crit score c r' where run: "criticality_for p ac ch en = Inr crit"
    "fuse_scores (streams_of g b s crit a) (agent_present a) p = Inr score" "fl_unit score"
    "route asi rule g b s p ac ch en a = Inr r'" "rr_final_score r' = py_round 4 score"
    "per_stream_confidences g b s a = Inr c" "rr_confidence r' = py_round 4 (compute_confidence c s a)"
    "rr_verdict r' = determine_verdict rule g s b score (compute_confidence c s a) p
       (build_uncertainty_flags g b s (compute_confidence c s a) p score (semantic_dominance_override_fired rule s g) a) a"
    by (rule route_run[OF assms(1), of asi rule]) blast
  have v: "determine_verdict rule g s b score (compute_confidence c s a) p
       (build_uncertainty_flags g b s (compute_confidence c s a) p score (semantic_dominance_override_fired rule s g) a) a = PERMIT"
    and rr: "rr_final_score r = py_round 4 score" "rr_confidence r = py_round 4 (compute_confidence c s a)"
    using run(4-) assms(3,4) by auto
  have "bundle_ok b" "policy_ok p" using assms(1) by (auto simp: inputs_ok_def)
  then have "clean_content rule s b" using permit_clean_content[OF v] run(3) assms(2) by blast
  moreover have "bh_forbid_streak (ab_behavioral ab) < ru_agent_forbid_streak rule" if "a = Some ab" "ab_agent_present ab" for ab
    using v that by (auto simp: determine_verdict_cases should_abstain_def agent_trigger_def split: if_splits)
  moreover have "\<not> gr_blocked g" "\<not> held_agent a" "\<not> violating_agent a" "fl_le score (ps_permit_threshold p)"
    "fl_le (ps_minimum_confidence p) (compute_confidence c s a)"
    using v by (auto simp: determine_verdict_cases split: if_splits)
  ultimately show ?thesis using run(1,2,6) rr by blast
qed

section \<open>Monotonicity\<close>

lemma verdict_rank_mono_score:
  assumes "fl_unit score" "fl_unit score'" "fl_le score score'" "policy_ok p"
    and same: "gr_blocked g' = gr_blocked g" "held_agent a' = held_agent a" "violating_agent a' = violating_agent a"
    and sem: "sr_verdict (sa_recommended_verdict s') = sr_verdict (sa_recommended_verdict s)"
      "semantic_forbid_bars rule s \<Longrightarrow> semantic_forbid_bars rule s'"
    and abst: "\<not> fl_le (ps_forbid_threshold p) score' \<Longrightarrow> should_abstain rule s b score conf p flags a
        \<Longrightarrow> should_abstain rule s' b' score' conf p flags' a'"
  shows "verdict_rank (determine_verdict rule g s b score conf p flags a)
       \<le> verdict_rank (determine_verdict rule g' s' b' score' conf p flags' a')"
proof -
  have t: "fl_le (ps_permit_threshold p) score \<Longrightarrow> fl_le (ps_permit_threshold p) score'"
    "fl_le (ps_forbid_threshold p) score \<Longrightarrow> fl_le (ps_forbid_threshold p) score'"
    "fl_le score' (ps_permit_threshold p) \<Longrightarrow> fl_le score (ps_permit_threshold p)"
    using assms(3) fl_le_trans by blast+
  show ?thesis unfolding determine_verdict_cases same sem(1) using t sem(2) abst by auto
qed

text \<open>The same signals with risk scores that are at least as high.\<close>

definition riskier_bundle :: "specialist_bundle \<Rightarrow> specialist_bundle \<Rightarrow> bool" where
  "riskier_bundle = list_all2 (\<lambda>r r'. r' = r\<lparr>sp_risk_score := sp_risk_score r'\<rparr> \<and> fl_le (sp_risk_score r) (sp_risk_score r'))"

definition riskier_dimensions :: "dimension_result list \<Rightarrow> dimension_result list \<Rightarrow> bool" where
  "riskier_dimensions = list_all2 (\<lambda>d d'. d' = d\<lparr>dr_score := dr_score d'\<rparr> \<and> fl_le (dr_score d) (dr_score d'))"

definition riskier_semantic :: "semantic_analysis \<Rightarrow> semantic_analysis \<Rightarrow> bool" where
  "riskier_semantic s s' \<longleftrightarrow> s' = s\<lparr>sa_dimension_results := sa_dimension_results s'\<rparr>
     \<and> riskier_dimensions (sa_dimension_results s) (sa_dimension_results s')"

definition riskier_stream :: "'a agent_stream_scheme \<Rightarrow> 'a agent_stream_scheme \<Rightarrow> bool" where
  "riskier_stream x x' \<longleftrightarrow> x' = x\<lparr>as_risk_score := as_risk_score x'\<rparr> \<and> fl_le (as_risk_score x) (as_risk_score x')"

definition riskier_agent :: "agent_bundle option \<Rightarrow> agent_bundle option \<Rightarrow> bool" where
  "riskier_agent a a' \<longleftrightarrow> rel_option (\<lambda>x x'. ab_agent_present x' = ab_agent_present x \<and> riskier_stream (ab_identity x) (ab_identity x')
     \<and> riskier_stream (ab_capability x) (ab_capability x') \<and> riskier_stream (ab_behavioral x) (ab_behavioral x')) a a'"

lemma riskier_bundle_map:
  assumes "riskier_bundle b b'"
  shows "map sp_confidence b' = map sp_confidence b" "map sp_uncertainty_flags b' = map sp_uncertainty_flags b"
    "list_all2 fl_le (map sp_risk_score b) (map sp_risk_score b')" "b' = [] \<longleftrightarrow> b = []" "length b' = length b"
  using assms unfolding riskier_bundle_def
proof (induction rule: list_all2_induct)
  case (Cons x xs y ys)
  then have y: "y = x\<lparr>sp_risk_score := sp_risk_score y\<rparr>" "fl_le (sp_risk_score x) (sp_risk_score y)" by auto
  have e: "sp_confidence y = sp_confidence x" "sp_uncertainty_flags y = sp_uncertainty_flags x" by (subst y(1), simp)+
  { case 1 show ?case using Cons e by simp }
  { case 2 show ?case using Cons e by simp }
  { case 3 show ?case using Cons y(2) by simp }
  { case 4 show ?case by simp }
  { case 5 show ?case using Cons by simp }
qed simp_all

lemma riskier_structural:
  assumes "riskier_bundle b b'" and "list_ex (structural_trigger rule p score) b" and "fl_less score' (ps_forbid_threshold p)"
  shows "list_ex (structural_trigger rule p score') b'"
  using assms unfolding riskier_bundle_def
proof (induction rule: list_all2_induct)
  case (Cons x xs y ys)
  then have y: "y = x\<lparr>sp_risk_score := sp_risk_score y\<rparr>" "fl_le (sp_risk_score x) (sp_risk_score y)" by auto
  have e: "sp_specialist_name y = sp_specialist_name x" "sp_matched_policy_clause_ids y = sp_matched_policy_clause_ids x"
    by (subst y(1), simp)+
  have "structural_trigger rule p score x \<Longrightarrow> structural_trigger rule p score' y"
    using Cons.prems(2) y(2) fl_le_trans by (auto simp: structural_trigger_def e)
  then show ?case using Cons by auto
qed simp

lemma riskier_dimensions_map:
  assumes "riskier_dimensions ds ds'"
  shows "map dr_confidence ds' = map dr_confidence ds" "list_all2 fl_le (map dr_score ds) (map dr_score ds')"
  using assms unfolding riskier_dimensions_def
proof (induction rule: list_all2_induct)
  case (Cons x xs y ys)
  then have y: "y = x\<lparr>dr_score := dr_score y\<rparr>" "fl_le (dr_score x) (dr_score y)" by auto
  have e: "dr_confidence y = dr_confidence x" by (subst y(1), simp)
  { case 1 show ?case using Cons e by simp }
  { case 2 show ?case using Cons y(2) by simp }
qed simp_all

lemma list_ex_map: "list_ex P (map f xs) = list_ex (P \<circ> f) xs"
  by (induction xs) auto

lemma riskier_semantic_same:
  assumes "riskier_semantic s s'"
  shows "sa_recommended_verdict s' = sa_recommended_verdict s" "sa_evidence_sufficiency s' = sa_evidence_sufficiency s"
    "sa_overall_confidence s' = sa_overall_confidence s" "sa_uncertainty_flags s' = sa_uncertainty_flags s"
    "has_low_confidence_dimension s' = has_low_confidence_dimension s"
proof -
  have s: "s' = s\<lparr>sa_dimension_results := sa_dimension_results s'\<rparr>" using assms by (simp add: riskier_semantic_def)
  show "sa_recommended_verdict s' = sa_recommended_verdict s" "sa_evidence_sufficiency s' = sa_evidence_sufficiency s"
    "sa_overall_confidence s' = sa_overall_confidence s" "sa_uncertainty_flags s' = sa_uncertainty_flags s"
    by (subst s, simp)+
  have "has_low_confidence_dimension t = list_ex (\<lambda>c. fl_less c (fl_lit 5 1)) (map dr_confidence (sa_dimension_results t))" for t
    by (simp add: has_low_confidence_dimension_def is_low_confidence_def[abs_def] list_ex_map comp_def)
  moreover have "map dr_confidence (sa_dimension_results s') = map dr_confidence (sa_dimension_results s)"
    using riskier_dimensions_map(1) assms unfolding riskier_semantic_def by blast
  ultimately show "has_low_confidence_dimension s' = has_low_confidence_dimension s" by metis
qed

lemma riskier_semantic_max:
  assumes "riskier_semantic s s'" "semantic_ok s" "semantic_ok s'"
  shows "fl_le (max_dimension_score s) (max_dimension_score s')"
  unfolding max_dimension_score_def
  using assms riskier_dimensions_map(2) by (intro py_max_default_mono) (auto simp: riskier_semantic_def semantic_ok_def dimension_ok_def)

lemma riskier_bundle_max:
  assumes "riskier_bundle b b'" "bundle_ok b" "bundle_ok b'"
  shows "fl_le (max_risk_score b) (max_risk_score b')"
  unfolding max_risk_score_def using assms riskier_bundle_map(3)
  by (intro py_max_default_mono) (auto simp: bundle_ok_def specialist_ok_def)

lemma riskier_streamE:
  assumes "riskier_stream x x'"
  obtains v where "x' = x\<lparr>as_risk_score := v\<rparr>" "fl_le (as_risk_score x) v"
  using assms that unfolding riskier_stream_def by blast

lemma riskier_agentE:
  assumes "riskier_agent a a'"
  obtains "a = None" "a' = None"
  | x u v w where "a = Some x" "a' = Some (x\<lparr>ab_identity := (ab_identity x)\<lparr>as_risk_score := u\<rparr>,
      ab_capability := (ab_capability x)\<lparr>as_risk_score := v\<rparr>, ab_behavioral := (ab_behavioral x)\<lparr>as_risk_score := w\<rparr>\<rparr>)"
    "fl_le (as_risk_score (ab_identity x)) u" "fl_le (as_risk_score (ab_capability x)) v" "fl_le (as_risk_score (ab_behavioral x)) w"
proof (cases a)
  case None
  then show ?thesis using assms that(1) by (simp add: riskier_agent_def)
next
  case (Some x)
  then obtain x' where x': "a' = Some x'" "ab_agent_present x' = ab_agent_present x" "riskier_stream (ab_identity x) (ab_identity x')"
    "riskier_stream (ab_capability x) (ab_capability x')" "riskier_stream (ab_behavioral x) (ab_behavioral x')"
    using assms by (auto simp: riskier_agent_def option_rel_Some1)
  then show ?thesis using Some by (elim riskier_streamE) (rule that(2), auto)
qed

lemma riskier_agent_same:
  assumes "riskier_agent a a'"
  shows "held_agent a' = held_agent a" "violating_agent a' = violating_agent a" "agent_present a' = agent_present a"
    "map_option (\<lambda>x. if ab_agent_present x then agent_all_uncertainty_flags x else []) a'
      = map_option (\<lambda>x. if ab_agent_present x then agent_all_uncertainty_flags x else []) a"
  using assms by (auto elim!: riskier_agentE simp: held_agent_def violating_agent_def agent_present_def has_capability_violations_def
      agent_all_uncertainty_flags_def)

lemma riskier_agent_trigger:
  assumes "riskier_agent a a'" "fl_le score score'" "case a of None \<Rightarrow> False | Some ab \<Rightarrow> agent_trigger rule p score ab"
  shows "case a' of None \<Rightarrow> False | Some ab \<Rightarrow> agent_trigger rule p score' ab"
  using assms fl_le_trans by (elim riskier_agentE) (auto simp: agent_trigger_def)

section \<open>The flag that the rules read\<close>

lemma dedupe_member: "(\<exists>f\<in>set (dedupe_preserve_order xs). py_casefold f = k) \<longleftrightarrow> (\<exists>f\<in>set xs. py_casefold f = k)"
  using dedupe_fold_keys[of "[]" xs] unfolding dedupe_preserve_order_def by (metis (no_types) Diff_empty empty_set image_iff)

lemma flag_literals:
  "py_casefold ''deterministic_findings_present'' \<noteq> ''no_retrieval_context''"
  "py_casefold ''confidence_below_policy_minimum'' \<noteq> ''no_retrieval_context''"
  "py_casefold ''low_confidence_semantic_dimension'' \<noteq> ''no_retrieval_context''"
  "py_casefold ''weak_semantic_evidence'' \<noteq> ''no_retrieval_context''"
  "py_casefold ''borderline_fused_score'' \<noteq> ''no_retrieval_context''"
  "py_casefold ''semantic_dominance_override'' \<noteq> ''no_retrieval_context''"
  by code_simp+

lemma no_retrieval_flag:
  "list_ex (\<lambda>f. py_casefold f = ''no_retrieval_context'') (build_uncertainty_flags g b s conf p score override a) \<longleftrightarrow>
   (\<exists>f\<in>set (sa_uncertainty_flags s @ sr_uncertainty_flags (sa_recommended_verdict s) @ concat (map sp_uncertainty_flags b)
      @ (case map_option (\<lambda>x. if ab_agent_present x then agent_all_uncertainty_flags x else []) a of None \<Rightarrow> [] | Some fs \<Rightarrow> fs)).
      py_casefold f = ''no_retrieval_context'')"
  by (cases a) (simp_all add: list_ex_iff build_uncertainty_flags_def dedupe_member bundle_uncertainty_flags_def flag_literals bex_Un
      del: set_concat)

lemma should_abstain_mono:
  assumes "riskier_bundle b b'" "riskier_semantic s s'" "riskier_agent a a'" "bundle_ok b" "bundle_ok b'"
    and "fl_le score score'" "fl_less score' (ps_forbid_threshold p)"
    and "list_ex (\<lambda>f. py_casefold f = ''no_retrieval_context'') flags' = list_ex (\<lambda>f. py_casefold f = ''no_retrieval_context'') flags"
    and "should_abstain rule s b score conf p flags a"
  shows "should_abstain rule s' b' score' conf p flags' a'"
proof -
  note sem = riskier_semantic_same[OF assms(2)]
  have t: "fl_le x score \<Longrightarrow> fl_le x score'" "fl_less (ps_permit_threshold p) score \<Longrightarrow> fl_less (ps_permit_threshold p) score'" for x
    using assms(6) fl_le_trans by blast (use assms(6) in \<open>cases score; cases score'; cases "ps_permit_threshold p"; auto simp: fl_le_def\<close>)
  have m: "fl_le x (max_risk_score b) \<Longrightarrow> fl_le x (max_risk_score b')" for x
    using riskier_bundle_max[OF assms(1,4,5)] fl_le_trans by blast
  show ?thesis
    using assms(9) t m riskier_structural[OF assms(1) _ assms(7)] riskier_agent_trigger[OF assms(3,6)] assms(7)
    unfolding should_abstain_def sem assms(8) by blast
qed

section \<open>Monotone scores\<close>

definition weights_finite :: "weights \<Rightarrow> bool" where
  "weights_finite ws \<longleftrightarrow> (\<forall>k\<in>set allowed_fusion_keys. fl_pos_fin (weight ws k))"

lemma policy_weights_finite: "policy_ok p \<Longrightarrow> weights_finite (ps_fusion_weights p)"
  by (auto simp: policy_ok_def weights_finite_def weight_def intro!: fl_unit_pos_fin score_lookup_unit)

definition streams_le :: "streams \<Rightarrow> streams \<Rightarrow> bool" where
  "streams_le st st' \<longleftrightarrow> (\<forall>f\<in>{st_deterministic, st_specialists, st_semantic, st_criticality, st_agent_identity, st_agent_capability,
     st_agent_behavioral}. fl_unit (f st) \<and> fl_unit (f st') \<and> fl_le (f st) (f st'))"

lemma fl_add_mono2: "fl_nn a \<and> fl_le a a' \<Longrightarrow> fl_nn b \<and> fl_le b b' \<Longrightarrow> fl_nn (fl_add a b) \<and> fl_le (fl_add a b) (fl_add a' b')"
  using fl_add_mono fl_add_nn by blast

lemma fl_mul_mono2: "fl_unit x \<and> fl_unit x' \<and> fl_le x x' \<Longrightarrow> fl_pos_fin w \<Longrightarrow> fl_nn (fl_mul x w) \<and> fl_le (fl_mul x w) (fl_mul x' w)"
  using fl_mul_mono[of w x x'] fl_unit_pos_fin by blast

lemma weighted_sum_mono:
  assumes "streams_le st st'" and "weights_finite ws"
  shows "fl_nn (weighted_sum ws ag st) \<and> fl_le (weighted_sum ws ag st) (weighted_sum ws ag st')"
proof -
  have w: "fl_pos_fin (weight ws ''deterministic'')" "fl_pos_fin (weight ws ''specialists'')" "fl_pos_fin (weight ws ''semantic'')"
    "fl_pos_fin (weight ws ''criticality'')" "fl_pos_fin (weight ws ''agent_identity'')"
    "fl_pos_fin (weight ws ''agent_capability'')" "fl_pos_fin (weight ws ''agent_behavioral'')"
    using assms(2) unfolding weights_finite_def allowed_fusion_keys_def by (simp_all only: list.set ball_simps)
  show ?thesis using assms(1) w unfolding weighted_sum_def Let_def streams_le_def ball_simps
    by (cases ag) (simp_all only: if_True if_False, (intro fl_add_mono2 fl_mul_mono2; blast)+)
qed

lemma fl_unit_refl: "fl_unit x \<Longrightarrow> fl_le x x"
  by (auto simp: fl_unit_Fin)

lemma streams_of_le:
  assumes "bundle_ok b" "bundle_ok b'" "semantic_ok s" "semantic_ok s'" "agent_opt_ok a" "agent_opt_ok a'" "fl_unit crit"
    and "fl_le (fv_fused_risk (fuse b)) (fv_fused_risk (fuse b'))" "riskier_semantic s s'" "riskier_agent a a'"
  shows "streams_le (streams_of g b s crit a) (streams_of g b' s' crit a')"
proof -
  note u = streams_of_unit[OF assms(1,3,5,7) refl, of g] and u' = streams_of_unit[OF assms(2,4,6,7) refl, of g]
  have le: "fl_le (st_deterministic (streams_of g b s crit a)) (st_deterministic (streams_of g b' s' crit a'))"
    "fl_le (st_specialists (streams_of g b s crit a)) (st_specialists (streams_of g b' s' crit a'))"
    "fl_le (st_semantic (streams_of g b s crit a)) (st_semantic (streams_of g b' s' crit a'))"
    "fl_le (st_criticality (streams_of g b s crit a)) (st_criticality (streams_of g b' s' crit a'))"
    using assms(7,8) fl_unit_refl[OF deterministic_score_unit] fl_unit_refl[OF assms(7)] riskier_semantic_max[OF assms(9,3,4)]
    by (simp_all add: streams_of_def Let_def)
  have ag: "fl_le (st_agent_identity (streams_of g b s crit a)) (st_agent_identity (streams_of g b' s' crit a'))"
    "fl_le (st_agent_capability (streams_of g b s crit a)) (st_agent_capability (streams_of g b' s' crit a'))"
    "fl_le (st_agent_behavioral (streams_of g b s crit a)) (st_agent_behavioral (streams_of g b' s' crit a'))"
    using assms(10) by (auto elim!: riskier_agentE simp: streams_of_def Let_def)
  show ?thesis using u u' le ag unfolding streams_le_def ball_simps by blast
qed

lemma fuse_scores_mono:
  assumes "streams_le st st'" "effective_weights p ag = Inr ws" "weights_finite ws"
    and "fuse_scores st ag p = Inr x" "fuse_scores st' ag p = Inr x'"
  shows "fl_le x x'"
  using assms weighted_sum_mono[OF assms(1,3), of ag] py_clamp_mono
  by (auto simp: fuse_scores_def fl_clamp_def)

lemma riskier_confidence:
  assumes "riskier_bundle b b'" "riskier_semantic s s'" "riskier_agent a a'"
  shows "per_stream_confidences g b' s' a' = per_stream_confidences g b s a"
    "compute_confidence c s' a' = compute_confidence c s a"
proof -
  note b = riskier_bundle_map[OF assms(1)] and s = riskier_semantic_same[OF assms(2)]
  show "per_stream_confidences g b' s' a' = per_stream_confidences g b s a" unfolding per_stream_confidences_def b s
    using assms(3) by (auto elim!: riskier_agentE simp: aggregate_confidence_def)
  show "compute_confidence c s' a' = compute_confidence c s a" unfolding compute_confidence_def s
    using assms(3) by (elim riskier_agentE; cases "cf_agent c") (simp_all add: Let_def has_capability_violations_def)
qed

lemma semantic_forbid_bars_mono:
  assumes "riskier_semantic s s'" "semantic_ok s" "semantic_ok s'" "semantic_forbid_bars rule s"
  shows "semantic_forbid_bars rule s'"
  using assms(4) riskier_semantic_max[OF assms(1-3)] fl_le_trans unfolding semantic_forbid_bars_def riskier_semantic_same[OF assms(1)]
  by blast

text \<open>
  (C2) Risk signals only push a verdict toward caution. Raise any risk scores of specialists, semantic dimensions and
  agent streams and leave everything else as it is: if the fused specialist risk does not fall and the weights in force
  are finite, the verdict does not move toward PERMIT.
\<close>

theorem route_monotone:
  assumes "inputs_ok g b s p ac ch en a" and "inputs_ok g b' s' p ac ch en a'"
    and "riskier_bundle b b'" and "riskier_semantic s s'" and "riskier_agent a a'"
    and "fl_le (fv_fused_risk (fuse b)) (fv_fused_risk (fuse b'))"
    and "effective_weights p (agent_present a) = Inr ws" and "weights_finite ws"
    and "route asi rule g b s p ac ch en a = Inr r" and "route asi rule g b' s' p ac ch en a' = Inr r'"
  shows "verdict_rank (rr_verdict r) \<le> verdict_rank (rr_verdict r')"
proof -
  have i: "bundle_ok b" "bundle_ok b'" "semantic_ok s" "semantic_ok s'" "agent_opt_ok a" "agent_opt_ok a'" "policy_ok p"
    using assms(1,2) by (auto simp: inputs_ok_def)
  obtain crit score c r1 where run: "criticality_for p ac ch en = Inr crit" "fl_unit crit"
    "fuse_scores (streams_of g b s crit a) (agent_present a) p = Inr score" "fl_unit score"
    "per_stream_confidences g b s a = Inr c" "route asi rule g b s p ac ch en a = Inr r1"
    "rr_verdict r1 = determine_verdict rule g s b score (compute_confidence c s a) p
       (build_uncertainty_flags g b s (compute_confidence c s a) p score (semantic_dominance_override_fired rule s g) a) a"
    by (rule route_run[OF assms(1), of asi rule]) blast
  obtain crit' score' c' r2 where run': "criticality_for p ac ch en = Inr crit'"
    "fuse_scores (streams_of g b' s' crit' a') (agent_present a') p = Inr score'" "fl_unit score'"
    "per_stream_confidences g b' s' a' = Inr c'" "route asi rule g b' s' p ac ch en a' = Inr r2"
    "rr_verdict r2 = determine_verdict rule g s' b' score' (compute_confidence c' s' a') p
       (build_uncertainty_flags g b' s' (compute_confidence c' s' a') p score' (semantic_dominance_override_fired rule s' g) a') a'"
    by (rule route_run[OF assms(2), of asi rule]) blast
  have eq: "crit' = crit" "c' = c" "agent_present a' = agent_present a"
    using run(1,5) run'(1,4) riskier_confidence(1)[OF assms(3-5), of g] riskier_agent_same(3)[OF assms(5)] by auto
  have le: "fl_le score score'"
    using fuse_scores_mono[OF streams_of_le[OF i(1-6) run(2) assms(6,4,5)] assms(7,8) run(3)] run'(2) unfolding eq by blast
  note flag = no_retrieval_flag and conf = riskier_confidence(2)[OF assms(3-5)]
  have fl: "list_ex (\<lambda>f. py_casefold f = ''no_retrieval_context'') (build_uncertainty_flags g b' s' x p score' o' a')
      = list_ex (\<lambda>f. py_casefold f = ''no_retrieval_context'') (build_uncertainty_flags g b s x p score o1 a)" for x o' o1
    unfolding no_retrieval_flag riskier_semantic_same[OF assms(4)] riskier_bundle_map(2)[OF assms(3)] riskier_agent_same(4)[OF assms(5)] ..
  have lt: "fl_less score' (ps_forbid_threshold p)" if "\<not> fl_le (ps_forbid_threshold p) score'"
    using that i(7) run'(3) by (simp add: policy_ok_def fl_less_le_unit)
  have "verdict_rank (rr_verdict r1) \<le> verdict_rank (rr_verdict r2)" unfolding run(7) run'(6) eq conf
    by (rule verdict_rank_mono_score[OF run(4) run'(3) le i(7) refl riskier_agent_same(1,2)[OF assms(5)]])
      (use riskier_semantic_same(1)[OF assms(4)] semantic_forbid_bars_mono[OF assms(4) i(3,4)] in simp_all,
        rule should_abstain_mono[OF assms(3-5) i(1,2) le lt fl])
  then show ?thesis using run(6) run'(5) assms(9,10) by simp
qed

text \<open>
  (C30) On valid inputs (as the constructors of the pipeline build them, with a bundle of at most \<open>2 ^ 18\<close>
  specialists) the router returns: no lookup, division or validator raises, and the result has its scores between 0
  and 1 and its texts normalised. In particular the mean confidence, which can exceed 1 by rounding errors, is rounded back.
\<close>

theorem route_returns:
  assumes "inputs_ok g b s p ac ch en a"
  shows "\<exists>r. route asi rule g b s p ac ch en a = Inr r \<and> result_ok r"
  by (rule route_run[OF assms, of asi rule]) blast

section \<open>Examples\<close>

definition quiet_gate :: gate_result where
  "quiet_gate = \<lparr>gr_findings = [], gr_enabled_recognizers = [], gr_blocked = False, gr_blocking_reasons = []\<rparr>"

definition firing :: "string \<Rightarrow> rat \<Rightarrow> specialist_result" where
  "firing name risk = \<lparr>sp_specialist_name = name, sp_risk_score = Fin risk, sp_confidence = Fin 1, sp_evidence = [],
     sp_matched_policy_clause_ids = [''c1''], sp_uncertainty_flags = []\<rparr>"

definition flat_semantic :: "rat \<Rightarrow> semantic_analysis" where
  "flat_semantic score = \<lparr>sa_dimension_results = map (\<lambda>d. \<lparr>dr_dimension = d, dr_score = Fin score, dr_confidence = Fin 1,
       dr_evidence_spans = [], dr_matched_policy_clause_ids = [], dr_uncertainty_flags = []\<rparr>) allowed_dimensions,
     sa_recommended_verdict = \<lparr>sr_verdict = PERMIT, sr_confidence = Fin 1, sr_uncertainty_flags = []\<rparr>,
     sa_overall_confidence = Fin 1, sa_evidence_sufficiency = Fin 1, sa_uncertainty_flags = []\<rparr>"

definition plain_policy :: policy where
  "plain_policy = \<lparr>ps_policy_id = ''default'', ps_version = ''1'', ps_is_active = True, ps_permit_threshold = Fin (11 / 32),
     ps_forbid_threshold = Fin (3 / 4), ps_minimum_confidence = Fin (1 / 2), ps_block_severities = [CRITICAL],
     ps_enabled_recognizers = [], ps_blocked_terms = [], ps_sensitive_entities = [], ps_retrieval_top_k = 5,
     ps_precedent_lookback_limit = 25, ps_precedent_autoresolve = False, ps_precedent_autoresolve_min_count = 3,
     ps_precedent_autoresolve_freshness_days = 90, ps_precedent_autoresolve_min_confidence = Fin (7 / 8),
     ps_specialist_thresholds = [], ps_action_criticality = [],
     ps_channel_criticality = [], ps_environment_criticality = [],
     ps_fusion_weights = [(''deterministic'', Fin 0), (''specialists'', Fin 1), (''semantic'', Fin 0), (''criticality'', Fin 0),
       (''agent_identity'', Fin 0), (''agent_capability'', Fin 0), (''agent_behavioral'', Fin 0)]\<rparr>"

lemma example_policy_ok: "policy_ok plain_policy"
  by (auto simp: policy_ok_def plain_policy_def scores_ok_def allowed_fusion_keys_def)

lemma example_semantic_ok: "0 \<le> x \<Longrightarrow> x \<le> 1 \<Longrightarrow> semantic_ok (flat_semantic x)"
  by (auto simp: semantic_ok_def flat_semantic_def dimension_ok_def norm_strings_def validate_dimension_coverage_def allowed_dimensions_def)

lemma example_floats: "fl_float (Fin (1 / 4))" "fl_float (Fin (1 / 8))" "fl_float (Fin (1 / 16))"
  by code_simp+

lemma example_bundle_ok: "bundle_ok [firing ''mage'' (1 / 4), firing ''pii'' (1 / 8)]" "bundle_ok [firing ''mage'' (1 / 4), firing ''pii'' (1 / 16)]"
proof -
  have s: "py_strip ''mage'' = ''mage''" "py_strip ''pii'' = ''pii''" "py_strip ''c1'' = ''c1''" by code_simp+
  show "bundle_ok [firing ''mage'' (1 / 4), firing ''pii'' (1 / 8)]" "bundle_ok [firing ''mage'' (1 / 4), firing ''pii'' (1 / 16)]"
    using example_floats s by (simp_all add: bundle_ok_def specialist_ok_def firing_def norm_strings_def)
qed

lemma example_inputs_ok:
  assumes "bundle_ok b" "length b \<le> 2" "0 \<le> x" "x \<le> 1"
  shows "inputs_ok quiet_gate b (flat_semantic x) plain_policy ''send'' ''email'' ''prod'' None"
proof -
  have "py_strip ''send'' \<noteq> []" "py_strip ''email'' \<noteq> []" "py_strip ''prod'' \<noteq> []" by code_simp+
  then show ?thesis using assms example_policy_ok example_semantic_ok
    by (simp add: inputs_ok_def gate_ok_def quiet_gate_def agent_opt_ok_def)
qed

lemma example_criticality: "criticality_for plain_policy ''send'' ''email'' ''prod'' = Inr (Fin 0)"
  by code_simp

lemma example_scores:
  "case fuse_scores (streams_of quiet_gate [firing ''mage'' (1 / 4), firing ''pii'' (1 / 8)] (flat_semantic 0) (Fin 0) None) False plain_policy
     of Inr x \<Rightarrow> fl_le x (Fin (11 / 32)) | _ \<Rightarrow> False"
  "case fuse_scores (streams_of quiet_gate [firing ''mage'' (1 / 4), firing ''pii'' (1 / 16)] (flat_semantic 0) (Fin 0) None) False plain_policy
     of Inr x \<Rightarrow> fl_less (Fin (11 / 32)) x \<and> fl_less x (Fin (3 / 4)) | _ \<Rightarrow> False"
  by code_simp+

lemma example_confidence:
  "case per_stream_confidences quiet_gate [firing ''mage'' (1 / 4), firing ''pii'' (1 / 8)] (flat_semantic 0) None of
     Inr c \<Rightarrow> fl_le (Fin (1 / 2)) (compute_confidence c (flat_semantic 0) None) | _ \<Rightarrow> False"
  by code_simp

lemma example_literals:
  "\<not> fl_less (Fin 1) (fl_lit 5 1)" "\<not> fl_less (Fin 1) (fl_lit 25 2)" "\<not> fl_le (fl_lit 60 2) (Fin (1 / 4))" "\<not> fl_le (fl_lit 30 2) (Fin (1 / 4))"
  by code_simp+

lemma default_rule_ok: "rule_ok default_selective_risk_rule"
  by (simp add: rule_ok_def default_selective_risk_rule_def fl_lit_unit)

lemma example_max: "max_risk_score [firing n (1 / 4), firing m (1 / 8)] = Fin (1 / 4)"
  by (simp add: max_risk_score_def py_max_default_def py_max_def firing_def)

lemma example_permit:
  "\<exists>r. route (\<lambda>_ _ _ _. [] :: unit list) default_selective_risk_rule quiet_gate [firing ''mage'' (1 / 4), firing ''pii'' (1 / 8)]
     (flat_semantic 0) plain_policy ''send'' ''email'' ''prod'' None = Inr r \<and> rr_verdict r = PERMIT"
proof -
  let ?b = "[firing ''mage'' (1 / 4), firing ''pii'' (1 / 8)]" and ?s = "flat_semantic 0" and ?rule = default_selective_risk_rule
  have i: "inputs_ok quiet_gate ?b ?s plain_policy ''send'' ''email'' ''prod'' None"
    using example_bundle_ok(1) by (intro example_inputs_ok) simp_all
  obtain crit score c r where run: "criticality_for plain_policy ''send'' ''email'' ''prod'' = Inr crit"
    "fuse_scores (streams_of quiet_gate ?b ?s crit None) (agent_present None) plain_policy = Inr score" "fl_unit score"
    "per_stream_confidences quiet_gate ?b ?s None = Inr c"
    "route (\<lambda>_ _ _ _. [] :: unit list) ?rule quiet_gate ?b ?s plain_policy ''send'' ''email'' ''prod'' None = Inr r"
    "rr_verdict r = determine_verdict ?rule quiet_gate ?s ?b score (compute_confidence c ?s None) plain_policy
       (build_uncertainty_flags quiet_gate ?b ?s (compute_confidence c ?s None) plain_policy score
          (semantic_dominance_override_fired ?rule ?s quiet_gate) None) None"
    by (rule route_run[OF i, of "\<lambda>_ _ _ _. []" ?rule]) blast
  have sc: "fl_le score (Fin (11 / 32))" using run(1,2) example_scores(1) by (simp add: example_criticality agent_present_def)
  then have nb: "\<not> fl_le (Fin (3 / 4)) score" "\<not> fl_less (Fin (11 / 32)) score" using run(3) by (auto simp: fl_unit_Fin)
  have cf: "fl_le (Fin (1 / 2)) (compute_confidence c ?s None)" using run(4) example_confidence by simp
  then have nc: "\<not> fl_less (compute_confidence c ?s None) (Fin (1 / 2))" by (cases "compute_confidence c ?s None") (auto simp: fl_le_def)
  have "\<not> should_abstain ?rule ?s ?b score (compute_confidence c ?s None) plain_policy
       (build_uncertainty_flags quiet_gate ?b ?s (compute_confidence c ?s None) plain_policy score o1 None) None" for o1
    unfolding should_abstain_def no_retrieval_flag using example_literals nb nc
    by (simp add: example_max has_low_confidence_dimension_def is_low_confidence_def plain_policy_def default_selective_risk_rule_def
        structural_trigger_def list_ex_iff) (simp add: flat_semantic_def firing_def)
  then have "rr_verdict r = PERMIT" unfolding run(6) determine_verdict_cases using nb sc cf
    by (simp add: quiet_gate_def held_agent_def violating_agent_def semantic_forbid_bars_def plain_policy_def flat_semantic_def)
  then show ?thesis using run(5) by blast
qed

lemma example_abstain:
  "\<exists>r. route (\<lambda>_ _ _ _. [] :: unit list) default_selective_risk_rule quiet_gate [firing ''mage'' (1 / 4), firing ''pii'' (1 / 16)]
     (flat_semantic 0) plain_policy ''send'' ''email'' ''prod'' None = Inr r \<and> rr_verdict r = ABSTAIN"
proof -
  let ?b = "[firing ''mage'' (1 / 4), firing ''pii'' (1 / 16)]" and ?s = "flat_semantic 0" and ?rule = default_selective_risk_rule
  have i: "inputs_ok quiet_gate ?b ?s plain_policy ''send'' ''email'' ''prod'' None"
    using example_bundle_ok(2) by (intro example_inputs_ok) simp_all
  obtain crit score c r where run: "criticality_for plain_policy ''send'' ''email'' ''prod'' = Inr crit"
    "fuse_scores (streams_of quiet_gate ?b ?s crit None) (agent_present None) plain_policy = Inr score" "fl_unit score"
    "route (\<lambda>_ _ _ _. [] :: unit list) ?rule quiet_gate ?b ?s plain_policy ''send'' ''email'' ''prod'' None = Inr r"
    "rr_verdict r = determine_verdict ?rule quiet_gate ?s ?b score (compute_confidence c ?s None) plain_policy
       (build_uncertainty_flags quiet_gate ?b ?s (compute_confidence c ?s None) plain_policy score
          (semantic_dominance_override_fired ?rule ?s quiet_gate) None) None"
    by (rule route_run[OF i, of "\<lambda>_ _ _ _. []" ?rule]) blast
  have "fl_less (Fin (11 / 32)) score" "fl_less score (Fin (3 / 4))"
    using run(1,2) example_scores(2) by (auto simp: example_criticality agent_present_def)
  then have "\<not> fl_le score (Fin (11 / 32))" "\<not> fl_le (Fin (3 / 4)) score" using run(3) by (auto simp: fl_unit_Fin)
  then have "rr_verdict r = ABSTAIN" unfolding run(5) determine_verdict_cases
    by (simp add: quiet_gate_def held_agent_def violating_agent_def semantic_forbid_bars_def plain_policy_def flat_semantic_def)
  then show ?thesis using run(4) by blast
qed

text \<open>
  Without the condition on the fused specialist risk the verdict does move the wrong way. A lone structural
  specialist earns a larger bonus than two that agree, so when a second specialist becomes riskier (1/16 to 1/8) and
  starts to fire, the fused risk falls and a decision that was held for review is permitted.
\<close>

theorem corroboration_relaxes_verdict:
  "riskier_bundle [firing ''mage'' (1 / 4), firing ''pii'' (1 / 16)] [firing ''mage'' (1 / 4), firing ''pii'' (1 / 8)]
   \<and> (\<exists>r r'. route (\<lambda>_ _ _ _. [] :: unit list) default_selective_risk_rule quiet_gate [firing ''mage'' (1 / 4), firing ''pii'' (1 / 16)]
        (flat_semantic 0) plain_policy ''send'' ''email'' ''prod'' None = Inr r \<and> rr_verdict r = ABSTAIN
      \<and> route (\<lambda>_ _ _ _. [] :: unit list) default_selective_risk_rule quiet_gate [firing ''mage'' (1 / 4), firing ''pii'' (1 / 8)]
        (flat_semantic 0) plain_policy ''send'' ''email'' ''prod'' None = Inr r' \<and> rr_verdict r' = PERMIT)"
proof -
  have "riskier_bundle [firing ''mage'' (1 / 4), firing ''pii'' (1 / 16)] [firing ''mage'' (1 / 4), firing ''pii'' (1 / 8)]"
    by (simp add: riskier_bundle_def firing_def)
  with example_abstain example_permit show ?thesis by blast
qed

theorem route_permit_clean_witness:
  "clean_content default_selective_risk_rule (flat_semantic 0) [firing ''mage'' (1 / 4), firing ''pii'' (1 / 8)]"
proof -
  obtain r where r: "route (\<lambda>_ _ _ _. [] :: unit list) default_selective_risk_rule quiet_gate [firing ''mage'' (1 / 4), firing ''pii'' (1 / 8)]
     (flat_semantic 0) plain_policy ''send'' ''email'' ''prod'' None = Inr r" "rr_verdict r = PERMIT"
    using example_permit by blast
  have "inputs_ok quiet_gate [firing ''mage'' (1 / 4), firing ''pii'' (1 / 8)] (flat_semantic 0) plain_policy ''send'' ''email'' ''prod'' None"
    using example_bundle_ok(1) by (intro example_inputs_ok) simp_all
  from route_permit_clean[OF this default_rule_ok r] show ?thesis by blast
qed

lemma example_weights: "effective_weights plain_policy False = Inr (ps_fusion_weights plain_policy)"
  by code_simp

theorem route_monotone_witness:
  "\<exists>r r'. route (\<lambda>_ _ _ _. [] :: unit list) default_selective_risk_rule quiet_gate [] (flat_semantic 0) plain_policy
        ''send'' ''email'' ''prod'' None = Inr r
      \<and> route (\<lambda>_ _ _ _. [] :: unit list) default_selective_risk_rule quiet_gate [] (flat_semantic 1) plain_policy
        ''send'' ''email'' ''prod'' None = Inr r'
      \<and> verdict_rank (rr_verdict r) \<le> verdict_rank (rr_verdict r')"
proof -
  have b: "bundle_ok []" "riskier_bundle [] []" "riskier_agent None None" by (simp_all add: bundle_ok_def riskier_bundle_def riskier_agent_def)
  have s: "riskier_semantic (flat_semantic 0) (flat_semantic 1)"
    by (simp add: riskier_semantic_def riskier_dimensions_def flat_semantic_def allowed_dimensions_def)
  have i: "inputs_ok quiet_gate [] (flat_semantic 0) plain_policy ''send'' ''email'' ''prod'' None"
    "inputs_ok quiet_gate [] (flat_semantic 1) plain_policy ''send'' ''email'' ''prod'' None"
    using b(1) by (auto intro: example_inputs_ok)
  obtain r where r: "route (\<lambda>_ _ _ _. [] :: unit list) default_selective_risk_rule quiet_gate [] (flat_semantic 0) plain_policy
      ''send'' ''email'' ''prod'' None = Inr r" by (rule route_run[OF i(1)]) blast
  obtain r' where r': "route (\<lambda>_ _ _ _. [] :: unit list) default_selective_risk_rule quiet_gate [] (flat_semantic 1) plain_policy
      ''send'' ''email'' ''prod'' None = Inr r'" by (rule route_run[OF i(2)]) blast
  have "fl_le (fv_fused_risk (fuse [])) (fv_fused_risk (fuse []))" using fuse_bounds(2)[OF b(1)] by (rule fl_unit_refl)
  from route_monotone[OF i b(2) s b(3) this _ policy_weights_finite[OF example_policy_ok] r r'] example_weights r r'
  show ?thesis by (auto simp: agent_present_def)
qed

theorem route_returns_witness:
  "\<exists>r. route (\<lambda>_ _ _ _. [] :: unit list) default_selective_risk_rule quiet_gate [firing ''mage'' (1 / 4), firing ''pii'' (1 / 8)]
     (flat_semantic 1) plain_policy ''send'' ''email'' ''prod'' None = Inr r \<and> result_ok r"
proof -
  have "inputs_ok quiet_gate [firing ''mage'' (1 / 4), firing ''pii'' (1 / 8)] (flat_semantic 1) plain_policy ''send'' ''email'' ''prod'' None"
    using example_bundle_ok(1) by (intro example_inputs_ok) simp_all
  then show ?thesis by (rule route_returns)
qed

text \<open>
  The flag that says that the semantic override moved the verdict is also set for a quarantined or sleeping agent,
  whose verdict is ABSTAIN.
\<close>

lemma override_flag_held_agent:
  assumes "inputs_ok g b s p ac ch en a" "held_agent a" "\<not> gr_blocked g" "semantic_forbid_bars rule s"
    and "route asi rule g b s p ac ch en a = Inr r"
  shows "rr_override_fired r \<and> rr_verdict r = ABSTAIN"
  by (rule route_run[OF assms(1), of asi rule])
    (use assms in \<open>auto simp: semantic_dominance_override_fired_def determine_verdict_cases\<close>)

end
