(* ===== verification/Action_Class.thy ===== *)
theory Action_Class
  imports Label_Lattice Path_Checker
begin

text \<open>
  The action-class contract (\<^verbatim>\<open>contracts/action_class.py\<close>): each declared step has a reversibility and a blast radius,
  the action has the worst of each, and the cell of the two decides. Both axes are label lattices, so that the
  worst-step join does not depend on the order of the steps and only grows with them. The offline certificate of
  the classifier is not modelled. In the texts the dash outside Latin-1 is written as a hyphen.
\<close>

datatype Reversibility = REVERSIBLE | RECOVERABLE | IRREVERSIBLE | REV_UNKNOWN

datatype BlastRadius = SELF | TENANT | PUBLIC_BLAST | BLAST_UNKNOWN

datatype ActionClass = AC_NEUTRAL | AC_ABSTAIN | AC_FORBID

fun rev_int :: "Reversibility \<Rightarrow> nat" where
  "rev_int REVERSIBLE = 0" | "rev_int RECOVERABLE = 1" | "rev_int IRREVERSIBLE = 2" | "rev_int REV_UNKNOWN = 3"

fun blast_int :: "BlastRadius \<Rightarrow> nat" where
  "blast_int SELF = 0" | "blast_int TENANT = 1" | "blast_int PUBLIC_BLAST = 2" | "blast_int BLAST_UNKNOWN = 3"

fun class_int :: "ActionClass \<Rightarrow> nat" where
  "class_int AC_NEUTRAL = 0" | "class_int AC_ABSTAIN = 1" | "class_int AC_FORBID = 2"

definition rev_join :: "Reversibility \<Rightarrow> Reversibility \<Rightarrow> Reversibility" where
  "rev_join a b = (if rev_int a \<le> rev_int b then b else a)"

definition blast_join :: "BlastRadius \<Rightarrow> BlastRadius \<Rightarrow> BlastRadius" where
  "blast_join a b = (if blast_int a \<le> blast_int b then b else a)"

definition is_irreversible :: "Reversibility \<Rightarrow> bool" where
  "is_irreversible r \<longleftrightarrow> rev_int IRREVERSIBLE \<le> rev_int r"

definition is_public :: "BlastRadius \<Rightarrow> bool" where
  "is_public b \<longleftrightarrow> blast_int PUBLIC_BLAST \<le> blast_int b"

fun rev_name :: "Reversibility \<Rightarrow> string" where
  "rev_name REVERSIBLE = ''REVERSIBLE''" | "rev_name RECOVERABLE = ''RECOVERABLE''"
| "rev_name IRREVERSIBLE = ''IRREVERSIBLE''" | "rev_name REV_UNKNOWN = ''UNKNOWN''"

fun blast_name :: "BlastRadius \<Rightarrow> string" where
  "blast_name SELF = ''SELF''" | "blast_name TENANT = ''TENANT''"
| "blast_name PUBLIC_BLAST = ''PUBLIC''" | "blast_name BLAST_UNKNOWN = ''UNKNOWN''"

definition coerce_rev :: "pyval \<Rightarrow> Reversibility" where
  "coerce_rev v = (case v of
       VStr s \<Rightarrow> (let n = py_upper (py_strip s) in
         if n = ''REVERSIBLE'' then REVERSIBLE else if n = ''RECOVERABLE'' then RECOVERABLE
         else if n = ''IRREVERSIBLE'' then IRREVERSIBLE else REV_UNKNOWN)
     | _ \<Rightarrow> REV_UNKNOWN)"

definition coerce_blast :: "pyval \<Rightarrow> BlastRadius" where
  "coerce_blast v = (case v of
       VStr s \<Rightarrow> (let n = py_upper (py_strip s) in
         if n = ''SELF'' then SELF else if n = ''TENANT'' then TENANT
         else if n = ''PUBLIC'' then PUBLIC_BLAST else BLAST_UNKNOWN)
     | _ \<Rightarrow> BLAST_UNKNOWN)"

definition classify_action_class :: "Reversibility \<Rightarrow> BlastRadius \<Rightarrow> ActionClass" where
  "classify_action_class r b =
     (if is_irreversible r \<and> is_public b then AC_FORBID
      else if is_irreversible r \<or> is_public b then AC_ABSTAIN else AC_NEUTRAL)"

fun join_loop :: "Reversibility \<times> BlastRadius \<times> nat \<Rightarrow> pyval list \<Rightarrow> Reversibility \<times> BlastRadius \<times> nat" where
  "join_loop acc [] = acc"
| "join_loop (r, b, n) (entry # es) = (case entry of
     VMap m _ \<Rightarrow> join_loop (rev_join r (coerce_rev (dict_get m ''reversibility'' VNone)),
                            blast_join b (coerce_blast (dict_get m ''blast_radius'' VNone)), n + 1) es
   | _ \<Rightarrow> join_loop (r, b, n) es)"

definition join_steps :: "pyval list \<Rightarrow> Reversibility \<times> BlastRadius \<times> nat" where
  "join_steps = join_loop (REVERSIBLE, SELF, 0)"

record action_class_outcome =
  ac_fired :: bool
  ac_class :: ActionClass
  ac_worst_reversibility :: Reversibility
  ac_worst_blast :: BlastRadius
  ac_n_steps :: nat
  ac_reason :: string

definition neutral_action_class :: action_class_outcome where
  "neutral_action_class = \<lparr>ac_fired = False, ac_class = AC_NEUTRAL, ac_worst_reversibility = REVERSIBLE, ac_worst_blast = SELF,
     ac_n_steps = 0, ac_reason = []\<rparr>"

definition action_class_reason :: "ActionClass \<Rightarrow> Reversibility \<Rightarrow> BlastRadius \<Rightarrow> nat \<Rightarrow> string" where
  "action_class_reason cell r b n = (case cell of
       AC_FORBID \<Rightarrow> ''L4 ActionClass lattice: worst-step join is '' @ rev_name r @ '' reversibility '' @ [CHR 0xD7] @ '' ''
         @ blast_name b @ '' blast radius over '' @ nat_digits n
         @ '' declared step(s) - an irreversible, public-blast action with no proof of containment or undo. Structural FORBID.''
     | AC_ABSTAIN \<Rightarrow> ''L4 ActionClass lattice: worst-step join is '' @ rev_name r @ '' '' @ [CHR 0xD7] @ '' '' @ blast_name b
         @ '' - one axis in its dangerous tier. Held for review (recorded; not yet surfaced this wave).''
     | AC_NEUTRAL \<Rightarrow> [])"

definition classify_action_class_block :: "pybag \<Rightarrow> action_class_outcome" where
  "classify_action_class_block raw = (case dict_get raw ''steps'' VNone of
       VList steps _ \<Rightarrow>
         (let (r, b, n) = join_steps steps; cell = classify_action_class r b in
          if n = 0 then neutral_action_class
          else \<lparr>ac_fired = (cell = AC_FORBID), ac_class = cell, ac_worst_reversibility = r, ac_worst_blast = b, ac_n_steps = n,
                ac_reason = action_class_reason cell r b n\<rparr>)
     | _ \<Rightarrow> neutral_action_class)"

definition evaluate_action_class :: "'a request_scheme \<Rightarrow> action_class_outcome" where
  "evaluate_action_class q = (case dict_get (metadata q) ''action_class'' VNone of
       VMap raw _ \<Rightarrow> classify_action_class_block raw
     | _ \<Rightarrow> neutral_action_class)"

section \<open>The two axes are label lattices\<close>

lemma rev_int_inj: "rev_int a = rev_int b \<Longrightarrow> a = b"
  by (cases a; cases b) auto

lemma blast_int_inj: "blast_int a = blast_int b \<Longrightarrow> a = b"
  by (cases a; cases b) auto

interpretation rev: label_lattice "\<lambda>a b. rev_int a \<le> rev_int b" rev_join REVERSIBLE
  by unfold_locales (auto simp: rev_join_def intro: rev_int_inj)

interpretation blast: label_lattice "\<lambda>a b. blast_int a \<le> blast_int b" blast_join SELF
  by unfold_locales (auto simp: blast_join_def intro: blast_int_inj)

text \<open>The steps of a declaration that count: the mappings, each with its two labels.\<close>

definition step_labels :: "pyval list \<Rightarrow> (Reversibility \<times> BlastRadius) list" where
  "step_labels steps = List.map_filter (\<lambda>v. case v of
       VMap m _ \<Rightarrow> Some (coerce_rev (dict_get m ''reversibility'' VNone), coerce_blast (dict_get m ''blast_radius'' VNone))
     | _ \<Rightarrow> None) steps"

lemma step_labels_simps [simp]:
  "step_labels [] = []"
  "step_labels (v # vs) = (case v of
       VMap m _ \<Rightarrow> (coerce_rev (dict_get m ''reversibility'' VNone), coerce_blast (dict_get m ''blast_radius'' VNone)) # step_labels vs
     | _ \<Rightarrow> step_labels vs)"
  by (auto simp: step_labels_def map_filter_simps split: pyval.splits)

lemma join_loop_foldl:
  "join_loop (r, b, n) vs = (foldl rev_join r (map fst (step_labels vs)), foldl blast_join b (map snd (step_labels vs)), n + length (step_labels vs))"
  by (induction vs arbitrary: r b n) (auto split: pyval.splits)

lemma join_steps_foldl:
  "join_steps vs = (foldl rev_join REVERSIBLE (map fst (step_labels vs)), foldl blast_join SELF (map snd (step_labels vs)), length (step_labels vs))"
  by (simp add: join_steps_def join_loop_foldl)

lemma rev_join_irreversible: "is_irreversible (rev_join a b) \<longleftrightarrow> is_irreversible a \<or> is_irreversible b"
  by (auto simp: rev_join_def is_irreversible_def)

lemma blast_join_public: "is_public (blast_join a b) \<longleftrightarrow> is_public a \<or> is_public b"
  by (auto simp: blast_join_def is_public_def)

lemma foldl_rev_irreversible: "is_irreversible (foldl rev_join a rs) \<longleftrightarrow> is_irreversible a \<or> (\<exists>r\<in>set rs. is_irreversible r)"
  by (induction rs arbitrary: a) (auto simp: rev_join_irreversible)

lemma foldl_blast_public: "is_public (foldl blast_join a bs) \<longleftrightarrow> is_public a \<or> (\<exists>b\<in>set bs. is_public b)"
  by (induction bs arbitrary: a) (auto simp: blast_join_public)

lemma classify_mono:
  assumes "rev_int r \<le> rev_int r'" and "blast_int b \<le> blast_int b'"
  shows "class_int (classify_action_class r b) \<le> class_int (classify_action_class r' b')"
  using assms by (auto simp: classify_action_class_def is_irreversible_def is_public_def)

text \<open>
  (C32) The floor cell fires exactly when some declared step cannot be undone and some step reaches the public, not
  necessarily the same one, where an axis that is missing or not understood counts as the worst; the class depends on
  the set of declared steps only, and declaring more steps never makes the action look safer.
\<close>

theorem action_class_worst_step:
  "(ac_fired (classify_action_class_block [(''steps'', VList steps t)]) \<longleftrightarrow>
      (\<exists>l\<in>set (step_labels steps). fst l \<in> {IRREVERSIBLE, REV_UNKNOWN}) \<and> (\<exists>l\<in>set (step_labels steps). snd l \<in> {PUBLIC_BLAST, BLAST_UNKNOWN}))
   \<and> (set (step_labels steps) \<subseteq> set (step_labels steps') \<longrightarrow>
      class_int (ac_class (classify_action_class_block [(''steps'', VList steps t)]))
      \<le> class_int (ac_class (classify_action_class_block [(''steps'', VList steps' t')])))"
  (is "?fire \<and> ?mono")
proof
  have irr: "is_irreversible r \<longleftrightarrow> r \<in> {IRREVERSIBLE, REV_UNKNOWN}" for r by (cases r) (auto simp: is_irreversible_def)
  have pub: "is_public b \<longleftrightarrow> b \<in> {PUBLIC_BLAST, BLAST_UNKNOWN}" for b by (cases b) (auto simp: is_public_def)
  have bot: "\<not> is_irreversible REVERSIBLE" "\<not> is_public SELF" by (simp_all add: is_irreversible_def is_public_def)
  have cls: "ac_class (classify_action_class_block [(''steps'', VList vs u)]) =
      classify_action_class (foldl rev_join REVERSIBLE (map fst (step_labels vs))) (foldl blast_join SELF (map snd (step_labels vs)))" for vs u
    by (cases "step_labels vs") (simp_all add: classify_action_class_block_def join_steps_foldl neutral_action_class_def Let_def
        dict_get_def classify_action_class_def bot)
  have fired: "ac_fired (classify_action_class_block [(''steps'', VList steps t)]) \<longleftrightarrow>
      ac_class (classify_action_class_block [(''steps'', VList steps t)]) = AC_FORBID"
    by (simp add: classify_action_class_block_def neutral_action_class_def Let_def split: pyval.splits prod.splits)
  show ?fire unfolding fired cls
    by (simp add: classify_action_class_def foldl_rev_irreversible foldl_blast_public bot irr[symmetric] pub[symmetric])
      (use irr pub in auto)
  show ?mono
  proof
    assume s: "set (step_labels steps) \<subseteq> set (step_labels steps')"
    then have "set (map fst (step_labels steps)) \<subseteq> set (map fst (step_labels steps'))"
      "set (map snd (step_labels steps)) \<subseteq> set (map snd (step_labels steps'))" by auto
    then show "class_int (ac_class (classify_action_class_block [(''steps'', VList steps t)]))
      \<le> class_int (ac_class (classify_action_class_block [(''steps'', VList steps' t')]))"
      unfolding cls by (intro classify_mono rev.derived_mono blast.derived_mono)
  qed
qed

definition example_step :: "string \<Rightarrow> string \<Rightarrow> pyval" where
  "example_step r b = VMap [(''reversibility'', VStr r), (''blast_radius'', VStr b)] []"

theorem action_class_worst_step_witness:
  "ac_fired (classify_action_class_block [(''steps'', VList [example_step ''irreversible'' ''self'', example_step ''reversible'' ''public''] [])])
   \<and> class_int (ac_class (classify_action_class_block [(''steps'', VList [example_step ''irreversible'' ''self''] [])]))
     \<le> class_int (ac_class (classify_action_class_block [(''steps'', VList [example_step ''irreversible'' ''self'', example_step ''reversible'' ''public''] [])]))"
proof -
  let ?one = "[example_step ''irreversible'' ''self'']" and ?two = "[example_step ''irreversible'' ''self'', example_step ''reversible'' ''public'']"
  have "step_labels ?one = [(IRREVERSIBLE, SELF)]" "step_labels ?two = [(IRREVERSIBLE, SELF), (REVERSIBLE, PUBLIC_BLAST)]" by code_simp+
  then show ?thesis using action_class_worst_step[of ?two "[]" ?two "[]"] action_class_worst_step[of ?one "[]" ?two "[]"] by simp
qed

end
