(* ===== verification/Contract_Atoms.thy ===== *)
theory Contract_Atoms
  imports Ltl_Monitor Path_Checker "HOL-Library.Char_ord" "HOL-Library.List_Lexorder"
begin

text \<open>
  The atoms of behavioral contracts (\<^verbatim>\<open>contracts/_atoms.py\<close>): how an atom is split into namespace, path,
  operator and literal, the comparison operators, and the resolver that the LTL evaluator of
  \<^verbatim>\<open>contracts/_ltl.py\<close> calls on a proposed event and a state snapshot.

  A resolver may raise, so the evaluator is given a second time with exceptions (\<open>ltl_eval_err\<close>); where no
  atom raises it is the evaluator of \<open>Ltl_Monitor\<close>. \<^verbatim>\<open>re.search\<close> is an argument. A datetime is a record of the
  readings that the code makes of it: \<^verbatim>\<open>isoformat()\<close>, \<^verbatim>\<open>str()\<close> and \<^verbatim>\<open>timestamp()\<close>.
\<close>

section \<open>Events and snapshots\<close>

record py_datetime =
  dt_iso :: string
  dt_str :: string
  dt_epoch :: pyfloat

record proposed_event =
  pe_event_kind :: string
  pe_actor_entity_id :: string
  pe_target_entity_id :: "string option"
  pe_payload :: pybag
  pe_proposed_at :: py_datetime
  pe_session_id :: "string option"
  pe_upstream_event_ids :: "string list"

record ecosystem_state =
  es_snapshot_at :: py_datetime
  es_state_hash :: string
  es_active_agent_ids :: "string list"
  es_active_tool_ids :: "string list"
  es_active_capability_ids :: "string list"
  es_active_governance_graph_id :: string
  es_aggregate_drift_signals :: pybag
  es_sliding_window_compromise_ratio :: pyval

record contract_context =
  cx_proposed_event :: proposed_event
  cx_state :: ecosystem_state
  cx_event_window :: "proposed_event list"

section \<open>Splitting an atom\<close>

datatype contract_error = CtValueError | CtRegexError | CtParseError

datatype atom_op = OpEq | OpNe | OpGe | OpLe | OpGt | OpLt | OpContains | OpNotContains | OpMatches | OpIn | OpNotIn
  | OpBetween | OpExists

definition op_tokens :: "(string \<times> atom_op) list" where
  "op_tokens = [(''=='', OpEq), (''!='', OpNe), (''>='', OpGe), (''<='', OpLe), (''>'', OpGt), (''<'', OpLt),
     (''~contains:'', OpContains), (''~not_contains:'', OpNotContains), (''~matches:'', OpMatches), (''~in:'', OpIn),
     (''~not_in:'', OpNotIn), (''~between:'', OpBetween), (''~exists'', OpExists)]"

record parsed_atom =
  pa_namespace :: string
  pa_path :: string
  pa_op :: "atom_op option"
  pa_literal :: "string option"

fun split_op :: "string \<Rightarrow> (string \<times> atom_op) list \<Rightarrow> contract_error + (string \<times> atom_op \<times> string option)" where
  "split_op rest [] = Inl CtValueError"
| "split_op rest ((tok, op) # toks) =
     (case py_find tok rest of
        None \<Rightarrow> split_op rest toks
      | Some i \<Rightarrow> (let after = drop (i + length tok) rest in
          if op = OpExists then (if after \<noteq> [] then Inl CtValueError else Inr (take i rest, op, None))
          else Inr (take i rest, op, Some after)))"

definition contract_parse_atom :: "string \<Rightarrow> contract_error + parsed_atom" where
  "contract_parse_atom atom =
     (if CHR '':'' \<notin> set atom
      then Inr \<lparr>pa_namespace = ''state'', pa_path = atom, pa_op = Some OpEq, pa_literal = Some ''true''\<rparr>
      else let ns = py_strip (takeWhile (\<lambda>c. c \<noteq> CHR '':'') atom); rest = tl (dropWhile (\<lambda>c. c \<noteq> CHR '':'') atom) in
           if ns \<in> {''kind'', ''capability'', ''actor'', ''upstream''}
           then Inr \<lparr>pa_namespace = ns, pa_path = [], pa_op = None, pa_literal = Some rest\<rparr>
           else if ns \<notin> {''field'', ''state'', ''drift''} then Inl CtValueError
           else sbind (split_op rest op_tokens) (\<lambda>(path, op, lit).
                  Inr \<lparr>pa_namespace = ns, pa_path = path, pa_op = Some op, pa_literal = lit\<rparr>))"

section \<open>Comparison\<close>

definition stringify :: "pyval \<Rightarrow> string" where
  "stringify v = (case v of VBool b \<Rightarrow> if b then ''true'' else ''false'' | VNone \<Rightarrow> [] | _ \<Rightarrow> py_str v)"

definition truthy :: "pyval \<Rightarrow> bool" where
  "truthy v = (case v of VBool b \<Rightarrow> b | VNone \<Rightarrow> False | VInt i \<Rightarrow> i \<noteq> 0 | VFloat f s \<Rightarrow> \<not> fl_eq f (Fin 0)
     | VStr s \<Rightarrow> py_lower s = ''true'' | _ \<Rightarrow> True)"

definition coerce_numeric :: "string \<Rightarrow> pyfloat option" where
  "coerce_numeric s = read_float s"

fun compare_numbers :: "atom_op \<Rightarrow> pyfloat \<Rightarrow> pyfloat \<Rightarrow> bool option" where
  "compare_numbers OpEq x y = Some (fl_eq x y)"
| "compare_numbers OpNe x y = Some (\<not> fl_eq x y)"
| "compare_numbers OpGt x y = Some (fl_less y x)"
| "compare_numbers OpGe x y = Some (fl_le y x)"
| "compare_numbers OpLt x y = Some (fl_less x y)"
| "compare_numbers OpLe x y = Some (fl_le x y)"
| "compare_numbers _ x y = None"

definition is_bool_literal :: "string \<Rightarrow> bool" where
  "is_bool_literal l \<longleftrightarrow> py_lower l \<in> {''true'', ''false''}"

fun compare_texts :: "atom_op \<Rightarrow> pyval \<Rightarrow> string \<Rightarrow> contract_error + bool" where
  "compare_texts OpEq v l = Inr (if is_bool_literal l then truthy v = (py_lower l = ''true'') else stringify v = l)"
| "compare_texts OpNe v l = Inr (if is_bool_literal l then truthy v \<noteq> (py_lower l = ''true'') else stringify v \<noteq> l)"
| "compare_texts OpGt v l = Inr (l < stringify v)"
| "compare_texts OpGe v l = Inr (l \<le> stringify v)"
| "compare_texts OpLt v l = Inr (stringify v < l)"
| "compare_texts OpLe v l = Inr (stringify v \<le> l)"
| "compare_texts _ v l = Inl CtValueError"

type_synonym re_search = "string \<Rightarrow> string \<Rightarrow> contract_error + bool"

definition compare :: "re_search \<Rightarrow> pyval \<Rightarrow> atom_op \<Rightarrow> string option \<Rightarrow> contract_error + bool" where
  "compare re left op literal =
     (if op = OpExists then Inr (left \<noteq> VNone) else
      case literal of None \<Rightarrow> Inl CtValueError | Some l \<Rightarrow>
      if op = OpIn then Inr (stringify left \<in> set (map py_strip (py_split CHR '','' l)))
      else if op = OpNotIn then Inr (stringify left \<notin> set (map py_strip (py_split CHR '','' l)))
      else if op = OpContains then Inr (py_contains l (stringify left))
      else if op = OpNotContains then Inr (\<not> py_contains l (stringify left))
      else if op = OpMatches then re l (stringify left)
      else if op = OpBetween then
        (case py_split CHR '','' l of
           [lo, hi] \<Rightarrow> (case (coerce_numeric (py_strip lo), coerce_numeric (py_strip hi), coerce_numeric (stringify left)) of
                         (Some a, Some b, Some x) \<Rightarrow> Inr (fl_le a x \<and> fl_le x b)
                       | _ \<Rightarrow> Inr False)
         | _ \<Rightarrow> Inl CtValueError)
      else (case (coerce_numeric l, if left = VNone then None else coerce_numeric (stringify left)) of
              (Some y, Some x) \<Rightarrow> (case compare_numbers op x y of Some b \<Rightarrow> Inr b | None \<Rightarrow> compare_texts op left l)
            | _ \<Rightarrow> compare_texts op left l))"

section \<open>Resolving an atom\<close>

definition lookup_path :: "pybag \<Rightarrow> string \<Rightarrow> pyval" where
  "lookup_path bag path = (if path = [] then VNone else resolve_path (VMap bag []) (py_split CHR ''.'' path))"

text \<open>\<^verbatim>\<open>str()\<close> of a tuple of strings and of a dict from strings to floats.\<close>

definition tuple_text :: "string list \<Rightarrow> string" where
  "tuple_text xs = ''('' @ py_join '', '' (map py_repr xs) @ (if length xs = 1 then '','' else []) @ '')''"

definition dict_text :: "pybag \<Rightarrow> string" where
  "dict_text m = ''{'' @ py_join '', '' (map (\<lambda>(k, v). py_repr k @ '': '' @ py_str v) m) @ ''}''"

definition text_tuple :: "string list \<Rightarrow> pyval" where
  "text_tuple xs = VList (map VStr xs) (tuple_text xs)"

definition state_mirror :: "ecosystem_state \<Rightarrow> pybag" where
  "state_mirror st =
     [(''snapshot_at'', VOther (dt_str (es_snapshot_at st))), (''state_hash'', VStr (es_state_hash st)),
      (''active_agent_ids'', text_tuple (es_active_agent_ids st)), (''active_tool_ids'', text_tuple (es_active_tool_ids st)),
      (''active_capability_ids'', text_tuple (es_active_capability_ids st)),
      (''active_governance_graph_id'', VStr (es_active_governance_graph_id st)),
      (''sliding_window_compromise_ratio'', es_sliding_window_compromise_ratio st),
      (''aggregate_drift_signals'', VMap (es_aggregate_drift_signals st) (dict_text (es_aggregate_drift_signals st)))]"

definition resolve_atom :: "re_search \<Rightarrow> contract_context \<Rightarrow> string \<Rightarrow> contract_error + bool" where
  "resolve_atom re cx atom = sbind (contract_parse_atom atom) (\<lambda>p.
     let ns = pa_namespace p; op = (case pa_op p of Some x \<Rightarrow> x | None \<Rightarrow> OpEq) in
     if ns = ''kind'' then Inr (Some (pe_event_kind (cx_proposed_event cx)) = pa_literal p)
     else if ns = ''actor'' then Inr (Some (pe_actor_entity_id (cx_proposed_event cx)) = pa_literal p)
     else if ns = ''capability'' then Inr (case pa_literal p of None \<Rightarrow> False | Some l \<Rightarrow> l \<in> set (es_active_capability_ids (cx_state cx)))
     else if ns = ''upstream'' then Inr (case pa_literal p of None \<Rightarrow> False | Some l \<Rightarrow> l \<in> set (pe_upstream_event_ids (cx_proposed_event cx)))
     else if ns = ''field'' then compare re (lookup_path (pe_payload (cx_proposed_event cx)) (pa_path p)) op (pa_literal p)
     else if ns = ''state'' then compare re (lookup_path (state_mirror (cx_state cx)) (pa_path p)) op (pa_literal p)
     else if ns = ''drift'' then compare re (dict_get (es_aggregate_drift_signals (cx_state cx)) (pa_path p) VNone) op (pa_literal p)
     else Inl CtValueError)"

definition make_resolver :: "re_search \<Rightarrow> contract_context \<Rightarrow> string \<Rightarrow> 'st \<Rightarrow> contract_error + bool" where
  "make_resolver re cx = (\<lambda>atom trace_elem. resolve_atom re cx atom)"

definition trace_for :: "contract_context \<Rightarrow> pybag list" where
  "trace_for cx = [[(''_event_payload'', VMap (pe_payload (cx_proposed_event cx)) [])]]"

section \<open>Evaluation with a resolver that raises\<close>

fun until_loop_err :: "(nat \<Rightarrow> 'e + bool) \<Rightarrow> (nat \<Rightarrow> 'e + bool) \<Rightarrow> nat list \<Rightarrow> 'e + bool" where
  "until_loop_err left right [] = Inr False"
| "until_loop_err left right (j # js) =
     sbind (right j) (\<lambda>r. if r then Inr True
       else sbind (left j) (\<lambda>l. if \<not> l then Inr False else until_loop_err left right js))"

primrec ltl_eval_err :: "ltl \<Rightarrow> 'st list \<Rightarrow> nat \<Rightarrow> (string \<Rightarrow> 'st \<Rightarrow> 'e + bool) \<Rightarrow> 'e + bool" where
  "ltl_eval_err (LConst v) trace pos resolver = Inr v"
| "ltl_eval_err (LAtom name) trace pos resolver =
     (if length trace \<le> pos then Inr False else resolver name (trace ! pos))"
| "ltl_eval_err (LNot a) trace pos resolver = sbind (ltl_eval_err a trace pos resolver) (\<lambda>x. Inr (\<not> x))"
| "ltl_eval_err (LAnd a b) trace pos resolver =
     sbind (ltl_eval_err a trace pos resolver) (\<lambda>x. if x then ltl_eval_err b trace pos resolver else Inr False)"
| "ltl_eval_err (LOr a b) trace pos resolver =
     sbind (ltl_eval_err a trace pos resolver) (\<lambda>x. if x then Inr True else ltl_eval_err b trace pos resolver)"
| "ltl_eval_err (LImplies a b) trace pos resolver =
     sbind (ltl_eval_err a trace pos resolver) (\<lambda>x. if \<not> x then Inr True else ltl_eval_err b trace pos resolver)"
| "ltl_eval_err (LNext a) trace pos resolver =
     (if length trace \<le> pos + 1 then Inr False else ltl_eval_err a trace (pos + 1) resolver)"
| "ltl_eval_err (LWeakNext a) trace pos resolver =
     (if length trace \<le> pos + 1 then Inr True else ltl_eval_err a trace (pos + 1) resolver)"
| "ltl_eval_err (LGlobally a) trace pos resolver =
     err_all (\<lambda>k. ltl_eval_err a trace k resolver) [pos..<length trace]"
| "ltl_eval_err (LEventually a) trace pos resolver =
     err_ex (\<lambda>k. ltl_eval_err a trace k resolver) [pos..<length trace]"
| "ltl_eval_err (LBoundedEventually b a) trace pos resolver =
     err_ex (\<lambda>k. ltl_eval_err a trace k resolver) [pos..<min (pos + b + 1) (length trace)]"
| "ltl_eval_err (LUntil a b) trace pos resolver =
     until_loop_err (\<lambda>j. ltl_eval_err a trace j resolver) (\<lambda>j. ltl_eval_err b trace j resolver) [pos..<length trace]"

text \<open>What an evaluation returns is the value of \<open>Ltl_Monitor\<close>, an atom that raises counting as any truth value.\<close>

lemma until_loop_err_Inr:
  assumes "until_loop_err f g js = Inr b"
    and "\<And>j c. j \<in> set js \<Longrightarrow> f j = Inr c \<Longrightarrow> f' j = c" and "\<And>j c. j \<in> set js \<Longrightarrow> g j = Inr c \<Longrightarrow> g' j = c"
  shows "until_loop f' g' js = b"
  using assms by (induction f g js rule: until_loop_err.induct) (auto simp: sbind_rules split: if_splits)

lemma ltl_eval_err_Inr:
  assumes "\<And>a s b. resolver a s = Inr b \<Longrightarrow> r a s = b"
  shows "ltl_eval_err f trace pos resolver = Inr b \<Longrightarrow> ltl_eval f trace pos r = b"
proof (induction f arbitrary: pos b)
  case (LAtom x)
  then show ?case using assms by (auto split: if_splits)
next
  case (LGlobally f)
  have "b \<longleftrightarrow> (\<forall>k\<in>set [pos..<length trace]. ltl_eval f trace k r)"
    using LGlobally by (intro err_all_Inr[of "\<lambda>k. ltl_eval_err f trace k resolver"]) auto
  then show ?case by (simp add: list_all_iff)
next
  case (LEventually f)
  have "b \<longleftrightarrow> (\<exists>k\<in>set [pos..<length trace]. ltl_eval f trace k r)"
    using LEventually by (intro err_ex_Inr[of "\<lambda>k. ltl_eval_err f trace k resolver"]) auto
  then show ?case by (simp add: list_ex_iff)
next
  case (LBoundedEventually n f)
  have "b \<longleftrightarrow> (\<exists>k\<in>set [pos..<min (pos + n + 1) (length trace)]. ltl_eval f trace k r)"
    using LBoundedEventually by (intro err_ex_Inr[of "\<lambda>k. ltl_eval_err f trace k resolver"]) auto
  then show ?case by (simp add: list_ex_iff)
next
  case (LUntil f g)
  then show ?case using until_loop_err_Inr[OF LUntil.prems[unfolded ltl_eval_err.simps]] by simp
qed (auto simp: sbind_rules split: if_splits)

text \<open>An evaluation raises only if an atom of the formula does.\<close>

primrec ltl_atoms :: "ltl \<Rightarrow> string list" where
  "ltl_atoms (LConst v) = []"
| "ltl_atoms (LAtom x) = [x]"
| "ltl_atoms (LNot a) = ltl_atoms a"
| "ltl_atoms (LAnd a b) = ltl_atoms a @ ltl_atoms b"
| "ltl_atoms (LOr a b) = ltl_atoms a @ ltl_atoms b"
| "ltl_atoms (LImplies a b) = ltl_atoms a @ ltl_atoms b"
| "ltl_atoms (LNext a) = ltl_atoms a"
| "ltl_atoms (LWeakNext a) = ltl_atoms a"
| "ltl_atoms (LGlobally a) = ltl_atoms a"
| "ltl_atoms (LEventually a) = ltl_atoms a"
| "ltl_atoms (LBoundedEventually n a) = ltl_atoms a"
| "ltl_atoms (LUntil a b) = ltl_atoms a @ ltl_atoms b"

lemma until_loop_err_total:
  "(\<And>j. j \<in> set js \<Longrightarrow> f j = Inr (f' j) \<and> g j = Inr (g' j)) \<Longrightarrow> until_loop_err f g js = Inr (until_loop f' g' js)"
  by (induction js) auto

lemma ltl_eval_err_total:
  "(\<And>a s. a \<in> set (ltl_atoms f) \<Longrightarrow> s \<in> set trace \<Longrightarrow> resolver a s = Inr (r a s)) \<Longrightarrow>
   ltl_eval_err f trace pos resolver = Inr (ltl_eval f trace pos r)"
proof (induction f arbitrary: pos)
  case (LGlobally f)
  then have "err_all (\<lambda>k. ltl_eval_err f trace k resolver) [pos..<length trace] = Inr (\<forall>k\<in>set [pos..<length trace]. ltl_eval f trace k r)"
    by (intro err_all_total) simp
  then show ?case by (simp add: list_all_iff)
next
  case (LEventually f)
  then have "err_ex (\<lambda>k. ltl_eval_err f trace k resolver) [pos..<length trace] = Inr (\<exists>k\<in>set [pos..<length trace]. ltl_eval f trace k r)"
    by (intro err_ex_total) simp
  then show ?case by (simp add: list_ex_iff)
next
  case (LBoundedEventually n f)
  let ?xs = "[pos..<min (pos + n + 1) (length trace)]"
  have "err_ex (\<lambda>k. ltl_eval_err f trace k resolver) ?xs = Inr (\<exists>k\<in>set ?xs. ltl_eval f trace k r)"
    using LBoundedEventually by (intro err_ex_total) simp
  then show ?case by (simp add: list_ex_iff)
next
  case (LUntil f g)
  then show ?case by (simp add: until_loop_err_total)
qed (auto simp: not_le)

section \<open>Temporal operators on the trace of a contract\<close>

text \<open>
  The enforcer evaluates over the single step of the event at hand. There a globally, an eventually and
  an until are their last argument, a strong next is false and a weak next true.
\<close>

primrec one_step :: "ltl \<Rightarrow> ltl" where
  "one_step (LConst v) = LConst v"
| "one_step (LAtom x) = LAtom x"
| "one_step (LNot a) = LNot (one_step a)"
| "one_step (LAnd a b) = LAnd (one_step a) (one_step b)"
| "one_step (LOr a b) = LOr (one_step a) (one_step b)"
| "one_step (LImplies a b) = LImplies (one_step a) (one_step b)"
| "one_step (LNext a) = LConst False"
| "one_step (LWeakNext a) = LConst True"
| "one_step (LGlobally a) = one_step a"
| "one_step (LEventually a) = one_step a"
| "one_step (LBoundedEventually n a) = one_step a"
| "one_step (LUntil a b) = one_step b"

lemma one_step_eval: "ltl_eval f [s] 0 r = ltl_eval (one_step f) [s] 0 r"
  by (induction f) auto

end
