(* ===== verification/Contracts.thy ===== *)
theory Contracts
  imports Contract_Atoms Py_Float "HOL-Library.AList"
begin

text \<open>
  Behavioral contracts (\<^verbatim>\<open>contracts/contract.py\<close>, \<^verbatim>\<open>contracts/violation.py\<close>) and their runtime enforcer
  (\<^verbatim>\<open>contracts/runtime_enforcement.py\<close>).

  The enforcer is a record; its methods are effects on it that may raise half way, because an atom may
  raise. It is the enforcer without ledger and recovery dispatcher, as the bridge to the decision point
  constructs it. Random violation ids, wall-clock times and telemetry are left out. \<^verbatim>\<open>dict\<close>s are association lists in
  insertion order.
\<close>

section \<open>Contracts\<close>

datatype violated_clause = Precondition | Postcondition | Hard_invariant | Soft_invariant | Hard_governance | Soft_governance

datatype contract_severity = Sev_block | Sev_sanction | Sev_warn

record behavioral_contract =
  bc_contract_id :: string
  bc_agent_id :: string
  bc_description :: string
  bc_precondition_ltl :: string
  bc_postcondition_ltl :: string
  bc_invariants_ltl :: "string list"
  bc_soft_invariants_ltl :: "string list"
  bc_hard_governance_ltl :: "string list"
  bc_soft_governance_ltl :: "string list"
  bc_covered_event_kinds :: "string list"
  bc_severity_on_violation :: contract_severity
  bc_recovery_window_k :: int
  bc_delta_tolerance :: pyfloat
  bc_satisfaction_p :: pyfloat

record parsed_formulas =
  pf_precondition :: "LTLFormula option"
  pf_postcondition :: "LTLFormula option"
  pf_hard_invariants :: "LTLFormula list"
  pf_soft_invariants :: "LTLFormula list"
  pf_hard_governance :: "LTLFormula list"
  pf_soft_governance :: "LTLFormula list"

definition contract_post_init :: "behavioral_contract \<Rightarrow> contract_error + behavioral_contract" where
  "contract_post_init c =
     (if \<not> (fl_le (Fin 0) (bc_delta_tolerance c) \<and> fl_le (bc_delta_tolerance c) (Fin 1)) then Inl CtValueError
      else if \<not> (fl_le (Fin 0) (bc_satisfaction_p c) \<and> fl_le (bc_satisfaction_p c) (Fin 1)) then Inl CtValueError
      else if bc_recovery_window_k c < 0 then Inl CtValueError
      else if bc_covered_event_kinds c = [] then Inl CtValueError
      else Inr c)"

definition contract_parse :: "string \<Rightarrow> contract_error + LTLFormula" where
  "contract_parse s = (case LTLFormula_parse s of
       Inl LTLParseError \<Rightarrow> Inl CtParseError | Inl LTLValueError \<Rightarrow> Inl CtValueError | Inr f \<Rightarrow> Inr f)"

definition parse_optional :: "bool \<Rightarrow> string \<Rightarrow> contract_error + LTLFormula option" where
  "parse_optional wanted s = (if wanted then sbind (contract_parse s) (\<lambda>f. Inr (Some f)) else Inr None)"

definition contract_formulas :: "behavioral_contract \<Rightarrow> contract_error + parsed_formulas" where
  "contract_formulas c =
     sbind (parse_optional (py_strip (bc_precondition_ltl c) \<noteq> []) (bc_precondition_ltl c)) (\<lambda>pre.
     sbind (parse_optional (py_strip (bc_postcondition_ltl c) \<noteq> [] \<and> py_strip (bc_postcondition_ltl c) \<noteq> ''true'')
              (bc_postcondition_ltl c)) (\<lambda>post.
     sbind (err_map contract_parse (bc_invariants_ltl c)) (\<lambda>hi.
     sbind (err_map contract_parse (bc_soft_invariants_ltl c)) (\<lambda>si.
     sbind (err_map contract_parse (bc_hard_governance_ltl c)) (\<lambda>hg.
     sbind (err_map contract_parse (bc_soft_governance_ltl c)) (\<lambda>sg.
     Inr \<lparr>pf_precondition = pre, pf_postcondition = post, pf_hard_invariants = hi, pf_soft_invariants = si,
          pf_hard_governance = hg, pf_soft_governance = sg\<rparr>))))))"

definition contract_make :: "behavioral_contract \<Rightarrow> contract_error + behavioral_contract" where
  "contract_make c = sbind (contract_post_init c) (\<lambda>c. sbind (contract_formulas c) (\<lambda>f. Inr c))"

definition applies_to :: "behavioral_contract \<Rightarrow> string \<Rightarrow> string \<Rightarrow> bool" where
  "applies_to c agent_id event_kind =
     (if bc_agent_id c \<noteq> ''*'' \<and> bc_agent_id c \<noteq> agent_id then False
      else if ''*'' \<in> set (bc_covered_event_kinds c) then True
      else event_kind \<in> set (bc_covered_event_kinds c))"

definition total_constraint_count :: "behavioral_contract \<Rightarrow> nat" where
  "total_constraint_count c = length (bc_invariants_ltl c) + length (bc_soft_invariants_ltl c)
     + length (bc_hard_governance_ltl c) + length (bc_soft_governance_ltl c)"

section \<open>The enforcer\<close>

record contract_violation =
  vi_contract_id :: string
  vi_agent_id :: string
  vi_violated_clause :: violated_clause
  vi_clause_ltl :: string
  vi_triggering_event_id :: string
  vi_step_index :: int
  vi_severity :: contract_severity
  vi_compliance_gap :: pyfloat
  vi_recovery_deadline_step :: "int option"
  vi_recovered_at_step :: "int option"

record soft_recovery_entry =
  re_triggering_event_id :: string
  re_started_at_step :: int
  re_deadline_step :: int
  re_clause_ltl :: string
  re_violated_clause :: violated_clause
  re_contract_id :: string
  re_agent_id :: string

type_synonym soft_key = "string \<times> string \<times> violated_clause \<times> nat"

record enforcer =
  en_contracts :: "behavioral_contract list"
  en_parsed :: "(string \<times> parsed_formulas) list"
  en_step_index :: int
  en_soft_pending :: "(soft_key \<times> soft_recovery_entry) list"
  en_violations :: "contract_violation list"
  en_c_hard_history :: "pyfloat list"
  en_c_soft_history :: "pyfloat list"

type_synonym 'a enf = "(enforcer, contract_error, 'a) eff"

definition ContractEnforcer_init :: "behavioral_contract list \<Rightarrow> contract_error + enforcer" where
  "ContractEnforcer_init cs =
     (if cs = [] then Inl CtValueError
      else if \<not> distinct (map bc_contract_id cs) then Inl CtValueError
      else sbind (err_map (\<lambda>c. sbind (contract_formulas c) (\<lambda>f. Inr (bc_contract_id c, f))) cs) (\<lambda>parsed.
        Inr \<lparr>en_contracts = cs, en_parsed = parsed, en_step_index = 0, en_soft_pending = [], en_violations = [],
             en_c_hard_history = [], en_c_soft_history = []\<rparr>))"

definition event_id_or_synth :: "proposed_event \<Rightarrow> string" where
  "event_id_or_synth ev = ''proposed:'' @ pe_actor_entity_id ev @ '':'' @ pe_event_kind ev @ '':'' @ dt_iso (pe_proposed_at ev)"

definition new_violation ::
    "behavioral_contract \<Rightarrow> string \<Rightarrow> violated_clause \<Rightarrow> bool \<Rightarrow> proposed_event \<Rightarrow> int \<Rightarrow> int option
     \<Rightarrow> contract_severity option \<Rightarrow> string option \<Rightarrow> contract_violation" where
  "new_violation c ltl clause is_soft ev step deadline severity_override trigger_override =
     \<lparr>vi_contract_id = bc_contract_id c, vi_agent_id = bc_agent_id c, vi_violated_clause = clause, vi_clause_ltl = ltl,
      vi_triggering_event_id = (case trigger_override of Some t \<Rightarrow> if t = [] then event_id_or_synth ev else t
                                | None \<Rightarrow> event_id_or_synth ev),
      vi_step_index = step,
      vi_severity = (case severity_override of Some s \<Rightarrow> s
                     | None \<Rightarrow> if \<not> is_soft then bc_severity_on_violation c else Sev_warn),
      vi_compliance_gap = int_ratio 1 (max 1 (total_constraint_count c)),
      vi_recovery_deadline_step = deadline, vi_recovered_at_step = None\<rparr>"

definition record_violation ::
    "behavioral_contract \<Rightarrow> string \<Rightarrow> violated_clause \<Rightarrow> bool \<Rightarrow> proposed_event \<Rightarrow> int \<Rightarrow> int option
     \<Rightarrow> contract_severity option \<Rightarrow> string option \<Rightarrow> unit enf" where
  "record_violation c ltl clause is_soft ev step deadline severity_override trigger_override =
     eff_modify (\<lambda>en. en\<lparr>en_violations := en_violations en @
       [new_violation c ltl clause is_soft ev step deadline severity_override trigger_override]\<rparr>)"

definition new_entry :: "soft_key \<Rightarrow> behavioral_contract \<Rightarrow> string \<Rightarrow> violated_clause \<Rightarrow> proposed_event \<Rightarrow> int \<Rightarrow> soft_recovery_entry" where
  "new_entry key c ltl clause ev step =
     \<lparr>re_triggering_event_id = event_id_or_synth ev, re_started_at_step = step, re_deadline_step = step + bc_recovery_window_k c,
      re_clause_ltl = ltl, re_violated_clause = clause, re_contract_id = fst (snd key), re_agent_id = fst key\<rparr>"

definition handle_soft_violation ::
    "soft_key \<Rightarrow> behavioral_contract \<Rightarrow> string \<Rightarrow> violated_clause \<Rightarrow> proposed_event \<Rightarrow> int \<Rightarrow> unit enf" where
  "handle_soft_violation key c ltl clause ev step = eff_bind (eff_get en_soft_pending) (\<lambda>pending.
     if map_of pending key \<noteq> None then eff_return ()
     else let deadline = step + bc_recovery_window_k c;
              entry = new_entry key c ltl clause ev step
          in eff_bind (eff_modify (\<lambda>en. en\<lparr>en_soft_pending := AList.update key entry (en_soft_pending en)\<rparr>))
               (\<lambda>_. record_violation c ltl clause True ev step (Some deadline) None None))"

text \<open>The last element with a property is replaced.\<close>

fun update_first :: "('a \<Rightarrow> bool) \<Rightarrow> ('a \<Rightarrow> 'a) \<Rightarrow> 'a list \<Rightarrow> 'a list" where
  "update_first P f [] = []"
| "update_first P f (x # xs) = (if P x then f x # xs else x # update_first P f xs)"

definition update_last :: "('a \<Rightarrow> bool) \<Rightarrow> ('a \<Rightarrow> 'a) \<Rightarrow> 'a list \<Rightarrow> 'a list" where
  "update_last P f xs = rev (update_first P f (rev xs))"

definition open_violation :: "soft_recovery_entry \<Rightarrow> contract_violation \<Rightarrow> bool" where
  "open_violation e v \<longleftrightarrow> vi_contract_id v = re_contract_id e \<and> vi_agent_id v = re_agent_id e
     \<and> vi_violated_clause v = re_violated_clause e \<and> vi_recovered_at_step v = None \<and> vi_recovery_deadline_step v \<noteq> None"

definition discharge_recovery :: "soft_key \<Rightarrow> int \<Rightarrow> unit enf" where
  "discharge_recovery key step = eff_bind (eff_get (\<lambda>en. map_of (en_soft_pending en) key)) (\<lambda>found.
     case found of None \<Rightarrow> eff_return ()
     | Some e \<Rightarrow> if re_deadline_step e < step then eff_return ()
         else eff_modify (\<lambda>en. en\<lparr>en_soft_pending := AList.delete key (en_soft_pending en),
                en_violations := update_last (open_violation e) (\<lambda>v. v\<lparr>vi_recovered_at_step := Some step\<rparr>) (en_violations en)\<rparr>))"

definition find_contract :: "string \<Rightarrow> behavioral_contract list \<Rightarrow> behavioral_contract option" where
  "find_contract i cs = find (\<lambda>c. bc_contract_id c = i) cs"

fun sweep_loop :: "soft_key list \<Rightarrow> proposed_event \<Rightarrow> int \<Rightarrow> unit enf" where
  "sweep_loop [] ev step = eff_return ()"
| "sweep_loop (key # keys) ev step = eff_bind (eff_get id) (\<lambda>en.
     case map_of (en_soft_pending en) key of None \<Rightarrow> eff_raise CtValueError
     | Some e \<Rightarrow>
         eff_bind (eff_modify (\<lambda>en. en\<lparr>en_soft_pending := AList.delete key (en_soft_pending en)\<rparr>)) (\<lambda>_.
         eff_bind (case find_contract (re_contract_id e) (en_contracts en) of None \<Rightarrow> eff_return ()
                   | Some c \<Rightarrow> record_violation c (re_clause_ltl e) (re_violated_clause e) False ev step
                       (Some (re_deadline_step e)) (Some Sev_block) (Some (re_triggering_event_id e))) (\<lambda>_.
         sweep_loop keys ev step)))"

definition sweep_expired_recoveries :: "proposed_event \<Rightarrow> int \<Rightarrow> unit enf" where
  "sweep_expired_recoveries ev step =
     eff_bind (eff_get (\<lambda>en. map fst (filter (\<lambda>(k, e). re_deadline_step e < step) (en_soft_pending en))))
       (\<lambda>expired. sweep_loop expired ev step)"

section \<open>One check\<close>

datatype phase = Pre | Post

record check_acc =
  ca_hard_total :: nat
  ca_hard_satisfied :: nat
  ca_soft_total :: nat
  ca_soft_satisfied :: nat
  ca_any_hard_violated :: bool
  ca_had_violation :: bool
  ca_violated_ids :: "string list"

definition formula_holds :: "re_search \<Rightarrow> contract_context \<Rightarrow> LTLFormula \<Rightarrow> contract_error + bool" where
  "formula_holds re cx f = ltl_eval_err (ast f) (trace_for cx) 0 (make_resolver re cx)"

definition check_boundary ::
    "re_search \<Rightarrow> contract_context \<Rightarrow> behavioral_contract \<Rightarrow> violated_clause \<Rightarrow> string \<Rightarrow> LTLFormula option \<Rightarrow> int \<Rightarrow> check_acc
     \<Rightarrow> check_acc enf" where
  "check_boundary re cx c clause ltl fo step a = (case fo of None \<Rightarrow> eff_return a
     | Some f \<Rightarrow> eff_bind (eff_lift (formula_holds re cx f)) (\<lambda>b.
         if b then eff_return a
         else eff_bind (record_violation c ltl clause False (cx_proposed_event cx) step None None None)
           (\<lambda>_. eff_return (a\<lparr>ca_any_hard_violated := True, ca_had_violation := True\<rparr>))))"

fun check_hard ::
    "re_search \<Rightarrow> contract_context \<Rightarrow> behavioral_contract \<Rightarrow> violated_clause \<Rightarrow> int \<Rightarrow> (string \<times> LTLFormula) list \<Rightarrow> check_acc
     \<Rightarrow> check_acc enf" where
  "check_hard re cx c clause step [] a = eff_return a"
| "check_hard re cx c clause step ((ltl, f) # fs) a =
     eff_bind (eff_lift (formula_holds re cx f)) (\<lambda>b.
       let a = a\<lparr>ca_hard_total := Suc (ca_hard_total a)\<rparr> in
       if b then check_hard re cx c clause step fs (a\<lparr>ca_hard_satisfied := Suc (ca_hard_satisfied a)\<rparr>)
       else eff_bind (record_violation c ltl clause False (cx_proposed_event cx) step None None None)
         (\<lambda>_. check_hard re cx c clause step fs (a\<lparr>ca_any_hard_violated := True, ca_had_violation := True\<rparr>)))"

fun check_soft ::
    "re_search \<Rightarrow> contract_context \<Rightarrow> string \<Rightarrow> behavioral_contract \<Rightarrow> violated_clause \<Rightarrow> int \<Rightarrow> nat \<Rightarrow> (string \<times> LTLFormula) list
     \<Rightarrow> check_acc \<Rightarrow> check_acc enf" where
  "check_soft re cx agent c clause step idx [] a = eff_return a"
| "check_soft re cx agent c clause step idx ((ltl, f) # fs) a =
     eff_bind (eff_lift (formula_holds re cx f)) (\<lambda>b.
       let key = (agent, bc_contract_id c, clause, idx); a = a\<lparr>ca_soft_total := Suc (ca_soft_total a)\<rparr> in
       if b then eff_bind (discharge_recovery key step)
         (\<lambda>_. check_soft re cx agent c clause step (Suc idx) fs (a\<lparr>ca_soft_satisfied := Suc (ca_soft_satisfied a)\<rparr>))
       else eff_bind (handle_soft_violation key c ltl clause (cx_proposed_event cx) step)
         (\<lambda>_. check_soft re cx agent c clause step (Suc idx) fs (a\<lparr>ca_had_violation := True\<rparr>)))"

definition check_contract ::
    "re_search \<Rightarrow> contract_context \<Rightarrow> string \<Rightarrow> phase \<Rightarrow> int \<Rightarrow> behavioral_contract \<Rightarrow> parsed_formulas \<Rightarrow> check_acc \<Rightarrow> check_acc enf" where
  "check_contract re cx agent ph step c p a =
     eff_bind (if ph = Pre then check_boundary re cx c Precondition (bc_precondition_ltl c) (pf_precondition p) step (a\<lparr>ca_had_violation := False\<rparr>)
               else check_boundary re cx c Postcondition (bc_postcondition_ltl c) (pf_postcondition p) step (a\<lparr>ca_had_violation := False\<rparr>)) (\<lambda>a.
     eff_bind (check_hard re cx c Hard_invariant step (zip (bc_invariants_ltl c) (pf_hard_invariants p)) a) (\<lambda>a.
     eff_bind (check_hard re cx c Hard_governance step (zip (bc_hard_governance_ltl c) (pf_hard_governance p)) a) (\<lambda>a.
     eff_bind (check_soft re cx agent c Soft_invariant step 0 (zip (bc_soft_invariants_ltl c) (pf_soft_invariants p)) a) (\<lambda>a.
     eff_bind (check_soft re cx agent c Soft_governance step 0 (zip (bc_soft_governance_ltl c) (pf_soft_governance p)) a) (\<lambda>a.
     eff_return (if ca_had_violation a then a\<lparr>ca_violated_ids := ca_violated_ids a @ [bc_contract_id c]\<rparr> else a))))))"

fun check_contracts ::
    "re_search \<Rightarrow> contract_context \<Rightarrow> string \<Rightarrow> phase \<Rightarrow> int \<Rightarrow> behavioral_contract list \<Rightarrow> check_acc \<Rightarrow> check_acc enf" where
  "check_contracts re cx agent ph step [] a = eff_return a"
| "check_contracts re cx agent ph step (c # cs) a = eff_bind (eff_get (\<lambda>en. map_of (en_parsed en) (bc_contract_id c))) (\<lambda>po.
     case po of None \<Rightarrow> eff_raise CtValueError
     | Some p \<Rightarrow> eff_bind (check_contract re cx agent ph step c p a) (\<lambda>a. check_contracts re cx agent ph step cs a))"

definition acc_init :: check_acc where
  "acc_init = \<lparr>ca_hard_total = 0, ca_hard_satisfied = 0, ca_soft_total = 0, ca_soft_satisfied = 0,
     ca_any_hard_violated = False, ca_had_violation = False, ca_violated_ids = []\<rparr>"

definition compliance :: "nat \<Rightarrow> nat \<Rightarrow> pyfloat" where
  "compliance sat n = (if n = 0 then Fin 1 else int_ratio sat n)"

definition enforcer_check ::
    "re_search \<Rightarrow> string \<Rightarrow> proposed_event \<Rightarrow> ecosystem_state \<Rightarrow> proposed_event list \<Rightarrow> phase \<Rightarrow> (bool \<times> string list) enf" where
  "enforcer_check re agent ev st window ph =
     eff_bind (eff_modify (\<lambda>en. en\<lparr>en_step_index := en_step_index en + 1\<rparr>)) (\<lambda>_.
     eff_bind (eff_get id) (\<lambda>en.
     let step = en_step_index en;
         cx = \<lparr>cx_proposed_event = ev, cx_state = st, cx_event_window = window\<rparr>;
         active = filter (\<lambda>c. applies_to c agent (pe_event_kind ev)) (en_contracts en)
     in eff_bind (check_contracts re cx agent ph step active acc_init) (\<lambda>a.
        eff_bind (eff_modify (\<lambda>en. en\<lparr>
            en_c_hard_history := en_c_hard_history en @ [compliance (ca_hard_satisfied a) (ca_hard_total a)],
            en_c_soft_history := en_c_soft_history en @ [compliance (ca_soft_satisfied a) (ca_soft_total a)]\<rparr>)) (\<lambda>_.
        eff_bind (sweep_expired_recoveries ev step) (\<lambda>_.
        eff_return (\<not> ca_any_hard_violated a, ca_violated_ids a))))))"

definition check_pre ::
    "re_search \<Rightarrow> string \<Rightarrow> proposed_event \<Rightarrow> ecosystem_state \<Rightarrow> proposed_event list \<Rightarrow> (bool \<times> string list) enf" where
  "check_pre re agent ev st window = enforcer_check re agent ev st window Pre"

definition check_post ::
    "re_search \<Rightarrow> string \<Rightarrow> proposed_event \<Rightarrow> ecosystem_state \<Rightarrow> proposed_event list \<Rightarrow> (bool \<times> string list) enf" where
  "check_post re agent ev st window = enforcer_check re agent ev st window Post"

section \<open>Compliance scores\<close>

fun count_holding :: "re_search \<Rightarrow> contract_context \<Rightarrow> LTLFormula list \<Rightarrow> nat \<times> nat \<Rightarrow> contract_error + nat \<times> nat" where
  "count_holding re cx [] (n, sat) = Inr (n, sat)"
| "count_holding re cx (f # fs) (n, sat) =
     sbind (formula_holds re cx f) (\<lambda>b. count_holding re cx fs (n + 1, if b then sat + 1 else sat))"

fun count_contracts :: "re_search \<Rightarrow> contract_context \<Rightarrow> (string \<times> parsed_formulas) list \<Rightarrow> behavioral_contract list \<Rightarrow> (nat \<times> nat) \<times> (nat \<times> nat)
    \<Rightarrow> contract_error + (nat \<times> nat) \<times> (nat \<times> nat)" where
  "count_contracts re cx parsed [] (h, s) = Inr (h, s)"
| "count_contracts re cx parsed (c # cs) (h, s) = (case map_of parsed (bc_contract_id c) of None \<Rightarrow> Inl CtValueError
     | Some p \<Rightarrow> sbind (count_holding re cx (pf_hard_invariants p) h) (\<lambda>h.
                 sbind (count_holding re cx (pf_hard_governance p) h) (\<lambda>h.
                 sbind (count_holding re cx (pf_soft_invariants p) s) (\<lambda>s.
                 sbind (count_holding re cx (pf_soft_governance p) s) (\<lambda>s.
                 count_contracts re cx parsed cs (h, s))))))"

record ComplianceScores =
  cs_c_hard :: pyfloat
  cs_c_soft :: pyfloat
  cs_contracts_evaluated :: nat
  cs_constraints_evaluated :: nat

definition compliance_scores ::
    "re_search \<Rightarrow> string \<Rightarrow> proposed_event \<Rightarrow> ecosystem_state \<Rightarrow> proposed_event list \<Rightarrow> enforcer \<Rightarrow> contract_error + ComplianceScores" where
  "compliance_scores re agent ev st window en =
     (let cx = \<lparr>cx_proposed_event = ev, cx_state = st, cx_event_window = window\<rparr>;
          active = filter (\<lambda>c. applies_to c agent (pe_event_kind ev)) (en_contracts en)
      in sbind (count_contracts re cx (en_parsed en) active ((0, 0), (0, 0))) (\<lambda>((hn, hs), (sn, ss)).
         Inr \<lparr>cs_c_hard = compliance hs hn, cs_c_soft = compliance ss sn, cs_contracts_evaluated = length active,
              cs_constraints_evaluated = hn + sn\<rparr>))"

end
