(* ===== verification/Contract_Laws.thy ===== *)
theory Contract_Laws
  imports Contracts
begin

text \<open>
  What a check of the enforcer does: which violations it records and what becomes of the obligations to
  recover from soft violations.
\<close>

section \<open>Single operations\<close>

definition vi_core :: "contract_violation \<Rightarrow> contract_violation" where
  "vi_core v = v\<lparr>vi_recovered_at_step := None\<rparr>"

definition same_base :: "enforcer \<Rightarrow> enforcer \<Rightarrow> bool" where
  "same_base en en' \<longleftrightarrow> en_contracts en' = en_contracts en \<and> en_parsed en' = en_parsed en \<and> en_step_index en' = en_step_index en
     \<and> en_c_hard_history en' = en_c_hard_history en \<and> en_c_soft_history en' = en_c_soft_history en"

abbreviation cores :: "enforcer \<Rightarrow> contract_violation list" where
  "cores en \<equiv> map vi_core (en_violations en)"

abbreviation pend :: "enforcer \<Rightarrow> soft_key \<Rightarrow> soft_recovery_entry option" where
  "pend en \<equiv> map_of (en_soft_pending en)"

lemma same_base_refl [simp]: "same_base en en"
  by (simp add: same_base_def)

lemma same_base_trans [trans]: "same_base a b \<Longrightarrow> same_base b c \<Longrightarrow> same_base a c"
  by (simp add: same_base_def)

lemma vi_core_new [simp]: "vi_core (new_violation c l cl so ev st d so2 tr) = new_violation c l cl so ev st d so2 tr"
  by (simp add: vi_core_def new_violation_def)

lemma update_first_core: "(\<And>x. h (f x) = h x) \<Longrightarrow> map h (update_first P f xs) = map h xs"
  by (induction xs) auto

lemma update_last_core: "(\<And>x. h (f x) = h x) \<Longrightarrow> map h (update_last P f xs) = map h xs"
  using update_first_core[of h f P "rev xs"] by (simp add: update_last_def rev_map[symmetric] flip: rev_map)

definition soft_update :: "bool \<Rightarrow> soft_recovery_entry \<Rightarrow> int \<Rightarrow> soft_recovery_entry option \<Rightarrow> soft_recovery_entry option" where
  "soft_update b fresh step found = (if b
     then (case found of Some e \<Rightarrow> if re_deadline_step e < step then Some e else None | None \<Rightarrow> None)
     else (case found of None \<Rightarrow> Some fresh | Some e \<Rightarrow> Some e))"

lemma record_violation_run:
  "record_violation c l cl so ev st d so2 tr en = (Inr (), en\<lparr>en_violations := en_violations en @ [new_violation c l cl so ev st d so2 tr]\<rparr>)"
  by (simp add: record_violation_def eff_rules)

lemma handle_soft_run:
  assumes "handle_soft_violation key c ltl cl ev step en = (r, en')" and "distinct (map fst (en_soft_pending en))"
  shows "r = Inr ()" "same_base en en'" "distinct (map fst (en_soft_pending en'))"
    "cores en' = cores en @ (if pend en key = None then [new_violation c ltl cl True ev step (Some (step + bc_recovery_window_k c)) None None] else [])"
    "pend en' = (pend en)(key := soft_update False (new_entry key c ltl cl ev step) step (pend en key))"
  using assms
  by (auto simp: handle_soft_violation_def eff_bind_def eff_rules Let_def record_violation_run same_base_def update_conv'
      soft_update_def distinct_update fun_upd_idem split: if_splits option.splits)

lemma discharge_run:
  assumes "discharge_recovery key step en = (r, en')" and "distinct (map fst (en_soft_pending en))"
  shows "r = Inr ()" "same_base en en'" "distinct (map fst (en_soft_pending en'))" "cores en' = cores en"
    "pend en' = (pend en)(key := soft_update True fresh step (pend en key))"
  using assms
  by (auto simp: discharge_recovery_def eff_bind_def eff_rules same_base_def delete_conv' distinct_delete soft_update_def vi_core_def
      fun_upd_idem update_last_core simp del: map_of_eq_Some_iff split: if_splits option.splits)

section \<open>The clauses of a contract\<close>

definition hard_clauses :: "phase \<Rightarrow> behavioral_contract \<Rightarrow> parsed_formulas \<Rightarrow> (violated_clause \<times> string \<times> LTLFormula) list" where
  "hard_clauses ph c p =
     (if ph = Pre then (case pf_precondition p of None \<Rightarrow> [] | Some f \<Rightarrow> [(Precondition, bc_precondition_ltl c, f)])
      else (case pf_postcondition p of None \<Rightarrow> [] | Some f \<Rightarrow> [(Postcondition, bc_postcondition_ltl c, f)]))
     @ map (\<lambda>(l, f). (Hard_invariant, l, f)) (zip (bc_invariants_ltl c) (pf_hard_invariants p))
     @ map (\<lambda>(l, f). (Hard_governance, l, f)) (zip (bc_hard_governance_ltl c) (pf_hard_governance p))"

definition numbered :: "violated_clause \<Rightarrow> nat \<Rightarrow> (string \<times> LTLFormula) list \<Rightarrow> (violated_clause \<times> nat \<times> string \<times> LTLFormula) list" where
  "numbered cl i fs = map (\<lambda>(j, l, f). (cl, j, l, f)) (enumerate i fs)"

definition soft_clauses :: "behavioral_contract \<Rightarrow> parsed_formulas \<Rightarrow> (violated_clause \<times> nat \<times> string \<times> LTLFormula) list" where
  "soft_clauses c p = numbered Soft_invariant 0 (zip (bc_soft_invariants_ltl c) (pf_soft_invariants p))
     @ numbered Soft_governance 0 (zip (bc_soft_governance_ltl c) (pf_soft_governance p))"

abbreviation fails :: "re_search \<Rightarrow> contract_context \<Rightarrow> LTLFormula \<Rightarrow> bool" where
  "fails re cx f \<equiv> formula_holds re cx f = Inr False"

abbreviation holds :: "re_search \<Rightarrow> contract_context \<Rightarrow> LTLFormula \<Rightarrow> bool" where
  "holds re cx f \<equiv> formula_holds re cx f = Inr True"

definition hard_new :: "re_search \<Rightarrow> contract_context \<Rightarrow> int \<Rightarrow> behavioral_contract \<Rightarrow> (violated_clause \<times> string \<times> LTLFormula) list
    \<Rightarrow> contract_violation list" where
  "hard_new re cx step c fs = map (\<lambda>(cl, l, f). new_violation c l cl False (cx_proposed_event cx) step None None None)
     (filter (\<lambda>(cl, l, f). fails re cx f) fs)"

definition soft_new :: "re_search \<Rightarrow> contract_context \<Rightarrow> string \<Rightarrow> int \<Rightarrow> (soft_key \<Rightarrow> soft_recovery_entry option) \<Rightarrow> behavioral_contract
    \<Rightarrow> (violated_clause \<times> nat \<times> string \<times> LTLFormula) list \<Rightarrow> contract_violation list" where
  "soft_new re cx agent step m c fs =
     map (\<lambda>(cl, j, l, f). new_violation c l cl True (cx_proposed_event cx) step (Some (step + bc_recovery_window_k c)) None None)
       (filter (\<lambda>(cl, j, l, f). fails re cx f \<and> m (agent, bc_contract_id c, cl, j) = None) fs)"

lemma numbered_simps [simp]:
  "numbered cl i [] = []"
  "numbered cl i ((l, f) # fs) = (cl, i, l, f) # numbered cl (Suc i) fs"
  by (simp_all add: numbered_def)

lemma numbered_range: "(cl', j, l, f) \<in> set (numbered cl i fs) \<Longrightarrow> cl' = cl \<and> i \<le> j"
  by (induction fs arbitrary: i) force+

lemma soft_new_cong:
  "(\<And>cl j l f. (cl, j, l, f) \<in> set fs \<Longrightarrow> m (agent, bc_contract_id c, cl, j) = m' (agent, bc_contract_id c, cl, j)) \<Longrightarrow>
   soft_new re cx agent step m c fs = soft_new re cx agent step m' c fs"
  unfolding soft_new_def by (intro arg_cong[where f = "map _"] filter_cong refl) auto

lemma soft_new_append [simp]: "soft_new re cx agent step m c (fs @ gs) = soft_new re cx agent step m c fs @ soft_new re cx agent step m c gs"
  by (simp add: soft_new_def)

lemma hard_new_append [simp]: "hard_new re cx step c (fs @ gs) = hard_new re cx step c fs @ hard_new re cx step c gs"
  by (simp add: hard_new_def)

section \<open>The loops of a check\<close>

text \<open>The four loops of the code over the clauses of a contract are two: one over hard and one over soft clauses.\<close>

definition boundary :: "violated_clause \<Rightarrow> bool" where
  "boundary cl \<longleftrightarrow> cl = Precondition \<or> cl = Postcondition"

definition count_hard :: "violated_clause \<Rightarrow> bool \<Rightarrow> check_acc \<Rightarrow> check_acc" where
  "count_hard cl b a = (let a = (if boundary cl then a else a\<lparr>ca_hard_total := Suc (ca_hard_total a)\<rparr>) in
     if b then (if boundary cl then a else a\<lparr>ca_hard_satisfied := Suc (ca_hard_satisfied a)\<rparr>)
     else a\<lparr>ca_any_hard_violated := True, ca_had_violation := True\<rparr>)"

definition count_soft :: "bool \<Rightarrow> check_acc \<Rightarrow> check_acc" where
  "count_soft b a = (let a = a\<lparr>ca_soft_total := Suc (ca_soft_total a)\<rparr> in
     if b then a\<lparr>ca_soft_satisfied := Suc (ca_soft_satisfied a)\<rparr> else a\<lparr>ca_had_violation := True\<rparr>)"

fun hard_loop :: "re_search \<Rightarrow> contract_context \<Rightarrow> behavioral_contract \<Rightarrow> int \<Rightarrow> (violated_clause \<times> string \<times> LTLFormula) list \<Rightarrow> check_acc
    \<Rightarrow> check_acc enf" where
  "hard_loop re cx c step [] a = eff_return a"
| "hard_loop re cx c step ((cl, l, f) # fs) a = eff_bind (eff_lift (formula_holds re cx f)) (\<lambda>b.
     eff_bind (if b then eff_return () else record_violation c l cl False (cx_proposed_event cx) step None None None)
       (\<lambda>_. hard_loop re cx c step fs (count_hard cl b a)))"

fun soft_loop :: "re_search \<Rightarrow> contract_context \<Rightarrow> string \<Rightarrow> behavioral_contract \<Rightarrow> int \<Rightarrow> (violated_clause \<times> nat \<times> string \<times> LTLFormula) list
    \<Rightarrow> check_acc \<Rightarrow> check_acc enf" where
  "soft_loop re cx agent c step [] a = eff_return a"
| "soft_loop re cx agent c step ((cl, j, l, f) # fs) a = eff_bind (eff_lift (formula_holds re cx f)) (\<lambda>b.
     eff_bind (if b then discharge_recovery (agent, bc_contract_id c, cl, j) step
               else handle_soft_violation (agent, bc_contract_id c, cl, j) c l cl (cx_proposed_event cx) step)
       (\<lambda>_. soft_loop re cx agent c step fs (count_soft b a)))"

lemma eff_bind_assoc: "eff_bind (eff_bind m k) k' = eff_bind m (\<lambda>a. eff_bind (k a) k')"
  by (auto simp: eff_bind_def fun_eq_iff split: prod.splits sum.splits)

lemma eff_bind_same: "(\<And>a. k a = k' a) \<Longrightarrow> eff_bind m k = eff_bind m k'"
  by (metis ext)

lemma hard_loop_append: "hard_loop re cx c step (fs @ gs) a = eff_bind (hard_loop re cx c step fs a) (hard_loop re cx c step gs)"
  by (induction fs arbitrary: a) (auto simp: eff_bind_assoc)

lemma soft_loop_append:
  "soft_loop re cx agent c step (fs @ gs) a = eff_bind (soft_loop re cx agent c step fs a) (soft_loop re cx agent c step gs)"
  by (induction fs arbitrary: a) (auto simp: eff_bind_assoc)

lemma check_hard_loop:
  "\<not> boundary cl \<Longrightarrow> check_hard re cx c cl step fs a = hard_loop re cx c step (map (\<lambda>(l, f). (cl, l, f)) fs) a"
  by (induction fs arbitrary: a) (auto simp: Let_def count_hard_def intro!: eff_bind_same)

lemma check_soft_loop:
  "check_soft re cx agent c cl step i fs a = soft_loop re cx agent c step (numbered cl i fs) a"
  by (induction fs arbitrary: a i) (auto simp: Let_def count_soft_def intro!: eff_bind_same)

lemma check_boundary_loop:
  "boundary cl \<Longrightarrow> check_boundary re cx c cl l fo step a = hard_loop re cx c step (case fo of None \<Rightarrow> [] | Some f \<Rightarrow> [(cl, l, f)]) a"
  by (auto simp: check_boundary_def count_hard_def intro!: eff_bind_same split: option.splits)

lemma check_contract_loops:
  "check_contract re cx agent ph step c p a =
     eff_bind (hard_loop re cx c step (hard_clauses ph c p) (a\<lparr>ca_had_violation := False\<rparr>)) (\<lambda>a.
     eff_bind (soft_loop re cx agent c step (soft_clauses c p) a) (\<lambda>a.
     eff_return (if ca_had_violation a then a\<lparr>ca_violated_ids := ca_violated_ids a @ [bc_contract_id c]\<rparr> else a)))"
  by (cases ph) (simp_all add: check_contract_def check_hard_loop check_soft_loop check_boundary_loop boundary_def hard_clauses_def soft_clauses_def
      hard_loop_append soft_loop_append eff_bind_assoc)

lemma hard_loop_run:
  assumes "hard_loop re cx c step fs a en = (Inr a', en')"
  shows "same_base en en' \<and> en_soft_pending en' = en_soft_pending en \<and> cores en' = cores en @ hard_new re cx step c fs
    \<and> (\<forall>(cl, l, f)\<in>set fs. formula_holds re cx f \<in> {Inr True, Inr False})
    \<and> a' = foldl (\<lambda>a (cl, l, f). count_hard cl (holds re cx f) a) a fs"
  using assms
proof (induction fs arbitrary: a en)
  case Nil
  then show ?case by (simp add: eff_rules hard_new_def)
next
  case (Cons x fs)
  obtain cl l f where x: "x = (cl, l, f)" by (cases x)
  obtain b where b: "formula_holds re cx f = Inr b" using Cons.prems by (auto simp: x eff_rules)
  define en1 where "en1 = (if b then en else en\<lparr>en_violations := en_violations en @ [new_violation c l cl False (cx_proposed_event cx) step None None None]\<rparr>)"
  have "hard_loop re cx c step fs (count_hard cl b a) en1 = (Inr a', en')"
    using Cons.prems by (cases b) (simp_all add: x b eff_rules record_violation_run en1_def)
  from Cons.IH[OF this] show ?case by (cases b) (simp_all add: x b hard_new_def same_base_def en1_def)
qed

lemma soft_loop_run:
  assumes "soft_loop re cx agent c step fs a en = (Inr a', en')" and "distinct (map fst (en_soft_pending en))"
    and "distinct (map (\<lambda>(cl, j, l, f). (cl, j)) fs)"
  shows "same_base en en' \<and> distinct (map fst (en_soft_pending en'))
    \<and> cores en' = cores en @ soft_new re cx agent step (pend en) c fs
    \<and> (\<forall>(cl, j, l, f)\<in>set fs. formula_holds re cx f \<in> {Inr True, Inr False})
    \<and> (\<forall>(cl, j, l, f)\<in>set fs. pend en' (agent, bc_contract_id c, cl, j) =
         soft_update (holds re cx f) (new_entry (agent, bc_contract_id c, cl, j) c l cl (cx_proposed_event cx) step) step
           (pend en (agent, bc_contract_id c, cl, j)))
    \<and> (\<forall>key. key \<notin> (\<lambda>(cl, j, l, f). (agent, bc_contract_id c, cl, j)) ` set fs \<longrightarrow> pend en' key = pend en key)
    \<and> a' = foldl (\<lambda>a (cl, j, l, f). count_soft (holds re cx f) a) a fs"
  using assms
proof (induction fs arbitrary: a en)
  case Nil
  then show ?case by (simp add: eff_rules soft_new_def)
next
  case (Cons x fs)
  obtain cl j l f where x: "x = (cl, j, l, f)" by (cases x)
  let ?k = "\<lambda>cl j. (agent, bc_contract_id c, cl, j)"
  let ?ks = "(\<lambda>(cl, j, l, f). (agent, bc_contract_id c, cl, j)) ` set fs"
  obtain b where b: "formula_holds re cx f = Inr b" using Cons.prems by (auto simp: x eff_rules)
  obtain en1 where h: "(if b then discharge_recovery (?k cl j) step en
       else handle_soft_violation (?k cl j) c l cl (cx_proposed_event cx) step en) = (Inr (), en1)"
    and rest: "soft_loop re cx agent c step fs (count_soft b a) en1 = (Inr a', en')"
    using Cons.prems(1) by (cases b) (auto simp: x b eff_rules)
  have one: "same_base en en1" "distinct (map fst (en_soft_pending en1))"
    "cores en1 = cores en @ (if \<not> b \<and> pend en (?k cl j) = None
       then [new_violation c l cl True (cx_proposed_event cx) step (Some (step + bc_recovery_window_k c)) None None] else [])"
    "pend en1 = (pend en)(?k cl j := soft_update b (new_entry (?k cl j) c l cl (cx_proposed_event cx) step) step (pend en (?k cl j)))"
    using h handle_soft_run[OF _ Cons.prems(2), of "?k cl j" c l cl "cx_proposed_event cx" step "Inr ()" en1]
      discharge_run(2-4)[OF _ Cons.prems(2), of "?k cl j" step "Inr ()" en1]
      discharge_run(5)[OF _ Cons.prems(2), of "?k cl j" step "Inr ()" en1 "new_entry (?k cl j) c l cl (cx_proposed_event cx) step"]
    by (cases b; simp)+
  have df: "distinct (map (\<lambda>(cl, j, l, f). (cl, j)) fs)" using Cons.prems(3) by (simp only: list.map distinct.simps)
  have nk: "?k cl j \<notin> ?ks" using Cons.prems(3) by (force simp: x)
  note I = Cons.IH[OF rest one(2) df]
  note ih = I[THEN conjunct1] I[THEN conjunct2, THEN conjunct1] I[THEN conjunct2, THEN conjunct2, THEN conjunct1]
    I[THEN conjunct2, THEN conjunct2, THEN conjunct2, THEN conjunct1] I[THEN conjunct2, THEN conjunct2, THEN conjunct2, THEN conjunct2, THEN conjunct1]
    I[THEN conjunct2, THEN conjunct2, THEN conjunct2, THEN conjunct2, THEN conjunct2, THEN conjunct1]
    I[THEN conjunct2, THEN conjunct2, THEN conjunct2, THEN conjunct2, THEN conjunct2, THEN conjunct2]
  have same: "pend en1 key = pend en key" if "key \<in> ?ks" for key
  proof -
    have "key \<noteq> ?k cl j" using that nk by metis
    then show ?thesis by (simp add: one(4))
  qed
  have sn: "soft_new re cx agent step (pend en1) c fs = soft_new re cx agent step (pend en) c fs"
    by (rule soft_new_cong, rule same) force
  have first: "pend en' (?k cl j) = pend en1 (?k cl j)" using ih(6) nk by blast
  have rest: "\<forall>(cl, j, l, f)\<in>set fs. pend en' (?k cl j) =
      soft_update (holds re cx f) (new_entry (?k cl j) c l cl (cx_proposed_event cx) step) step (pend en (?k cl j))"
  proof (clarsimp)
    fix cl' j' l' f' assume m: "(cl', j', l', f') \<in> set fs"
    have "pend en1 (?k cl' j') = pend en (?k cl' j')" by (rule same) (use m in force)
    then show "pend en' (?k cl' j') = soft_update (holds re cx f') (new_entry (?k cl' j') c l' cl' (cx_proposed_event cx) step) step (pend en (?k cl' j'))"
      using ih(5) m by (auto dest!: bspec)
  qed
  show ?case
  proof (intro conjI)
    show "same_base en en'" using one(1) ih(1) by (rule same_base_trans)
    show "distinct (map fst (en_soft_pending en'))" by (rule ih(2))
    show "cores en' = cores en @ soft_new re cx agent step (pend en) c (x # fs)"
      unfolding ih(3) x one(3) sn by (simp add: soft_new_def b)
    show "\<forall>(cl, j, l, f)\<in>set (x # fs). formula_holds re cx f \<in> {Inr True, Inr False}" using ih(4) b by (cases b) (simp_all add: x)
    show "\<forall>(cl, j, l, f)\<in>set (x # fs). pend en' (?k cl j) =
        soft_update (holds re cx f) (new_entry (?k cl j) c l cl (cx_proposed_event cx) step) step (pend en (?k cl j))"
      using rest first by (simp add: x one(4) b)
    show "\<forall>key. key \<notin> (\<lambda>(cl, j, l, f). ?k cl j) ` set (x # fs) \<longrightarrow> pend en' key = pend en key"
    proof (intro allI impI)
      fix key assume "key \<notin> (\<lambda>(cl, j, l, f). ?k cl j) ` set (x # fs)"
      then have "key \<notin> ?ks" "key \<noteq> ?k cl j" unfolding x by simp_all
      then show "pend en' key = pend en key" using ih(6)[rule_format, of key] by (simp add: one(4))
    qed
    show "a' = foldl (\<lambda>a (cl, j, l, f). count_soft (holds re cx f) a) a (x # fs)" unfolding ih(7) by (simp add: x b)
  qed
qed

section \<open>A contract\<close>

definition contract_fails :: "re_search \<Rightarrow> contract_context \<Rightarrow> phase \<Rightarrow> behavioral_contract \<Rightarrow> parsed_formulas \<Rightarrow> bool" where
  "contract_fails re cx ph c p \<longleftrightarrow> (\<exists>(cl, l, f)\<in>set (hard_clauses ph c p). fails re cx f)"

definition contract_soft_fails :: "re_search \<Rightarrow> contract_context \<Rightarrow> behavioral_contract \<Rightarrow> parsed_formulas \<Rightarrow> bool" where
  "contract_soft_fails re cx c p \<longleftrightarrow> (\<exists>(cl, j, l, f)\<in>set (soft_clauses c p). fails re cx f)"

definition contract_defined :: "re_search \<Rightarrow> contract_context \<Rightarrow> phase \<Rightarrow> behavioral_contract \<Rightarrow> parsed_formulas \<Rightarrow> bool" where
  "contract_defined re cx ph c p \<longleftrightarrow> (\<forall>(cl, l, f)\<in>set (hard_clauses ph c p). formula_holds re cx f \<in> {Inr True, Inr False})
     \<and> (\<forall>(cl, j, l, f)\<in>set (soft_clauses c p). formula_holds re cx f \<in> {Inr True, Inr False})"

definition acc_ok :: "check_acc \<Rightarrow> bool" where
  "acc_ok a \<longleftrightarrow> ca_hard_satisfied a \<le> ca_hard_total a \<and> ca_soft_satisfied a \<le> ca_soft_total a"

lemma count_simps [simp]:
  "ca_any_hard_violated (count_hard cl b a) \<longleftrightarrow> ca_any_hard_violated a \<or> \<not> b" "ca_had_violation (count_hard cl b a) \<longleftrightarrow> ca_had_violation a \<or> \<not> b"
  "ca_violated_ids (count_hard cl b a) = ca_violated_ids a" "acc_ok a \<Longrightarrow> acc_ok (count_hard cl b a)"
  "ca_any_hard_violated (count_soft b a) = ca_any_hard_violated a" "ca_had_violation (count_soft b a) \<longleftrightarrow> ca_had_violation a \<or> \<not> b"
  "ca_violated_ids (count_soft b a) = ca_violated_ids a" "acc_ok a \<Longrightarrow> acc_ok (count_soft b a)"
  by (simp_all add: count_hard_def count_soft_def Let_def acc_ok_def)

lemma foldl_count_hard:
  assumes "\<forall>(cl, l, f)\<in>set fs. formula_holds re cx f \<in> {Inr True, Inr False}"
    and "a' = foldl (\<lambda>a (cl, l, f). count_hard cl (holds re cx f) a) a fs"
  shows "ca_any_hard_violated a' \<longleftrightarrow> ca_any_hard_violated a \<or> (\<exists>(cl, l, f)\<in>set fs. fails re cx f)"
    "ca_had_violation a' \<longleftrightarrow> ca_had_violation a \<or> (\<exists>(cl, l, f)\<in>set fs. fails re cx f)"
    "ca_violated_ids a' = ca_violated_ids a" "acc_ok a \<Longrightarrow> acc_ok a'"
  using assms by (induction fs arbitrary: a) auto

lemma foldl_count_soft:
  assumes "\<forall>(cl, j, l, f)\<in>set fs. formula_holds re cx f \<in> {Inr True, Inr False}"
    and "a' = foldl (\<lambda>a (cl, j, l, f). count_soft (holds re cx f) a) a fs"
  shows "ca_any_hard_violated a' = ca_any_hard_violated a"
    "ca_had_violation a' \<longleftrightarrow> ca_had_violation a \<or> (\<exists>(cl, j, l, f)\<in>set fs. fails re cx f)"
    "ca_violated_ids a' = ca_violated_ids a" "acc_ok a \<Longrightarrow> acc_ok a'"
  using assms by (induction fs arbitrary: a) auto

lemma numbered_keys: "map (\<lambda>(cl, j, l, f). (cl, j)) (numbered cl i fs) = map (Pair cl) [i..<i + length fs]"
  by (induction fs arbitrary: i) (auto simp: upt_conv_Cons simp del: upt_Suc)

lemma soft_clauses_keys: "distinct (map (\<lambda>(cl, j, l, f). (cl, j)) (soft_clauses c p))"
  unfolding soft_clauses_def map_append numbered_keys by (auto simp: distinct_map inj_on_def)

text \<open>What becomes of one obligation when its clause is evaluated, and the keys of a contract.\<close>

definition clause_keys :: "string \<Rightarrow> behavioral_contract \<Rightarrow> parsed_formulas \<Rightarrow> soft_key set" where
  "clause_keys agent c p = (\<lambda>(cl, j, l, f). (agent, bc_contract_id c, cl, j)) ` set (soft_clauses c p)"

definition keys_updated :: "re_search \<Rightarrow> contract_context \<Rightarrow> string \<Rightarrow> int \<Rightarrow> behavioral_contract \<Rightarrow> parsed_formulas \<Rightarrow> enforcer \<Rightarrow> enforcer \<Rightarrow> bool" where
  "keys_updated re cx agent step c p en en' \<longleftrightarrow> (\<forall>(cl, j, l, f)\<in>set (soft_clauses c p). pend en' (agent, bc_contract_id c, cl, j) =
     soft_update (holds re cx f) (new_entry (agent, bc_contract_id c, cl, j) c l cl (cx_proposed_event cx) step) step
       (pend en (agent, bc_contract_id c, cl, j)))"

lemma check_contract_run:
  assumes "check_contract re cx agent ph step c p a en = (Inr a', en')" and "distinct (map fst (en_soft_pending en))"
  shows "same_base en en'" "distinct (map fst (en_soft_pending en'))"
    "cores en' = cores en @ hard_new re cx step c (hard_clauses ph c p) @ soft_new re cx agent step (pend en) c (soft_clauses c p)"
    "contract_defined re cx ph c p" "keys_updated re cx agent step c p en en'"
    "key \<notin> clause_keys agent c p \<Longrightarrow> pend en' key = pend en key"
    "ca_any_hard_violated a' \<longleftrightarrow> ca_any_hard_violated a \<or> contract_fails re cx ph c p"
    "ca_violated_ids a' = ca_violated_ids a @ (if contract_fails re cx ph c p \<or> contract_soft_fails re cx c p then [bc_contract_id c] else [])"
    "acc_ok a \<Longrightarrow> acc_ok a'"
proof -
  obtain a1 en1 a2 where
    h: "hard_loop re cx c step (hard_clauses ph c p) (a\<lparr>ca_had_violation := False\<rparr>) en = (Inr a1, en1)" and
    s: "soft_loop re cx agent c step (soft_clauses c p) a1 en1 = (Inr a2, en')" and
    a': "a' = (if ca_had_violation a2 then a2\<lparr>ca_violated_ids := ca_violated_ids a2 @ [bc_contract_id c]\<rparr> else a2)"
    using assms(1) unfolding check_contract_loops by (auto simp: eff_rules)
  note H = hard_loop_run[OF h]
  have "distinct (map fst (en_soft_pending en1))" using H assms(2) by simp
  note S = soft_loop_run[OF s this soft_clauses_keys]
  have p1: "pend en1 = pend en" using H by simp
  note CH = foldl_count_hard[OF H[THEN conjunct2, THEN conjunct2, THEN conjunct2, THEN conjunct1] H[THEN conjunct2, THEN conjunct2, THEN conjunct2, THEN conjunct2]]
  note CS = foldl_count_soft[OF S[THEN conjunct2, THEN conjunct2, THEN conjunct2, THEN conjunct1] S[THEN conjunct2, THEN conjunct2, THEN conjunct2, THEN conjunct2, THEN conjunct2, THEN conjunct2]]
  show "same_base en en'" using H S same_base_trans by blast
  show "distinct (map fst (en_soft_pending en'))" using S by (elim conjE)
  show "cores en' = cores en @ hard_new re cx step c (hard_clauses ph c p) @ soft_new re cx agent step (pend en) c (soft_clauses c p)"
    using H S[THEN conjunct2, THEN conjunct2, THEN conjunct1] unfolding p1 by simp
  show "contract_defined re cx ph c p"
    unfolding contract_defined_def using H S by (intro conjI) (elim conjE; assumption)+
  show "keys_updated re cx agent step c p en en'"
    unfolding keys_updated_def using S[unfolded p1] by (elim conjE)
  show "pend en' key = pend en key" if "key \<notin> clause_keys agent c p"
    using S[unfolded p1] that unfolding clause_keys_def by blast
  show "ca_any_hard_violated a' \<longleftrightarrow> ca_any_hard_violated a \<or> contract_fails re cx ph c p"
    using CH(1) CS(1) by (simp add: a' contract_fails_def)
  show "ca_violated_ids a' = ca_violated_ids a @ (if contract_fails re cx ph c p \<or> contract_soft_fails re cx c p then [bc_contract_id c] else [])"
    using CH(2,3) CS(2,3) by (simp add: a' contract_fails_def contract_soft_fails_def)
  show "acc_ok a'" if "acc_ok a"
    using CH(4) CS(4) that by (auto simp: a' acc_ok_def)
qed

section \<open>A list of contracts\<close>

definition parsed_of :: "enforcer \<Rightarrow> behavioral_contract \<Rightarrow> parsed_formulas" where
  "parsed_of en c = the (map_of (en_parsed en) (bc_contract_id c))"

definition contract_new :: "re_search \<Rightarrow> contract_context \<Rightarrow> string \<Rightarrow> phase \<Rightarrow> int \<Rightarrow> enforcer \<Rightarrow> behavioral_contract \<Rightarrow> contract_violation list" where
  "contract_new re cx agent ph step en c = hard_new re cx step c (hard_clauses ph c (parsed_of en c))
     @ soft_new re cx agent step (pend en) c (soft_clauses c (parsed_of en c))"

lemma clause_keys_id: "key \<in> clause_keys agent c p \<Longrightarrow> fst key = agent \<and> fst (snd key) = bc_contract_id c"
  by (auto simp: clause_keys_def)

lemma keys_updated_mono:
  assumes "keys_updated re cx agent step c p en1 en2" and "\<And>key. key \<in> clause_keys agent c p \<Longrightarrow> pend en1 key = pend en key"
    and "\<And>key. key \<in> clause_keys agent c p \<Longrightarrow> pend en3 key = pend en2 key"
  shows "keys_updated re cx agent step c p en en3"
  unfolding keys_updated_def
proof (clarsimp)
  fix cl j l f assume m: "(cl, j, l, f) \<in> set (soft_clauses c p)"
  then have k: "(agent, bc_contract_id c, cl, j) \<in> clause_keys agent c p" by (force simp: clause_keys_def)
  show "pend en3 (agent, bc_contract_id c, cl, j) = soft_update (holds re cx f)
      (new_entry (agent, bc_contract_id c, cl, j) c l cl (cx_proposed_event cx) step) step (pend en (agent, bc_contract_id c, cl, j))"
    using assms(1) m unfolding keys_updated_def assms(2)[OF k, symmetric] assms(3)[OF k] by (auto dest!: bspec)
qed

lemma check_contracts_run:
  assumes "check_contracts re cx agent ph step cs a en = (Inr a', en')" and "distinct (map fst (en_soft_pending en))"
    and "distinct (map bc_contract_id cs)"
  shows "same_base en en' \<and> distinct (map fst (en_soft_pending en'))
    \<and> cores en' = cores en @ concat (map (contract_new re cx agent ph step en) cs)
    \<and> (\<forall>c\<in>set cs. contract_defined re cx ph c (parsed_of en c) \<and> keys_updated re cx agent step c (parsed_of en c) en en')
    \<and> (\<forall>key. (\<forall>c\<in>set cs. key \<notin> clause_keys agent c (parsed_of en c)) \<longrightarrow> pend en' key = pend en key)
    \<and> (ca_any_hard_violated a' \<longleftrightarrow> ca_any_hard_violated a \<or> (\<exists>c\<in>set cs. contract_fails re cx ph c (parsed_of en c)))
    \<and> ca_violated_ids a' = ca_violated_ids a @ map bc_contract_id
        (filter (\<lambda>c. contract_fails re cx ph c (parsed_of en c) \<or> contract_soft_fails re cx c (parsed_of en c)) cs)
    \<and> (acc_ok a \<longrightarrow> acc_ok a')"
  using assms
proof (induction cs arbitrary: a en)
  case Nil
  then show ?case by (simp add: eff_rules)
next
  case (Cons c cs)
  let ?p = "parsed_of en c"
  obtain a1 en1 where one: "check_contract re cx agent ph step c ?p a en = (Inr a1, en1)"
    and rest: "check_contracts re cx agent ph step cs a1 en1 = (Inr a', en')"
    using Cons.prems(1) by (auto simp: eff_rules parsed_of_def split: option.splits)
  note C = check_contract_run[OF one Cons.prems(2)]
  have dc: "distinct (map bc_contract_id cs)" "\<forall>d\<in>set cs. bc_contract_id d \<noteq> bc_contract_id c" using Cons.prems(3) by (simp_all, metis imageI)
  have po: "parsed_of en1 = parsed_of en" using C(1) by (simp add: parsed_of_def same_base_def fun_eq_iff)
  note I = Cons.IH[OF rest C(2) dc(1), unfolded po]
  have other: "pend en1 key = pend en key" if "d \<in> set cs" "key \<in> clause_keys agent d q" for d key q
    using that dc(2) clause_keys_id[OF that(2)] by (intro C(6)) (metis clause_keys_id)
  have mine: "pend en' key = pend en1 key" if "key \<in> clause_keys agent c ?p" for key
    using I clause_keys_id[OF that] dc(2) by (metis clause_keys_id)
  have new: "contract_new re cx agent ph step en1 d = contract_new re cx agent ph step en d" if "d \<in> set cs" for d
    unfolding contract_new_def po using other[OF that]
    by (intro arg_cong2[where f = append] refl soft_new_cong) (force simp: clause_keys_def)
  show ?case
  proof (intro conjI)
    show "same_base en en'" using C(1) I same_base_trans by blast
    show "distinct (map fst (en_soft_pending en'))" using I by (elim conjE)
    have m: "map (contract_new re cx agent ph step en1) cs = map (contract_new re cx agent ph step en) cs"
      using new by (intro map_cong refl)
    show "cores en' = cores en @ concat (map (contract_new re cx agent ph step en) (c # cs))"
      unfolding I[THEN conjunct2, THEN conjunct2, THEN conjunct1] m C(3) contract_new_def[of re cx agent ph step en c, symmetric] by simp
    show "\<forall>d\<in>set (c # cs). contract_defined re cx ph d (parsed_of en d) \<and> keys_updated re cx agent step d (parsed_of en d) en en'"
    proof (intro ballI conjI)
      fix d assume d: "d \<in> set (c # cs)"
      show "contract_defined re cx ph d (parsed_of en d)" using d C(4) I by auto
      show "keys_updated re cx agent step d (parsed_of en d) en en'"
      proof (cases "d = c")
        case True
        then show ?thesis using keys_updated_mono[OF C(5)] mine by blast
      next
        case False
        then have dm: "d \<in> set cs" using d by simp
        then show ?thesis using I keys_updated_mono[of re cx agent step d "parsed_of en d" en1 en' en en'] other[OF dm] by blast
      qed
    qed
    show "\<forall>key. (\<forall>d\<in>set (c # cs). key \<notin> clause_keys agent d (parsed_of en d)) \<longrightarrow> pend en' key = pend en key"
      using I C(6) by simp
    show "ca_any_hard_violated a' \<longleftrightarrow> ca_any_hard_violated a \<or> (\<exists>c\<in>set (c # cs). contract_fails re cx ph c (parsed_of en c))"
      using I C(7) by simp
    show "ca_violated_ids a' = ca_violated_ids a @ map bc_contract_id
        (filter (\<lambda>c. contract_fails re cx ph c (parsed_of en c) \<or> contract_soft_fails re cx c (parsed_of en c)) (c # cs))"
      using I C(8) by simp
    show "acc_ok a \<longrightarrow> acc_ok a'" using I C(9) by blast
  qed
qed

section \<open>The sweep\<close>

definition escalation :: "enforcer \<Rightarrow> proposed_event \<Rightarrow> int \<Rightarrow> soft_recovery_entry \<Rightarrow> contract_violation list" where
  "escalation en ev step e = (case find_contract (re_contract_id e) (en_contracts en) of None \<Rightarrow> []
     | Some c \<Rightarrow> [new_violation c (re_clause_ltl e) (re_violated_clause e) False ev step (Some (re_deadline_step e)) (Some Sev_block)
                   (Some (re_triggering_event_id e))])"

lemma sweep_loop_run:
  assumes "distinct (map fst (en_soft_pending en))" and "distinct keys" and "\<forall>k\<in>set keys. pend en k \<noteq> None"
  shows "\<exists>en'. sweep_loop keys ev step en = (Inr (), en') \<and> same_base en en' \<and> distinct (map fst (en_soft_pending en'))
    \<and> cores en' = cores en @ concat (map (\<lambda>k. escalation en ev step (the (pend en k))) keys)
    \<and> (\<forall>k. pend en' k = (if k \<in> set keys then None else pend en k))"
  using assms
proof (induction keys arbitrary: en)
  case Nil
  then show ?case by (simp add: eff_rules)
next
  case (Cons key keys)
  obtain e where e: "pend en key = Some e" using Cons.prems(3) by (auto simp: not_None_eq)
  define en1 where "en1 = en\<lparr>en_soft_pending := AList.delete key (en_soft_pending en), en_violations := en_violations en @ escalation en ev step e\<rparr>"
  have p1: "pend en1 = (pend en)(key := None)" by (simp add: en1_def delete_conv')
  have "distinct (map fst (en_soft_pending en1))" using Cons.prems(1) by (simp add: en1_def distinct_delete)
  moreover have "\<forall>k\<in>set keys. pend en1 k \<noteq> None" using Cons.prems(2,3) by (auto simp: p1)
  ultimately obtain en' where r: "sweep_loop keys ev step en1 = (Inr (), en')" "same_base en1 en'" "distinct (map fst (en_soft_pending en'))"
    "cores en' = cores en1 @ concat (map (\<lambda>k. escalation en1 ev step (the (pend en1 k))) keys)"
    "\<forall>k. pend en' k = (if k \<in> set keys then None else pend en1 k)"
    using Cons.IH[of en1] Cons.prems(2) by auto
  have esc: "escalation en1 = escalation en" by (simp add: escalation_def en1_def fun_eq_iff)
  have same: "map (\<lambda>k. escalation en1 ev step (the (pend en1 k))) keys = map (\<lambda>k. escalation en ev step (the (pend en k))) keys"
    using Cons.prems(2) unfolding esc by (auto simp: p1)
  have core1: "cores en1 = cores en @ escalation en ev step e"
    by (simp add: en1_def escalation_def split: option.splits)
  have "sweep_loop (key # keys) ev step en = sweep_loop keys ev step en1"
    using e by (simp add: eff_bind_def eff_rules record_violation_run en1_def escalation_def split: option.splits)
  moreover have "same_base en en'" using r(2) by (simp add: same_base_def en1_def)
  moreover have "cores en' = cores en @ concat (map (\<lambda>k. escalation en ev step (the (pend en k))) (key # keys))"
    unfolding r(4) same core1 using e by simp
  moreover have "\<forall>k. pend en' k = (if k \<in> set (key # keys) then None else pend en k)" using r(5) by (simp add: p1)
  ultimately show ?case using r(1,3) by (intro exI[of _ en']) simp
qed

section \<open>The invariant of the enforcer\<close>

definition soft_kind :: "violated_clause \<Rightarrow> bool" where
  "soft_kind cl \<longleftrightarrow> cl = Soft_invariant \<or> cl = Soft_governance"

lemma soft_clauses_kind: "(cl, j, l, f) \<in> set (soft_clauses c p) \<Longrightarrow> soft_kind cl"
  by (auto simp: soft_clauses_def soft_kind_def dest!: numbered_range)

lemma hard_clauses_kind: "(cl, l, f) \<in> set (hard_clauses ph c p) \<Longrightarrow> \<not> soft_kind cl"
  by (auto simp: hard_clauses_def soft_kind_def split: if_splits option.splits)

definition entry_ok :: "behavioral_contract list \<Rightarrow> int \<Rightarrow> soft_key \<Rightarrow> soft_recovery_entry \<Rightarrow> bool" where
  "entry_ok cs step key e \<longleftrightarrow> re_agent_id e = fst key \<and> re_contract_id e = fst (snd key) \<and> re_violated_clause e = fst (snd (snd key))
     \<and> soft_kind (re_violated_clause e)
     \<and> (\<exists>c\<in>set cs. bc_contract_id c = re_contract_id e \<and> re_deadline_step e = re_started_at_step e + bc_recovery_window_k c)
     \<and> re_started_at_step e \<le> step"

definition contracts_ok :: "enforcer \<Rightarrow> bool" where
  "contracts_ok en \<longleftrightarrow> distinct (map bc_contract_id (en_contracts en)) \<and> (\<forall>c\<in>set (en_contracts en). 0 \<le> bc_recovery_window_k c)
     \<and> (\<forall>c\<in>set (en_contracts en). \<exists>p. map_of (en_parsed en) (bc_contract_id c) = Some p \<and> contract_formulas c = Inr p)"

definition pending_ok :: "enforcer \<Rightarrow> bool" where
  "pending_ok en \<longleftrightarrow> distinct (map fst (en_soft_pending en))
     \<and> (\<forall>(key, e)\<in>set (en_soft_pending en). entry_ok (en_contracts en) (en_step_index en) key e)"

definition history_ok :: "enforcer \<Rightarrow> bool" where
  "history_ok en \<longleftrightarrow> length (en_c_hard_history en) = length (en_c_soft_history en) \<and> int (length (en_c_hard_history en)) \<le> en_step_index en
     \<and> (\<forall>x\<in>set (en_c_hard_history en @ en_c_soft_history en). fl_unit x)"

definition enforcer_ok :: "enforcer \<Rightarrow> bool" where
  "enforcer_ok en \<longleftrightarrow> contracts_ok en \<and> pending_ok en \<and> history_ok en"

text \<open>What a running check keeps, whether it returns or an atom raises.\<close>

definition running :: "behavioral_contract list \<Rightarrow> int \<Rightarrow> enforcer \<Rightarrow> bool" where
  "running cs step en \<longleftrightarrow> en_contracts en = cs \<and> en_step_index en = step \<and> enforcer_ok en"

lemma running_violations [simp]: "running cs step (en\<lparr>en_violations := vs\<rparr>) = running cs step en"
  by (simp add: running_def enforcer_ok_def contracts_ok_def pending_ok_def history_ok_def)

lemma running_record: "preserves (running cs step) (record_violation c l cl so ev st d s2 tr)"
  unfolding record_violation_def
  by (rule preserves_basic) simp

lemma set_update_subset: "set (AList.update k v xs) \<subseteq> insert (k, v) (set xs)"
  by (induction xs) auto

lemma running_handle_soft:
  assumes "c \<in> set cs" and "soft_kind cl"
  shows "preserves (running cs step) (handle_soft_violation (agent, bc_contract_id c, cl, j) c l cl ev step)"
proof -
  let ?key = "(agent, bc_contract_id c, cl, j)"
  let ?add = "\<lambda>en. en\<lparr>en_soft_pending := AList.update ?key (new_entry ?key c l cl ev step) (en_soft_pending en)\<rparr>"
  have "running cs step (?add en)" if "running cs step en" for en
  proof -
    have "entry_ok cs step ?key (new_entry ?key c l cl ev step)" using assms by (auto simp: entry_ok_def new_entry_def)
    then show ?thesis using that distinct_update set_update_subset[of ?key "new_entry ?key c l cl ev step"]
      by (fastforce simp: running_def enforcer_ok_def contracts_ok_def pending_ok_def history_ok_def)
  qed
  then show ?thesis unfolding handle_soft_violation_def Let_def
    by (intro preserves_bind preserves_basic preserves_if running_record)
qed

lemma set_delete_subset: "set (AList.delete k xs) \<subseteq> set xs"
  by (simp add: AList.delete_eq)

lemma running_delete: "running cs step en \<Longrightarrow> running cs step (en\<lparr>en_soft_pending := AList.delete k (en_soft_pending en)\<rparr>)"
  using set_delete_subset[of k "en_soft_pending en"]
  by (auto simp: running_def enforcer_ok_def contracts_ok_def pending_ok_def history_ok_def distinct_delete)

lemma running_discharge: "preserves (running cs step) (discharge_recovery key st)"
proof -
  have "running cs step (en\<lparr>en_soft_pending := AList.delete key (en_soft_pending en), en_violations := f en\<rparr>)" if "running cs step en" for en f
    using running_delete[OF that, of key] by simp
  then show ?thesis unfolding discharge_recovery_def
    by (intro preserves_bind preserves_basic) (auto intro!: preserves_basic split: option.splits)
qed

lemma running_hard_loop: "preserves (running cs step) (hard_loop re cx c st fs a)"
proof (induction fs arbitrary: a)
  case (Cons x fs)
  then show ?case by (cases x) (auto intro!: preserves_bind preserves_basic running_record)
qed (simp add: preserves_basic)

lemma running_soft_loop:
  "c \<in> set cs \<Longrightarrow> \<forall>(cl, j, l, f)\<in>set fs. soft_kind cl \<Longrightarrow> preserves (running cs step) (soft_loop re cx agent c step fs a)"
proof (induction fs arbitrary: a)
  case (Cons x fs)
  then show ?case by (cases x) (auto intro!: preserves_bind preserves_basic running_handle_soft running_discharge)
qed (simp add: preserves_basic)

lemma running_check_contracts: "set ds \<subseteq> set cs \<Longrightarrow> preserves (running cs step) (check_contracts re cx agent ph step ds a)"
proof (induction ds arbitrary: a)
  case (Cons d ds)
  then show ?case
    by (auto simp: check_contract_loops intro!: preserves_bind preserves_basic running_hard_loop running_soft_loop dest: soft_clauses_kind split: option.splits)
qed (simp add: preserves_basic)

lemma running_sweep_loop: "preserves (running cs step) (sweep_loop keys ev st)"
proof (induction keys)
  case (Cons k keys)
  then show ?case
    by (auto intro!: preserves_bind preserves_basic running_record running_delete split: option.splits)
qed (simp add: preserves_basic)

section \<open>A check\<close>

lemma compliance_unit: "sat \<le> n \<Longrightarrow> fl_unit (compliance sat n)"
  by (cases "n = 0") (simp_all add: compliance_def int_ratio_unit)

definition context_of :: "proposed_event \<Rightarrow> ecosystem_state \<Rightarrow> proposed_event list \<Rightarrow> contract_context" where
  "context_of ev st w = \<lparr>cx_proposed_event = ev, cx_state = st, cx_event_window = w\<rparr>"

definition active :: "enforcer \<Rightarrow> string \<Rightarrow> proposed_event \<Rightarrow> behavioral_contract list" where
  "active en agent ev = filter (\<lambda>c. applies_to c agent (pe_event_kind ev)) (en_contracts en)"

definition expired :: "enforcer \<Rightarrow> int \<Rightarrow> soft_key list" where
  "expired en step = map fst (filter (\<lambda>(k, e). re_deadline_step e < step) (en_soft_pending en))"

definition started :: "enforcer \<Rightarrow> enforcer" where
  "started en = en\<lparr>en_step_index := en_step_index en + 1\<rparr>"

definition scored :: "check_acc \<Rightarrow> enforcer \<Rightarrow> enforcer" where
  "scored a en = en\<lparr>en_c_hard_history := en_c_hard_history en @ [compliance (ca_hard_satisfied a) (ca_hard_total a)],
     en_c_soft_history := en_c_soft_history en @ [compliance (ca_soft_satisfied a) (ca_soft_total a)]\<rparr>"

lemma enforcer_check_eq:
  "enforcer_check re agent ev st w ph en =
     (case check_contracts re (context_of ev st w) agent ph (en_step_index en + 1) (active en agent ev) acc_init (started en) of
        (Inl x, en1) \<Rightarrow> (Inl x, en1)
      | (Inr a, en1) \<Rightarrow> (case sweep_loop (expired (scored a en1) (en_step_index en + 1)) ev (en_step_index en + 1) (scored a en1) of
          (Inl x, en2) \<Rightarrow> (Inl x, en2)
        | (Inr u, en2) \<Rightarrow> (Inr (\<not> ca_any_hard_violated a, ca_violated_ids a), en2)))"
  by (simp add: enforcer_check_def eff_bind_def eff_rules Let_def context_of_def active_def expired_def started_def scored_def
      sweep_expired_recoveries_def split: prod.splits sum.splits)

lemma started_running: "enforcer_ok en \<Longrightarrow> running (en_contracts en) (en_step_index en + 1) (started en)"
proof -
  assume ok: "enforcer_ok en"
  then have "entry_ok (en_contracts en) (en_step_index en + 1) key e" if "(key, e) \<in> set (en_soft_pending en)" for key e
    using that by (fastforce simp: enforcer_ok_def pending_ok_def entry_ok_def)
  with ok show ?thesis
    by (auto simp: running_def started_def enforcer_ok_def contracts_ok_def pending_ok_def history_ok_def)
qed

lemma active_subset: "set (active en agent ev) \<subseteq> set (en_contracts en)"
  by (auto simp: active_def)

lemma active_distinct: "enforcer_ok en \<Longrightarrow> distinct (map bc_contract_id (active en agent ev))"
  by (simp add: active_def enforcer_ok_def contracts_ok_def distinct_map_filter)

lemma scored_running:
  assumes "running cs step en1" and "acc_ok a" and "int (length (en_c_hard_history en1)) < step"
  shows "running cs step (scored a en1)"
  using assms compliance_unit
  by (auto simp: running_def scored_def acc_ok_def enforcer_ok_def contracts_ok_def pending_ok_def history_ok_def)

lemma expired_ok:
  assumes "distinct (map fst (en_soft_pending en))"
  shows "distinct (expired en step)" "k \<in> set (expired en step) \<longleftrightarrow> (\<exists>e. pend en k = Some e \<and> re_deadline_step e < step)"
  using assms by (auto simp: expired_def distinct_map_filter image_iff) (metis prod.collapse)

text \<open>The enforcer stays well formed, also when a check raises.\<close>

lemma enforcer_check_running:
  assumes "enforcer_ok en"
  shows "running (en_contracts en) (en_step_index en + 1) (snd (enforcer_check re agent ev st w ph en))"
proof -
  let ?cs = "en_contracts en" and ?n = "en_step_index en + 1"
  obtain r en1 where c: "check_contracts re (context_of ev st w) agent ph ?n (active en agent ev) acc_init (started en) = (r, en1)"
    by (cases "check_contracts re (context_of ev st w) agent ph ?n (active en agent ev) acc_init (started en)")
  have run1: "running ?cs ?n en1"
    using preservesD[OF running_check_contracts[OF active_subset] started_running[OF assms]] c by (metis snd_conv)
  show ?thesis
  proof (cases r)
    case (Inl x)
    then show ?thesis using run1 by (simp add: enforcer_check_eq c)
  next
    case (Inr a)
    have d: "distinct (map fst (en_soft_pending (started en)))" using assms by (simp add: started_def enforcer_ok_def pending_ok_def)
    note C = check_contracts_run[OF c[unfolded Inr] d active_distinct[OF assms]]
    have "acc_ok a" using C by (simp add: acc_ok_def acc_init_def)
    moreover have "int (length (en_c_hard_history en1)) < ?n"
      using C assms by (simp add: same_base_def started_def enforcer_ok_def history_ok_def)
    ultimately have "running ?cs ?n (scored a en1)" using run1 by (intro scored_running)
    then have "running ?cs ?n (snd (sweep_loop (expired (scored a en1) ?n) ev ?n (scored a en1)))"
      by (rule preservesD[OF running_sweep_loop])
    then show ?thesis by (auto simp: enforcer_check_eq c Inr split: prod.splits sum.splits)
  qed
qed

lemma enforcer_check_ok: "enforcer_ok en \<Longrightarrow> enforcer_ok (snd (enforcer_check re agent ev st w ph en))"
  using enforcer_check_running by (simp add: running_def)

lemma enforcer_check_contracts: "enforcer_ok en \<Longrightarrow> en_contracts (snd (enforcer_check re agent ev st w ph en)) = en_contracts en"
  using enforcer_check_running by (simp add: running_def)

text \<open>The effect of a check that returns.\<close>

lemma enforcer_check_run:
  assumes "enforcer_ok en" and "enforcer_check re agent ev st w ph en = (Inr (ok, ids), en')"
  defines "n \<equiv> en_step_index en + 1" and "cx \<equiv> context_of ev st w"
  obtains en1 where
    "en_contracts en1 = en_contracts en" "en_parsed en1 = en_parsed en" "distinct (map fst (en_soft_pending en1))"
    "\<forall>c\<in>set (active en agent ev). contract_defined re cx ph c (parsed_of en c) \<and> keys_updated re cx agent n c (parsed_of en c) en en1"
    "\<forall>key. (\<forall>c\<in>set (active en agent ev). key \<notin> clause_keys agent c (parsed_of en c)) \<longrightarrow> pend en1 key = pend en key"
    "ok \<longleftrightarrow> \<not> (\<exists>c\<in>set (active en agent ev). contract_fails re cx ph c (parsed_of en c))"
    "ids = map bc_contract_id (filter (\<lambda>c. contract_fails re cx ph c (parsed_of en c) \<or> contract_soft_fails re cx c (parsed_of en c))
       (active en agent ev))"
    "cores en' = cores en @ concat (map (contract_new re cx agent ph n en) (active en agent ev))
       @ concat (map (\<lambda>k. escalation en ev n (the (pend en1 k))) (expired en1 n))"
    "\<forall>k. pend en' k = (if k \<in> set (expired en1 n) then None else pend en1 k)"
    "en_step_index en' = n" "en_contracts en' = en_contracts en" "en_parsed en' = en_parsed en"
proof -
  obtain a en1 where c: "check_contracts re cx agent ph n (active en agent ev) acc_init (started en) = (Inr a, en1)"
    and okids: "ok = (\<not> ca_any_hard_violated a)" "ids = ca_violated_ids a"
    and sw: "sweep_loop (expired (scored a en1) n) ev n (scored a en1) = (Inr (), en')"
    using assms(2) unfolding enforcer_check_eq n_def cx_def by (auto split: prod.splits sum.splits)
  have d: "distinct (map fst (en_soft_pending (started en)))" using assms(1) by (simp add: started_def enforcer_ok_def pending_ok_def)
  note C = check_contracts_run[OF c d active_distinct[OF assms(1)]]
  have pc: "parsed_of (started en) = parsed_of en" "pend (started en) = pend en" "cores (started en) = cores en"
    "contract_new re cx agent ph n (started en) = contract_new re cx agent ph n en" "keys_updated re cx agent n c q (started en) en1 = keys_updated re cx agent n c q en en1" for c q
    by (simp_all add: started_def parsed_of_def contract_new_def keys_updated_def fun_eq_iff)
  note C = C[unfolded pc]
  have d1: "distinct (map fst (en_soft_pending en1))" "same_base (started en) en1" using C by blast+
  have sc: "expired (scored a en1) n = expired en1 n" "pend (scored a en1) = pend en1" "en_soft_pending (scored a en1) = en_soft_pending en1"
    "cores (scored a en1) = cores en1" by (simp_all add: scored_def expired_def)
  have "\<forall>k\<in>set (expired en1 n). pend (scored a en1) k \<noteq> None" using expired_ok(2)[OF d1(1)] by (auto simp: sc)
  from sweep_loop_run[of "scored a en1" "expired en1 n" ev n] this expired_ok(1)[OF d1(1)] d1(1) sw
  have S: "same_base (scored a en1) en'" "cores en' = cores en1 @ concat (map (\<lambda>k. escalation (scored a en1) ev n (the (pend en1 k))) (expired en1 n))"
    "\<forall>k. pend en' k = (if k \<in> set (expired en1 n) then None else pend en1 k)"
    by (auto simp: sc)
  have esc: "escalation (scored a en1) = escalation en"
    using d1(2) by (simp add: escalation_def scored_def same_base_def started_def fun_eq_iff)
  show thesis
  proof (rule that[of en1])
    show "cores en' = cores en @ concat (map (contract_new re cx agent ph n en) (active en agent ev))
       @ concat (map (\<lambda>k. escalation en ev n (the (pend en1 k))) (expired en1 n))"
      using S(2) C[THEN conjunct2, THEN conjunct2, THEN conjunct1] unfolding esc by simp
    show "ok \<longleftrightarrow> \<not> (\<exists>c\<in>set (active en agent ev). contract_fails re cx ph c (parsed_of en c))"
      unfolding okids using C by (simp add: acc_init_def)
    show "ids = map bc_contract_id (filter (\<lambda>c. contract_fails re cx ph c (parsed_of en c) \<or> contract_soft_fails re cx c (parsed_of en c))
       (active en agent ev))" unfolding okids using C by (simp add: acc_init_def)
  qed (use C S(1,3) d1 in \<open>auto simp: same_base_def started_def scored_def n_def\<close>)
qed

end
