(* ===== verification/Contract_Claims.thy ===== *)
theory Contract_Claims
  imports Contract_Laws
begin

text \<open>
  Properties of the contract enforcer: the invariant of its reachable states, what a check decides, and how
  the soft violations turn into obligations that are recovered or escalated.
\<close>

section \<open>Reachable enforcers\<close>

inductive enforcer_reach :: "re_search \<Rightarrow> enforcer \<Rightarrow> bool" for re where
  reach_init: "ContractEnforcer_init cs = Inr en \<Longrightarrow> \<forall>c\<in>set cs. contract_post_init c = Inr c \<Longrightarrow> enforcer_reach re en"
| reach_check: "enforcer_reach re en \<Longrightarrow> enforcer_reach re (snd (enforcer_check re agent ev st w ph en))"
| reach_restore: "enforcer_reach re en \<Longrightarrow> enforcer_reach re (en\<lparr>en_violations := vs\<rparr>)"

lemma err_map_pairs:
  "err_map (\<lambda>c. sbind (f c) (\<lambda>y. Inr (g c, y))) cs = Inr ps \<Longrightarrow> c \<in> set cs \<Longrightarrow> distinct (map g cs) \<Longrightarrow>
   \<exists>y. map_of ps (g c) = Some y \<and> f c = Inr y"
  by (induction cs arbitrary: ps) (auto simp: sbind_rules image_iff)

lemma init_ok:
  assumes "ContractEnforcer_init cs = Inr en" and "\<forall>c\<in>set cs. contract_post_init c = Inr c"
  shows "enforcer_ok en"
proof -
  obtain ps where p: "distinct (map bc_contract_id cs)" "err_map (\<lambda>c. sbind (contract_formulas c) (\<lambda>f. Inr (bc_contract_id c, f))) cs = Inr ps"
    "en = \<lparr>en_contracts = cs, en_parsed = ps, en_step_index = 0, en_soft_pending = [], en_violations = [], en_c_hard_history = [], en_c_soft_history = []\<rparr>"
    using assms(1) by (auto simp: ContractEnforcer_init_def sbind_rules split: if_splits)
  have "\<forall>c\<in>set cs. 0 \<le> bc_recovery_window_k c" using assms(2) by (auto simp: contract_post_init_def split: if_splits)
  with p err_map_pairs[OF p(2) _ p(1)] show ?thesis
    by (simp add: enforcer_ok_def contracts_ok_def pending_ok_def history_ok_def)
qed

lemma reach_ok: "enforcer_reach re en \<Longrightarrow> enforcer_ok en"
proof (induction rule: enforcer_reach.induct)
  case (reach_restore en vs)
  then show ?case by (simp add: enforcer_ok_def contracts_ok_def pending_ok_def history_ok_def)
qed (auto intro: init_ok enforcer_check_ok)

section \<open>An enforcer with one contract\<close>

definition demo_contract :: behavioral_contract where
  "demo_contract = \<lparr>bc_contract_id = ''c'', bc_agent_id = ''a'', bc_description = [], bc_precondition_ltl = [], bc_postcondition_ltl = ''true'',
     bc_invariants_ltl = [''kind:pay''], bc_soft_invariants_ltl = [''actor:a''], bc_hard_governance_ltl = [], bc_soft_governance_ltl = [],
     bc_covered_event_kinds = [''*''], bc_severity_on_violation = Sev_block, bc_recovery_window_k = 1,
     bc_delta_tolerance = Fin 0, bc_satisfaction_p = Fin 1\<rparr>"

definition demo_enforcer :: enforcer where
  "demo_enforcer = projr (ContractEnforcer_init [demo_contract])"

definition demo_time :: py_datetime where
  "demo_time = \<lparr>dt_iso = ''t'', dt_str = ''t'', dt_epoch = Fin 0\<rparr>"

definition demo_event :: "string \<Rightarrow> proposed_event" where
  "demo_event actor = \<lparr>pe_event_kind = ''pay'', pe_actor_entity_id = actor, pe_target_entity_id = None, pe_payload = [],
     pe_proposed_at = demo_time, pe_session_id = None, pe_upstream_event_ids = []\<rparr>"

definition demo_state :: ecosystem_state where
  "demo_state = \<lparr>es_snapshot_at = demo_time, es_state_hash = [], es_active_agent_ids = [], es_active_tool_ids = [],
     es_active_capability_ids = [], es_active_governance_graph_id = ''g'', es_aggregate_drift_signals = [],
     es_sliding_window_compromise_ratio = VFloat (Fin 0) ''0.0''\<rparr>"

definition demo_step :: "string \<Rightarrow> (bool \<times> string list) enf" where
  "demo_step actor = enforcer_check (\<lambda>_ _. Inr False) ''a'' (demo_event actor) demo_state [] Pre"

lemma demo_reach: "enforcer_reach (\<lambda>_ _. Inr False) demo_enforcer"
proof (rule reach_init)
  show "ContractEnforcer_init [demo_contract] = Inr demo_enforcer" unfolding demo_enforcer_def by code_simp
  show "\<forall>c\<in>set [demo_contract]. contract_post_init c = Inr c" by (simp add: demo_contract_def contract_post_init_def fl_le_def)
qed

lemma demo_reach_step: "enforcer_reach (\<lambda>_ _. Inr False) en \<Longrightarrow> enforcer_reach (\<lambda>_ _. Inr False) (snd (demo_step actor en))"
  unfolding demo_step_def by (rule reach_check)

lemma demo_check_next:
  assumes "fst (demo_step actor en) = Inr (ok, ids)"
  shows "enforcer_check (\<lambda>_ _. Inr False) ''a'' (demo_event actor) demo_state [] Pre en = (Inr (ok, ids), snd (demo_step actor en))"
  using assms unfolding demo_step_def by (metis prod.collapse)

section \<open>The invariant\<close>



section \<open>What a check decides\<close>

text \<open>
  (C16) A check that returns is satisfied exactly when every hard clause (precondition or postcondition, hard
  invariants, hard governance) of every contract that applies to the agent and the kind of event holds of
  the event, and it names, in order, the contracts with a violated clause, hard or soft.
\<close>

theorem check_judges_contracts:
  assumes "enforcer_reach re en" and "enforcer_check re agent ev st w ph en = (Inr (ok, ids), en')"
  defines "cx \<equiv> context_of ev st w"
  shows "(ok \<longleftrightarrow> (\<forall>c\<in>set (en_contracts en). applies_to c agent (pe_event_kind ev) \<longrightarrow>
            (\<forall>(cl, l, f)\<in>set (hard_clauses ph c (parsed_of en c)). formula_holds re cx f = Inr True)))
    \<and> ids = map bc_contract_id (filter (\<lambda>c. applies_to c agent (pe_event_kind ev) \<and>
        ((\<exists>(cl, l, f)\<in>set (hard_clauses ph c (parsed_of en c)). formula_holds re cx f = Inr False)
         \<or> (\<exists>(cl, j, l, f)\<in>set (soft_clauses c (parsed_of en c)). formula_holds re cx f = Inr False))) (en_contracts en))"
proof -
  obtain en1 where r:
    "\<forall>c\<in>set (active en agent ev). contract_defined re cx ph c (parsed_of en c) \<and> keys_updated re cx agent (en_step_index en + 1) c (parsed_of en c) en en1"
    "ok \<longleftrightarrow> \<not> (\<exists>c\<in>set (active en agent ev). contract_fails re cx ph c (parsed_of en c))"
    "ids = map bc_contract_id (filter (\<lambda>c. contract_fails re cx ph c (parsed_of en c) \<or> contract_soft_fails re cx c (parsed_of en c))
       (active en agent ev))"
    unfolding cx_def by (rule enforcer_check_run[OF reach_ok[OF assms(1)] assms(2)]) blast
  have "\<not> contract_fails re cx ph c (parsed_of en c) \<longleftrightarrow> (\<forall>(cl, l, f)\<in>set (hard_clauses ph c (parsed_of en c)). formula_holds re cx f = Inr True)"
    if "c \<in> set (active en agent ev)" for c
  proof -
    have "\<forall>(cl, l, f)\<in>set (hard_clauses ph c (parsed_of en c)). formula_holds re cx f \<in> {Inr True, Inr False}"
      using r(1) that by (simp add: contract_defined_def)
    then show ?thesis unfolding contract_fails_def by fastforce
  qed
  then have "ok \<longleftrightarrow> (\<forall>c\<in>set (active en agent ev). \<forall>(cl, l, f)\<in>set (hard_clauses ph c (parsed_of en c)). formula_holds re cx f = Inr True)"
    unfolding r(2) by blast
  then show ?thesis unfolding r(3) active_def
    by (intro conjI) (auto simp: contract_fails_def contract_soft_fails_def filter_filter conj_commute)
qed

lemma demo_violates: "fst (demo_step ''b'' demo_enforcer) = Inr (True, [''c''])"
  by code_simp

lemma demo_check:
  "enforcer_check (\<lambda>_ _. Inr False) ''a'' (demo_event ''b'') demo_state [] Pre demo_enforcer = (Inr (True, [''c'']), snd (demo_step ''b'' demo_enforcer))"
  by (rule demo_check_next[OF demo_violates])

theorem check_judges_contracts_witness:
  "fst (demo_step ''b'' demo_enforcer) = Inr (True, [''c''])
    \<and> list_all (\<lambda>(cl, l, f). formula_holds (\<lambda>_ _. Inr False) (context_of (demo_event ''b'') demo_state []) f = Inr True)
         (hard_clauses Pre demo_contract (parsed_of demo_enforcer demo_contract))"
proof -
  have "demo_contract \<in> set (en_contracts demo_enforcer)" "applies_to demo_contract ''a'' (pe_event_kind (demo_event ''b''))" by code_simp+
  then show ?thesis using demo_violates check_judges_contracts[OF demo_reach demo_check] by (simp add: list_all_iff)
qed

section \<open>Obligations\<close>

definition deadline :: "enforcer \<Rightarrow> soft_key \<Rightarrow> int option" where
  "deadline en key = map_option re_deadline_step (pend en key)"

text \<open>
  The abstract machine: an obligation is absent or due at a step. A violation opens it for the recovery window,
  satisfaction in time closes it, and it never survives its deadline.
\<close>

fun obligation :: "bool option \<Rightarrow> int \<Rightarrow> int \<Rightarrow> int option \<Rightarrow> int option" where
  "obligation judged k n None = (if judged = Some False then Some (n + k) else None)"
| "obligation judged k n (Some d) = (if d < n \<or> judged = Some True then None else Some d)"

definition soft_formula :: "enforcer \<Rightarrow> string \<Rightarrow> proposed_event \<Rightarrow> soft_key \<Rightarrow> (behavioral_contract \<times> LTLFormula) option" where
  "soft_formula en agent ev key = (case key of (a, cid, cl, j) \<Rightarrow>
     if a \<noteq> agent then None
     else case find_contract cid (active en agent ev) of None \<Rightarrow> None
     | Some c \<Rightarrow> map_option (\<lambda>f. (c, f)) (map_of (map (\<lambda>(cl, j, l, f). ((cl, j), f)) (soft_clauses c (parsed_of en c))) (cl, j)))"

lemma find_contract_Some: "distinct (map bc_contract_id cs) \<Longrightarrow> find_contract i cs = Some c \<longleftrightarrow> c \<in> set cs \<and> bc_contract_id c = i"
  unfolding find_contract_def by (induction cs) (auto simp: image_iff)

lemma find_contract_None: "find_contract i cs = None \<longleftrightarrow> (\<forall>c\<in>set cs. bc_contract_id c \<noteq> i)"
  unfolding find_contract_def by (auto simp: find_None_iff)

lemma soft_formula_Some:
  assumes "enforcer_ok en" and "soft_formula en agent ev (a, cid, cl, j) = Some (c, f)"
  shows "a = agent" "c \<in> set (active en agent ev)" "cid = bc_contract_id c" "\<exists>l. (cl, j, l, f) \<in> set (soft_clauses c (parsed_of en c))"
  using assms find_contract_Some[OF active_distinct[OF assms(1)]]
  by (auto simp: soft_formula_def dest!: map_of_SomeD split: if_splits option.splits)

lemma soft_formula_None:
  assumes "enforcer_ok en" and "soft_formula en agent ev key = None" and "c \<in> set (active en agent ev)"
  shows "key \<notin> clause_keys agent c (parsed_of en c)"
proof
  assume "key \<in> clause_keys agent c (parsed_of en c)"
  then obtain cl j l f where k: "key = (agent, bc_contract_id c, cl, j)" "(cl, j, l, f) \<in> set (soft_clauses c (parsed_of en c))"
    by (auto simp: clause_keys_def)
  have "find_contract (bc_contract_id c) (active en agent ev) = Some c"
    using find_contract_Some[OF active_distinct[OF assms(1)]] assms(3) by blast
  with assms(2) have "map_of (map (\<lambda>(cl, j, l, f). ((cl, j), f)) (soft_clauses c (parsed_of en c))) (cl, j) = None"
    by (simp add: soft_formula_def k(1))
  with k(2) show False by (force simp: map_of_eq_None_iff)
qed

text \<open>The state of one obligation between the clauses and the sweep.\<close>

lemma pend_between:
  assumes "enforcer_ok en"
    and "\<forall>c\<in>set (active en agent ev). keys_updated re cx agent n c (parsed_of en c) en en1"
    and "\<forall>key. (\<forall>c\<in>set (active en agent ev). key \<notin> clause_keys agent c (parsed_of en c)) \<longrightarrow> pend en1 key = pend en key"
  shows "(soft_formula en agent ev key = None \<and> pend en1 key = pend en key)
    \<or> (\<exists>c f l. soft_formula en agent ev key = Some (c, f) \<and> c \<in> set (active en agent ev)
        \<and> pend en1 key = soft_update (holds re cx f) (new_entry key c l (fst (snd (snd key))) (cx_proposed_event cx) n) n (pend en key))"
proof (cases "soft_formula en agent ev key")
  case None
  then show ?thesis using assms(3) soft_formula_None[OF assms(1) None] by blast
next
  case (Some cf)
  obtain a cid cl j where k: "key = (a, cid, cl, j)" by (cases key)
  obtain c f where cf: "cf = (c, f)" by (cases cf)
  from soft_formula_Some[OF assms(1) Some[unfolded k cf]] obtain l where
    l: "a = agent" "c \<in> set (active en agent ev)" "cid = bc_contract_id c" "(cl, j, l, f) \<in> set (soft_clauses c (parsed_of en c))" by blast
  then have "pend en1 key = soft_update (holds re cx f) (new_entry key c l cl (cx_proposed_event cx) n) n (pend en key)"
    using assms(2) unfolding keys_updated_def k by fastforce
  with Some cf l(2) show ?thesis by (auto simp: k)
qed

lemma check_contract_window: "enforcer_ok en \<Longrightarrow> c \<in> set (active en agent ev) \<Longrightarrow> 0 \<le> bc_recovery_window_k c"
  using subsetD[OF active_subset, of c en agent ev] by (simp add: enforcer_ok_def contracts_ok_def)

text \<open>
  (C4) Refinement: a check that returns moves every obligation as the abstract machine does, with the truth of the
  obligation's clause at this step, or nothing where the clause was not evaluated.
\<close>

theorem check_refines_obligations:
  assumes "enforcer_reach re en" and "enforcer_check re agent ev st w ph en = (Inr (ok, ids), en')"
  shows "deadline en' key = obligation
      (map_option (\<lambda>(c, f). formula_holds re (context_of ev st w) f = Inr True) (soft_formula en agent ev key))
      (case soft_formula en agent ev key of None \<Rightarrow> 0 | Some (c, f) \<Rightarrow> bc_recovery_window_k c)
      (en_step_index en + 1) (deadline en key)"
proof -
  let ?n = "en_step_index en + 1" and ?cx = "context_of ev st w"
  have ok: "enforcer_ok en" using assms(1) by (rule reach_ok)
  obtain en1 where d: "distinct (map fst (en_soft_pending en1))"
    "\<forall>c\<in>set (active en agent ev). keys_updated re ?cx agent ?n c (parsed_of en c) en en1"
    "\<forall>key. (\<forall>c\<in>set (active en agent ev). key \<notin> clause_keys agent c (parsed_of en c)) \<longrightarrow> pend en1 key = pend en key"
    "\<forall>k. pend en' k = (if k \<in> set (expired en1 ?n) then None else pend en1 k)"
    by (rule enforcer_check_run[OF ok assms(2)]) blast
  have swept: "pend en' key = (case pend en1 key of Some e \<Rightarrow> if re_deadline_step e < ?n then None else Some e | None \<Rightarrow> None)"
    using spec[OF d(4), of key] expired_ok(2)[OF d(1), of key ?n] by (cases "pend en1 key") auto
  from pend_between[OF ok d(2,3), of key] show ?thesis
  proof (elim disjE conjE exE)
    assume "soft_formula en agent ev key = None" "pend en1 key = pend en key"
    then show ?thesis by (cases "pend en key") (auto simp: deadline_def swept)
  next
    fix c f l assume c: "soft_formula en agent ev key = Some (c, f)" "c \<in> set (active en agent ev)"
      "pend en1 key = soft_update (holds re ?cx f) (new_entry key c l (fst (snd (snd key))) (cx_proposed_event ?cx) ?n) ?n (pend en key)"
    then show ?thesis using check_contract_window[OF ok c(2)]
      by (cases "pend en key") (auto simp: deadline_def swept soft_update_def new_entry_def)
  qed
qed

theorem check_refines_obligations_witness:
  "deadline demo_enforcer (''a'', ''c'', Soft_invariant, 0) = None
    \<and> deadline (snd (demo_step ''b'' demo_enforcer)) (''a'', ''c'', Soft_invariant, 0) = Some 2
    \<and> obligation (Some False) 1 1 None = Some 2"
proof -
  let ?key = "(''a'', ''c'', Soft_invariant, 0)"
  have "deadline demo_enforcer ?key = None" "en_step_index demo_enforcer = 0"
    "map_option (\<lambda>(c, f). formula_holds (\<lambda>_ _. Inr False) (context_of (demo_event ''b'') demo_state []) f = Inr True)
       (soft_formula demo_enforcer ''a'' (demo_event ''b'') ?key) = Some False"
    "(case soft_formula demo_enforcer ''a'' (demo_event ''b'') ?key of None \<Rightarrow> 0 | Some (c, f) \<Rightarrow> bc_recovery_window_k c) = 1"
    by code_simp+
  with check_refines_obligations[OF demo_reach demo_check, of ?key] show ?thesis by simp
qed

text \<open>
  (C17) No obligation outlives its window: a check that returns keeps an open obligation only until its deadline; it
  is closed by a satisfied clause in time, and otherwise, at the first check after the deadline, the
  violation is recorded again with severity block.
\<close>

theorem obligation_settled:
  assumes "enforcer_reach re en" and "enforcer_check re agent ev st w ph en = (Inr (ok, ids), en')" and "pend en key = Some e"
  shows "(pend en' key = Some e \<and> en_step_index en' \<le> re_deadline_step e)
    \<or> (pend en' key = None \<and> en_step_index en' \<le> re_deadline_step e
        \<and> (\<exists>c f. soft_formula en agent ev key = Some (c, f) \<and> formula_holds re (context_of ev st w) f = Inr True))
    \<or> (pend en' key = None \<and> re_deadline_step e < en_step_index en'
        \<and> (\<exists>v\<in>set (drop (length (en_violations en)) (en_violations en')). vi_severity v = Sev_block
             \<and> vi_contract_id v = re_contract_id e \<and> vi_violated_clause v = re_violated_clause e \<and> vi_clause_ltl v = re_clause_ltl e
             \<and> vi_step_index v = en_step_index en'))"
proof -
  let ?n = "en_step_index en + 1" and ?cx = "context_of ev st w"
  have ok: "enforcer_ok en" using assms(1) by (rule reach_ok)
  obtain en1 where d: "distinct (map fst (en_soft_pending en1))"
    "\<forall>c\<in>set (active en agent ev). keys_updated re ?cx agent ?n c (parsed_of en c) en en1"
    "\<forall>key. (\<forall>c\<in>set (active en agent ev). key \<notin> clause_keys agent c (parsed_of en c)) \<longrightarrow> pend en1 key = pend en key"
    "cores en' = cores en @ concat (map (contract_new re ?cx agent ph ?n en) (active en agent ev))
       @ concat (map (\<lambda>k. escalation en ev ?n (the (pend en1 k))) (expired en1 ?n))"
    "\<forall>k. pend en' k = (if k \<in> set (expired en1 ?n) then None else pend en1 k)" "en_step_index en' = ?n"
    by (rule enforcer_check_run[OF ok assms(2)]) blast
  have between: "pend en1 key = Some e \<or> (pend en1 key = None \<and> ?n \<le> re_deadline_step e
      \<and> (\<exists>c f. soft_formula en agent ev key = Some (c, f) \<and> holds re ?cx f))"
    using pend_between[OF ok d(2,3), of key] assms(3) by (auto simp: soft_update_def split: if_splits)
  show ?thesis
  proof (cases "re_deadline_step e < ?n")
    case False
    then show ?thesis using between spec[OF d(5), of key] d(6) expired_ok(2)[OF d(1), of key ?n] by auto
  next
    case True
    with between have e1: "pend en1 key = Some e" by auto
    then have x: "key \<in> set (expired en1 ?n)" using True expired_ok(2)[OF d(1)] by blast
    obtain c where c: "find_contract (re_contract_id e) (en_contracts en) = Some c"
      using ok assms(3) find_contract_None[of "re_contract_id e" "en_contracts en"]
      by (force simp: enforcer_ok_def pending_ok_def entry_ok_def dest!: map_of_SomeD)
    then have id: "bc_contract_id c = re_contract_id e"
      using ok find_contract_Some[of "en_contracts en"] by (simp add: enforcer_ok_def contracts_ok_def)
    let ?v = "new_violation c (re_clause_ltl e) (re_violated_clause e) False ev ?n (Some (re_deadline_step e)) (Some Sev_block) (Some (re_triggering_event_id e))"
    have "escalation en ev ?n e = [?v]" by (simp add: escalation_def c)
    then have "?v \<in> set (concat (map (\<lambda>k. escalation en ev ?n (the (pend en1 k))) (expired en1 ?n)))" using x e1 by force
    moreover have "map vi_core (drop (length (en_violations en)) (en_violations en')) = concat (map (contract_new re ?cx agent ph ?n en) (active en agent ev))
       @ concat (map (\<lambda>k. escalation en ev ?n (the (pend en1 k))) (expired en1 ?n))"
      unfolding drop_map[symmetric] d(4) by simp
    ultimately have "?v \<in> set (map vi_core (drop (length (en_violations en)) (en_violations en')))"
      by (simp only: set_append Un_iff simp_thms)
    then obtain v where v: "v \<in> set (drop (length (en_violations en)) (en_violations en'))" "vi_core v = ?v" by auto
    have "vi_severity (vi_core v) = Sev_block \<and> vi_contract_id (vi_core v) = re_contract_id e
        \<and> vi_violated_clause (vi_core v) = re_violated_clause e \<and> vi_clause_ltl (vi_core v) = re_clause_ltl e \<and> vi_step_index (vi_core v) = ?n"
      unfolding v(2) by (simp add: new_violation_def id)
    then have "vi_severity v = Sev_block \<and> vi_contract_id v = re_contract_id e \<and> vi_violated_clause v = re_violated_clause e
        \<and> vi_clause_ltl v = re_clause_ltl e \<and> vi_step_index v = ?n" by (simp add: vi_core_def)
    with v(1) x True spec[OF d(5), of key] d(6) show ?thesis by auto
  qed
qed

theorem obligation_settled_witness:
  "let en = snd (demo_step ''b'' (snd (demo_step ''b'' demo_enforcer))); en' = snd (demo_step ''a'' en) in
     en_soft_pending en \<noteq> [] \<and> (\<exists>v\<in>set (drop (length (en_violations en)) (en_violations en')). vi_severity v = Sev_block)"
proof -
  let ?en = "snd (demo_step ''b'' (snd (demo_step ''b'' demo_enforcer)))" and ?key = "(''a'', ''c'', Soft_invariant, 0)"
  have r: "fst (demo_step ''a'' ?en) = Inr (True, [])" "map re_deadline_step (map snd (en_soft_pending ?en)) = [2]"
    "map fst (en_soft_pending ?en) = [?key]" "en_step_index (snd (demo_step ''a'' ?en)) = 3" by code_simp+
  then obtain e where e: "pend ?en ?key = Some e" "re_deadline_step e = 2" by (cases "en_soft_pending ?en") auto
  have "enforcer_reach (\<lambda>_ _. Inr False) ?en" by (intro demo_reach_step demo_reach)
  from obligation_settled[OF this demo_check_next[OF r(1)] e(1)] r(3,4) e(2) show ?thesis unfolding Let_def by auto
qed

end
