(* ===== verification/Contract_Scores.thy ===== *)
theory Contract_Scores
  imports Contract_Claims
begin

text \<open>
  The scores that a check appends to the enforcer's history are those that \<open>compliance_scores\<close> reports without
  changing the enforcer.
\<close>

definition tally :: "re_search \<Rightarrow> contract_context \<Rightarrow> LTLFormula list \<Rightarrow> nat \<times> nat \<Rightarrow> nat \<times> nat" where
  "tally re cx fs = (\<lambda>(n, sat). (n + length fs, sat + length (filter (holds re cx) fs)))"

lemma count_holding_tally:
  "\<forall>f\<in>set fs. formula_holds re cx f \<in> {Inr True, Inr False} \<Longrightarrow> count_holding re cx fs x = Inr (tally re cx fs x)"
  by (induction fs arbitrary: x) (auto simp: tally_def split: prod.splits)

lemma tally_append: "tally re cx (fs @ gs) x = tally re cx gs (tally re cx fs x)"
  by (cases x) (simp add: tally_def)

definition hard_count :: "check_acc \<Rightarrow> nat \<times> nat" where
  "hard_count a = (ca_hard_total a, ca_hard_satisfied a)"

definition soft_count :: "check_acc \<Rightarrow> nat \<times> nat" where
  "soft_count a = (ca_soft_total a, ca_soft_satisfied a)"

lemma hard_tally:
  "hard_count (foldl (\<lambda>a (cl, l, f). count_hard cl (holds re cx f) a) a fs)
     = tally re cx (map (\<lambda>(cl, l, f). f) (filter (\<lambda>(cl, l, f). \<not> boundary cl) fs)) (hard_count a)
   \<and> soft_count (foldl (\<lambda>a (cl, l, f). count_hard cl (holds re cx f) a) a fs) = soft_count a"
  by (induction fs arbitrary: a) (auto simp: tally_def hard_count_def soft_count_def count_hard_def Let_def)

lemma soft_tally:
  "soft_count (foldl (\<lambda>a (cl, j, l, f). count_soft (holds re cx f) a) a fs)
     = tally re cx (map (\<lambda>(cl, j, l, f). f) fs) (soft_count a)
   \<and> hard_count (foldl (\<lambda>a (cl, j, l, f). count_soft (holds re cx f) a) a fs) = hard_count a"
  by (induction fs arbitrary: a) (auto simp: tally_def hard_count_def soft_count_def count_soft_def Let_def)

lemma numbered_formulas: "map (\<lambda>(cl, j, l, f). f) (numbered cl i fs) = map snd fs"
  by (induction fs arbitrary: i) auto

lemma err_map_length: "err_map f xs = Inr ys \<Longrightarrow> length ys = length xs"
  by (induction xs arbitrary: ys) (auto simp: sbind_rules)

lemma parsed_lengths:
  assumes "contract_formulas c = Inr p"
  shows "length (pf_hard_invariants p) = length (bc_invariants_ltl c)" "length (pf_soft_invariants p) = length (bc_soft_invariants_ltl c)"
    "length (pf_hard_governance p) = length (bc_hard_governance_ltl c)" "length (pf_soft_governance p) = length (bc_soft_governance_ltl c)"
  using assms by (auto simp: contract_formulas_def sbind_rules err_map_length)

lemma clause_formulas:
  assumes "contract_formulas c = Inr p"
  shows "map (\<lambda>(cl, l, f). f) (filter (\<lambda>(cl, l, f). \<not> boundary cl) (hard_clauses ph c p)) = pf_hard_invariants p @ pf_hard_governance p"
    "map (\<lambda>(cl, j, l, f). f) (soft_clauses c p) = pf_soft_invariants p @ pf_soft_governance p"
proof -
  have m: "map (\<lambda>(cl, l, f). f) (filter (\<lambda>(cl, l, f). \<not> boundary cl) (map (\<lambda>(l, f). (k, l, f)) (zip ls fs))) = fs"
    if "\<not> boundary k" "length fs = length ls" for k ls and fs :: "LTLFormula list"
    using that(2,1) by (induction fs ls rule: list_induct2) auto
  have n: "\<not> boundary Hard_invariant" "\<not> boundary Hard_governance" by (simp_all add: boundary_def)
  show "map (\<lambda>(cl, l, f). f) (filter (\<lambda>(cl, l, f). \<not> boundary cl) (hard_clauses ph c p)) = pf_hard_invariants p @ pf_hard_governance p"
    unfolding hard_clauses_def filter_append map_append m[OF n(1) parsed_lengths(1)[OF assms]] m[OF n(2) parsed_lengths(3)[OF assms]]
    by (auto simp: boundary_def split: option.splits)
  show "map (\<lambda>(cl, j, l, f). f) (soft_clauses c p) = pf_soft_invariants p @ pf_soft_governance p"
    using parsed_lengths[OF assms] by (simp add: soft_clauses_def numbered_formulas)
qed

lemma check_contract_count:
  assumes "check_contract re cx agent ph step c p a en = (Inr a', en')" and "distinct (map fst (en_soft_pending en))"
    and "contract_formulas c = Inr p"
  shows "hard_count a' = tally re cx (pf_hard_invariants p @ pf_hard_governance p) (hard_count a)"
    "soft_count a' = tally re cx (pf_soft_invariants p @ pf_soft_governance p) (soft_count a)"
proof -
  obtain a1 en1 a2 where
    h: "hard_loop re cx c step (hard_clauses ph c p) (a\<lparr>ca_had_violation := False\<rparr>) en = (Inr a1, en1)" and
    s: "soft_loop re cx agent c step (soft_clauses c p) a1 en1 = (Inr a2, en')" and
    a': "a' = (if ca_had_violation a2 then a2\<lparr>ca_violated_ids := ca_violated_ids a2 @ [bc_contract_id c]\<rparr> else a2)"
    using assms(1) unfolding check_contract_loops by (auto simp: eff_rules)
  note H = hard_loop_run[OF h]
  have d: "distinct (map fst (en_soft_pending en1))" using H assms(2) by simp
  have a1: "a1 = foldl (\<lambda>a (cl, l, f). count_hard cl (holds re cx f) a) (a\<lparr>ca_had_violation := False\<rparr>) (hard_clauses ph c p)"
    using H by (elim conjE)
  have a2: "a2 = foldl (\<lambda>a (cl, j, l, f). count_soft (holds re cx f) a) a1 (soft_clauses c p)"
    using soft_loop_run[OF s d soft_clauses_keys] by (elim conjE)
  have same: "hard_count a' = hard_count a2" "soft_count a' = soft_count a2"
    "hard_count (a\<lparr>ca_had_violation := False\<rparr>) = hard_count a" "soft_count (a\<lparr>ca_had_violation := False\<rparr>) = soft_count a"
    by (simp_all add: a' hard_count_def soft_count_def)
  show "hard_count a' = tally re cx (pf_hard_invariants p @ pf_hard_governance p) (hard_count a)"
    unfolding same(1) a2 soft_tally[THEN conjunct2] a1 hard_tally[THEN conjunct1] clause_formulas(1)[OF assms(3)] same(3) ..
  show "soft_count a' = tally re cx (pf_soft_invariants p @ pf_soft_governance p) (soft_count a)"
    unfolding same(2) a2 soft_tally[THEN conjunct1] clause_formulas(2)[OF assms(3)] a1 hard_tally[THEN conjunct2] same(4) ..
qed

lemma defined_formulas:
  assumes "contract_defined re cx ph c p" and "contract_formulas c = Inr p"
    and "f \<in> set (pf_hard_invariants p @ pf_hard_governance p @ pf_soft_invariants p @ pf_soft_governance p)"
  shows "formula_holds re cx f \<in> {Inr True, Inr False}"
proof -
  have "f \<in> (\<lambda>(cl, l, f). f) ` set (hard_clauses ph c p) \<or> f \<in> (\<lambda>(cl, j, l, f). f) ` set (soft_clauses c p)"
    using assms(3) arg_cong[OF clause_formulas(1)[OF assms(2), of ph], of set] arg_cong[OF clause_formulas(2)[OF assms(2)], of set] by auto
  then show ?thesis using assms(1) unfolding contract_defined_def by fastforce
qed

lemma count_contracts_run:
  assumes "check_contracts re cx agent ph step cs a en = (Inr a', en')" and "distinct (map fst (en_soft_pending en))"
    and "\<forall>c\<in>set cs. \<exists>p. map_of (en_parsed en) (bc_contract_id c) = Some p \<and> contract_formulas c = Inr p"
  shows "count_contracts re cx (en_parsed en) cs (hard_count a, soft_count a) = Inr (hard_count a', soft_count a')"
  using assms
proof (induction cs arbitrary: a en)
  case Nil
  then show ?case by (simp add: eff_rules)
next
  case (Cons c cs)
  obtain p where p: "map_of (en_parsed en) (bc_contract_id c) = Some p" "contract_formulas c = Inr p" using Cons.prems(3) by auto
  obtain a1 en1 where one: "check_contract re cx agent ph step c p a en = (Inr a1, en1)"
    and rest: "check_contracts re cx agent ph step cs a1 en1 = (Inr a', en')"
    using Cons.prems(1) p(1) by (auto simp: eff_rules)
  note C = check_contract_run[OF one Cons.prems(2)]
  have e1: "en_parsed en1 = en_parsed en" using C(1) by (simp add: same_base_def)
  have "count_contracts re cx (en_parsed en) cs (hard_count a1, soft_count a1) = Inr (hard_count a', soft_count a')"
    using Cons.IH[OF rest C(2)] Cons.prems(3) by (simp add: e1)
  moreover have ch: "count_holding re cx fs x = Inr (tally re cx fs x)"
    if "set fs \<subseteq> set (pf_hard_invariants p @ pf_hard_governance p @ pf_soft_invariants p @ pf_soft_governance p)" for fs x
    using that defined_formulas[OF C(4) p(2)] by (intro count_holding_tally) blast
  ultimately show ?case
    using check_contract_count[OF one Cons.prems(2) p(2)] ch[of "pf_hard_invariants p"] ch[of "pf_hard_governance p"]
      ch[of "pf_soft_invariants p"] ch[of "pf_soft_governance p"] by (simp add: p(1) tally_append le_supI2 del: count_holding.simps)
qed

text \<open>
  (C36) A check that returns appends to the compliance history exactly the scores that \<open>compliance_scores\<close>, asked
  just before, reports for the same agent, event and state; the two count the clauses separately.
\<close>

theorem check_appends_compliance_scores:
  assumes "enforcer_reach re en" and "enforcer_check re agent ev st w ph en = (Inr r, en')"
  shows "\<exists>s. compliance_scores re agent ev st w en = Inr s \<and> en_c_hard_history en' = en_c_hard_history en @ [cs_c_hard s]
    \<and> en_c_soft_history en' = en_c_soft_history en @ [cs_c_soft s]"
proof -
  let ?n = "en_step_index en + 1" and ?cx = "context_of ev st w"
  have ok: "enforcer_ok en" using assms(1) by (rule reach_ok)
  obtain a en1 where c: "check_contracts re ?cx agent ph ?n (active en agent ev) acc_init (started en) = (Inr a, en1)"
    and sw: "sweep_loop (expired (scored a en1) ?n) ev ?n (scored a en1) = (Inr (), en')"
    using assms(2) unfolding enforcer_check_eq by (auto split: prod.splits sum.splits)
  have d: "distinct (map fst (en_soft_pending (started en)))" using ok by (simp add: started_def enforcer_ok_def pending_ok_def)
  have "\<forall>c\<in>set (active en agent ev). \<exists>p. map_of (en_parsed (started en)) (bc_contract_id c) = Some p \<and> contract_formulas c = Inr p"
    using ok subsetD[OF active_subset] by (fastforce simp: started_def enforcer_ok_def contracts_ok_def)
  from count_contracts_run[OF c d this]
  have cc: "count_contracts re ?cx (en_parsed en) (active en agent ev) ((0, 0), (0, 0)) = Inr (hard_count a, soft_count a)"
    by (simp add: started_def hard_count_def soft_count_def acc_init_def)
  note C = check_contracts_run[OF c d active_distinct[OF ok]]
  have b1: "same_base (started en) en1" "distinct (map fst (en_soft_pending (scored a en1)))" using C by (auto simp: scored_def)
  have "\<forall>k\<in>set (expired (scored a en1) ?n). pend (scored a en1) k \<noteq> None" using expired_ok(2)[OF b1(2)] by auto
  from sweep_loop_run[OF b1(2) expired_ok(1)[OF b1(2)] this, of ev ?n] sw have "same_base (scored a en1) en'" by auto
  with b1(1) have "en_c_hard_history en' = en_c_hard_history en @ [compliance (ca_hard_satisfied a) (ca_hard_total a)]"
    "en_c_soft_history en' = en_c_soft_history en @ [compliance (ca_soft_satisfied a) (ca_soft_total a)]"
    by (simp_all add: same_base_def scored_def started_def)
  with cc show ?thesis
    by (simp add: compliance_scores_def context_of_def active_def hard_count_def soft_count_def Let_def)
qed

theorem check_appends_compliance_scores_witness:
  "\<exists>s. compliance_scores (\<lambda>_ _. Inr False) ''a'' (demo_event ''b'') demo_state [] demo_enforcer = Inr s \<and> cs_c_hard s = Fin 1 \<and> cs_c_soft s = Fin 0"
proof -
  have "en_c_hard_history (snd (demo_step ''b'' demo_enforcer)) = [Fin 1]" "en_c_soft_history (snd (demo_step ''b'' demo_enforcer)) = [Fin 0]"
    "en_c_hard_history demo_enforcer = []" "en_c_soft_history demo_enforcer = []" by code_simp+
  then show ?thesis using check_appends_compliance_scores[OF demo_reach demo_check] by auto
qed

end
