(* ===== verification/Contract_New.thy ===== *)
theory Contract_New
  imports Contract_Claims
begin

text \<open>
  The violations that one check adds, by kind. Formulas are judged on the proposed event and the state alone.
\<close>

section \<open>The window\<close>

lemma window_fields: "cx_proposed_event (cx\<lparr>cx_event_window := w\<rparr>) = cx_proposed_event cx" "cx_state (cx\<lparr>cx_event_window := w\<rparr>) = cx_state cx"
  by simp_all

lemma formula_holds_window: "formula_holds re (cx\<lparr>cx_event_window := w\<rparr>) f = formula_holds re cx f"
proof -
  have "make_resolver re (cx\<lparr>cx_event_window := w\<rparr>) = (make_resolver re cx :: string \<Rightarrow> pybag \<Rightarrow> contract_error + bool)"
    unfolding make_resolver_def resolve_atom_def window_fields ..
  then show ?thesis by (simp add: formula_holds_def trace_for_def)
qed

section \<open>The violations of a check\<close>

lemma expired_between:
  assumes "enforcer_ok en" and "distinct (map fst (en_soft_pending en1))"
    and "\<forall>c\<in>set (active en agent ev). keys_updated re cx agent n c (parsed_of en c) en en1"
    and "\<forall>key. (\<forall>c\<in>set (active en agent ev). key \<notin> clause_keys agent c (parsed_of en c)) \<longrightarrow> pend en1 key = pend en key"
  shows "key \<in> set (expired en1 n) \<longleftrightarrow> (\<exists>e. pend en key = Some e \<and> re_deadline_step e < n)"
    "key \<in> set (expired en1 n) \<Longrightarrow> pend en1 key = pend en key"
proof -
  have "pend en1 key = pend en key \<or> (\<exists>c f l. 0 \<le> bc_recovery_window_k c
      \<and> pend en1 key = soft_update (holds re cx f) (new_entry key c l (fst (snd (snd key))) (cx_proposed_event cx) n) n (pend en key))"
    using pend_between[OF assms(1,3,4), of key] check_contract_window[OF assms(1)] by blast
  then show "key \<in> set (expired en1 n) \<longleftrightarrow> (\<exists>e. pend en key = Some e \<and> re_deadline_step e < n)"
    "key \<in> set (expired en1 n) \<Longrightarrow> pend en1 key = pend en key"
    unfolding expired_ok(2)[OF assms(2)]
    by (auto simp: soft_update_def new_entry_def split: if_splits option.splits)
qed

lemma check_new_violations:
  assumes "enforcer_ok en" and "enforcer_check re agent ev st w ph en = (Inr (ok, ids), en')"
  defines "n \<equiv> en_step_index en + 1" and "cx \<equiv> context_of ev st w"
  obtains ks where "set ks = {k. \<exists>e. pend en k = Some e \<and> re_deadline_step e < n}"
    "map vi_core (drop (length (en_violations en)) (en_violations en'))
       = concat (map (contract_new re cx agent ph n en) (active en agent ev)) @ concat (map (\<lambda>k. escalation en ev n (the (pend en k))) ks)"
    "\<forall>c\<in>set (active en agent ev). contract_defined re cx ph c (parsed_of en c)"
proof -
  obtain en1 where d: "distinct (map fst (en_soft_pending en1))"
    "\<forall>c\<in>set (active en agent ev). contract_defined re cx ph c (parsed_of en c) \<and> keys_updated re cx agent n c (parsed_of en c) en en1"
    "\<forall>key. (\<forall>c\<in>set (active en agent ev). key \<notin> clause_keys agent c (parsed_of en c)) \<longrightarrow> pend en1 key = pend en key"
    "cores en' = cores en @ concat (map (contract_new re cx agent ph n en) (active en agent ev))
       @ concat (map (\<lambda>k. escalation en ev n (the (pend en1 k))) (expired en1 n))"
    unfolding n_def cx_def by (rule enforcer_check_run[OF assms(1,2)]) blast
  have ku: "\<forall>c\<in>set (active en agent ev). keys_updated re cx agent n c (parsed_of en c) en en1" using d(2) by blast
  note x = expired_between[OF assms(1) d(1) ku d(3)]
  have same: "map (\<lambda>k. escalation en ev n (the (pend en1 k))) (expired en1 n) = map (\<lambda>k. escalation en ev n (the (pend en k))) (expired en1 n)"
    using x(2) by simp
  show thesis
  proof (rule that[of "expired en1 n"])
    show "set (expired en1 n) = {k. \<exists>e. pend en k = Some e \<and> re_deadline_step e < n}" using x(1) by blast
    show "map vi_core (drop (length (en_violations en)) (en_violations en'))
       = concat (map (contract_new re cx agent ph n en) (active en agent ev)) @ concat (map (\<lambda>k. escalation en ev n (the (pend en k))) (expired en1 n))"
      unfolding drop_map[symmetric] d(4) same by simp
    show "\<forall>c\<in>set (active en agent ev). contract_defined re cx ph c (parsed_of en c)" using d(2) by blast
  qed
qed

lemma core_clause [simp]: "vi_violated_clause (vi_core v) = vi_violated_clause v"
  by (simp add: vi_core_def)

lemma new_clause [simp]: "vi_violated_clause (new_violation c l cl so ev st d so2 tr) = cl"
  by (simp add: new_violation_def)

lemma hard_new_kind: "v \<in> set (hard_new re cx n c (hard_clauses ph c p)) \<Longrightarrow> \<not> soft_kind (vi_violated_clause v)"
  by (auto simp: hard_new_def dest: hard_clauses_kind)

lemma soft_new_kind: "v \<in> set (soft_new re cx agent n m c (soft_clauses c p)) \<Longrightarrow> soft_kind (vi_violated_clause v)"
  by (auto simp: soft_new_def dest: soft_clauses_kind)

lemma escalation_of_pending:
  assumes "enforcer_ok en" and "pend en k = Some e"
  shows "escalation en ev n e \<noteq> []" "v \<in> set (escalation en ev n e) \<Longrightarrow> soft_kind (vi_violated_clause v)"
proof -
  have e: "entry_ok (en_contracts en) (en_step_index en) k e"
    using assms map_of_SomeD[OF assms(2)] by (auto simp: enforcer_ok_def pending_ok_def)
  then have "find_contract (re_contract_id e) (en_contracts en) \<noteq> None" by (auto simp: find_contract_None entry_ok_def)
  then obtain c where "find_contract (re_contract_id e) (en_contracts en) = Some c" by blast
  then show "escalation en ev n e \<noteq> []" "v \<in> set (escalation en ev n e) \<Longrightarrow> soft_kind (vi_violated_clause v)"
    using e by (auto simp: escalation_def entry_ok_def)
qed

text \<open>
  A check adds a violation of a hard clause exactly when an applicable contract has a hard clause that fails, and one of a soft
  clause exactly when a soft clause fails that has no open obligation, or an obligation ran out.
\<close>

lemma check_adds_by_kind:
  assumes "enforcer_ok en" and "enforcer_check re agent ev st w ph en = (Inr (ok, ids), en')"
  defines "new \<equiv> drop (length (en_violations en)) (en_violations en')" and "cx \<equiv> context_of ev st w"
  shows "(\<exists>v\<in>set new. \<not> soft_kind (vi_violated_clause v)) \<longleftrightarrow> (\<exists>c\<in>set (active en agent ev). contract_fails re cx ph c (parsed_of en c))"
    "(\<exists>v\<in>set new. soft_kind (vi_violated_clause v)) \<longleftrightarrow>
       (\<exists>c\<in>set (active en agent ev). \<exists>(cl, j, l, f)\<in>set (soft_clauses c (parsed_of en c)). fails re cx f \<and> pend en (agent, bc_contract_id c, cl, j) = None)
       \<or> (\<exists>k e. pend en k = Some e \<and> re_deadline_step e < en_step_index en + 1)"
proof -
  let ?n = "en_step_index en + 1"
  obtain ks where k: "set ks = {k. \<exists>e. pend en k = Some e \<and> re_deadline_step e < ?n}"
    "map vi_core new = concat (map (contract_new re cx agent ph ?n en) (active en agent ev)) @ concat (map (\<lambda>k. escalation en ev ?n (the (pend en k))) ks)"
    unfolding new_def cx_def by (rule check_new_violations[OF assms(1,2)])
  have cores: "(\<exists>v\<in>set new. P (vi_violated_clause v)) \<longleftrightarrow> (\<exists>v\<in>set (map vi_core new). P (vi_violated_clause v))" for P by simp
  have split: "(\<exists>v\<in>set new. P (vi_violated_clause v)) \<longleftrightarrow>
      (\<exists>c\<in>set (active en agent ev). (\<exists>v\<in>set (hard_new re cx ?n c (hard_clauses ph c (parsed_of en c))). P (vi_violated_clause v))
          \<or> (\<exists>v\<in>set (soft_new re cx agent ?n (pend en) c (soft_clauses c (parsed_of en c))). P (vi_violated_clause v)))
      \<or> (\<exists>k\<in>set ks. \<exists>v\<in>set (escalation en ev ?n (the (pend en k))). P (vi_violated_clause v))" for P
    unfolding cores k(2) by (auto simp: contract_new_def)
  have esc: "\<exists>v\<in>set (escalation en ev ?n (the (pend en k))). soft_kind (vi_violated_clause v)"
    "\<not> (\<exists>v\<in>set (escalation en ev ?n (the (pend en k))). \<not> soft_kind (vi_violated_clause v))" if kk: "k \<in> set ks" for k
  proof -
    obtain e where e: "pend en k = Some e" using kk k(1) by blast
    show "\<exists>v\<in>set (escalation en ev ?n (the (pend en k))). soft_kind (vi_violated_clause v)"
      "\<not> (\<exists>v\<in>set (escalation en ev ?n (the (pend en k))). \<not> soft_kind (vi_violated_clause v))"
      using escalation_of_pending[OF assms(1) e] unfolding e option.sel by (metis last_in_set, blast)
  qed
  have hard: "(\<exists>v\<in>set (hard_new re cx ?n c (hard_clauses ph c p)). \<not> soft_kind (vi_violated_clause v)) \<longleftrightarrow> contract_fails re cx ph c p" for c p
  proof -
    have "hard_new re cx ?n c (hard_clauses ph c p) \<noteq> [] \<longleftrightarrow> contract_fails re cx ph c p"
      by (auto simp: hard_new_def contract_fails_def filter_empty_conv)
    then show ?thesis using hard_new_kind[of _ re cx ?n c ph p] by (metis last_in_set empty_iff list.set(1))
  qed
  have soft: "(\<exists>v\<in>set (soft_new re cx agent ?n m c (soft_clauses c p)). soft_kind (vi_violated_clause v)) \<longleftrightarrow>
      (\<exists>(cl, j, l, f)\<in>set (soft_clauses c p). fails re cx f \<and> m (agent, bc_contract_id c, cl, j) = None)" for m c p
  proof -
    have "soft_new re cx agent ?n m c (soft_clauses c p) \<noteq> [] \<longleftrightarrow>
        (\<exists>(cl, j, l, f)\<in>set (soft_clauses c p). fails re cx f \<and> m (agent, bc_contract_id c, cl, j) = None)"
      by (auto simp: soft_new_def filter_empty_conv)
    then show ?thesis using soft_new_kind[of _ re cx agent ?n m c p] by (metis last_in_set empty_iff list.set(1))
  qed
  show "(\<exists>v\<in>set new. \<not> soft_kind (vi_violated_clause v)) \<longleftrightarrow> (\<exists>c\<in>set (active en agent ev). contract_fails re cx ph c (parsed_of en c))"
    unfolding split[of "\<lambda>cl. \<not> soft_kind cl"] hard using esc(2) soft_new_kind by blast
  show "(\<exists>v\<in>set new. soft_kind (vi_violated_clause v)) \<longleftrightarrow>
       (\<exists>c\<in>set (active en agent ev). \<exists>(cl, j, l, f)\<in>set (soft_clauses c (parsed_of en c)). fails re cx f \<and> pend en (agent, bc_contract_id c, cl, j) = None)
       \<or> (\<exists>k e. pend en k = Some e \<and> re_deadline_step e < ?n)"
    unfolding split[of soft_kind] soft using esc(1) hard_new_kind k(1) by blast
qed

end
