(* ===== verification/Action_Ledger.thy ===== *)
theory Action_Ledger
  imports Signals Contract_Atoms
begin

text \<open>
  The action ledger of an agent (\<^verbatim>\<open>stores/action_ledger.py\<close>) with its entries and the behavioral baseline
  derived from them (\<^verbatim>\<open>domain/agent.py\<close>).

  Correspondence. UUIDs are their texts. A bounded \<^verbatim>\<open>deque\<close> is a list, oldest first, and a \<^verbatim>\<open>Counter\<close> an association
  list in order of first occurrence. An entry carries the texts of its two floats, which the contract bridge reads.
  The lock and the time of computation are left out.
\<close>

section \<open>Entries\<close>

record ledger_entry =
  al_agent_id :: string
  al_session_id :: "string option"
  al_verdict :: string
  al_action_type :: string
  al_channel :: string
  al_environment :: string
  al_recipient :: "string option"
  al_final_score :: pyfloat
  al_final_score_text :: string
  al_confidence :: pyfloat
  al_confidence_text :: string
  al_content_sha256 :: string
  al_policy_version :: "string option"
  al_evidence_hash :: "string option"
  al_capability_violations :: "string list"
  al_asi_short_codes :: "string list"
  al_mcp_server_ids :: "string list"
  al_tools :: "string list"
  al_data_scopes :: "string list"
  al_recorded_at :: py_datetime

text \<open>
  Validation of an entry: texts are stripped before their lengths are checked, digests afterwards.
\<close>

definition normalize_required :: "nat \<Rightarrow> string \<Rightarrow> value_error + string" where
  "normalize_required n s = sbind (normalize_non_blank s) (\<lambda>t. if n < length t then Inl ValueError else Inr t)"

definition normalize_optional :: "nat \<Rightarrow> string option \<Rightarrow> value_error + string option" where
  "normalize_optional n so = (case so of None \<Rightarrow> Inr None
     | Some s \<Rightarrow> let t = py_strip s in if t = [] then Inr None else if n < length t then Inl ValueError else Inr (Some t))"

fun normalize_lowercase_loop :: "string list \<Rightarrow> string list \<Rightarrow> value_error + string list" where
  "normalize_lowercase_loop seen [] = Inr []"
| "normalize_lowercase_loop seen (x # xs) =
     (let c = py_casefold (py_strip x) in
      if c = [] then Inl ValueError
      else if c \<in> set seen then normalize_lowercase_loop seen xs
      else sbind (normalize_lowercase_loop (c # seen) xs) (\<lambda>ys. Inr (c # ys)))"

definition normalize_lowercase_string_tuple :: "string list \<Rightarrow> value_error + string list" where
  "normalize_lowercase_string_tuple xs = normalize_lowercase_loop [] xs"

definition validate_sha :: "string \<Rightarrow> value_error + string" where
  "validate_sha s = (if length s \<noteq> 64 then Inl ValueError
     else let t = py_lower (py_strip s) in
          if length t \<noteq> 64 \<or> list_ex (\<lambda>c. c \<notin> set ''0123456789abcdef'') t then Inl ValueError else Inr t)"

definition unit_field :: "pyfloat \<Rightarrow> value_error + pyfloat" where
  "unit_field x = (if fl_le (Fin 0) x \<and> fl_le x (Fin 1) then Inr x else Inl ValueError)"

definition ActionLedgerEntry_init :: "ledger_entry \<Rightarrow> value_error + ledger_entry" where
  "ActionLedgerEntry_init e =
     sbind (normalize_optional 200 (al_session_id e)) (\<lambda>session.
     sbind (normalize_required 20 (al_verdict e)) (\<lambda>verdict.
     sbind (normalize_required 100 (al_action_type e)) (\<lambda>action.
     sbind (normalize_required 50 (al_channel e)) (\<lambda>ch.
     sbind (normalize_required 50 (al_environment e)) (\<lambda>environment.
     sbind (normalize_optional 500 (al_recipient e)) (\<lambda>rcpt.
     sbind (unit_field (al_final_score e)) (\<lambda>score.
     sbind (unit_field (al_confidence e)) (\<lambda>confidence.
     sbind (validate_sha (al_content_sha256 e)) (\<lambda>content.
     sbind (case al_policy_version e of None \<Rightarrow> Inr None
            | Some v \<Rightarrow> if 100 < length v then Inl ValueError else Inr (Some v)) (\<lambda>version.
     sbind (case al_evidence_hash e of None \<Rightarrow> Inr None
            | Some h \<Rightarrow> sbind (validate_sha h) (\<lambda>h. Inr (Some h))) (\<lambda>evidence.
     sbind (normalize_lowercase_string_tuple (al_capability_violations e)) (\<lambda>violations.
     sbind (normalize_lowercase_string_tuple (al_asi_short_codes e)) (\<lambda>codes.
     sbind (normalize_lowercase_string_tuple (al_mcp_server_ids e)) (\<lambda>servers.
     sbind (normalize_lowercase_string_tuple (al_tools e)) (\<lambda>tls.
     sbind (normalize_lowercase_string_tuple (al_data_scopes e)) (\<lambda>scopes.
     Inr (e\<lparr>al_session_id := session, al_verdict := verdict, al_action_type := action, al_channel := ch,
       al_environment := environment, al_recipient := rcpt, al_final_score := score, al_confidence := confidence,
       al_content_sha256 := content, al_policy_version := version, al_evidence_hash := evidence,
       al_capability_violations := violations, al_asi_short_codes := codes, al_mcp_server_ids := servers,
       al_tools := tls, al_data_scopes := scopes\<rparr>)))))))))))))))))"

section \<open>The ledger\<close>

record action_ledger =
  lg_by_agent :: "(string \<times> ledger_entry list) list"
  lg_per_agent_limit :: nat
  lg_global_count :: nat
  lg_global_order :: "ledger_entry list"

definition deque_append :: "nat \<Rightarrow> 'a list \<Rightarrow> 'a \<Rightarrow> 'a list" where
  "deque_append maxlen q x = keep_last maxlen (q @ [x])"

definition ledger_append :: "ledger_entry \<Rightarrow> action_ledger \<Rightarrow> action_ledger" where
  "ledger_append e lg =
     (let queue = (case map_of (lg_by_agent lg) (al_agent_id e) of None \<Rightarrow> [] | Some q \<Rightarrow> q) in
      lg\<lparr>lg_by_agent := AList.update (al_agent_id e) (deque_append (lg_per_agent_limit lg) queue e) (lg_by_agent lg),
         lg_global_order := lg_global_order lg @ [e], lg_global_count := lg_global_count lg + 1\<rparr>)"

definition InMemoryActionLedger_init :: "int \<Rightarrow> ledger_entry list \<Rightarrow> value_error + action_ledger" where
  "InMemoryActionLedger_init per_agent_limit initial =
     (if per_agent_limit < 1 then Inl ValueError
      else Inr (fold ledger_append initial
        \<lparr>lg_by_agent = [], lg_per_agent_limit = nat per_agent_limit, lg_global_count = 0, lg_global_order = []\<rparr>))"

text \<open>\<^verbatim>\<open>xs[-n:]\<close>.\<close>

definition py_suffix :: "int \<Rightarrow> 'a list \<Rightarrow> 'a list" where
  "py_suffix n xs = (if n = 0 then xs else if n < 0 then drop (nat (- n)) xs else drop (length xs - nat n) xs)"

definition list_all_entries :: "int option \<Rightarrow> action_ledger \<Rightarrow> ledger_entry list" where
  "list_all_entries limit lg = (case limit of None \<Rightarrow> lg_global_order lg
     | Some n \<Rightarrow> if n \<le> 0 then [] else py_suffix n (lg_global_order lg))"

definition list_for_agent :: "string \<Rightarrow> int option \<Rightarrow> action_ledger \<Rightarrow> ledger_entry list" where
  "list_for_agent agent limit lg = (case map_of (lg_by_agent lg) agent of None \<Rightarrow> []
     | Some q \<Rightarrow> if q = [] then [] else (case limit of None \<Rightarrow> q | Some n \<Rightarrow> if n \<le> 0 then [] else py_suffix n q))"

definition count_for_agent :: "string \<Rightarrow> action_ledger \<Rightarrow> nat" where
  "count_for_agent agent lg = (case map_of (lg_by_agent lg) agent of None \<Rightarrow> 0 | Some q \<Rightarrow> length q)"

definition total_count :: "action_ledger \<Rightarrow> nat" where
  "total_count lg = lg_global_count lg"

section \<open>The baseline\<close>

record behavioral_baseline =
  bb_agent_id :: string
  bb_sample_size :: nat
  bb_permit_rate :: pyfloat
  bb_abstain_rate :: pyfloat
  bb_forbid_rate :: pyfloat
  bb_action_type_distribution :: "(string \<times> pyfloat) list"
  bb_channel_distribution :: "(string \<times> pyfloat) list"
  bb_recipient_domain_distribution :: "(string \<times> pyfloat) list"
  bb_mean_final_score :: pyfloat
  bb_capability_violation_rate :: pyfloat
  bb_forbid_streak :: nat

definition BehavioralBaseline_init :: "behavioral_baseline \<Rightarrow> value_error + behavioral_baseline" where
  "BehavioralBaseline_init b =
     sbind (unit_field (bb_permit_rate b)) (\<lambda>_. sbind (unit_field (bb_abstain_rate b)) (\<lambda>_.
     sbind (unit_field (bb_forbid_rate b)) (\<lambda>_. sbind (unit_field (bb_mean_final_score b)) (\<lambda>_.
     sbind (unit_field (bb_capability_violation_rate b)) (\<lambda>_. Inr b)))))"

type_synonym py_counter = "(string \<times> nat) list"

definition counter_get :: "py_counter \<Rightarrow> string \<Rightarrow> nat" where
  "counter_get c k = (case map_of c k of None \<Rightarrow> 0 | Some n \<Rightarrow> n)"

definition counter_add :: "string \<Rightarrow> py_counter \<Rightarrow> py_counter" where
  "counter_add k c = AList.update k (counter_get c k + 1) c"

definition distribution :: "py_counter \<Rightarrow> nat \<Rightarrow> (string \<times> pyfloat) list" where
  "distribution c n = (if n = 0 then [] else map (\<lambda>(k, v). (k, py_round 4 (int_ratio v n))) c)"

definition extract_recipient_domain :: "string option \<Rightarrow> string option" where
  "extract_recipient_domain ro = (case ro of None \<Rightarrow> None
     | Some r \<Rightarrow>
         let s = py_casefold (py_strip r); or_none = (\<lambda>t. if t = [] then None else Some t) in
         if s = [] then None
         else if CHR ''@'' \<in> set s then or_none (rev (takeWhile (\<lambda>c. c \<noteq> CHR ''@'') (rev s)))
         else case py_find ''://'' s of Some i \<Rightarrow> or_none (takeWhile (\<lambda>c. c \<noteq> CHR ''/'') (drop (i + 3) s))
         | None \<Rightarrow> Some s)"

record baseline_acc =
  ba_verdicts :: py_counter
  ba_actions :: py_counter
  ba_channels :: py_counter
  ba_domains :: py_counter
  ba_score_sum :: pyfloat
  ba_violations :: nat

definition baseline_step :: "ledger_entry \<Rightarrow> baseline_acc \<Rightarrow> baseline_acc" where
  "baseline_step e a = \<lparr>ba_verdicts = counter_add (py_upper (al_verdict e)) (ba_verdicts a),
     ba_actions = counter_add (al_action_type e) (ba_actions a),
     ba_channels = counter_add (al_channel e) (ba_channels a),
     ba_domains = (case extract_recipient_domain (al_recipient e) of None \<Rightarrow> ba_domains a | Some d \<Rightarrow> counter_add d (ba_domains a)),
     ba_score_sum = fl_add (ba_score_sum a) (al_final_score e),
     ba_violations = (if al_capability_violations e \<noteq> [] then ba_violations a + 1 else ba_violations a)\<rparr>"

definition baseline_start :: baseline_acc where
  "baseline_start = \<lparr>ba_verdicts = [], ba_actions = [], ba_channels = [], ba_domains = [], ba_score_sum = Fin 0, ba_violations = 0\<rparr>"

fun forbid_streak :: "ledger_entry list \<Rightarrow> nat" where
  "forbid_streak [] = 0"
| "forbid_streak (e # es) = (if py_upper (al_verdict e) = ''FORBID'' then forbid_streak es + 1 else 0)"

definition compute_baseline :: "string \<Rightarrow> int \<Rightarrow> action_ledger \<Rightarrow> value_error + behavioral_baseline" where
  "compute_baseline agent window lg =
     (if window \<le> 0 then Inl ValueError
      else let entries = list_for_agent agent (Some window) lg; n = length entries in
        if n = 0 then BehavioralBaseline_init
          \<lparr>bb_agent_id = agent, bb_sample_size = 0, bb_permit_rate = Fin 0, bb_abstain_rate = Fin 0, bb_forbid_rate = Fin 0,
           bb_action_type_distribution = [], bb_channel_distribution = [], bb_recipient_domain_distribution = [],
           bb_mean_final_score = Fin 0, bb_capability_violation_rate = Fin 0, bb_forbid_streak = 0\<rparr>
        else let a = fold baseline_step entries baseline_start in
          case fl_div (ba_score_sum a) (fl_round (of_nat n)) of None \<Rightarrow> Inl ZeroDivisionError
          | Some mean \<Rightarrow> BehavioralBaseline_init
            \<lparr>bb_agent_id = agent, bb_sample_size = n,
             bb_permit_rate = py_round 4 (int_ratio (counter_get (ba_verdicts a) ''PERMIT'') n),
             bb_abstain_rate = py_round 4 (int_ratio (counter_get (ba_verdicts a) ''ABSTAIN'') n),
             bb_forbid_rate = py_round 4 (int_ratio (counter_get (ba_verdicts a) ''FORBID'') n),
             bb_action_type_distribution = distribution (ba_actions a) n,
             bb_channel_distribution = distribution (ba_channels a) n,
             bb_recipient_domain_distribution = distribution (ba_domains a) n,
             bb_mean_final_score = py_round 4 mean,
             bb_capability_violation_rate = py_round 4 (int_ratio (ba_violations a) n),
             bb_forbid_streak = forbid_streak (rev entries)\<rparr>)"

end
