(* ===== verification/Contract_Bridge.thy ===== *)
theory Contract_Bridge
  imports Contracts Action_Ledger
begin

text \<open>
  The bridge from an evaluation request to the contract enforcer (\<^verbatim>\<open>engine/contract_bridge.py\<close>): one enforcer per
  session in a least-recently-used registry, primed from the action ledger, and the outcome that the decision point
  reads.

  Correspondence. The registry owns its enforcers: an operation on the enforcer that \<^verbatim>\<open>get_or_create\<close> returned is an
  update of the entry under its key. An exception leaves the changes made before it. The ledger is an argument: no ledger, an
  object without \<^verbatim>\<open>list_for_agent\<close>, or a reader that returns entries or raises. Locks, latencies and the metadata
  of findings are left out.
\<close>

section \<open>Requests and ledger entries as events\<close>

record runtime_identity =
  ri_agent_id :: "string option"
  ri_external_agent_id :: "string option"
  ri_agent_name :: "string option"
  ri_tenant_id :: string
  ri_mcp_server_ids :: "string list"
  ri_tools :: "string list"

record evaluation_request = request +
  er_request_id :: string
  er_content :: string
  er_environment :: string
  er_session_id :: "string option"
  er_agent_identity :: "runtime_identity option"
  er_requested_at :: py_datetime
  er_metadata_text :: string

definition event_kind_prefix :: string where
  "event_kind_prefix = ''guardrail.''"

definition opt_text :: "string option \<Rightarrow> pyval" where
  "opt_text so = (case so of None \<Rightarrow> VNone | Some s \<Rightarrow> VStr s)"

definition when_some :: "string \<Rightarrow> string option \<Rightarrow> pybag" where
  "when_some k so = (case so of None \<Rightarrow> [] | Some s \<Rightarrow> [(k, VStr s)])"

definition list_value :: "string list \<Rightarrow> pyval" where
  "list_value xs = VList (map VStr xs) (''['' @ py_join '', '' (map py_repr xs) @ '']'')"

definition when_any :: "string \<Rightarrow> string list \<Rightarrow> pybag" where
  "when_any k xs = (if xs = [] then [] else [(k, list_value xs)])"

definition proposed_event_from_ledger_entry :: "ledger_entry \<Rightarrow> proposed_event" where
  "proposed_event_from_ledger_entry e =
     \<lparr>pe_event_kind = event_kind_prefix @ al_action_type e, pe_actor_entity_id = al_agent_id e, pe_target_entity_id = al_recipient e,
      pe_payload = [(''action_type'', VStr (al_action_type e)), (''channel'', VStr (al_channel e)),
        (''environment'', VStr (al_environment e)), (''verdict'', VStr (al_verdict e)),
        (''final_score'', VFloat (al_final_score e) (al_final_score_text e)),
        (''confidence'', VFloat (al_confidence e) (al_confidence_text e)),
        (''content_sha256'', VStr (al_content_sha256 e)), (''policy_version'', opt_text (al_policy_version e)),
        (''evidence_hash'', opt_text (al_evidence_hash e))]
        @ when_some ''recipient'' (al_recipient e) @ when_some ''session_id'' (al_session_id e)
        @ when_any ''capability_violations'' (al_capability_violations e) @ when_any ''asi_short_codes'' (al_asi_short_codes e)
        @ when_any ''tools'' (al_tools e) @ when_any ''mcp_server_ids'' (al_mcp_server_ids e),
      pe_proposed_at = al_recorded_at e, pe_session_id = al_session_id e, pe_upstream_event_ids = []\<rparr>"

definition agent_key_of :: "'a request_scheme \<Rightarrow> string" where
  "agent_key_of r = (case req_agent_id r of None \<Rightarrow> ''_anonymous'' | Some a \<Rightarrow> a)"

definition build_proposed_event :: "evaluation_request \<Rightarrow> proposed_event" where
  "build_proposed_event r =
     \<lparr>pe_event_kind = (case map_of (metadata r) ''contract_event_kind'' of
          Some (VStr s) \<Rightarrow> if py_strip s \<noteq> [] then py_strip s else event_kind_prefix @ action_type r
        | _ \<Rightarrow> event_kind_prefix @ action_type r),
      pe_actor_entity_id = agent_key_of r, pe_target_entity_id = recipient r,
      pe_payload = [(''action_type'', VStr (action_type r)), (''content'', VStr (er_content r)), (''channel'', VStr (channel r)),
        (''environment'', VStr (er_environment r)), (''request_id'', VStr (er_request_id r))]
        @ when_some ''recipient'' (recipient r) @ when_some ''session_id'' (er_session_id r)
        @ (if metadata r = [] then [] else [(''metadata'', VMap (metadata r) (er_metadata_text r))]),
      pe_proposed_at = er_requested_at r, pe_session_id = er_session_id r, pe_upstream_event_ids = []\<rparr>"

definition build_neutral_state :: "evaluation_request \<Rightarrow> ecosystem_state" where
  "build_neutral_state r =
     \<lparr>es_snapshot_at = er_requested_at r, es_state_hash = replicate 64 (CHR ''0''), es_active_agent_ids = [], es_active_tool_ids = [],
      es_active_capability_ids = [], es_active_governance_graph_id = ''pdp-neutral'', es_aggregate_drift_signals = [],
      es_sliding_window_compromise_ratio = VFloat (Fin 0) ''0.0''\<rparr>"

section \<open>The window of past events\<close>

type_synonym ledger_reader = "string \<Rightarrow> int \<Rightarrow> ledger_entry list option"

datatype ledger_arg = NoLedger | NoReader | Reader ledger_reader

definition ledger_window_for :: "ledger_arg \<Rightarrow> string \<Rightarrow> string option \<Rightarrow> int \<Rightarrow> proposed_event list" where
  "ledger_window_for led agent session limit = (case led of
       Reader rd \<Rightarrow> (case rd agent (if session \<noteq> None then limit * 4 else limit) of
           None \<Rightarrow> []
         | Some raw \<Rightarrow>
             let filtered = (if session \<noteq> None then filter (\<lambda>e. al_session_id e = session) raw else raw)
             in map proposed_event_from_ledger_entry (py_suffix limit filtered))
     | _ \<Rightarrow> [])"

section \<open>The session registry\<close>

record session_registry =
  sr_contracts :: "behavioral_contract list"
  sr_enforcers :: "(string \<times> enforcer) list"
  sr_prime_state :: "(string \<times> bool \<times> nat) list"
  sr_capacity :: int

type_synonym 'a reg_eff = "(session_registry, contract_error, 'a) eff"

definition SessionEnforcerRegistry_init :: "behavioral_contract list \<Rightarrow> int \<Rightarrow> contract_error + session_registry" where
  "SessionEnforcerRegistry_init cs capacity =
     (if cs = [] then Inl CtValueError
      else if capacity < 1 then Inl CtValueError
      else Inr \<lparr>sr_contracts = cs, sr_enforcers = [], sr_prime_state = [], sr_capacity = capacity\<rparr>)"

definition session_key_for :: "string option \<Rightarrow> string option \<Rightarrow> string" where
  "session_key_for agent session =
     (if agent = None \<and> session = None then ''__default__''
      else (case agent of None \<Rightarrow> ''_anonymous'' | Some a \<Rightarrow> a) @ ''::'' @ (case session of None \<Rightarrow> ''_no_session'' | Some s \<Rightarrow> s))"

fun evict :: "int \<Rightarrow> (string \<times> enforcer) list \<Rightarrow> (string \<times> bool \<times> nat) list \<Rightarrow> (string \<times> enforcer) list \<times> (string \<times> bool \<times> nat) list" where
  "evict capacity [] ps = ([], ps)"
| "evict capacity (x # xs) ps =
     (if capacity < int (length (x # xs)) then evict capacity xs (AList.delete (fst x) ps) else (x # xs, ps))"

definition get_or_create :: "string \<Rightarrow> unit reg_eff" where
  "get_or_create key = eff_bind (eff_get id) (\<lambda>reg.
     case map_of (sr_enforcers reg) key of
       Some en \<Rightarrow> eff_modify (\<lambda>reg. reg\<lparr>sr_enforcers := AList.delete key (sr_enforcers reg) @ [(key, en)]\<rparr>)
     | None \<Rightarrow> eff_bind (eff_lift (ContractEnforcer_init (sr_contracts reg))) (\<lambda>en.
         eff_modify (\<lambda>reg.
           let (es, ps) = evict (sr_capacity reg) (sr_enforcers reg @ [(key, en)]) (AList.update key (False, 0) (sr_prime_state reg))
           in reg\<lparr>sr_enforcers := es, sr_prime_state := ps\<rparr>)))"

definition is_primed :: "string \<Rightarrow> session_registry \<Rightarrow> bool" where
  "is_primed key reg = (case map_of (sr_prime_state reg) key of None \<Rightarrow> False | Some (primed, n) \<Rightarrow> primed)"

definition mark_primed :: "string \<Rightarrow> nat \<Rightarrow> unit reg_eff" where
  "mark_primed key after_count =
     eff_modify (\<lambda>reg. reg\<lparr>sr_prime_state := AList.update key (True, after_count) (sr_prime_state reg)\<rparr>)"

definition forget :: "string \<Rightarrow> bool reg_eff" where
  "forget key = eff_bind (eff_get (\<lambda>reg. map_of (sr_enforcers reg) key \<noteq> None)) (\<lambda>found.
     if found then eff_bind (eff_modify (\<lambda>reg. reg\<lparr>sr_enforcers := AList.delete key (sr_enforcers reg),
                                                 sr_prime_state := AList.delete key (sr_prime_state reg)\<rparr>))
                      (\<lambda>_. eff_return True)
     else eff_return False)"

definition registry_len :: "session_registry \<Rightarrow> nat" where
  "registry_len reg = length (sr_enforcers reg)"

text \<open>An operation on the enforcer that the registry holds under a key.\<close>

definition on_enforcer :: "string \<Rightarrow> 'a enf \<Rightarrow> 'a reg_eff" where
  "on_enforcer key m reg = (case map_of (sr_enforcers reg) key of
       None \<Rightarrow> (Inl CtValueError, reg)
     | Some en \<Rightarrow> (case m en of (x, en') \<Rightarrow> (x, reg\<lparr>sr_enforcers := AList.update key en' (sr_enforcers reg)\<rparr>)))"

section \<open>Priming\<close>

text \<open>An event whose check raises is skipped; what the check changed before it raised stays.\<close>

fun prime_loop :: "re_search \<Rightarrow> string \<Rightarrow> ecosystem_state \<Rightarrow> proposed_event list \<Rightarrow> unit enf" where
  "prime_loop re agent st [] en = (Inr (), en)"
| "prime_loop re agent st (ev # evs) en = prime_loop re agent st evs (snd (check_pre re agent ev st [] en))"

definition prime_enforcer_with_history :: "re_search \<Rightarrow> string \<Rightarrow> ecosystem_state \<Rightarrow> proposed_event list \<Rightarrow> unit enf" where
  "prime_enforcer_with_history re agent st history =
     (if history = [] then eff_return ()
      else eff_bind (eff_get en_violations) (\<lambda>pre_violations.
           eff_bind (prime_loop re agent st history) (\<lambda>_.
           eff_modify (\<lambda>en. en\<lparr>en_violations := pre_violations\<rparr>))))"

section \<open>The outcome\<close>

datatype forbid_text = HARD_VIOLATION_FORBID_REASON

record contract_outcome =
  oc_has_hard_violation :: bool
  oc_has_soft_violation :: bool
  oc_findings :: "finding list"
  oc_forbid_reason :: "forbid_text option"
  oc_soft_uncertainty_flags :: "string list"
  oc_raw_violations :: "contract_violation list"
  oc_session_key :: "string option"
  oc_replayed_window_size :: nat
  oc_step_index_at_check :: int

definition NEUTRAL_OUTCOME :: contract_outcome where
  "NEUTRAL_OUTCOME = \<lparr>oc_has_hard_violation = False, oc_has_soft_violation = False, oc_findings = [], oc_forbid_reason = None,
     oc_soft_uncertainty_flags = [], oc_raw_violations = [], oc_session_key = None, oc_replayed_window_size = 0,
     oc_step_index_at_check = 0\<rparr>"

fun clause_name :: "violated_clause \<Rightarrow> string" where
  "clause_name Precondition = ''precondition''"
| "clause_name Postcondition = ''postcondition''"
| "clause_name Hard_invariant = ''hard_invariant''"
| "clause_name Soft_invariant = ''soft_invariant''"
| "clause_name Hard_governance = ''hard_governance''"
| "clause_name Soft_governance = ''soft_governance''"

definition soft_clause_names :: "string list" where
  "soft_clause_names = [''soft_invariant'', ''soft_governance'']"

definition is_soft_violation :: "contract_violation \<Rightarrow> bool" where
  "is_soft_violation v \<longleftrightarrow> clause_name (vi_violated_clause v) \<in> set soft_clause_names"

definition violation_message :: "contract_violation \<Rightarrow> string" where
  "violation_message v = py_join '' '' ([''contract='' @ py_repr (vi_contract_id v), ''clause='' @ clause_name (vi_violated_clause v),
       ''step='' @ int_str (vi_step_index v), ''ltl='' @ py_repr (vi_clause_ltl v)]
     @ (if fl_less (Fin 0) (vi_compliance_gap v) then [''compliance_gap='' @ fmt3 (vi_compliance_gap v)] else []))"

definition violation_finding :: "contract_violation \<Rightarrow> contract_error + finding" where
  "violation_finding v = (case Finding_init
       \<lparr>fd_source = ''contracts.behavioral'', fd_rule_name = ''contract:'' @ vi_contract_id v @ '':'' @ clause_name (vi_violated_clause v),
        fd_severity = (if is_soft_violation v then WARNING else CRITICAL), fd_message = violation_message v,
        fd_matched_text = None, fd_start_index = None, fd_end_index = None\<rparr>
     of Inl _ \<Rightarrow> Inl CtValueError | Inr f \<Rightarrow> Inr f)"

text \<open>The check of the live request and the translation of the violations that it added.\<close>

definition check_request ::
    "re_search \<Rightarrow> evaluation_request \<Rightarrow> proposed_event list \<Rightarrow> string option \<Rightarrow> nat \<Rightarrow> contract_outcome enf" where
  "check_request re r window key replayed =
     eff_bind (eff_get (\<lambda>en. length (en_violations en))) (\<lambda>pre_count.
     eff_bind (eff_get en_step_index) (\<lambda>step_before.
     eff_bind (check_pre re (agent_key_of r) (build_proposed_event r) (build_neutral_state r) window) (\<lambda>_.
     eff_bind (eff_get (\<lambda>en. drop pre_count (en_violations en))) (\<lambda>new_violations.
     eff_bind (eff_lift (err_map violation_finding new_violations)) (\<lambda>fs.
     let hard_seen = list_ex (\<lambda>v. \<not> is_soft_violation v) new_violations; soft_seen = list_ex is_soft_violation new_violations
     in eff_return \<lparr>oc_has_hard_violation = hard_seen, oc_has_soft_violation = soft_seen \<and> \<not> hard_seen, oc_findings = fs,
          oc_forbid_reason = (if hard_seen then Some HARD_VIOLATION_FORBID_REASON else None),
          oc_soft_uncertainty_flags = (if soft_seen \<and> \<not> hard_seen then [''contract_soft_violation''] else []),
          oc_raw_violations = new_violations, oc_session_key = key, oc_replayed_window_size = replayed,
          oc_step_index_at_check = step_before + 1\<rparr>)))))"

definition has_ledger :: "ledger_arg \<Rightarrow> bool" where
  "has_ledger led = (case led of NoLedger \<Rightarrow> False | _ \<Rightarrow> True)"

definition window_for_check :: "ledger_arg \<Rightarrow> evaluation_request \<Rightarrow> int \<Rightarrow> proposed_event list" where
  "window_for_check led r limit = (case req_agent_id r of None \<Rightarrow> []
     | Some a \<Rightarrow> if has_ledger led then ledger_window_for led a (er_session_id r) limit else [])"

definition prime_session :: "re_search \<Rightarrow> string \<Rightarrow> evaluation_request \<Rightarrow> ledger_arg \<Rightarrow> int \<Rightarrow> nat reg_eff" where
  "prime_session re key r led limit = eff_bind (eff_get (is_primed key)) (\<lambda>primed.
     case req_agent_id r of None \<Rightarrow> eff_return 0
     | Some a \<Rightarrow> if \<not> has_ledger led \<or> primed then eff_return 0
         else let history = ledger_window_for led a (er_session_id r) limit in
              eff_bind (if history = [] then eff_return ()
                        else on_enforcer key (prime_enforcer_with_history re (agent_key_of r) (build_neutral_state r) history)) (\<lambda>_.
              eff_bind (mark_primed key (length history)) (\<lambda>_. eff_return (length history))))"

definition evaluate_in_session :: "re_search \<Rightarrow> evaluation_request \<Rightarrow> ledger_arg \<Rightarrow> int \<Rightarrow> contract_outcome reg_eff" where
  "evaluate_in_session re r led limit =
     (let key = session_key_for (req_agent_id r) (er_session_id r) in
      eff_bind (get_or_create key) (\<lambda>_.
      eff_bind (prime_session re key r led limit) (\<lambda>replayed.
      on_enforcer key (check_request re r (window_for_check led r limit) (Some key) replayed))))"

definition evaluate_contracts_for_request ::
    "re_search \<Rightarrow> evaluation_request \<Rightarrow> ledger_arg \<Rightarrow> int
     \<Rightarrow> (enforcer option \<times> session_registry option, contract_error, contract_outcome) eff" where
  "evaluate_contracts_for_request re r led limit = (\<lambda>(eo, ro). case ro of
       Some reg \<Rightarrow> (case evaluate_in_session re r led limit reg of (x, reg') \<Rightarrow> (x, (eo, Some reg')))
     | None \<Rightarrow> (case eo of
         Some en \<Rightarrow> (case check_request re r (window_for_check led r limit) None 0 en of (x, en') \<Rightarrow> (x, (Some en', None)))
       | None \<Rightarrow> (Inr NEUTRAL_OUTCOME, (None, None))))"

end
