(* ===== verification/Action_Ledger_Laws.thy ===== *)
theory Action_Ledger_Laws
  imports Action_Ledger
begin

text \<open>
  The ledger is a view of the sequence of entries that were appended, and the baseline of valid entries is
  always well formed.
\<close>

section \<open>A small ledger\<close>

definition demo_entry :: "string \<Rightarrow> string \<Rightarrow> ledger_entry" where
  "demo_entry agent verdict = \<lparr>al_agent_id = agent, al_session_id = Some ''s'', al_verdict = verdict, al_action_type = ''pay'', al_channel = ''api'',
     al_environment = ''prod'', al_recipient = None, al_final_score = Fin (1 / 2), al_final_score_text = ''0.5'', al_confidence = Fin 1,
     al_confidence_text = ''1.0'', al_content_sha256 = replicate 64 (CHR ''0''), al_policy_version = None, al_evidence_hash = None,
     al_capability_violations = [], al_asi_short_codes = [], al_mcp_server_ids = [], al_tools = [], al_data_scopes = [],
     al_recorded_at = \<lparr>dt_iso = ''t'', dt_str = ''t'', dt_epoch = Fin 0\<rparr>\<rparr>"

definition demo_history :: "ledger_entry list" where
  "demo_history = [demo_entry ''a'' ''PERMIT'', demo_entry ''b'' ''PERMIT'', demo_entry ''a'' ''FORBID'', demo_entry ''a'' ''Forbid'']"

definition demo_ledger :: action_ledger where
  "demo_ledger = projr (InMemoryActionLedger_init 2 demo_history)"

lemma demo_ledger: "InMemoryActionLedger_init 2 demo_history = Inr demo_ledger"
  by (simp add: demo_ledger_def InMemoryActionLedger_init_def)

section \<open>The ledger as a view of its history\<close>

definition agent_entries :: "string \<Rightarrow> ledger_entry list \<Rightarrow> ledger_entry list" where
  "agent_entries a es = filter (\<lambda>e. al_agent_id e = a) es"

definition represents :: "action_ledger \<Rightarrow> ledger_entry list \<Rightarrow> bool" where
  "represents lg es \<longleftrightarrow> lg_global_order lg = es \<and> lg_global_count lg = length es \<and> 0 < lg_per_agent_limit lg
     \<and> (\<forall>a. (case map_of (lg_by_agent lg) a of None \<Rightarrow> [] | Some q \<Rightarrow> q) = keep_last (lg_per_agent_limit lg) (agent_entries a es))"

lemma represents_append: "represents lg es \<Longrightarrow> represents (ledger_append e lg) (es @ [e])"
  using keep_last_append[of "lg_per_agent_limit lg" "agent_entries (al_agent_id e) es" "[e]"]
  by (auto simp: represents_def ledger_append_def Let_def update_conv' agent_entries_def deque_append_def)

lemma represents_fold: "represents lg es \<Longrightarrow> represents (fold ledger_append xs lg) (es @ xs)"
proof (induction xs arbitrary: lg es)
  case (Cons x xs)
  from Cons.IH[OF represents_append[OF Cons.prems, of x]] show ?case by simp
qed simp

lemma fold_append_limit: "lg_per_agent_limit (fold ledger_append xs lg) = lg_per_agent_limit lg"
  by (induction xs arbitrary: lg) (simp_all add: ledger_append_def Let_def)

lemma represents_init:
  assumes "InMemoryActionLedger_init n es = Inr lg"
  shows "represents lg es" "lg_per_agent_limit lg = nat n"
proof -
  let ?lg0 = "\<lparr>lg_by_agent = [], lg_per_agent_limit = nat n, lg_global_count = 0, lg_global_order = []\<rparr>"
  have n: "1 \<le> n" and lg: "lg = fold ledger_append es ?lg0" using assms by (auto simp: InMemoryActionLedger_init_def split: if_splits)
  have "represents ?lg0 []" using n by (simp add: represents_def agent_entries_def)
  from represents_fold[OF this] show "represents lg es" by (simp add: lg)
  show "lg_per_agent_limit lg = nat n" by (simp add: lg fold_append_limit)
qed

lemma py_suffix_keep_last: "0 < n \<Longrightarrow> py_suffix n xs = keep_last (nat n) xs"
  by (simp add: py_suffix_def keep_last_def)

lemma list_for_agent_represents:
  assumes "represents lg es"
  shows "list_for_agent a limit lg = (let q = keep_last (lg_per_agent_limit lg) (agent_entries a es) in
    case limit of None \<Rightarrow> q | Some m \<Rightarrow> keep_last (nat m) q)"
proof -
  have "(case map_of (lg_by_agent lg) a of None \<Rightarrow> [] | Some q \<Rightarrow> q) = keep_last (lg_per_agent_limit lg) (agent_entries a es)"
    using assms by (simp add: represents_def)
  then show ?thesis
    by (auto simp: list_for_agent_def py_suffix_keep_last Let_def split: option.splits) (auto simp: keep_last_def)
qed

lemma list_for_agent_subset: "represents lg es \<Longrightarrow> set (list_for_agent a limit lg) \<subseteq> {e \<in> set es. al_agent_id e = a}"
  unfolding list_for_agent_represents Let_def keep_last_def agent_entries_def
  by (auto split: option.splits dest!: in_set_dropD)

lemma list_for_agent_length: "represents lg es \<Longrightarrow> 0 < m \<Longrightarrow> length (list_for_agent a (Some m) lg) \<le> min (nat m) (lg_per_agent_limit lg)"
  by (simp add: list_for_agent_represents Let_def keep_last_length)

text \<open>
  (C22) The ledger after any sequence of entries answers from that sequence: for an agent, the most recent of its
  entries, at most the limit per agent and at most the requested number, oldest first; for the fleet, all entries or
  the most recent ones; and the total counts every entry, those included that rolled out.
\<close>

theorem ledger_refines_history:
  assumes "InMemoryActionLedger_init n es = Inr lg"
  shows "(\<forall>a limit. list_for_agent a limit lg = (let q = keep_last (nat n) (filter (\<lambda>e. al_agent_id e = a) es) in
       case limit of None \<Rightarrow> q | Some m \<Rightarrow> keep_last (nat m) q))
    \<and> (\<forall>a. count_for_agent a lg = min (nat n) (length (filter (\<lambda>e. al_agent_id e = a) es)))
    \<and> (\<forall>limit. list_all_entries limit lg = (case limit of None \<Rightarrow> es | Some m \<Rightarrow> keep_last (nat m) es))
    \<and> total_count lg = length es"
proof (intro conjI allI)
  note r = represents_init[OF assms]
  show "list_for_agent a limit lg = (let q = keep_last (nat n) (filter (\<lambda>e. al_agent_id e = a) es) in
       case limit of None \<Rightarrow> q | Some m \<Rightarrow> keep_last (nat m) q)" for a limit
    using list_for_agent_represents[OF r(1)] by (simp add: r(2) agent_entries_def)
  show "count_for_agent a lg = min (nat n) (length (filter (\<lambda>e. al_agent_id e = a) es))" for a
  proof -
    have "(case map_of (lg_by_agent lg) a of None \<Rightarrow> [] | Some q \<Rightarrow> q) = keep_last (nat n) (agent_entries a es)"
      using r by (simp add: represents_def)
    then have "count_for_agent a lg = length (keep_last (nat n) (agent_entries a es))"
      by (auto simp: count_for_agent_def split: option.splits)
    then show ?thesis by (auto simp: keep_last_def agent_entries_def)
  qed
  show "list_all_entries limit lg = (case limit of None \<Rightarrow> es | Some m \<Rightarrow> keep_last (nat m) es)" for limit
    using r by (auto simp: list_all_entries_def represents_def py_suffix_keep_last split: option.splits) (auto simp: keep_last_def)
  show "total_count lg = length es" using r by (simp add: total_count_def represents_def)
qed

theorem ledger_refines_history_witness:
  "list_for_agent ''a'' (Some 1) demo_ledger = [demo_entry ''a'' ''Forbid''] \<and> count_for_agent ''a'' demo_ledger = 2 \<and> total_count demo_ledger = 4"
proof -
  have a: "filter (\<lambda>e. al_agent_id e = ''a'') demo_history = [demo_entry ''a'' ''PERMIT'', demo_entry ''a'' ''FORBID'', demo_entry ''a'' ''Forbid'']"
    by (simp add: demo_history_def demo_entry_def)
  have "length demo_history = 4" by (simp add: demo_history_def)
  with ledger_refines_history[OF demo_ledger] show ?thesis by (simp add: a keep_last_def Let_def)
qed

section \<open>The baseline\<close>

lemma counter_get_add [simp]: "counter_get (counter_add k c) j = (if j = k then counter_get c j + 1 else counter_get c j)"
  by (simp add: counter_add_def counter_get_def update_conv')

lemma baseline_counts:
  "counter_get (ba_verdicts (fold baseline_step es a)) v = counter_get (ba_verdicts a) v + length (filter (\<lambda>e. py_upper (al_verdict e) = v) es)
   \<and> ba_violations (fold baseline_step es a) = ba_violations a + length (filter (\<lambda>e. al_capability_violations e \<noteq> []) es)"
  by (induction es arbitrary: a) (auto simp: baseline_step_def)

lemma fl_add_counted:
  assumes "x = Fin q" "0 \<le> q" "q \<le> of_nat k" "fl_unit y" "int k + 1 < 2 ^ 53"
  shows "\<exists>r. fl_add x y = Fin r \<and> 0 \<le> r \<and> r \<le> of_nat (k + 1)"
proof -
  obtain p where p: "y = Fin p" "0 \<le> p" "p \<le> 1" using assms(4) by (auto simp: fl_unit_Fin)
  have top: "fl_round (of_int (int (k + 1))) = Fin (of_int (int (k + 1)))" using assms(5) by (intro fl_round_int) simp
  have "0 \<le> q + p" "q + p \<le> of_int (int (k + 1))" using assms(2,3) p by simp_all
  from fl_round_mono[OF this] show ?thesis unfolding top assms(1) p(1) by (cases "fl_round (q + p)") auto
qed

lemma score_sum_bounds:
  assumes "ba_score_sum a = Fin q" "0 \<le> q" "q \<le> of_nat k" "\<forall>e\<in>set es. fl_unit (al_final_score e)" "int (k + length es) < 2 ^ 53"
  shows "\<exists>r. ba_score_sum (fold baseline_step es a) = Fin r \<and> 0 \<le> r \<and> r \<le> of_nat (k + length es)"
  using assms
proof (induction es arbitrary: a q k)
  case (Cons e es)
  obtain r where r: "fl_add (ba_score_sum a) (al_final_score e) = Fin r" "0 \<le> r" "r \<le> of_nat (k + 1)"
    using fl_add_counted[OF Cons.prems(1-3), of "al_final_score e"] Cons.prems(4,5) by auto
  have "ba_score_sum (baseline_step e a) = Fin r" using r(1) by (simp add: baseline_step_def)
  from Cons.IH[OF this r(2,3)] Cons.prems(4,5) show ?case by simp
qed auto

lemma mean_unit:
  assumes "0 \<le> q" "q \<le> of_nat n" "0 < n" "int n < 2 ^ 53"
  shows "\<exists>m. fl_div (Fin q) (fl_round (of_nat n)) = Some m \<and> fl_unit m"
proof -
  have "fl_round (of_nat n) = Fin (of_nat n)" using fl_round_int[of "int n"] assms(4) by simp
  moreover obtain r where "fl_round (q / of_nat n) = Fin r" "0 \<le> r" "r \<le> 1"
    using fl_round_unit[of "q / of_nat n"] assms(1-3) by auto
  ultimately show ?thesis using assms(3) by (simp add: fl_div_def)
qed

lemma unit_field_ok: "fl_unit x \<Longrightarrow> unit_field x = Inr x"
  by (cases x) (simp_all add: unit_field_def fl_le_def fl_unit_def)

lemma forbid_streak_prefix: "forbid_streak es = length (takeWhile (\<lambda>e. py_upper (al_verdict e) = ''FORBID'') es)"
  by (induction es) auto

text \<open>
  (C37) For a ledger of valid entries the baseline is always computed: no rate falls outside the unit interval, so its
  validation never raises, however the floats are rounded. The rates are those of the entries in the window, and the streak is
  the number of refusals since the last action that was not refused.
\<close>

theorem baseline_total:
  fixes a :: string
  assumes "InMemoryActionLedger_init n es = Inr lg" and "\<forall>e\<in>set es. fl_unit (al_final_score e)" and "0 < window" and "n < 2 ^ 53"
  defines "xs \<equiv> list_for_agent a (Some window) lg"
  shows "\<exists>b. compute_baseline a window lg = Inr b \<and> bb_sample_size b = length xs \<and> length xs \<le> nat window
    \<and> fl_unit (bb_mean_final_score b) \<and> fl_unit (bb_capability_violation_rate b)
    \<and> (xs \<noteq> [] \<longrightarrow> bb_forbid_rate b = py_round 4 (int_ratio (length (filter (\<lambda>e. py_upper (al_verdict e) = ''FORBID'') xs)) (length xs)))
    \<and> bb_forbid_streak b = length (takeWhile (\<lambda>e. py_upper (al_verdict e) = ''FORBID'') (rev xs))"
proof -
  note r = represents_init[OF assms(1)]
  have len: "length xs \<le> nat window" "int (length xs) < 2 ^ 53"
    using list_for_agent_length[OF r(1) assms(3), of a] r(2) assms(4) unfolding xs_def by auto
  have unit: "\<forall>e\<in>set xs. fl_unit (al_final_score e)" using list_for_agent_subset[OF r(1)] assms(2) unfolding xs_def by blast
  show ?thesis
  proof (cases "xs = []")
    case True
    then show ?thesis using assms(3)
      by (simp add: compute_baseline_def xs_def[symmetric] BehavioralBaseline_init_def unit_field_ok)
  next
    case False
    let ?a = "fold baseline_step xs baseline_start"
    have pos: "0 < length xs" using False by simp
    obtain q where q: "ba_score_sum ?a = Fin q" "0 \<le> q" "q \<le> of_nat (length xs)"
      using score_sum_bounds[of baseline_start 0 0 xs] unit len(2) by (auto simp: baseline_start_def)
    obtain m where m: "fl_div (Fin q) (fl_round (of_nat (length xs))) = Some m" "fl_unit m"
      using mean_unit[OF q(2,3) pos len(2)] by blast
    have c: "counter_get (ba_verdicts ?a) v = length (filter (\<lambda>e. py_upper (al_verdict e) = v) xs)"
      "ba_violations ?a = length (filter (\<lambda>e. al_capability_violations e \<noteq> []) xs)" for v
      using baseline_counts[of xs baseline_start v] by (simp_all add: baseline_start_def counter_get_def)
    have u: "fl_unit (py_round 4 (int_ratio (length (filter P xs)) (length xs)))" for P
      by (intro py_round_unit int_ratio_unit) (use pos in simp_all)
    show ?thesis using assms(3) False len(1) m
      by (simp add: compute_baseline_def xs_def[symmetric] Let_def q(1) c BehavioralBaseline_init_def unit_field_ok u py_round_unit
          forbid_streak_prefix)
  qed
qed

theorem baseline_total_witness:
  "\<exists>b. compute_baseline ''a'' 200 demo_ledger = Inr b \<and> bb_sample_size b = 2 \<and> bb_forbid_streak b = 2"
proof -
  have x: "list_for_agent ''a'' (Some 200) demo_ledger = [demo_entry ''a'' ''FORBID'', demo_entry ''a'' ''Forbid'']"
    unfolding list_for_agent_represents[OF represents_init(1)[OF demo_ledger]] represents_init(2)[OF demo_ledger]
    by (simp add: agent_entries_def demo_history_def demo_entry_def keep_last_def)
  have u: "\<forall>e\<in>set demo_history. fl_unit (al_final_score e)" by (simp add: demo_history_def demo_entry_def)
  have "py_upper ''FORBID'' = ''FORBID''" "py_upper ''Forbid'' = ''FORBID''" by code_simp+
  then have t: "length (takeWhile (\<lambda>e. py_upper (al_verdict e) = ''FORBID'') (rev [demo_entry ''a'' ''FORBID'', demo_entry ''a'' ''Forbid''])) = 2"
    by (simp add: demo_entry_def)
  obtain b where "compute_baseline ''a'' 200 demo_ledger = Inr b" "bb_sample_size b = 2"
    "bb_forbid_streak b = length (takeWhile (\<lambda>e. py_upper (al_verdict e) = ''FORBID'') (rev [demo_entry ''a'' ''FORBID'', demo_entry ''a'' ''Forbid'']))"
    using baseline_total[OF demo_ledger u, of 200 "''a''"] unfolding x by auto
  then show ?thesis unfolding t by blast
qed

end
