(* ===== verification/Contract_Bridge_Laws.thy ===== *)
theory Contract_Bridge_Laws
  imports Contract_New Contract_Bridge Action_Ledger_Laws
begin

text \<open>
  Properties of the contract bridge: the invariant of the session registry, the isolation of sessions, and which
  requests the bridge reports as hard or soft violations.
\<close>

section \<open>The registry\<close>

definition session_ok :: "re_search \<Rightarrow> behavioral_contract list \<Rightarrow> enforcer \<Rightarrow> bool" where
  "session_ok re cs en \<longleftrightarrow> enforcer_reach re en \<and> en_contracts en = cs"

definition registry_ok :: "re_search \<Rightarrow> session_registry \<Rightarrow> bool" where
  "registry_ok re reg \<longleftrightarrow> 1 \<le> sr_capacity reg \<and> int (length (sr_enforcers reg)) \<le> sr_capacity reg
     \<and> distinct (map fst (sr_enforcers reg)) \<and> fst ` set (sr_prime_state reg) = fst ` set (sr_enforcers reg)
     \<and> (\<forall>(k, en)\<in>set (sr_enforcers reg). session_ok re (sr_contracts reg) en)
     \<and> (\<forall>c\<in>set (sr_contracts reg). contract_post_init c = Inr c)"

text \<open>The session of a key: its enforcer, or the fresh one that the registry would make.\<close>

definition session_of :: "session_registry \<Rightarrow> string \<Rightarrow> enforcer option" where
  "session_of reg key = (case map_of (sr_enforcers reg) key of Some en \<Rightarrow> Some en
     | None \<Rightarrow> (case ContractEnforcer_init (sr_contracts reg) of Inl _ \<Rightarrow> None | Inr en \<Rightarrow> Some en))"

lemma set_update_keys: "fst ` set (AList.update k v xs) = insert k (fst ` set xs)"
  by (induction xs) auto

lemma set_delete_keys: "fst ` set (AList.delete k xs) = fst ` set xs - {k}"
  by (auto simp: AList.delete_eq image_iff)

lemma evict_ok:
  assumes "evict n es ps = (es', ps')" and "distinct (map fst es)" and "fst ` set ps = fst ` set es" and "0 \<le> n"
  shows "es' = keep_last (nat n) es \<and> fst ` set ps' = fst ` set es'"
  using assms
proof (induction n es ps rule: evict.induct)
  case (2 n x xs ps)
  show ?case
  proof (cases "n < int (length (x # xs))")
    case True
    have "fst ` set (AList.delete (fst x) ps) = fst ` set xs" using 2(3,4) by (auto simp: set_delete_keys)
    then have "es' = keep_last (nat n) xs \<and> fst ` set ps' = fst ` set es'" using 2 True by simp
    moreover have "keep_last (nat n) (x # xs) = keep_last (nat n) xs"
      using True 2(5) by (simp add: keep_last_def Suc_diff_le nat_le_iff)
    ultimately show ?thesis by simp
  next
    case False
    then have "es' = x # xs" "ps' = ps" using 2(2) by (simp_all split: if_splits)
    moreover have "keep_last (nat n) (x # xs) = x # xs" using False 2(5) by (simp add: keep_last_def)
    ultimately show ?thesis using 2(4) by simp
  qed
qed (simp add: keep_last_def)

lemma keep_last_snoc: "0 < n \<Longrightarrow> keep_last n (xs @ [y]) = keep_last (n - 1) xs @ [y]"
  by (simp add: keep_last_def)

lemma map_of_suffix: "distinct (map fst xs) \<Longrightarrow> map_of (drop m xs) k = Some v \<Longrightarrow> map_of xs k = Some v"
  by (meson in_set_dropD map_of_SomeD map_of_is_SomeI)

lemma reach_fresh:
  "ContractEnforcer_init cs = Inr en \<Longrightarrow> \<forall>c\<in>set cs. contract_post_init c = Inr c \<Longrightarrow> session_ok re cs en"
  using reach_init[of cs en re] by (auto simp: session_ok_def ContractEnforcer_init_def sbind_rules split: if_splits)

lemma get_existing:
  "map_of (sr_enforcers reg) key = Some en \<Longrightarrow>
   get_or_create key reg = (Inr (), reg\<lparr>sr_enforcers := AList.delete key (sr_enforcers reg) @ [(key, en)]\<rparr>)"
  by (simp add: get_or_create_def eff_bind_def eff_rules)

lemma get_failing:
  "map_of (sr_enforcers reg) key = None \<Longrightarrow> ContractEnforcer_init (sr_contracts reg) = Inl x \<Longrightarrow> get_or_create key reg = (Inl x, reg)"
  by (simp add: get_or_create_def eff_bind_def eff_rules)

lemma get_fresh:
  assumes "map_of (sr_enforcers reg) key = None" and "ContractEnforcer_init (sr_contracts reg) = Inr en" and "registry_ok re reg"
  obtains ps where "get_or_create key reg = (Inr (), reg\<lparr>sr_enforcers := keep_last (nat (sr_capacity reg)) (sr_enforcers reg @ [(key, en)]), sr_prime_state := ps\<rparr>)"
    "fst ` set ps = fst ` set (keep_last (nat (sr_capacity reg)) (sr_enforcers reg @ [(key, en)]))"
proof -
  let ?es = "sr_enforcers reg @ [(key, en)]" and ?ps = "AList.update key (False, 0) (sr_prime_state reg)"
  obtain es ps where e: "evict (sr_capacity reg) ?es ?ps = (es, ps)" by fastforce
  have new: "key \<notin> fst ` set (sr_enforcers reg)" using assms(1) by (simp add: map_of_eq_None_iff)
  have "distinct (map fst ?es)" "fst ` set ?ps = fst ` set ?es" "0 \<le> sr_capacity reg"
    using assms(3) new by (simp_all add: registry_ok_def set_update_keys)
  from evict_ok[OF e this] have k: "es = keep_last (nat (sr_capacity reg)) ?es" "fst ` set ps = fst ` set es" by blast+
  show thesis
  proof (rule that[of ps])
    show "get_or_create key reg = (Inr (), reg\<lparr>sr_enforcers := keep_last (nat (sr_capacity reg)) ?es, sr_prime_state := ps\<rparr>)"
      using assms(1,2) e k(1) by (simp add: get_or_create_def eff_bind_def eff_rules)
    show "fst ` set ps = fst ` set (keep_last (nat (sr_capacity reg)) ?es)" using k by simp
  qed
qed

lemma registry_ok_move:
  assumes "registry_ok re reg" and "map_of (sr_enforcers reg) key = Some en"
  shows "registry_ok re (reg\<lparr>sr_enforcers := AList.delete key (sr_enforcers reg) @ [(key, en)]\<rparr>)"
proof -
  have m: "(key, en) \<in> set (sr_enforcers reg)" using assms(2) by (rule map_of_SomeD)
  then have "length (AList.delete key (sr_enforcers reg)) < length (sr_enforcers reg)"
    unfolding AList.delete_eq by (intro length_filter_less[of "(key, en)"]) simp_all
  moreover have keys: "fst ` set (AList.delete key (sr_enforcers reg)) = fst ` set (sr_enforcers reg) - {key}" by (rule set_delete_keys)
  moreover have "insert key (fst ` set (sr_enforcers reg) - {key}) = fst ` set (sr_enforcers reg)" using m by force
  moreover have "\<forall>(k, en)\<in>set (AList.delete key (sr_enforcers reg) @ [(key, en)]). session_ok re (sr_contracts reg) en"
    using assms(1) m set_delete_subset[of key "sr_enforcers reg"] unfolding registry_ok_def by auto
  moreover have "distinct (map fst (AList.delete key (sr_enforcers reg)))" using assms(1) by (simp add: registry_ok_def distinct_delete)
  ultimately show ?thesis using assms(1) unfolding registry_ok_def by simp
qed

lemma registry_ok_add:
  assumes "registry_ok re reg" and "map_of (sr_enforcers reg) key = None" and "session_ok re (sr_contracts reg) en"
    and "fst ` set ps = fst ` set (keep_last (nat (sr_capacity reg)) (sr_enforcers reg @ [(key, en)]))"
  shows "registry_ok re (reg\<lparr>sr_enforcers := keep_last (nat (sr_capacity reg)) (sr_enforcers reg @ [(key, en)]), sr_prime_state := ps\<rparr>)"
proof -
  let ?es = "keep_last (nat (sr_capacity reg)) (sr_enforcers reg @ [(key, en)])"
  have "key \<notin> fst ` set (sr_enforcers reg)" using assms(2) by (simp add: map_of_eq_None_iff)
  then have "distinct (map fst (sr_enforcers reg @ [(key, en)]))" using assms(1) by (simp add: registry_ok_def)
  then have "distinct (map fst ?es)" unfolding keep_last_def drop_map[symmetric] by (rule distinct_drop)
  moreover have "int (length ?es) \<le> sr_capacity reg" using assms(1) by (auto simp: keep_last_length registry_ok_def min_def)
  moreover have "set ?es \<subseteq> set (sr_enforcers reg @ [(key, en)])" unfolding keep_last_def by (rule set_drop_subset)
  ultimately show ?thesis using assms(1,3,4) by (auto simp: registry_ok_def)
qed

lemma get_or_create_run:
  assumes "registry_ok re reg" and "get_or_create key reg = (x, reg')"
  shows "registry_ok re reg' \<and> sr_contracts reg' = sr_contracts reg \<and> sr_capacity reg' = sr_capacity reg
    \<and> (\<forall>u. x = Inr u \<longrightarrow> map_of (sr_enforcers reg') key = session_of reg key \<and> session_of reg key \<noteq> None)
    \<and> (\<forall>k. k \<noteq> key \<longrightarrow> map_of (sr_enforcers reg') k = map_of (sr_enforcers reg) k
      \<or> (map_of (sr_enforcers reg') k = None \<and> map_of (sr_enforcers reg) key = None \<and> int (length (sr_enforcers reg)) = sr_capacity reg))"
proof (cases "map_of (sr_enforcers reg) key")
  case (Some en)
  then have r: "x = Inr ()" "reg' = reg\<lparr>sr_enforcers := AList.delete key (sr_enforcers reg) @ [(key, en)]\<rparr>"
    using assms(2) get_existing[OF Some] by simp_all
  then show ?thesis using registry_ok_move[OF assms(1) Some] Some
    by (auto simp: session_of_def map_add_def delete_conv' split: option.splits)
next
  case None
  show ?thesis
  proof (cases "ContractEnforcer_init (sr_contracts reg)")
    case (Inl y)
    then show ?thesis using assms get_failing[OF None Inl] by auto
  next
    case (Inr en)
    obtain ps where r: "reg' = reg\<lparr>sr_enforcers := keep_last (nat (sr_capacity reg)) (sr_enforcers reg @ [(key, en)]), sr_prime_state := ps\<rparr>"
      "fst ` set ps = fst ` set (keep_last (nat (sr_capacity reg)) (sr_enforcers reg @ [(key, en)]))"
      by (rule get_fresh[OF None Inr assms(1)]) (use assms(2) in auto)
    have "\<forall>c\<in>set (sr_contracts reg). contract_post_init c = Inr c" using assms(1) by (simp add: registry_ok_def)
    note ok = registry_ok_add[OF assms(1) None reach_fresh[OF Inr this] r(2)]
    have pos: "0 < nat (sr_capacity reg)" using assms(1) by (simp add: registry_ok_def)
    have es: "sr_enforcers reg' = keep_last (nat (sr_capacity reg) - 1) (sr_enforcers reg) @ [(key, en)]"
      using keep_last_snoc[OF pos, of "sr_enforcers reg" "(key, en)"] by (simp add: r(1))
    have d: "distinct (map fst (sr_enforcers reg))" "int (length (sr_enforcers reg)) \<le> sr_capacity reg" using assms(1) by (simp_all add: registry_ok_def)
    have mine: "map_of (sr_enforcers reg') key = Some en"
      using None by (auto simp: es map_add_def keep_last_def split: option.splits dest: map_of_suffix[OF d(1)])
    have other: "map_of (sr_enforcers reg') k = map_of (sr_enforcers reg) k
        \<or> (map_of (sr_enforcers reg') k = None \<and> int (length (sr_enforcers reg)) = sr_capacity reg)" if "k \<noteq> key" for k
    proof (cases "int (length (sr_enforcers reg)) = sr_capacity reg")
      case True
      have "map_of (sr_enforcers reg') k = map_of (keep_last (nat (sr_capacity reg) - 1) (sr_enforcers reg)) k"
        using that by (simp add: es map_add_def split: option.splits)
      then show ?thesis using True map_of_suffix[OF d(1), of _ k]
        by (cases "map_of (keep_last (nat (sr_capacity reg) - 1) (sr_enforcers reg)) k") (auto simp: keep_last_def)
    next
      case False
      then have "keep_last (nat (sr_capacity reg) - 1) (sr_enforcers reg) = sr_enforcers reg" using d(2) by (simp add: keep_last_def)
      then show ?thesis using that by (simp add: es map_add_def split: option.splits)
    qed
    show ?thesis using ok mine other None Inr by (auto simp: r(1) session_of_def)
  qed
qed

section \<open>Operations on a session\<close>

lemma session_check: "preserves (session_ok re cs) (check_pre re agent ev st w)"
  unfolding preserves_def session_ok_def check_pre_def using reach_check enforcer_check_contracts reach_ok by metis

lemma session_prime_loop: "preserves (session_ok re cs) (prime_loop re agent st evs)"
proof -
  have "session_ok re cs en \<Longrightarrow> session_ok re cs (snd (prime_loop re agent st evs en))" for en
    by (induction evs arbitrary: en) (use preservesD[OF session_check] in auto)
  then show ?thesis by (simp add: preserves_def)
qed

lemma session_prime: "preserves (session_ok re cs) (prime_enforcer_with_history re agent st history)"
proof -
  have "session_ok re cs (en\<lparr>en_violations := vs\<rparr>)" if "session_ok re cs en" for en vs
    using that reach_restore[of re en vs] by (simp add: session_ok_def)
  then show ?thesis unfolding prime_enforcer_with_history_def
    by (intro preserves_if preserves_bind preserves_basic session_prime_loop)
qed

lemma session_request: "preserves (session_ok re cs) (check_request re r w key n)"
  unfolding check_request_def Let_def by (intro preserves_bind preserves_basic session_check)

lemma on_enforcer_run:
  assumes "registry_ok re reg" and "preserves (session_ok re (sr_contracts reg)) m" and "on_enforcer key m reg = (x, reg')"
  shows "registry_ok re reg' \<and> sr_contracts reg' = sr_contracts reg \<and> sr_capacity reg' = sr_capacity reg
    \<and> (\<forall>k. k \<noteq> key \<longrightarrow> map_of (sr_enforcers reg') k = map_of (sr_enforcers reg) k)
    \<and> (\<forall>en. map_of (sr_enforcers reg) key = Some en \<longrightarrow> m en = (x, the (map_of (sr_enforcers reg') key)) \<and> map_of (sr_enforcers reg') key \<noteq> None)
    \<and> (map_of (sr_enforcers reg) key = None \<longrightarrow> isl x)"
proof (cases "map_of (sr_enforcers reg) key")
  case None
  then show ?thesis using assms by (auto simp: on_enforcer_def)
next
  case (Some en)
  obtain en' where m: "m en = (x, en')" and r: "reg' = reg\<lparr>sr_enforcers := AList.update key en' (sr_enforcers reg)\<rparr>"
    using assms(3) Some by (auto simp: on_enforcer_def split: prod.splits)
  have mem: "(key, en) \<in> set (sr_enforcers reg)" using Some by (rule map_of_SomeD)
  then have ok: "session_ok re (sr_contracts reg) en'"
    using assms(1) preservesD[OF assms(2), of en] m by (auto simp: registry_ok_def)
  have keys: "map fst (AList.update key en' (sr_enforcers reg)) = map fst (sr_enforcers reg)" using mem by (force simp: update_keys)
  have "length (AList.update key en' (sr_enforcers reg)) = length (sr_enforcers reg)"
    "fst ` set (AList.update key en' (sr_enforcers reg)) = fst ` set (sr_enforcers reg)"
    using arg_cong[OF keys, of length] arg_cong[OF keys, of set] by simp_all
  moreover have "\<forall>(k, en)\<in>set (AList.update key en' (sr_enforcers reg)). session_ok re (sr_contracts reg) en"
    using assms(1) ok set_update_subset[of key en' "sr_enforcers reg"] unfolding registry_ok_def by auto
  ultimately have "registry_ok re reg'" using assms(1) keys unfolding registry_ok_def r by simp
  then show ?thesis using Some m by (simp add: r update_conv')
qed

lemma mark_primed_run:
  assumes "registry_ok re reg" and "map_of (sr_enforcers reg) key \<noteq> None"
  shows "registry_ok re (reg\<lparr>sr_prime_state := AList.update key v (sr_prime_state reg)\<rparr>)"
proof -
  have "key \<in> fst ` set (sr_enforcers reg)" using assms(2) by (simp add: map_of_eq_None_iff)
  then show ?thesis using assms(1) by (simp add: registry_ok_def set_update_keys insert_absorb)
qed

text \<open>What an operation on the registry keeps of every session but one.\<close>

definition keeps :: "re_search \<Rightarrow> string \<Rightarrow> session_registry \<Rightarrow> session_registry \<Rightarrow> bool" where
  "keeps re key reg reg' \<longleftrightarrow> registry_ok re reg' \<and> sr_contracts reg' = sr_contracts reg \<and> sr_capacity reg' = sr_capacity reg
     \<and> (\<forall>k. k \<noteq> key \<longrightarrow> map_of (sr_enforcers reg') k = map_of (sr_enforcers reg) k)
     \<and> (map_of (sr_enforcers reg) key \<noteq> None \<longrightarrow> map_of (sr_enforcers reg') key \<noteq> None)"

lemma keeps_refl: "registry_ok re reg \<Longrightarrow> keeps re key reg reg"
  by (simp add: keeps_def)

lemma keeps_trans: "keeps re key a b \<Longrightarrow> keeps re key b c \<Longrightarrow> keeps re key a c"
  unfolding keeps_def by (elim conjE, intro conjI) simp_all

lemma keeps_on_enforcer:
  assumes "registry_ok re reg" and "preserves (session_ok re (sr_contracts reg)) m"
  shows "keeps re key reg (snd (on_enforcer key m reg))"
  using on_enforcer_run[OF assms, of key "fst (on_enforcer key m reg)" "snd (on_enforcer key m reg)"]
  unfolding keeps_def by (cases "map_of (sr_enforcers reg) key") auto

lemma prime_session_run:
  assumes "registry_ok re reg" and "map_of (sr_enforcers reg) key \<noteq> None"
  shows "keeps re key reg (snd (prime_session re key r led limit reg))"
proof -
  have primed: "keeps re key reg (snd (eff_bind m (\<lambda>_. eff_bind (mark_primed key n) (\<lambda>_. eff_return n)) reg))"
    if "keeps re key reg (snd (m reg))" for m :: "unit reg_eff" and n :: nat
  proof (cases "m reg")
    case (Pair x reg1)
    then have k: "keeps re key reg reg1" using that by simp
    have k2: "keeps re key reg1 (reg1\<lparr>sr_prime_state := AList.update key v (sr_prime_state reg1)\<rparr>)" for v
      using mark_primed_run[of re reg1 key] k assms(2) by (simp add: keeps_def)
    show ?thesis using k keeps_trans[OF k k2] by (cases x) (simp_all add: Pair eff_defs mark_primed_def)
  qed
  show ?thesis
  proof (cases "req_agent_id r")
    case None
    then show ?thesis using keeps_refl[OF assms(1)] by (simp add: prime_session_def eff_defs)
  next
    case (Some a)
    show ?thesis
    proof (cases "\<not> has_ledger led \<or> is_primed key reg")
      case True
      then show ?thesis using keeps_refl[OF assms(1)] Some by (auto simp: prime_session_def eff_defs)
    next
      case False
      let ?h = "ledger_window_for led a (er_session_id r) limit"
      let ?m = "if ?h = [] then eff_return () else on_enforcer key (prime_enforcer_with_history re (agent_key_of r) (build_neutral_state r) ?h)"
      have "keeps re key reg (snd (?m reg))"
        using keeps_refl[OF assms(1)] keeps_on_enforcer[OF assms(1) session_prime] by (simp add: eff_defs)
      from primed[of ?m "length ?h", OF this] show ?thesis using False Some
        by (simp add: prime_session_def eff_bind_def[of "eff_get _"] eff_rules Let_def)
    qed
  qed
qed

lemma evaluate_in_session_run:
  assumes "registry_ok re reg" and "evaluate_in_session re r led limit reg = (x, reg')"
  defines "key \<equiv> session_key_for (req_agent_id r) (er_session_id r)"
  shows "registry_ok re reg'" "sr_contracts reg' = sr_contracts reg" "sr_capacity reg' = sr_capacity reg"
    "k \<noteq> key \<Longrightarrow> map_of (sr_enforcers reg') k = map_of (sr_enforcers reg) k
      \<or> (map_of (sr_enforcers reg') k = None \<and> map_of (sr_enforcers reg) key = None \<and> int (length (sr_enforcers reg)) = sr_capacity reg)"
    "x = Inr out \<Longrightarrow> \<exists>n en en'. session_ok re (sr_contracts reg) en \<and> map_of (sr_enforcers reg') key = Some en'
      \<and> check_request re r (window_for_check led r limit) (Some key) n en = (Inr out, en')"
proof -
  obtain y reg1 where g: "get_or_create key reg = (y, reg1)" by fastforce
  note G = get_or_create_run[OF assms(1) g]
  let ?goal = "registry_ok re reg' \<and> sr_contracts reg' = sr_contracts reg \<and> sr_capacity reg' = sr_capacity reg
    \<and> (\<forall>k. k \<noteq> key \<longrightarrow> map_of (sr_enforcers reg') k = map_of (sr_enforcers reg1) k)
    \<and> (\<forall>out. x = Inr out \<longrightarrow> (\<exists>n en en'. session_ok re (sr_contracts reg) en \<and> map_of (sr_enforcers reg') key = Some en'
      \<and> check_request re r (window_for_check led r limit) (Some key) n en = (Inr out, en')))"
  have main: ?goal
  proof (cases y)
    case (Inl e)
    then have "reg' = reg1" "x = Inl e" using assms(2) g by (simp_all add: evaluate_in_session_def eff_bind_def key_def Let_def)
    then show ?thesis using G by simp
  next
    case (Inr u)
    obtain z reg2 where p: "prime_session re key r led limit reg1 = (z, reg2)" by fastforce
    have r1: "registry_ok re reg1" "map_of (sr_enforcers reg1) key \<noteq> None" "sr_contracts reg1 = sr_contracts reg" "sr_capacity reg1 = sr_capacity reg"
      using G Inr by simp_all
    have K: "keeps re key reg1 reg2" using prime_session_run[OF r1(1,2), of r led limit] p by simp
    have r2: "registry_ok re reg2" "map_of (sr_enforcers reg2) key \<noteq> None" "sr_contracts reg2 = sr_contracts reg" "sr_capacity reg2 = sr_capacity reg"
      "\<forall>k. k \<noteq> key \<longrightarrow> map_of (sr_enforcers reg2) k = map_of (sr_enforcers reg1) k"
      using K r1 by (simp_all add: keeps_def)
    show ?thesis
    proof (cases z)
      case (Inl e)
      then have "reg' = reg2" "x = Inl e" using assms(2) g p Inr by (simp_all add: evaluate_in_session_def eff_bind_def key_def Let_def)
      then show ?thesis using r2 by simp
    next
      case z: (Inr n)
      have o: "on_enforcer key (check_request re r (window_for_check led r limit) (Some key) n) reg2 = (x, reg')"
        using assms(2) g p Inr z by (simp add: evaluate_in_session_def eff_bind_def key_def Let_def)
      obtain en where en: "map_of (sr_enforcers reg2) key = Some en" using r2(2) by blast
      have ok: "session_ok re (sr_contracts reg) en"
        using r2(1,3) map_of_SomeD[OF en] by (auto simp: registry_ok_def)
      note O = on_enforcer_run[OF r2(1) session_request o]
      have "check_request re r (window_for_check led r limit) (Some key) n en = (x, the (map_of (sr_enforcers reg') key))" "map_of (sr_enforcers reg') key \<noteq> None"
        using O en by simp_all
      then have "\<forall>out. x = Inr out \<longrightarrow> (\<exists>n en en'. session_ok re (sr_contracts reg) en \<and> map_of (sr_enforcers reg') key = Some en'
        \<and> check_request re r (window_for_check led r limit) (Some key) n en = (Inr out, en'))" using ok by (metis option.collapse)
      then show ?thesis using O r2 by simp
    qed
  qed
  show "registry_ok re reg'" "sr_contracts reg' = sr_contracts reg" "sr_capacity reg' = sr_capacity reg" using main by simp_all
  show "k \<noteq> key \<Longrightarrow> map_of (sr_enforcers reg') k = map_of (sr_enforcers reg) k
      \<or> (map_of (sr_enforcers reg') k = None \<and> map_of (sr_enforcers reg) key = None \<and> int (length (sr_enforcers reg)) = sr_capacity reg)"
    using main G by simp
  show "x = Inr out \<Longrightarrow> \<exists>n en en'. session_ok re (sr_contracts reg) en \<and> map_of (sr_enforcers reg') key = Some en'
      \<and> check_request re r (window_for_check led r limit) (Some key) n en = (Inr out, en')" using main by simp
qed

section \<open>Reachable registries\<close>

inductive registry_reach :: "re_search \<Rightarrow> session_registry \<Rightarrow> bool" for re where
  reach_new: "SessionEnforcerRegistry_init cs capacity = Inr reg \<Longrightarrow> \<forall>c\<in>set cs. contract_post_init c = Inr c \<Longrightarrow> registry_reach re reg"
| reach_evaluate: "registry_reach re reg \<Longrightarrow> registry_reach re (snd (evaluate_in_session re r led limit reg))"
| reach_forget: "registry_reach re reg \<Longrightarrow> registry_reach re (snd (forget key reg))"

lemma forget_ok: "registry_ok re reg \<Longrightarrow> registry_ok re (snd (forget key reg))"
proof -
  assume ok: "registry_ok re reg"
  have "length (AList.delete key (sr_enforcers reg)) \<le> length (sr_enforcers reg)" by (simp add: AList.delete_eq)
  moreover have "\<forall>(k, en)\<in>set (AList.delete key (sr_enforcers reg)). session_ok re (sr_contracts reg) en"
    using ok set_delete_subset[of key "sr_enforcers reg"] unfolding registry_ok_def by auto
  moreover have "fst ` set (AList.delete key (sr_prime_state reg)) = fst ` set (AList.delete key (sr_enforcers reg))"
    using ok by (simp add: registry_ok_def set_delete_keys)
  ultimately show ?thesis using ok by (simp add: forget_def eff_defs registry_ok_def distinct_delete)
qed

lemma registry_reach_ok: "registry_reach re reg \<Longrightarrow> registry_ok re reg"
proof (induction rule: registry_reach.induct)
  case (reach_new cs capacity reg)
  then show ?case by (auto simp: SessionEnforcerRegistry_init_def registry_ok_def split: if_splits)
next
  case (reach_evaluate reg r led limit)
  then show ?case using evaluate_in_session_run(1)[of re reg r led limit] by (metis prod.collapse)
qed (simp add: forget_ok)

text \<open>
  (C33) In every reachable registry, whatever requests were evaluated and whether their evaluation raised, there are at most
  \<open>capacity\<close> sessions, one per key, the priming marks are kept for exactly these sessions, and each session is a reachable enforcer of
  the registry's contracts.
\<close>

theorem registry_invariant:
  assumes "registry_reach re reg"
  shows "int (registry_len reg) \<le> sr_capacity reg \<and> distinct (map fst (sr_enforcers reg))
    \<and> fst ` set (sr_prime_state reg) = fst ` set (sr_enforcers reg)
    \<and> (\<forall>(key, en)\<in>set (sr_enforcers reg). enforcer_reach re en \<and> en_contracts en = sr_contracts reg)"
  using registry_reach_ok[OF assms] by (simp add: registry_ok_def registry_len_def session_ok_def)

text \<open>
  (C15) Sessions are isolated: evaluating a request changes the enforcer of no other session; another session can only be dropped, and
  only when the request opens a new session in a full registry.
\<close>

theorem sessions_isolated:
  assumes "registry_reach re reg" and "evaluate_in_session re r led limit reg = (x, reg')"
    and "k \<noteq> session_key_for (req_agent_id r) (er_session_id r)"
  shows "map_of (sr_enforcers reg') k = map_of (sr_enforcers reg) k
    \<or> (map_of (sr_enforcers reg') k = None \<and> map_of (sr_enforcers reg) (session_key_for (req_agent_id r) (er_session_id r)) = None
       \<and> int (registry_len reg) = sr_capacity reg)"
  using evaluate_in_session_run(4)[OF registry_reach_ok[OF assms(1)] assms(2,3)] by (simp add: registry_len_def)

section \<open>Hard and soft outcomes\<close>

lemma is_soft_kind: "is_soft_violation v \<longleftrightarrow> soft_kind (vi_violated_clause v)"
  by (cases "vi_violated_clause v") (simp_all add: is_soft_violation_def soft_clause_names_def soft_kind_def)

definition event_context :: "evaluation_request \<Rightarrow> contract_context" where
  "event_context r = context_of (build_proposed_event r) (build_neutral_state r) []"

lemma formula_holds_event:
  "formula_holds re (context_of (build_proposed_event r) (build_neutral_state r) w) f = formula_holds re (event_context r) f"
  using formula_holds_window[of re w "event_context r"] by (simp add: event_context_def context_of_def)

lemma parsed_of_contract: "enforcer_ok en \<Longrightarrow> c \<in> set (active en agent ev) \<Longrightarrow> contract_formulas c = Inr (parsed_of en c)"
  using subsetD[OF active_subset, of c en agent ev] by (auto simp: enforcer_ok_def contracts_ok_def parsed_of_def)

lemma check_request_run:
  assumes "enforcer_reach re en" and "check_request re r w key n en = (Inr out, en')"
  defines "new \<equiv> drop (length (en_violations en)) (en_violations en')"
  shows "\<exists>ok ids. enforcer_check re (agent_key_of r) (build_proposed_event r) (build_neutral_state r) w Pre en = (Inr (ok, ids), en')"
    "oc_has_hard_violation out \<longleftrightarrow> (\<exists>v\<in>set new. \<not> soft_kind (vi_violated_clause v))"
    "oc_has_soft_violation out \<longleftrightarrow> (\<exists>v\<in>set new. soft_kind (vi_violated_clause v)) \<and> \<not> oc_has_hard_violation out"
    "oc_forbid_reason out = (if oc_has_hard_violation out then Some HARD_VIOLATION_FORBID_REASON else None)"
    "oc_soft_uncertainty_flags out = (if oc_has_soft_violation out then [''contract_soft_violation''] else [])"
    "oc_raw_violations out = new"
proof -
  obtain ok ids fs where e: "enforcer_check re (agent_key_of r) (build_proposed_event r) (build_neutral_state r) w Pre en = (Inr (ok, ids), en')"
    and o: "out = \<lparr>oc_has_hard_violation = list_ex (\<lambda>v. \<not> is_soft_violation v) new,
      oc_has_soft_violation = list_ex is_soft_violation new \<and> \<not> list_ex (\<lambda>v. \<not> is_soft_violation v) new, oc_findings = fs,
      oc_forbid_reason = (if list_ex (\<lambda>v. \<not> is_soft_violation v) new then Some HARD_VIOLATION_FORBID_REASON else None),
      oc_soft_uncertainty_flags = (if list_ex is_soft_violation new \<and> \<not> list_ex (\<lambda>v. \<not> is_soft_violation v) new then [''contract_soft_violation''] else []),
      oc_raw_violations = new, oc_session_key = key, oc_replayed_window_size = n, oc_step_index_at_check = en_step_index en + 1\<rparr>"
    using assms(2) unfolding check_request_def check_pre_def Let_def new_def by (auto simp: eff_rules)
  from e show "\<exists>ok ids. enforcer_check re (agent_key_of r) (build_proposed_event r) (build_neutral_state r) w Pre en = (Inr (ok, ids), en')" by blast
  show "oc_has_hard_violation out \<longleftrightarrow> (\<exists>v\<in>set new. \<not> soft_kind (vi_violated_clause v))"
    "oc_has_soft_violation out \<longleftrightarrow> (\<exists>v\<in>set new. soft_kind (vi_violated_clause v)) \<and> \<not> oc_has_hard_violation out"
    "oc_forbid_reason out = (if oc_has_hard_violation out then Some HARD_VIOLATION_FORBID_REASON else None)"
    "oc_soft_uncertainty_flags out = (if oc_has_soft_violation out then [''contract_soft_violation''] else [])"
    "oc_raw_violations out = new"
    by (simp_all add: o list_ex_iff is_soft_kind)
qed

text \<open>
  (C8) The bridge reports a hard violation, with the reason to forbid, exactly when a contract that applies to the request's agent and kind of event
  has a precondition, hard invariant or hard governance clause that is false of the request: the answer depends on the request
  and the contracts alone, on no session, ledger or earlier request.
\<close>

theorem hard_violation_iff:
  assumes "registry_reach re reg" and "evaluate_in_session re r led limit reg = (Inr out, reg')"
  shows "(oc_has_hard_violation out \<longleftrightarrow>
      (\<exists>c\<in>set (sr_contracts reg). applies_to c (agent_key_of r) (pe_event_kind (build_proposed_event r))
         \<and> (\<exists>p. contract_formulas c = Inr p \<and> (\<exists>(cl, l, f)\<in>set (hard_clauses Pre c p). formula_holds re (event_context r) f = Inr False))))
    \<and> oc_forbid_reason out = (if oc_has_hard_violation out then Some HARD_VIOLATION_FORBID_REASON else None)"
proof -
  obtain n en en' where s: "session_ok re (sr_contracts reg) en"
    and q: "check_request re r (window_for_check led r limit) (Some (session_key_for (req_agent_id r) (er_session_id r))) n en = (Inr out, en')"
    using evaluate_in_session_run(5)[OF registry_reach_ok[OF assms(1)] assms(2)] by blast
  have en: "enforcer_reach re en" "en_contracts en = sr_contracts reg" using s by (simp_all add: session_ok_def)
  note ok = reach_ok[OF en(1)]
  note Q = check_request_run[OF en(1) q]
  obtain b ids where e: "enforcer_check re (agent_key_of r) (build_proposed_event r) (build_neutral_state r) (window_for_check led r limit) Pre en = (Inr (b, ids), en')"
    using Q(1) by blast
  let ?act = "active en (agent_key_of r) (build_proposed_event r)"
  have "oc_has_hard_violation out \<longleftrightarrow> (\<exists>c\<in>set ?act. \<exists>(cl, l, f)\<in>set (hard_clauses Pre c (parsed_of en c)). formula_holds re (event_context r) f = Inr False)"
    unfolding Q(2) check_adds_by_kind(1)[OF ok e] contract_fails_def formula_holds_event ..
  also have "\<dots> \<longleftrightarrow> (\<exists>c\<in>set ?act. \<exists>p. contract_formulas c = Inr p \<and> (\<exists>(cl, l, f)\<in>set (hard_clauses Pre c p). formula_holds re (event_context r) f = Inr False))"
    using parsed_of_contract[OF ok] by (intro bex_cong refl) auto
  also have "\<dots> \<longleftrightarrow> (\<exists>c\<in>set (sr_contracts reg). applies_to c (agent_key_of r) (pe_event_kind (build_proposed_event r))
      \<and> (\<exists>p. contract_formulas c = Inr p \<and> (\<exists>(cl, l, f)\<in>set (hard_clauses Pre c p). formula_holds re (event_context r) f = Inr False)))"
    unfolding active_def en(2) set_filter by blast
  finally show ?thesis using Q(4) by (intro conjI)
qed

text \<open>
  (C34) With one enforcer for all requests, the bridge reports a soft violation exactly when there is no hard one and either a soft clause
  of an applicable contract fails that has no open obligation, or some obligation has run out. A clause that fails while its obligation is open
  is not reported, and an obligation that ran out, although recorded with severity block, is reported as soft.
\<close>

theorem soft_violation_iff:
  assumes "enforcer_reach re en" and "evaluate_contracts_for_request re r led limit (Some en, None) = (Inr out, st)"
  shows "oc_has_soft_violation out \<longleftrightarrow> \<not> oc_has_hard_violation out \<and>
    ((\<exists>c\<in>set (en_contracts en). applies_to c (agent_key_of r) (pe_event_kind (build_proposed_event r))
        \<and> (\<exists>(cl, j, l, f)\<in>set (soft_clauses c (parsed_of en c)). formula_holds re (event_context r) f = Inr False
             \<and> pend en (agent_key_of r, bc_contract_id c, cl, j) = None))
     \<or> (\<exists>key e. pend en key = Some e \<and> re_deadline_step e < en_step_index en + 1))"
proof -
  obtain en' where q: "check_request re r (window_for_check led r limit) None 0 en = (Inr out, en')"
    using assms(2) by (auto simp: evaluate_contracts_for_request_def split: prod.splits)
  note Q = check_request_run[OF assms(1) q]
  obtain b ids where e: "enforcer_check re (agent_key_of r) (build_proposed_event r) (build_neutral_state r) (window_for_check led r limit) Pre en = (Inr (b, ids), en')"
    using Q(1) by blast
  have "(\<exists>v\<in>set (drop (length (en_violations en)) (en_violations en')). soft_kind (vi_violated_clause v)) \<longleftrightarrow>
      (\<exists>c\<in>set (active en (agent_key_of r) (build_proposed_event r)). \<exists>(cl, j, l, f)\<in>set (soft_clauses c (parsed_of en c)).
          formula_holds re (event_context r) f = Inr False \<and> pend en (agent_key_of r, bc_contract_id c, cl, j) = None)
      \<or> (\<exists>key e. pend en key = Some e \<and> re_deadline_step e < en_step_index en + 1)"
    unfolding check_adds_by_kind(2)[OF reach_ok[OF assms(1)] e] formula_holds_event ..
  then show ?thesis unfolding Q(3) active_def set_filter by blast
qed

section \<open>A session with a soft clause\<close>

definition email_contract :: behavioral_contract where
  "email_contract = \<lparr>bc_contract_id = ''c'', bc_agent_id = ''*'', bc_description = [], bc_precondition_ltl = [], bc_postcondition_ltl = ''true'',
     bc_invariants_ltl = [''field:content==hello''], bc_soft_invariants_ltl = [''field:channel==email''], bc_hard_governance_ltl = [],
     bc_soft_governance_ltl = [], bc_covered_event_kinds = [''*''], bc_severity_on_violation = Sev_block, bc_recovery_window_k = 1,
     bc_delta_tolerance = Fin 0, bc_satisfaction_p = Fin 1\<rparr>"

definition email_request :: "string \<Rightarrow> string \<Rightarrow> evaluation_request" where
  "email_request ch content = \<lparr>action_type = ''send'', channel = ch, recipient = None, req_agent_id = Some ''a'', metadata = [],
     er_request_id = ''r'', er_content = content, er_environment = ''prod'', er_session_id = Some ''s'', er_agent_identity = None, er_requested_at = demo_time,
     er_metadata_text = ''{}''\<rparr>"

definition email_registry :: session_registry where
  "email_registry = \<lparr>sr_contracts = [email_contract], sr_enforcers = [], sr_prime_state = [], sr_capacity = 256\<rparr>"

definition email_step :: "string \<Rightarrow> string \<Rightarrow> contract_outcome reg_eff" where
  "email_step ch content = evaluate_in_session (\<lambda>_ _. Inr False) (email_request ch content) NoLedger 32"

lemma email_reach: "registry_reach (\<lambda>_ _. Inr False) email_registry"
proof (rule reach_new)
  show "SessionEnforcerRegistry_init [email_contract] 256 = Inr email_registry" by (simp add: SessionEnforcerRegistry_init_def email_registry_def)
  show "\<forall>c\<in>set [email_contract]. contract_post_init c = Inr c" by (simp add: email_contract_def contract_post_init_def fl_le_def)
qed

text \<open>
  Three requests of one session that break the same soft clause, with a recovery window of one step: the first is reported as a soft violation, the
  second is not reported at all, and the third, which finds the obligation run out and is recorded with severity block, is reported as soft again:
  none of them is refused.
\<close>

theorem repeated_soft_violation_unreported:
  "let (x1, reg1) = email_step ''sms'' ''hello'' email_registry; (x2, reg2) = email_step ''sms'' ''hello'' reg1; (x3, reg3) = email_step ''sms'' ''hello'' reg2 in
     oc_has_soft_violation (projr x1) \<and> \<not> oc_has_soft_violation (projr x2) \<and> \<not> oc_has_hard_violation (projr x2) \<and> oc_findings (projr x2) = []
     \<and> oc_has_soft_violation (projr x3) \<and> \<not> oc_has_hard_violation (projr x3) \<and> map vi_severity (oc_raw_violations (projr x3)) = [Sev_block]"
  by code_simp

theorem hard_violation_iff_witness:
  "\<exists>out reg'. email_step ''email'' ''bye'' email_registry = (Inr out, reg') \<and> oc_has_hard_violation out
     \<and> oc_forbid_reason out = Some HARD_VIOLATION_FORBID_REASON"
proof -
  have "(case email_step ''email'' ''bye'' email_registry of (Inr out, reg') \<Rightarrow> oc_has_hard_violation out | _ \<Rightarrow> False)" by code_simp
  then obtain out reg' where o: "email_step ''email'' ''bye'' email_registry = (Inr out, reg')" "oc_has_hard_violation out"
    by (auto split: prod.splits sum.splits)
  then show ?thesis using hard_violation_iff[OF email_reach o(1)[unfolded email_step_def]] by auto
qed

definition email_enforcer :: enforcer where
  "email_enforcer = projr (ContractEnforcer_init [email_contract])"

lemma email_enforcer_reach: "enforcer_reach (\<lambda>_ _. Inr False) email_enforcer"
proof (rule reach_init)
  show "ContractEnforcer_init [email_contract] = Inr email_enforcer" unfolding email_enforcer_def by code_simp
  show "\<forall>c\<in>set [email_contract]. contract_post_init c = Inr c" by (simp add: email_contract_def contract_post_init_def fl_le_def)
qed

theorem soft_violation_iff_witness:
  "\<exists>out st. evaluate_contracts_for_request (\<lambda>_ _. Inr False) (email_request ''sms'' ''hello'') NoLedger 32 (Some email_enforcer, None) = (Inr out, st)
     \<and> oc_has_soft_violation out
     \<and> (\<exists>c\<in>set (en_contracts email_enforcer). \<exists>(cl, j, l, f)\<in>set (soft_clauses c (parsed_of email_enforcer c)).
          formula_holds (\<lambda>_ _. Inr False) (event_context (email_request ''sms'' ''hello'')) f = Inr False)"
proof -
  have "(case evaluate_contracts_for_request (\<lambda>_ _. Inr False) (email_request ''sms'' ''hello'') NoLedger 32 (Some email_enforcer, None)
      of (Inr out, st) \<Rightarrow> oc_has_soft_violation out | _ \<Rightarrow> False)" by code_simp
  then obtain out st where
    o: "evaluate_contracts_for_request (\<lambda>_ _. Inr False) (email_request ''sms'' ''hello'') NoLedger 32 (Some email_enforcer, None) = (Inr out, st)"
      "oc_has_soft_violation out" by (auto split: prod.splits sum.splits)
  have "en_soft_pending email_enforcer = []" by code_simp
  then show ?thesis using soft_violation_iff[OF email_enforcer_reach o(1)] o by (simp, blast)
qed

theorem registry_invariant_witness:
  "let reg = snd (email_step ''sms'' ''hello'' email_registry) in sr_enforcers reg \<noteq> [] \<and> int (registry_len reg) \<le> sr_capacity reg"
proof -
  have "sr_enforcers (snd (email_step ''sms'' ''hello'' email_registry)) \<noteq> []" by code_simp
  moreover have "registry_reach (\<lambda>_ _. Inr False) (snd (email_step ''sms'' ''hello'' email_registry))"
    unfolding email_step_def by (intro reach_evaluate email_reach)
  ultimately show ?thesis using registry_invariant unfolding Let_def by blast
qed

theorem sessions_isolated_witness:
  "let reg = snd (email_step ''sms'' ''hello'' email_registry); r = (email_request ''email'' ''bye'')\<lparr>er_session_id := Some ''t''\<rparr> in
     map_of (sr_enforcers reg) ''a::s'' \<noteq> None
     \<and> map_of (sr_enforcers (snd (evaluate_in_session (\<lambda>_ _. Inr False) r NoLedger 32 reg))) ''a::s'' = map_of (sr_enforcers reg) ''a::s''"
proof -
  let ?reg = "snd (email_step ''sms'' ''hello'' email_registry)" and ?r = "(email_request ''email'' ''bye'')\<lparr>er_session_id := Some ''t''\<rparr>"
  have c: "map_of (sr_enforcers ?reg) ''a::s'' \<noteq> None" "int (registry_len ?reg) \<noteq> sr_capacity ?reg" by code_simp+
  have "''a::s'' \<noteq> session_key_for (req_agent_id ?r) (er_session_id ?r)" by (simp add: session_key_for_def email_request_def)
  moreover have "registry_reach (\<lambda>_ _. Inr False) ?reg" unfolding email_step_def by (intro reach_evaluate email_reach)
  ultimately show ?thesis using sessions_isolated[OF _ prod.collapse[symmetric], of "\<lambda>_ _. Inr False" ?reg "''a::s''" ?r NoLedger 32] c
    unfolding Let_def by blast
qed

end
