(* ===== verification/Contract_Window.thy ===== *)
theory Contract_Window
  imports Contract_Bridge_Laws
begin

text \<open>
  The window of past events that the bridge takes from an action ledger. What it relies on is a locale: a ledger answers
  with entries of the agent, at most as many as asked for.
\<close>

locale agent_log =
  fixes valid :: "'l \<Rightarrow> bool" and read :: "'l \<Rightarrow> string \<Rightarrow> int \<Rightarrow> ledger_entry list option"
  assumes read_agent: "valid lg \<Longrightarrow> read lg a n = Some es \<Longrightarrow> e \<in> set es \<Longrightarrow> al_agent_id e = a"
    and read_bound: "valid lg \<Longrightarrow> read lg a n = Some es \<Longrightarrow> length es \<le> nat n"
begin

lemma window_events:
  assumes "valid lg" and "ev \<in> set (ledger_window_for (Reader (read lg)) a session limit)"
  shows "pe_actor_entity_id ev = a" "session \<noteq> None \<Longrightarrow> pe_session_id ev = session"
proof -
  let ?n = "if session \<noteq> None then limit * 4 else limit"
  obtain es where es: "read lg a ?n = Some es"
    using assms(2) by (cases "read lg a ?n") (simp_all add: ledger_window_for_def)
  let ?fs = "if session \<noteq> None then filter (\<lambda>e. al_session_id e = session) es else es"
  have "ev \<in> proposed_event_from_ledger_entry ` set (py_suffix limit ?fs)"
    using assms(2) es by (simp add: ledger_window_for_def Let_def)
  moreover have "set (py_suffix limit ?fs) \<subseteq> set ?fs" using set_drop_subset by (auto simp: py_suffix_def dest: in_set_dropD)
  ultimately obtain e where "e \<in> set ?fs" "ev = proposed_event_from_ledger_entry e" by blast
  then have "e \<in> set es" "session \<noteq> None \<Longrightarrow> al_session_id e = session" "ev = proposed_event_from_ledger_entry e" by (auto split: if_splits)
  then show "pe_actor_entity_id ev = a" "session \<noteq> None \<Longrightarrow> pe_session_id ev = session"
    using read_agent[OF assms(1) es] by (auto simp: proposed_event_from_ledger_entry_def)
qed

lemma window_bound:
  assumes "valid lg" and "0 < limit"
  shows "length (ledger_window_for (Reader (read lg)) a session limit) \<le> nat limit"
  using assms(2) by (auto simp: ledger_window_for_def py_suffix_def Let_def split: option.splits)

lemma window_empty:
  assumes "valid lg" and "limit \<le> 0"
  shows "ledger_window_for (Reader (read lg)) a session limit = []"
proof (cases "read lg a (if session \<noteq> None then limit * 4 else limit)")
  case (Some es)
  then have "es = []" using read_bound[OF assms(1) Some] assms(2) by (auto split: if_splits)
  with Some show ?thesis by (simp add: ledger_window_for_def py_suffix_def)
qed (simp add: ledger_window_for_def)

end

text \<open>The in-memory ledger keeps this contract in every state that a sequence of appends leads to.\<close>

definition ledger_valid :: "action_ledger \<Rightarrow> bool" where
  "ledger_valid lg \<longleftrightarrow> (\<exists>es. represents lg es)"

definition memory_reader :: "action_ledger \<Rightarrow> ledger_reader" where
  "memory_reader lg a n = Some (list_for_agent a (Some n) lg)"

interpretation memory: agent_log ledger_valid memory_reader
proof
  fix lg a n es e
  assume "ledger_valid lg" and r: "memory_reader lg a n = Some es"
  then obtain hist where h: "represents lg hist" by (auto simp: ledger_valid_def)
  have es: "es = list_for_agent a (Some n) lg" using r by (simp add: memory_reader_def)
  show "al_agent_id e = a" if "e \<in> set es" using that list_for_agent_subset[OF h] unfolding es by blast
  show "length es \<le> nat n" unfolding es list_for_agent_represents[OF h] Let_def by (simp add: keep_last_length)
qed

text \<open>
  (C35) From the in-memory ledger the bridge replays only events of the request's agent and, where the request names a session,
  of that session, and never more of them than the replay window; a window that is not positive replays nothing.
\<close>

theorem replay_is_scoped:
  assumes "InMemoryActionLedger_init n es = Inr lg"
  shows "(\<forall>ev\<in>set (ledger_window_for (Reader (memory_reader lg)) a session limit).
      pe_actor_entity_id ev = a \<and> (session \<noteq> None \<longrightarrow> pe_session_id ev = session))
    \<and> length (ledger_window_for (Reader (memory_reader lg)) a session limit) \<le> nat limit"
proof -
  have v: "ledger_valid lg" using represents_init(1)[OF assms] by (auto simp: ledger_valid_def)
  show ?thesis
    using memory.window_events[OF v, of _ a session limit] memory.window_bound[OF v, of limit a session] memory.window_empty[OF v, of limit a session]
    by (cases "0 < limit") auto
qed

theorem replay_is_scoped_witness:
  "length (ledger_window_for (Reader (memory_reader demo_ledger)) ''a'' (Some ''s'') 32) = 2
    \<and> list_all (\<lambda>ev. pe_actor_entity_id ev = ''a'') (ledger_window_for (Reader (memory_reader demo_ledger)) ''a'' (Some ''s'') 32)"
proof -
  have "length (ledger_window_for (Reader (memory_reader demo_ledger)) ''a'' (Some ''s'') 32) = 2" by code_simp
  then show ?thesis using replay_is_scoped[OF demo_ledger, of "''a''" "Some ''s''" 32] by (simp add: list_all_iff)
qed

end
