(* ===== verification/Cadence.thy ===== *)
theory Cadence
  imports Router Contract_Bridge
begin

text \<open>
  The action-cadence circuit breaker (\<^verbatim>\<open>deterministic/cadence.py\<close>): a sliding window of actions per agent, its
  classification, and the hold that demotes a permitted action.

  Correspondence. The tracker is a record; its ordered dictionaries are association lists, least recently used
  first, its deques lists, oldest first, and the sets of targets lists. The lock is left out. The thresholds that an
  assessment repeats from the configuration, and the metadata of findings, have no field. The em dash of the
  texts is written as a hyphen.
\<close>

section \<open>Configuration\<close>

datatype cadence_level = CLEAR | SOFT | HARD

record cadence_config =
  cc_enabled :: bool
  cc_window_seconds :: pyfloat
  cc_soft_actions :: int
  cc_hard_actions :: int
  cc_soft_fanout :: int
  cc_hard_fanout :: int
  cc_max_window_entries :: int
  cc_max_tracked_keys :: int
  cc_max_memo_entries :: int

definition cadence_defaults :: cadence_config where
  "cadence_defaults = \<lparr>cc_enabled = True, cc_window_seconds = Fin 10, cc_soft_actions = 8, cc_hard_actions = 20,
     cc_soft_fanout = 6, cc_hard_fanout = 15, cc_max_window_entries = 1024, cc_max_tracked_keys = 8192, cc_max_memo_entries = 4096\<rparr>"

type_synonym environ = "(string \<times> string) list"

definition env_bool :: "environ \<Rightarrow> string \<Rightarrow> bool \<Rightarrow> bool" where
  "env_bool env name d = (case map_of env name of None \<Rightarrow> d
     | Some raw \<Rightarrow> py_casefold (py_strip raw) \<in> {''1'', ''true'', ''yes'', ''on''})"

text \<open>\<^verbatim>\<open>int(s)\<close>: an optional sign and decimal digits, with single underscores between digits.\<close>

fun digits_ok :: "string \<Rightarrow> bool" where
  "digits_ok [] = False"
| "digits_ok [c] = py_isdecimal c"
| "digits_ok (c # d # cs) = (py_isdecimal c \<and> (if d = CHR ''_'' then digits_ok cs else digits_ok (d # cs)))"

definition read_int :: "string \<Rightarrow> int option" where
  "read_int s =
     (let t = py_strip s;
          neg = (t \<noteq> [] \<and> hd t = CHR ''-'');
          body = (if t \<noteq> [] \<and> hd t \<in> {CHR ''-'', CHR ''+''} then tl t else t);
          ds = filter (\<lambda>c. c \<noteq> CHR ''_'') body
      in if digits_ok body \<and> length ds \<le> 4300
         then Some (if neg then - int (int_of_digits ds) else int (int_of_digits ds)) else None)"

definition env_int :: "environ \<Rightarrow> string \<Rightarrow> int \<Rightarrow> int" where
  "env_int env name d = (case map_of env name of None \<Rightarrow> d
     | Some raw \<Rightarrow> (case read_int raw of None \<Rightarrow> d | Some v \<Rightarrow> if 0 < v then v else d))"

definition env_float :: "environ \<Rightarrow> string \<Rightarrow> pyfloat \<Rightarrow> pyfloat" where
  "env_float env name d = (case map_of env name of None \<Rightarrow> d
     | Some raw \<Rightarrow> (case read_float raw of None \<Rightarrow> d | Some v \<Rightarrow> if fl_less (Fin 0) v then v else d))"

definition cadence_from_env :: "environ \<Rightarrow> cadence_config" where
  "cadence_from_env env =
     (let d = cadence_defaults;
          soft_actions = env_int env ''TEX_CADENCE_SOFT_ACTIONS'' (cc_soft_actions d);
          hard_actions = env_int env ''TEX_CADENCE_HARD_ACTIONS'' (cc_hard_actions d);
          soft_fanout = env_int env ''TEX_CADENCE_SOFT_FANOUT'' (cc_soft_fanout d);
          hard_fanout = env_int env ''TEX_CADENCE_HARD_FANOUT'' (cc_hard_fanout d)
      in d\<lparr>cc_enabled := env_bool env ''TEX_CADENCE_ENABLED'' (cc_enabled d),
           cc_window_seconds := env_float env ''TEX_CADENCE_WINDOW_SECONDS'' (cc_window_seconds d),
           cc_soft_actions := soft_actions, cc_hard_actions := max hard_actions soft_actions,
           cc_soft_fanout := soft_fanout, cc_hard_fanout := max hard_fanout soft_fanout\<rparr>)"

definition cadence_classify :: "cadence_config \<Rightarrow> nat \<Rightarrow> nat \<Rightarrow> cadence_level" where
  "cadence_classify c action_count distinct_targets =
     (if cc_hard_actions c \<le> int action_count \<or> cc_hard_fanout c \<le> int distinct_targets then HARD
      else if cc_soft_actions c \<le> int action_count \<or> cc_soft_fanout c \<le> int distinct_targets then SOFT
      else CLEAR)"

section \<open>Assessments\<close>

record cadence_assessment =
  cd_level :: cadence_level
  cd_tracked :: bool
  cd_key :: string
  cd_action_count :: nat
  cd_distinct_targets :: nat
  cd_reason :: string
  cd_counterfactual :: string

definition cadence_fired :: "cadence_assessment \<Rightarrow> bool" where
  "cadence_fired a \<longleftrightarrow> cd_level a \<noteq> CLEAR"

definition untracked_assessment :: cadence_assessment where
  "untracked_assessment = \<lparr>cd_level = CLEAR, cd_tracked = False, cd_key = [], cd_action_count = 0, cd_distinct_targets = 0,
     cd_reason = [], cd_counterfactual = []\<rparr>"

definition cadence_reason :: "cadence_config \<Rightarrow> string \<Rightarrow> cadence_level \<Rightarrow> nat \<Rightarrow> nat \<Rightarrow> string" where
  "cadence_reason c key level n m =
     (let (band, effect) =
        (if level = HARD then (''hard threshold (>= '' @ int_str (cc_hard_actions c) @ '' actions or >= '' @ int_str (cc_hard_fanout c) @ '' distinct targets)'',
                               ''structural FORBID'')
         else (''soft budget (>= '' @ int_str (cc_soft_actions c) @ '' actions or >= '' @ int_str (cc_soft_fanout c) @ '' distinct targets)'',
               ''held for review (PERMIT->ABSTAIN)''))
      in ''Action-cadence circuit-breaker: agent '' @ [CHR 39] @ key @ [CHR 39] @ '' issued '' @ nat_digits n @ '' action(s) across '' @ nat_digits m
         @ '' distinct target(s) within the last '' @ fmt_g (cc_window_seconds c) @ ''s window, crossing the '' @ band @ '' - '' @ effect
         @ ''. Machine-speed action cadence is a deterministic, paraphrase-proof signal of autonomous-attack fan-out (Anthropic Nov-2025 disclosure).'')"

definition cadence_counterfactual :: "cadence_config \<Rightarrow> string" where
  "cadence_counterfactual c = ''Had this agent stayed within the soft budget (< '' @ int_str (cc_soft_actions c) @ '' actions and < ''
     @ int_str (cc_soft_fanout c) @ '' distinct targets per '' @ fmt_g (cc_window_seconds c) @ ''s), no cadence hold would have fired.''"

definition build_assessment :: "cadence_config \<Rightarrow> string \<Rightarrow> cadence_level \<Rightarrow> nat \<Rightarrow> nat \<Rightarrow> cadence_assessment" where
  "build_assessment c key level n m =
     \<lparr>cd_level = level, cd_tracked = True, cd_key = key, cd_action_count = n, cd_distinct_targets = m,
      cd_reason = (if level = CLEAR then [] else cadence_reason c key level n m),
      cd_counterfactual = (if level = CLEAR then [] else cadence_counterfactual c)\<rparr>"

section \<open>Reading a request\<close>

definition derive_key :: "evaluation_request \<Rightarrow> string option" where
  "derive_key r =
     (let nonempty = (\<lambda>so. case so of None \<Rightarrow> False | Some s \<Rightarrow> s \<noteq> []);
          tenant = (case er_agent_identity r of None \<Rightarrow> ''default'' | Some i \<Rightarrow> if ri_tenant_id i = [] then ''default'' else ri_tenant_id i);
          from_identity = (case er_agent_identity r of None \<Rightarrow> None
            | Some i \<Rightarrow> (case ri_agent_id i of Some a \<Rightarrow> Some (''aid:'' @ a)
                | None \<Rightarrow> if nonempty (ri_external_agent_id i) then Some (''ext:'' @ the (ri_external_agent_id i))
                          else if nonempty (ri_agent_name i) then Some (''name:'' @ the (ri_agent_name i)) else None));
          agent_part = (case from_identity of Some p \<Rightarrow> Some p | None \<Rightarrow> map_option (\<lambda>a. ''aid:'' @ a) (req_agent_id r))
      in map_option (\<lambda>p. tenant @ ''|'' @ p) agent_part)"

definition target_atoms :: "string \<Rightarrow> string list \<Rightarrow> string list" where
  "target_atoms tag xs = map (\<lambda>x. tag @ py_casefold (py_strip x)) (filter (\<lambda>x. py_strip x \<noteq> []) xs)"

definition derive_targets :: "evaluation_request \<Rightarrow> string list" where
  "derive_targets r =
     target_atoms ''recipient:'' (case recipient r of None \<Rightarrow> [] | Some x \<Rightarrow> [x])
     @ (case er_agent_identity r of None \<Rightarrow> []
        | Some i \<Rightarrow> target_atoms ''tool:'' (ri_tools i) @ target_atoms ''mcp:'' (ri_mcp_server_ids i))
     @ (case map_of (metadata r) ''cadence_targets'' of
          Some (VList xs _) \<Rightarrow> target_atoms ''target:'' (List.map_filter (\<lambda>v. case v of VStr s \<Rightarrow> Some s | _ \<Rightarrow> None) xs)
        | _ \<Rightarrow> [])"

definition request_timestamp :: "evaluation_request \<Rightarrow> pyfloat" where
  "request_timestamp r = dt_epoch (er_requested_at r)"

section \<open>The tracker\<close>

record window_entry =
  we_ts :: pyfloat
  we_request_id :: string
  we_targets :: "string list"

record cadence_tracker =
  ct_config :: cadence_config
  ct_windows :: "(string \<times> window_entry list) list"
  ct_memo :: "(string \<times> cadence_assessment) list"

definition ActionCadenceTracker_init :: "cadence_config \<Rightarrow> cadence_tracker" where
  "ActionCadenceTracker_init c = \<lparr>ct_config = c, ct_windows = [], ct_memo = []\<rparr>"

definition lru_put :: "string \<Rightarrow> 'a \<Rightarrow> (string \<times> 'a) list \<Rightarrow> (string \<times> 'a) list" where
  "lru_put k v xs = AList.delete k xs @ [(k, v)]"

definition lru_trim :: "int \<Rightarrow> 'a list \<Rightarrow> 'a list" where
  "lru_trim n xs = keep_last (nat n) xs"

definition prune :: "cadence_config \<Rightarrow> pyfloat \<Rightarrow> window_entry list \<Rightarrow> window_entry list" where
  "prune c now w = dropWhile (\<lambda>e. fl_le (we_ts e) (fl_sub now (cc_window_seconds c))) w"

definition observe :: "cadence_config \<Rightarrow> evaluation_request \<Rightarrow> window_entry list \<Rightarrow> window_entry list" where
  "observe c r w =
     (let w = prune c (request_timestamp r) w in
      if list_ex (\<lambda>e. we_request_id e = er_request_id r) w then w
      else lru_trim (cc_max_window_entries c)
             (w @ [\<lparr>we_ts = request_timestamp r, we_request_id = er_request_id r, we_targets = derive_targets r\<rparr>]))"

definition distinct_targets :: "window_entry list \<Rightarrow> nat" where
  "distinct_targets w = length (remdups (concat (map we_targets w)))"

definition assess :: "evaluation_request \<Rightarrow> cadence_tracker \<Rightarrow> cadence_assessment \<times> cadence_tracker" where
  "assess r t =
     (let c = ct_config t; rid = er_request_id r in
      if \<not> cc_enabled c then (untracked_assessment, t)
      else case derive_key r of None \<Rightarrow> (untracked_assessment, t)
      | Some key \<Rightarrow>
        (case (if rid = [] then None else map_of (ct_memo t) rid) of
           Some a \<Rightarrow> (a, t\<lparr>ct_memo := lru_put rid a (ct_memo t)\<rparr>)
         | None \<Rightarrow>
             let w = observe c r (case map_of (ct_windows t) key of None \<Rightarrow> [] | Some w \<Rightarrow> w);
                 n = length w; m = distinct_targets w;
                 a = build_assessment c key (cadence_classify c n m) n m
             in (a, t\<lparr>ct_memo := (if rid = [] then ct_memo t else lru_trim (cc_max_memo_entries c) (lru_put rid a (ct_memo t))),
                      ct_windows := lru_trim (cc_max_tracked_keys c) (lru_put key w (ct_windows t))\<rparr>)))"

section \<open>The hold\<close>

definition cadence_hold_flag :: string where
  "cadence_hold_flag = ''action_cadence_soft_budget_exceeded''"

definition apply_cadence_hold ::
    "'f routing_result \<Rightarrow> evaluation_request \<Rightarrow> cadence_tracker \<Rightarrow> (value_error + 'f routing_result) \<times> cadence_tracker" where
  "apply_cadence_hold base r t =
     (if rr_verdict base \<noteq> PERMIT then (Inr base, t)
      else case assess r t of (a, t') \<Rightarrow>
        (if \<not> cadence_fired a then (Inr base, t')
         else (sbind (Finding_init
                 \<lparr>fd_source = ''deterministic.action_cadence'',
                  fd_rule_name = (if cd_level a = SOFT then ''action_cadence_soft_hold'' else ''action_cadence_hard_hold''),
                  fd_severity = (if cd_level a = SOFT then WARNING else CRITICAL), fd_message = cd_reason a,
                  fd_matched_text = None, fd_start_index = None, fd_end_index = None\<rparr>) (\<lambda>f.
               RoutingResult_init (base\<lparr>rr_verdict := ABSTAIN,
                 rr_reasons := rr_reasons base @ [cd_reason a, ''Counterfactual: '' @ cd_counterfactual a],
                 rr_findings := rr_findings base @ [f],
                 rr_scores := AList.update ''action_cadence'' (if cd_level a = HARD then Fin 1 else Fin (1 / 2)) (rr_scores base),
                 rr_uncertainty_flags := rr_uncertainty_flags base @ [cadence_hold_flag]\<rparr>)), t')))"

end
