(* ===== verification/Cadence_Laws.thy ===== *)
theory Cadence_Laws
  imports Cadence
begin

text \<open>
  Properties of the cadence breaker: an action is observed once, the counts are those of the agent's recent actions, and
  the state is bounded.
\<close>

section \<open>Lists\<close>

lemma keep_last_all: "length xs \<le> n \<Longrightarrow> keep_last n xs = xs"
  by (simp add: keep_last_def)

lemma keep_last_Cons: "n \<le> length xs \<Longrightarrow> keep_last n (x # xs) = keep_last n xs"
  by (simp add: keep_last_def Suc_diff_le)

lemma keep_last_length_le: "length (keep_last n xs) \<le> n"
  by (simp add: keep_last_def)

lemma set_keep_last: "set (keep_last n xs) \<subseteq> set xs"
  unfolding keep_last_def by (rule set_drop_subset)

lemma dropWhile_none: "\<forall>x\<in>set xs. \<not> S x \<Longrightarrow> dropWhile S xs = xs"
  by (cases xs) auto

lemma dropWhile_keep_last:
  assumes "sorted_wrt (\<lambda>a b. S b \<longrightarrow> S a) xs"
  shows "dropWhile S (keep_last n xs) = keep_last n (dropWhile S xs)"
  using assms
proof (induction xs)
  case (Cons x xs)
  show ?case
  proof (cases "n \<le> length xs")
    case True
    show ?thesis
    proof (cases "S x")
      case False
      then have none: "\<forall>y\<in>set (x # xs). \<not> S y" using Cons.prems by auto
      then have "\<forall>y\<in>set (keep_last n (x # xs)). \<not> S y" using set_keep_last[of n "x # xs"] by blast
      then have "dropWhile S (keep_last n (x # xs)) = keep_last n (x # xs)" by (rule dropWhile_none)
      moreover have "dropWhile S (x # xs) = x # xs" using none by (rule dropWhile_none)
      ultimately show ?thesis by (simp only:)
    qed (use True Cons in \<open>simp add: keep_last_Cons\<close>)
  next
    case False
    then have "length (x # xs) \<le> n" by simp
    moreover have "length (dropWhile S (x # xs)) \<le> n" using False length_dropWhile_le[of S "x # xs"] by simp
    ultimately show ?thesis by (simp only: keep_last_all)
  qed
qed (simp add: keep_last_def)

lemma dropWhile_twice: "(\<And>x. S x \<Longrightarrow> S' x) \<Longrightarrow> dropWhile S' (dropWhile S xs @ ys) = dropWhile S' (xs @ ys)"
  by (induction xs) auto

lemma dropWhile_filter: "sorted_wrt (\<lambda>a b. S b \<longrightarrow> S a) xs \<Longrightarrow> dropWhile S xs = filter (\<lambda>x. \<not> S x) xs"
proof (induction xs)
  case (Cons x xs)
  show ?case
  proof (cases "S x")
    case False
    then have "\<forall>y\<in>set xs. \<not> S y" using Cons.prems by auto
    with False show ?thesis by simp
  qed (use Cons in simp)
qed simp

section \<open>Subtraction is monotone\<close>

lemma fl_le_neg: "fl_le (fl_neg y) (fl_neg x) \<Longrightarrow> fl_le x y"
  by (cases x; cases y) (auto simp: fl_le_def fl_neg_def)

lemma fl_round_mono_all: "x \<le> y \<Longrightarrow> fl_le (fl_round x) (fl_round y)"
proof -
  assume xy: "x \<le> y"
  have neg: "fl_le (fl_round a) (fl_round b)" if "a \<le> b" "b \<le> 0" for a b
    using fl_round_mono(1)[of "- b" "- a"] that by (simp add: fl_round_minus fl_le_neg)
  show ?thesis
  proof (cases "0 \<le> x")
    case False
    show ?thesis
    proof (cases "y \<le> 0")
      case nonneg: False
      have "fl_le (fl_round x) (fl_round 0)" using False neg[of x 0] by simp
      moreover have "fl_le (fl_round 0) (fl_round y)" using nonneg fl_round_mono(1)[of 0 y] by simp
      ultimately show ?thesis by (rule fl_le_trans)
    qed (use neg xy in blast)
  qed (use fl_round_mono(1) xy in blast)
qed

lemma fl_sub_mono: "fl_le (Fin a) (Fin b) \<Longrightarrow> fl_le (fl_sub (Fin a) (Fin w)) (fl_sub (Fin b) (Fin w))"
  by (auto simp: fl_sub_def fl_neg_def intro!: fl_round_mono_all)

section \<open>Idempotence\<close>

lemma delete_last_put: "AList.delete k (AList.delete k xs @ [(k, v)]) = AList.delete k xs"
  by (simp add: AList.delete_eq)

lemma lru_put_put: "lru_put k v (lru_put k v xs) = lru_put k v xs"
  by (simp add: lru_put_def AList.delete_eq)

lemma map_of_lru_put: "map_of (lru_put k v xs) = (map_of xs)(k \<mapsto> v)"
  by (auto simp: lru_put_def map_add_def delete_conv' fun_eq_iff split: option.splits)

lemma lru_trim_put:
  assumes "1 \<le> n"
  shows "\<exists>ys. lru_trim n (lru_put k v xs) = ys @ [(k, v)] \<and> k \<notin> fst ` set ys"
proof -
  have "lru_trim n (lru_put k v xs) = keep_last (nat n - 1) (AList.delete k xs) @ [(k, v)]"
    using assms by (simp add: lru_trim_def lru_put_def keep_last_def)
  moreover have "k \<notin> fst ` set (keep_last (nat n - 1) (AList.delete k xs))"
    using set_keep_last[of "nat n - 1" "AList.delete k xs"] by (auto simp: AList.delete_eq)
  ultimately show ?thesis by blast
qed

lemma map_of_snoc_new: "k \<notin> fst ` set ys \<Longrightarrow> map_of (ys @ [(k, v)]) k = Some v"
  by (simp add: map_add_def map_of_eq_None_iff[THEN iffD2])

lemma lru_put_last: "k \<notin> fst ` set ys \<Longrightarrow> lru_put k v (ys @ [(k, v)]) = ys @ [(k, v)]"
  by (induction ys) (auto simp: lru_put_def AList.delete_eq)

text \<open>
  (C38) An action is observed once: assessing a request again right away returns the same assessment and changes nothing, so that
  the recognizer, the floor and the hold, which all ask the same tracker, agree and count the action once.
\<close>

theorem assess_idempotent:
  assumes "er_request_id r \<noteq> []" and "1 \<le> cc_max_memo_entries (ct_config t)"
  shows "assess r (snd (assess r t)) = assess r t"
proof (cases "cc_enabled (ct_config t) \<and> derive_key r \<noteq> None")
  case False
  then show ?thesis by (auto simp: assess_def Let_def)
next
  case True
  then obtain key where key: "derive_key r = Some key" "cc_enabled (ct_config t)" by blast
  show ?thesis
  proof (cases "map_of (ct_memo t) (er_request_id r)")
    case (Some a)
    then show ?thesis using assms(1) key by (simp add: assess_def Let_def map_of_lru_put lru_put_put)
  next
    case None
    obtain a ws where t': "assess r t = (a, t\<lparr>ct_memo := lru_trim (cc_max_memo_entries (ct_config t)) (lru_put (er_request_id r) a (ct_memo t)), ct_windows := ws\<rparr>)"
      using assms(1) key None by (simp add: assess_def Let_def)
    obtain ys where ys: "lru_trim (cc_max_memo_entries (ct_config t)) (lru_put (er_request_id r) a (ct_memo t)) = ys @ [(er_request_id r, a)]"
      "er_request_id r \<notin> fst ` set ys" using lru_trim_put[OF assms(2), of "er_request_id r" a "ct_memo t"] by blast
    note hit = map_of_snoc_new[OF ys(2), of a] lru_put_last[OF ys(2), of a]
    show ?thesis unfolding t' snd_conv ys(1) using assms(1) key hit by (simp add: assess_def Let_def)
  qed
qed

section \<open>Bounds\<close>

definition run_requests :: "evaluation_request list \<Rightarrow> cadence_tracker \<Rightarrow> cadence_tracker" where
  "run_requests rs t = fold (\<lambda>r t. snd (assess r t)) rs t"

definition tracker_bounded :: "cadence_tracker \<Rightarrow> bool" where
  "tracker_bounded t \<longleftrightarrow> int (length (ct_windows t)) \<le> cc_max_tracked_keys (ct_config t) \<and> int (length (ct_memo t)) \<le> cc_max_memo_entries (ct_config t)
     \<and> (\<forall>(k, w)\<in>set (ct_windows t). int (length w) \<le> cc_max_window_entries (ct_config t)) \<and> distinct (map fst (ct_memo t))"

definition caps_ok :: "cadence_config \<Rightarrow> bool" where
  "caps_ok c \<longleftrightarrow> 0 \<le> cc_max_window_entries c \<and> 0 \<le> cc_max_tracked_keys c \<and> 0 \<le> cc_max_memo_entries c"

lemma assess_config [simp]: "ct_config (snd (assess r t)) = ct_config t"
  by (simp add: assess_def Let_def split: option.splits)

lemma run_config [simp]: "ct_config (run_requests rs t) = ct_config t"
  by (induction rs arbitrary: t) (simp_all add: run_requests_def)

lemma trim_length: "0 \<le> n \<Longrightarrow> int (length (lru_trim n xs)) \<le> n"
  using keep_last_length_le[of "nat n" xs] by (simp add: lru_trim_def nat_le_iff)

lemma trim_set: "set (lru_trim n xs) \<subseteq> set xs"
  unfolding lru_trim_def by (rule set_keep_last)

lemma trim_distinct: "distinct (map fst xs) \<Longrightarrow> distinct (map fst (lru_trim n xs))"
  unfolding lru_trim_def keep_last_def drop_map[symmetric] by (rule distinct_drop)

lemma observe_length:
  assumes "int (length w) \<le> cc_max_window_entries c" and "0 \<le> cc_max_window_entries c"
  shows "int (length (observe c r w)) \<le> cc_max_window_entries c"
proof -
  have "length (prune c (request_timestamp r) w) \<le> length w" unfolding prune_def by (rule length_dropWhile_le)
  then show ?thesis using assms by (auto simp: observe_def Let_def trim_length)
qed

lemma put_set: "set (lru_put k v xs) \<subseteq> insert (k, v) (set xs)"
  by (auto simp: lru_put_def AList.delete_eq)

lemma put_length: "map_of xs k \<noteq> None \<Longrightarrow> distinct (map fst xs) \<Longrightarrow> length (lru_put k v xs) = length xs"
proof -
  assume "map_of xs k \<noteq> None" and d: "distinct (map fst xs)"
  then have k: "k \<in> fst ` set xs" by (simp add: map_of_eq_None_iff)
  have "map fst (AList.delete k xs) = remove1 k (map fst xs)" using d by (simp add: delete_keys distinct_remove1_removeAll removeAll_filter_not_eq)
  then have "length (AList.delete k xs) = length (remove1 k (map fst xs))" by (metis length_map)
  then show ?thesis using k by (auto simp: lru_put_def length_remove1 dest: length_pos_if_in_set)
qed

lemma put_distinct: "distinct (map fst xs) \<Longrightarrow> distinct (map fst (lru_put k v xs))"
  by (auto simp: lru_put_def distinct_delete) (auto simp: AList.delete_eq)

lemma assess_cases:
  assumes "cc_enabled (ct_config t)" and "derive_key r = Some key"
  obtains (memo) a where "map_of (ct_memo t) (er_request_id r) = Some a"
      "assess r t = (a, t\<lparr>ct_memo := lru_put (er_request_id r) a (ct_memo t)\<rparr>)"
  | (fresh) w n m a where "er_request_id r = [] \<or> map_of (ct_memo t) (er_request_id r) = None"
      "w = observe (ct_config t) r (case map_of (ct_windows t) key of None \<Rightarrow> [] | Some w \<Rightarrow> w)"
      "n = length w" "m = distinct_targets w" "a = build_assessment (ct_config t) key (cadence_classify (ct_config t) n m) n m"
      "assess r t = (a, t\<lparr>ct_memo := (if er_request_id r = [] then ct_memo t else lru_trim (cc_max_memo_entries (ct_config t)) (lru_put (er_request_id r) a (ct_memo t))),
         ct_windows := lru_trim (cc_max_tracked_keys (ct_config t)) (lru_put key w (ct_windows t))\<rparr>)"
proof (cases "if er_request_id r = [] then None else map_of (ct_memo t) (er_request_id r)")
  case (Some a)
  then show ?thesis using assms memo by (auto simp: assess_def Let_def split: if_splits)
next
  case None
  show ?thesis
    by (rule fresh[OF _ refl refl refl refl]) (use None assms in \<open>auto simp: assess_def Let_def split: if_splits\<close>)
qed

lemma assess_off: "\<not> cc_enabled (ct_config t) \<or> derive_key r = None \<Longrightarrow> assess r t = (untracked_assessment, t)"
  by (auto simp: assess_def Let_def)

lemma assess_bounded:
  assumes "tracker_bounded t" and "caps_ok (ct_config t)"
  shows "tracker_bounded (snd (assess r t))"
proof (cases "cc_enabled (ct_config t) \<and> derive_key r \<noteq> None")
  case False
  then show ?thesis using assms(1) assess_off by (metis snd_conv)
next
  case True
  then obtain key where key: "cc_enabled (ct_config t)" "derive_key r = Some key" by blast
  from key show ?thesis
  proof (cases rule: assess_cases)
    case (memo a)
    then show ?thesis using assms(1) put_length[of "ct_memo t" "er_request_id r" a] put_distinct[of "ct_memo t"]
      by (simp add: tracker_bounded_def)
  next
    case (fresh w n m a)
    have caps: "0 \<le> cc_max_window_entries (ct_config t)" "0 \<le> cc_max_tracked_keys (ct_config t)" "0 \<le> cc_max_memo_entries (ct_config t)"
      using assms(2) by (simp_all add: caps_ok_def)
    have "int (length (case map_of (ct_windows t) key of None \<Rightarrow> [] | Some w \<Rightarrow> w)) \<le> cc_max_window_entries (ct_config t)"
      using assms(1) caps(1) by (auto simp: tracker_bounded_def split: option.splits dest!: map_of_SomeD)
    then have w: "int (length w) \<le> cc_max_window_entries (ct_config t)" using caps(1) fresh(2) by (simp add: observe_length)
    have "\<forall>(k, w)\<in>set (lru_trim (cc_max_tracked_keys (ct_config t)) (lru_put key w (ct_windows t))). int (length w) \<le> cc_max_window_entries (ct_config t)"
      using w assms(1) subset_trans[OF trim_set put_set, of "cc_max_tracked_keys (ct_config t)" key w "ct_windows t"] unfolding tracker_bounded_def by auto
    then show ?thesis using assms(1) caps fresh(6)
      by (auto simp: tracker_bounded_def trim_length intro: trim_distinct put_distinct)
  qed
qed

lemma run_bounded:
  assumes "tracker_bounded t" and "caps_ok (ct_config t)"
  shows "tracker_bounded (run_requests rs t)"
  using assms by (induction rs arbitrary: t) (auto simp: run_requests_def assess_bounded)

text \<open>The assessments that a tracker keeps were made by itself, so they obey the same cap.\<close>

definition memo_capped :: "cadence_tracker \<Rightarrow> bool" where
  "memo_capped t \<longleftrightarrow> (\<forall>(i, a)\<in>set (ct_memo t). int (cd_action_count a) \<le> cc_max_window_entries (ct_config t)
     \<and> (cd_level a = HARD \<longrightarrow> cc_hard_actions (ct_config t) \<le> int (cd_action_count a) \<or> cc_hard_fanout (ct_config t) \<le> int (cd_distinct_targets a)))"

lemma assess_capped:
  assumes "tracker_bounded t" and "caps_ok (ct_config t)" and "memo_capped t"
  shows "int (cd_action_count (fst (assess r t))) \<le> cc_max_window_entries (ct_config t)"
    "cd_level (fst (assess r t)) = HARD \<Longrightarrow> cc_hard_actions (ct_config t) \<le> int (cd_action_count (fst (assess r t)))
       \<or> cc_hard_fanout (ct_config t) \<le> int (cd_distinct_targets (fst (assess r t)))"
    "memo_capped (snd (assess r t))"
proof -
  have "int (cd_action_count (fst (assess r t))) \<le> cc_max_window_entries (ct_config t)
    \<and> (cd_level (fst (assess r t)) = HARD \<longrightarrow> cc_hard_actions (ct_config t) \<le> int (cd_action_count (fst (assess r t)))
       \<or> cc_hard_fanout (ct_config t) \<le> int (cd_distinct_targets (fst (assess r t))))
    \<and> memo_capped (snd (assess r t))"
  proof (cases "cc_enabled (ct_config t) \<and> derive_key r \<noteq> None")
    case False
    then show ?thesis using assms(2,3) assess_off[of t r] by (auto simp: untracked_assessment_def caps_ok_def)
  next
    case True
    then obtain key where key: "cc_enabled (ct_config t)" "derive_key r = Some key" by blast
    from key show ?thesis
    proof (cases rule: assess_cases)
      case (memo a)
      have "(er_request_id r, a) \<in> set (ct_memo t)" using memo(1) by (rule map_of_SomeD)
      then show ?thesis using assms(3) put_set[of "er_request_id r" a "ct_memo t"] memo(2) unfolding memo_capped_def by auto
    next
      case (fresh w n m a)
      have cap: "0 \<le> cc_max_window_entries (ct_config t)" using assms(2) by (simp add: caps_ok_def)
      have "int (length (case map_of (ct_windows t) key of None \<Rightarrow> [] | Some w \<Rightarrow> w)) \<le> cc_max_window_entries (ct_config t)"
        using assms(1) cap by (auto simp: tracker_bounded_def split: option.splits dest!: map_of_SomeD)
      then have n: "int n \<le> cc_max_window_entries (ct_config t)" using cap fresh(2,3) by (simp add: observe_length)
      have a: "int (cd_action_count a) \<le> cc_max_window_entries (ct_config t)"
        "cd_level a = HARD \<longrightarrow> cc_hard_actions (ct_config t) \<le> int (cd_action_count a) \<or> cc_hard_fanout (ct_config t) \<le> int (cd_distinct_targets a)"
        using n by (auto simp: fresh(5) build_assessment_def cadence_classify_def split: if_splits)
      have sub: "set (lru_trim (cc_max_memo_entries (ct_config t)) (lru_put (er_request_id r) a (ct_memo t))) \<subseteq> insert (er_request_id r, a) (set (ct_memo t))"
        using trim_set put_set by (rule subset_trans)
      have "memo_capped (snd (assess r t))"
        using assms(3) a sub unfolding fresh(6) memo_capped_def by auto
      then show ?thesis using a by (simp add: fresh(6))
    qed
  qed
  then show "int (cd_action_count (fst (assess r t))) \<le> cc_max_window_entries (ct_config t)"
    "cd_level (fst (assess r t)) = HARD \<Longrightarrow> cc_hard_actions (ct_config t) \<le> int (cd_action_count (fst (assess r t)))
       \<or> cc_hard_fanout (ct_config t) \<le> int (cd_distinct_targets (fst (assess r t)))"
    "memo_capped (snd (assess r t))" by blast+
qed

lemma run_capped:
  assumes "tracker_bounded t" and "caps_ok (ct_config t)" and "memo_capped t"
  shows "memo_capped (run_requests rs t)"
  using assms by (induction rs arbitrary: t) (auto simp: run_requests_def assess_bounded assess_capped(3))

text \<open>
  (C39) The state of the breaker is bounded, whatever requests it sees: at most the configured number of agents, of memoised assessments and of
  entries per window. Hence, where the hard threshold on actions is configured above the cap on entries, the action rate alone never
  reaches the hard level: only the fan-out does.
\<close>

theorem tracker_state_bounded:
  fixes rs :: "evaluation_request list"
  assumes "caps_ok c"
  defines "t \<equiv> run_requests rs (ActionCadenceTracker_init c)"
  shows "int (length (ct_windows t)) \<le> cc_max_tracked_keys c \<and> int (length (ct_memo t)) \<le> cc_max_memo_entries c
    \<and> (\<forall>(key, w)\<in>set (ct_windows t). int (length w) \<le> cc_max_window_entries c)
    \<and> (cc_max_window_entries c < cc_hard_actions c \<longrightarrow> cd_level (fst (assess r t)) = HARD
         \<longrightarrow> cc_hard_fanout c \<le> int (cd_distinct_targets (fst (assess r t))))"
proof -
  have i: "tracker_bounded (ActionCadenceTracker_init c)" "memo_capped (ActionCadenceTracker_init c)" "ct_config (ActionCadenceTracker_init c) = c"
    using assms(1) by (simp_all add: tracker_bounded_def memo_capped_def ActionCadenceTracker_init_def caps_ok_def)
  have t: "tracker_bounded t" "memo_capped t" "ct_config t = c"
    unfolding t_def using run_bounded[OF i(1)] run_capped[OF i(1) _ i(2)] assms(1) by (simp_all add: i(3))
  note C = assess_capped(1,2)[OF t(1) _ t(2), unfolded t(3), OF assms(1), of r]
  show ?thesis using t C by (auto simp: tracker_bounded_def)
qed

end
