(* ===== verification/Cadence_Count.thy ===== *)
theory Cadence_Count
  imports Cadence_Laws
begin

text \<open>
  What the cadence breaker counts: for requests whose timestamps do not go back, the agent's actions in the window that ends at the
  current request.
\<close>

section \<open>The history of an agent\<close>

definition entry_of :: "evaluation_request \<Rightarrow> window_entry" where
  "entry_of r = \<lparr>we_ts = request_timestamp r, we_request_id = er_request_id r, we_targets = derive_targets r\<rparr>"

definition stale :: "cadence_config \<Rightarrow> pyfloat \<Rightarrow> window_entry \<Rightarrow> bool" where
  "stale c now e \<longleftrightarrow> fl_le (we_ts e) (fl_sub now (cc_window_seconds c))"

definition agent_history :: "string \<Rightarrow> evaluation_request list \<Rightarrow> window_entry list" where
  "agent_history key rs = map entry_of (filter (\<lambda>r. derive_key r = Some key) rs)"

text \<open>The window of an agent after its requests so far.\<close>

definition window_after :: "cadence_config \<Rightarrow> window_entry list \<Rightarrow> window_entry list" where
  "window_after c h = (if h = [] then []
     else keep_last (nat (cc_max_window_entries c)) (dropWhile (stale c (we_ts (last h))) (butlast h) @ [last h]))"

definition tracks :: "cadence_config \<Rightarrow> evaluation_request list \<Rightarrow> cadence_tracker \<Rightarrow> bool" where
  "tracks c rs t \<longleftrightarrow> ct_config t = c \<and> distinct (map fst (ct_windows t)) \<and> Some ` fst ` set (ct_windows t) = derive_key ` set rs
     \<and> fst ` set (ct_memo t) \<subseteq> er_request_id ` set rs
     \<and> (\<forall>key. (case map_of (ct_windows t) key of None \<Rightarrow> [] | Some w \<Rightarrow> w) = window_after c (agent_history key rs))"

text \<open>Requests with an agent, distinct ids, finite timestamps that do not go back per agent, and no more agents than are tracked.\<close>

definition orderly :: "cadence_config \<Rightarrow> evaluation_request list \<Rightarrow> bool" where
  "orderly c rs \<longleftrightarrow> (\<forall>r\<in>set rs. derive_key r \<noteq> None \<and> er_request_id r \<noteq> [] \<and> (\<exists>q. request_timestamp r = Fin q))
     \<and> distinct (map er_request_id rs)
     \<and> sorted_wrt (\<lambda>p q. derive_key p = derive_key q \<longrightarrow> fl_le (request_timestamp p) (request_timestamp q)) rs
     \<and> int (card (derive_key ` set rs)) \<le> cc_max_tracked_keys c"

lemma orderly_append: "orderly c (rs @ [r]) \<Longrightarrow> orderly c rs"
proof -
  assume o: "orderly c (rs @ [r])"
  have "card (derive_key ` set rs) \<le> card (derive_key ` set (rs @ [r]))" by (intro card_mono image_mono) auto
  with o show ?thesis unfolding orderly_def by (simp add: sorted_wrt_append)
qed

lemma history_sorted:
  assumes "orderly c rs"
  shows "sorted_wrt (\<lambda>a b. fl_le (we_ts a) (we_ts b)) (agent_history key rs)"
proof -
  have "sorted_wrt (\<lambda>p q. derive_key p = derive_key q \<longrightarrow> fl_le (request_timestamp p) (request_timestamp q)) (filter (\<lambda>r. derive_key r = Some key) rs)"
    using assms by (intro sorted_wrt_filter) (simp add: orderly_def)
  moreover have "sorted_wrt (\<lambda>p q. derive_key p = derive_key q \<longrightarrow> fl_le (request_timestamp p) (request_timestamp q)) xs
      \<Longrightarrow> \<forall>r\<in>set xs. derive_key r = Some key \<Longrightarrow> sorted_wrt (\<lambda>a b. fl_le (we_ts a) (we_ts b)) (map entry_of xs)" for xs
    by (induction xs) (auto simp: entry_of_def)
  ultimately show ?thesis unfolding agent_history_def by simp
qed

lemma stale_sorted: "sorted_wrt (\<lambda>a b. fl_le (we_ts a) (we_ts b)) h \<Longrightarrow> sorted_wrt (\<lambda>a b. stale c now b \<longrightarrow> stale c now a) h"
  by (erule sorted_wrt_mono_rel[rotated]) (auto simp: stale_def intro: fl_le_trans)

lemma prune_window:
  assumes "sorted_wrt (\<lambda>a b. fl_le (we_ts a) (we_ts b)) h" and "\<And>e. h \<noteq> [] \<Longrightarrow> stale c (we_ts (last h)) e \<Longrightarrow> stale c now e"
  shows "prune c now (window_after c h) = keep_last (nat (cc_max_window_entries c)) (dropWhile (stale c now) h)"
proof (cases "h = []")
  case False
  let ?S = "stale c (we_ts (last h))" and ?S' = "stale c now"
  let ?xs = "dropWhile ?S (butlast h) @ [last h]"
  have h: "butlast h @ [last h] = h" using False by simp
  have "sorted_wrt (\<lambda>a b. ?S' b \<longrightarrow> ?S' a) (butlast h @ [last h])" unfolding h by (rule stale_sorted[OF assms(1)])
  then have srt: "sorted_wrt (\<lambda>a b. ?S' b \<longrightarrow> ?S' a) ?xs"
    using set_dropWhileD[of _ ?S "butlast h"] by (auto simp: sorted_wrt_append dropWhile_eq_drop intro: sorted_wrt_drop)
  have "prune c now (window_after c h) = dropWhile ?S' (keep_last (nat (cc_max_window_entries c)) ?xs)"
    using False by (simp add: prune_def window_after_def stale_def[abs_def])
  also have "\<dots> = keep_last (nat (cc_max_window_entries c)) (dropWhile ?S' ?xs)" by (rule dropWhile_keep_last[OF srt])
  also have "dropWhile ?S' ?xs = dropWhile ?S' (butlast h @ [last h])" using assms(2)[OF False] by (intro dropWhile_twice)
  finally show ?thesis unfolding h .
qed (simp add: prune_def window_after_def keep_last_def)

lemma later_stale:
  assumes "orderly c (rs @ [r])" and "derive_key r = Some key" and "cc_window_seconds c = Fin w" and "agent_history key rs \<noteq> []"
    and "stale c (we_ts (last (agent_history key rs))) e"
  shows "stale c (request_timestamp r) e"
proof -
  have "last (agent_history key rs) \<in> set (agent_history key rs)" using assms(4) by simp
  then obtain p where p: "p \<in> set rs" "derive_key p = Some key" "last (agent_history key rs) = entry_of p"
    by (auto simp: agent_history_def)
  have "fl_le (request_timestamp p) (request_timestamp r)"
    using assms(1,2) p by (auto simp: orderly_def sorted_wrt_append)
  moreover obtain a b where "request_timestamp p = Fin a" "request_timestamp r = Fin b" using assms(1) p(1) by (auto simp: orderly_def)
  ultimately have "fl_le (fl_sub (request_timestamp p) (cc_window_seconds c)) (fl_sub (request_timestamp r) (cc_window_seconds c))"
    using fl_sub_mono[of a b w] by (simp add: assms(3))
  with assms(5) show ?thesis unfolding stale_def p(3) by (auto simp: entry_of_def intro: fl_le_trans)
qed

lemma observe_history:
  assumes "orderly c (rs @ [r])" and "derive_key r = Some key" and "cc_window_seconds c = Fin w"
  shows "observe c r (window_after c (agent_history key rs)) = window_after c (agent_history key (rs @ [r]))"
proof -
  let ?h = "agent_history key rs" and ?M = "nat (cc_max_window_entries c)"
  have p: "prune c (request_timestamp r) (window_after c ?h) = keep_last ?M (dropWhile (stale c (request_timestamp r)) ?h)"
    using later_stale[OF assms] by (intro prune_window history_sorted[OF orderly_append[OF assms(1)]])
  have "we_request_id e \<noteq> er_request_id r" if e: "e \<in> set ?h" for e
  proof -
    obtain p where "p \<in> set rs" "we_request_id e = er_request_id p" using e by (auto simp: agent_history_def entry_of_def)
    moreover have "er_request_id r \<notin> er_request_id ` set rs" using assms(1) by (simp add: orderly_def)
    ultimately show ?thesis by (metis imageI)
  qed
  then have fresh: "\<not> list_ex (\<lambda>e. we_request_id e = er_request_id r) (keep_last ?M (dropWhile (stale c (request_timestamp r)) ?h))"
    using set_keep_last[of ?M "dropWhile (stale c (request_timestamp r)) ?h"] set_dropWhileD[of _ "stale c (request_timestamp r)" ?h]
    by (auto simp: list_ex_iff)
  have h: "agent_history key (rs @ [r]) = ?h @ [entry_of r]" using assms(2) by (simp add: agent_history_def)
  have ts: "we_ts (entry_of r) = request_timestamp r" by (simp add: entry_of_def)
  have "observe c r (window_after c ?h) = keep_last ?M (keep_last ?M (dropWhile (stale c (request_timestamp r)) ?h) @ [entry_of r])"
    unfolding observe_def Let_def p using fresh by (simp add: lru_trim_def entry_of_def)
  then show ?thesis unfolding h by (simp add: keep_last_append window_after_def ts)
qed

section \<open>Running a sequence of requests\<close>

lemma keys_put: "fst ` set (lru_put k v xs) = insert k (fst ` set xs)"
  by (auto simp: lru_put_def AList.delete_eq image_iff)

lemma trim_all: "int (length xs) \<le> n \<Longrightarrow> lru_trim n xs = xs"
  by (simp add: lru_trim_def keep_last_all)

lemma assess_tracks:
  assumes "orderly c (rs @ [r])" and "tracks c rs t" and "cc_enabled c" and "cc_window_seconds c = Fin w"
  shows "tracks c (rs @ [r]) (snd (assess r t))"
    "\<exists>key. derive_key r = Some key \<and> (let v = window_after c (agent_history key (rs @ [r])) in
       fst (assess r t) = build_assessment c key (cadence_classify c (length v) (distinct_targets v)) (length v) (distinct_targets v))"
proof -
  obtain key where key: "derive_key r = Some key" using assms(1) by (auto simp: orderly_def)
  note T = assms(2)[unfolded tracks_def]
  have en: "cc_enabled (ct_config t)" using T assms(3) by simp
  have nomemo: "map_of (ct_memo t) (er_request_id r) = None" "er_request_id r \<noteq> []"
    using T assms(1) by (auto simp: orderly_def map_of_eq_None_iff)
  let ?v = "window_after c (agent_history key (rs @ [r]))"
  have obs: "observe c r (case map_of (ct_windows t) key of None \<Rightarrow> [] | Some w \<Rightarrow> w) = ?v"
    using T observe_history[OF assms(1) key assms(4)] by simp
  define a where "a = build_assessment c key (cadence_classify c (length ?v) (distinct_targets ?v)) (length ?v) (distinct_targets ?v)"
  have run: "assess r t = (a, t\<lparr>ct_memo := lru_trim (cc_max_memo_entries c) (lru_put (er_request_id r) a (ct_memo t)),
      ct_windows := lru_trim (cc_max_tracked_keys c) (lru_put key ?v (ct_windows t))\<rparr>)"
    using en key
  proof (cases rule: assess_cases)
    case (fresh w n m a')
    have "ct_config t = c" using T by simp
    then show ?thesis using fresh nomemo(2) obs by (simp add: a_def)
  qed (use nomemo in simp)
  let ?ws = "lru_put key ?v (ct_windows t)"
  have keys: "Some ` fst ` set ?ws = derive_key ` set (rs @ [r])" using T key unfolding keys_put by auto
  have d: "distinct (map fst ?ws)" using T by (intro put_distinct) simp
  have "length ?ws = card (Some ` fst ` set ?ws)"
    using distinct_card[OF d] by (simp add: card_image)
  then have small: "lru_trim (cc_max_tracked_keys c) ?ws = ?ws" using assms(1) unfolding keys orderly_def by (intro trim_all) simp
  have memo: "fst ` set (lru_trim (cc_max_memo_entries c) (lru_put (er_request_id r) a (ct_memo t))) \<subseteq> er_request_id ` set (rs @ [r])"
  proof -
    have "fst ` set (lru_trim (cc_max_memo_entries c) (lru_put (er_request_id r) a (ct_memo t))) \<subseteq> insert (er_request_id r) (fst ` set (ct_memo t))"
      unfolding keys_put[symmetric, where v = a] by (rule image_mono[OF trim_set])
    moreover have "insert (er_request_id r) (fst ` set (ct_memo t)) \<subseteq> er_request_id ` set (rs @ [r])" using T by auto
    ultimately show ?thesis by (rule subset_trans)
  qed
  have other: "agent_history k (rs @ [r]) = agent_history k rs" if "k \<noteq> key" for k using that key by (simp add: agent_history_def)
  have "(case map_of ?ws k of None \<Rightarrow> [] | Some w \<Rightarrow> w) = window_after c (agent_history k (rs @ [r]))" for k
    using T other[of k] by (cases "k = key") (simp_all add: map_of_lru_put)
  then show "tracks c (rs @ [r]) (snd (assess r t))"
    unfolding run tracks_def small using T d keys memo by simp
  show "\<exists>key. derive_key r = Some key \<and> (let v = window_after c (agent_history key (rs @ [r])) in
       fst (assess r t) = build_assessment c key (cadence_classify c (length v) (distinct_targets v)) (length v) (distinct_targets v))"
    using key run by (simp add: Let_def a_def)
qed

lemma run_tracks:
  assumes "orderly c rs" and "cc_enabled c" and "cc_window_seconds c = Fin w"
  shows "tracks c rs (run_requests rs (ActionCadenceTracker_init c))"
  using assms(1)
proof (induction rs rule: rev_induct)
  case Nil
  then show ?case by (simp add: tracks_def run_requests_def ActionCadenceTracker_init_def window_after_def agent_history_def)
next
  case (snoc r rs)
  then show ?case using assess_tracks(1)[OF snoc.prems snoc.IH[OF orderly_append[OF snoc.prems]] assms(2,3)] by (simp add: run_requests_def)
qed

text \<open>
  (C10) What the breaker counts. After any sequence of requests with agents, distinct and non-empty ids and finite timestamps that never go back for an
  agent, from no more agents than the tracker keeps windows for (beyond that the least recent window is dropped), an enabled breaker with a finite window
  assesses the next request by the actions of the same agent less than the window before it, that request included: their
  number, up to the cap on entries, and, below the cap, the distinct targets that they touch.
\<close>

theorem cadence_counts_window:
  assumes "orderly c (rs @ [r])" and "cc_enabled c" and "cc_window_seconds c = Fin w"
  defines "recent \<equiv> filter (\<lambda>p. derive_key p = derive_key r \<and> \<not> fl_le (request_timestamp p) (fl_sub (request_timestamp r) (Fin w))) rs @ [r]"
    and "a \<equiv> fst (assess r (run_requests rs (ActionCadenceTracker_init c)))"
  shows "cd_action_count a = min (nat (cc_max_window_entries c)) (length recent)
    \<and> (int (length recent) \<le> cc_max_window_entries c \<longrightarrow>
        cd_level a = cadence_classify c (length recent) (length (remdups (concat (map derive_targets recent)))))"
proof -
  obtain key where key: "derive_key r = Some key"
    and v: "a = (let v = window_after c (agent_history key (rs @ [r])) in
       build_assessment c key (cadence_classify c (length v) (distinct_targets v)) (length v) (distinct_targets v))"
    using assess_tracks(2)[OF assms(1) run_tracks[OF orderly_append[OF assms(1)] assms(2,3)] assms(2,3)] unfolding a_def Let_def by blast
  let ?h = "agent_history key rs"
  have "dropWhile (stale c (request_timestamp r)) ?h = filter (\<lambda>e. \<not> stale c (request_timestamp r) e) ?h"
    by (intro dropWhile_filter stale_sorted history_sorted[OF orderly_append[OF assms(1)]])
  also have "\<dots> = map entry_of (filter (\<lambda>p. derive_key p = derive_key r \<and> \<not> fl_le (request_timestamp p) (fl_sub (request_timestamp r) (Fin w))) rs)"
    by (simp add: agent_history_def filter_map o_def stale_def entry_of_def assms(3) key conj_commute)
  finally have "window_after c (agent_history key (rs @ [r])) = keep_last (nat (cc_max_window_entries c)) (map entry_of recent)"
    using key by (simp add: window_after_def agent_history_def entry_of_def recent_def)
  moreover have "we_targets \<circ> entry_of = derive_targets" by (simp add: fun_eq_iff entry_of_def)
  ultimately show ?thesis
    by (auto simp: v Let_def build_assessment_def keep_last_length keep_last_all distinct_targets_def nat_le_iff)
qed

section \<open>A burst\<close>

definition burst_request :: "string \<Rightarrow> rat \<Rightarrow> evaluation_request" where
  "burst_request rid q = \<lparr>action_type = ''send'', channel = ''api'', recipient = Some rid, req_agent_id = Some ''a'', metadata = [],
     er_request_id = rid, er_content = ''x'', er_environment = ''prod'', er_session_id = None, er_agent_identity = None,
     er_requested_at = \<lparr>dt_iso = ''t'', dt_str = ''t'', dt_epoch = Fin q\<rparr>, er_metadata_text = ''{}''\<rparr>"

definition burst_config :: cadence_config where
  "burst_config = cadence_defaults\<lparr>cc_soft_actions := 2, cc_hard_actions := 3\<rparr>"

lemma burst_fields [simp]:
  "derive_key (burst_request i q) = Some ''default|aid:a''" "request_timestamp (burst_request i q) = Fin q" "er_request_id (burst_request i q) = i"
  by (simp_all add: burst_request_def derive_key_def request_timestamp_def)

lemma burst_orderly: "orderly burst_config ([burst_request ''1'' 100, burst_request ''2'' 111] @ [burst_request ''3'' 112])"
  by (simp add: orderly_def fl_le_def burst_config_def cadence_defaults_def)

theorem cadence_counts_window_witness:
  "cd_action_count (fst (assess (burst_request ''3'' 112) (run_requests [burst_request ''1'' 100, burst_request ''2'' 111] (ActionCadenceTracker_init burst_config)))) = 2"
proof -
  have c: "cc_enabled burst_config" "cc_window_seconds burst_config = Fin 10" "cc_max_window_entries burst_config = 1024"
    by (simp_all add: burst_config_def cadence_defaults_def)
  have "fl_sub (Fin 112) (Fin 10) = Fin 102" by code_simp
  then show ?thesis using cadence_counts_window[OF burst_orderly c(1,2)] by (simp add: c(3) fl_le_def)
qed

theorem assess_idempotent_witness:
  "assess (burst_request ''1'' 100) (snd (assess (burst_request ''1'' 100) (ActionCadenceTracker_init burst_config)))
     = assess (burst_request ''1'' 100) (ActionCadenceTracker_init burst_config)"
  by (rule assess_idempotent) (simp_all add: ActionCadenceTracker_init_def burst_config_def cadence_defaults_def)

theorem tracker_state_bounded_witness:
  "length (ct_windows (run_requests [burst_request ''1'' 100] (ActionCadenceTracker_init burst_config))) = 1
    \<and> int (length (ct_windows (run_requests [burst_request ''1'' 100] (ActionCadenceTracker_init burst_config)))) \<le> cc_max_tracked_keys burst_config"
proof -
  have "caps_ok burst_config" by (simp add: caps_ok_def burst_config_def cadence_defaults_def)
  moreover have "length (ct_windows (run_requests [burst_request ''1'' 100] (ActionCadenceTracker_init burst_config))) = 1" by code_simp
  ultimately show ?thesis using tracker_state_bounded by blast
qed

end
