(* ===== verification/Structural_Floor.thy ===== *)
theory Structural_Floor
  imports Cadence_Laws Rule_Of_Two Action_Class
begin

text \<open>
  The structural floor (\<^verbatim>\<open>specialists/structural_floor.py\<close>): the deterministic denials that short-circuit a decision to
  \<^verbatim>\<open>FORBID\<close>, from the specialists, the Rule of Two, RV4 path policies, the action class and the cadence breaker.

  Correspondence. The tracker of the cadence breaker is threaded through. The em dash of the texts is written as a hyphen;
  the metadata of findings is left out.
\<close>

section \<open>Denials\<close>

datatype pdp_error = ValidationError | PathError checker_error | RvError ltlf_error | ContractError contract_error | RouteError value_error

record structural_deny =
  sd_specialist :: string
  sd_reason :: string
  sd_codes :: "string list"

record floor_result =
  flr_fired :: bool
  flr_denies :: "structural_deny list"
  flr_findings :: "finding list"

definition denying_specialists :: "floor_result \<Rightarrow> string list" where
  "denying_specialists f = map sd_specialist (flr_denies f)"

definition floor_reasons :: "floor_result \<Rightarrow> string list" where
  "floor_reasons f = map sd_reason (flr_denies f)"

definition NEUTRAL_STRUCTURAL_FLOOR :: floor_result where
  "NEUTRAL_STRUCTURAL_FLOOR = \<lparr>flr_fired = False, flr_denies = [], flr_findings = []\<rparr>"

definition ifc_hard_violation_codes :: "string list" where
  "ifc_hard_violation_codes = [''ifc.flow_integrity'', ''ifc.min_trust_floor'', ''ifc.causality_laundering'', ''ifc.ci_norm_violation'',
     ''ifc.neurotaint_cross_session'', ''ifc.rule_of_two_trifecta'', ''ifc.secret_egress_noninterference'']"

definition argus_hard_codes :: "string list" where
  "argus_hard_codes = [''ARGUS_DECISION_OBSERVATION_DRIVEN'']"

definition camel_deny_codes :: "string list" where
  "camel_deny_codes = [''camel.capability_denied'', ''camel.interpreter_halt'']"

definition deny_risk :: pyfloat where
  "deny_risk = fl_sub (Fin 1) (fl_lit 1 9)"

definition classify_specialist :: "specialist_result \<Rightarrow> structural_deny option" where
  "classify_specialist s =
     (let name = sp_specialist_name s; ids = sp_matched_policy_clause_ids s;
          ifc_hit = filter (\<lambda>c. c \<in> set ifc_hard_violation_codes) ids;
          argus_hit = filter (\<lambda>c. c \<in> set argus_hard_codes) ids
      in if name = ''pcas'' \<and> fl_le deny_risk (sp_risk_score s)
         then Some \<lparr>sd_specialist = ''pcas'',
                sd_reason = ''PCAS Datalog reference monitor returned a deterministic DENY (toxic-flow rule matched over the provenance graph).'',
                sd_codes = ids\<rparr>
         else if name = ''camel'' \<and> (fl_le deny_risk (sp_risk_score s) \<or> list_ex (\<lambda>c. c \<in> set camel_deny_codes) ids)
         then Some \<lparr>sd_specialist = ''camel'',
                sd_reason = ''CaMeL capability interpreter denied the action (unauthorized data flow / capability violation, or fail-closed interpreter error).'',
                sd_codes = ids\<rparr>
         else if name = ''ifc'' \<and> ifc_hit \<noteq> []
         then Some \<lparr>sd_specialist = ''ifc'', sd_reason = ''IFC lattice proved a typed flow violation: '' @ py_join '', '' ifc_hit @ ''.'', sd_codes = ifc_hit\<rparr>
         else if name = ''argus'' \<and> argus_hit \<noteq> []
         then Some \<lparr>sd_specialist = ''argus'',
                sd_reason = ''ARGUS counterfactual test proved the decision was driven by injected observation content (ARGUS_DECISION_OBSERVATION_DRIVEN).'',
                sd_codes = argus_hit\<rparr>
         else None)"

definition rule_of_two_reason :: string where
  "rule_of_two_reason = ''Rule-of-Two trifecta proven: this flow simultaneously (A) ingests untrusted input, (B) accesses sensitive data, and (C) changes state ''
     @ ''or communicates externally, with no reliable human oversight. Per Meta'' @ [CHR 39] @ ''s Agents Rule of Two, an autonomous agent must hold at most two ''
     @ ''of these three - all three is the lethal-trifecta exfiltration surface. Structural FORBID.''"

definition rule_of_two_deny :: "evaluation_request \<Rightarrow> structural_deny option" where
  "rule_of_two_deny r = (if r2_fired (evaluate_rule_of_two (request.truncate r))
     then Some \<lparr>sd_specialist = ''rule_of_two'', sd_reason = rule_of_two_reason, sd_codes = [''rule_of_two.trifecta'']\<rparr> else None)"

definition action_class_deny :: "evaluation_request \<Rightarrow> structural_deny option" where
  "action_class_deny r = (let out = evaluate_action_class r in
     if ac_class out = AC_FORBID
     then Some \<lparr>sd_specialist = ''action_class'', sd_reason = ac_reason out, sd_codes = [''action_class.irreversible_public'']\<rparr> else None)"

definition cadence_deny :: "evaluation_request \<Rightarrow> cadence_tracker \<Rightarrow> structural_deny option \<times> cadence_tracker" where
  "cadence_deny r t = (case assess r t of (a, t') \<Rightarrow>
     (if cd_level a = HARD
      then Some \<lparr>sd_specialist = ''action_cadence'', sd_reason = cd_reason a, sd_codes = [''cadence.hard_threshold'']\<rparr> else None, t'))"

definition rv4_permanent_reason :: "rv4_violation \<Rightarrow> string" where
  "rv4_permanent_reason v = ''RV4 path policy '' @ [CHR 39] @ rv_policy_id v @ [CHR 39] @ '' is permanently violated (bad prefix: no future step can satisfy ''
     @ [CHR 39] @ rv_formula v @ [CHR 39] @ '') - structural FORBID.''"

definition rv4_permanent_denies :: "evaluation_request \<Rightarrow> ltlf_error + structural_deny list" where
  "rv4_permanent_denies r = sbind (classify (request.truncate r)) (\<lambda>out.
     Inr (map (\<lambda>v. \<lparr>sd_specialist = ''rv4_path'', sd_reason = rv4_permanent_reason v, sd_codes = [rv_policy_id v]\<rparr>) (rv4_permanent out)))"

section \<open>The floor\<close>

definition opt_list :: "'a option \<Rightarrow> 'a list" where
  "opt_list x = (case x of None \<Rightarrow> [] | Some a \<Rightarrow> [a])"

definition deny_finding :: "structural_deny \<Rightarrow> pdp_error + finding" where
  "deny_finding d = (case Finding_init
       \<lparr>fd_source = ''structural_floor.'' @ sd_specialist d, fd_rule_name = sd_specialist d @ ''_structural_deny'', fd_severity = CRITICAL,
        fd_message = sd_reason d, fd_matched_text = None, fd_start_index = None, fd_end_index = None\<rparr>
     of Inl _ \<Rightarrow> Inl ValidationError | Inr f \<Rightarrow> Inr f)"

definition detect_structural_floor ::
    "specialist_bundle \<Rightarrow> evaluation_request option \<Rightarrow> (cadence_tracker, pdp_error, floor_result) eff" where
  "detect_structural_floor b ro =
     (let proofs = List.map_filter classify_specialist b in
      eff_bind (case ro of None \<Rightarrow> eff_return proofs
        | Some r \<Rightarrow> eff_bind (eff_lift (case rv4_permanent_denies r of Inl e \<Rightarrow> Inl (RvError e) | Inr ds \<Rightarrow> Inr ds)) (\<lambda>rv4.
            eff_bind (\<lambda>t. case cadence_deny r t of (d, t') \<Rightarrow> (Inr d, t')) (\<lambda>cadence.
            eff_return (proofs @ opt_list (rule_of_two_deny r) @ rv4 @ opt_list (action_class_deny r) @ opt_list cadence)))) (\<lambda>denies.
      if denies = [] then eff_return NEUTRAL_STRUCTURAL_FLOOR
      else eff_bind (eff_lift (err_map deny_finding denies)) (\<lambda>fs.
           eff_return \<lparr>flr_fired = True, flr_denies = denies, flr_findings = fs\<rparr>)))"

section \<open>What makes the floor fire\<close>

text \<open>A deterministic deny signature among the specialists, as opposed to a high score.\<close>

definition structural_proof :: "specialist_result \<Rightarrow> bool" where
  "structural_proof s \<longleftrightarrow>
     sp_specialist_name s = ''pcas'' \<and> fl_le deny_risk (sp_risk_score s) \<or>
     sp_specialist_name s = ''camel'' \<and> (fl_le deny_risk (sp_risk_score s) \<or> set (sp_matched_policy_clause_ids s) \<inter> set camel_deny_codes \<noteq> {}) \<or>
     sp_specialist_name s = ''ifc'' \<and> set (sp_matched_policy_clause_ids s) \<inter> set ifc_hard_violation_codes \<noteq> {} \<or>
     sp_specialist_name s = ''argus'' \<and> set (sp_matched_policy_clause_ids s) \<inter> set argus_hard_codes \<noteq> {}"

lemma classify_specialist_iff: "classify_specialist s \<noteq> None \<longleftrightarrow> structural_proof s"
  by (auto simp: classify_specialist_def structural_proof_def Let_def list_ex_iff filter_empty_conv)

lemma map_filter_ne: "List.map_filter f xs \<noteq> [] \<longleftrightarrow> (\<exists>x\<in>set xs. f x \<noteq> None)"
  by (induction xs) (auto simp: List.map_filter_simps split: option.split)

lemma deny_finding_critical: "deny_finding d = Inr f \<Longrightarrow> fd_severity f = CRITICAL"
  by (auto simp: deny_finding_def Finding_init_def sbind_rules split: sum.splits)

lemma deny_finding_long: "500 < length (sd_reason d) \<Longrightarrow> deny_finding d = Inl ValidationError"
  by (auto simp: deny_finding_def Finding_init_def finding_text_def sbind_def split: sum.splits)

lemma err_map_constant_error:
  assumes "\<And>x y. f x = Inl y \<Longrightarrow> y = e" and "x \<in> set xs" and "f x = Inl e"
  shows "err_map f xs = Inl e"
  using assms(2)
proof (induction xs)
  case (Cons a xs)
  show ?case
  proof (cases "f a")
    case (Inl y)
    then show ?thesis using assms(1)[OF Inl] by simp
  next
    case (Inr y)
    then have "x \<in> set xs" using Cons.prems assms(3) by auto
    then show ?thesis using Inr Cons.IH by simp
  qed
qed simp

lemma deny_finding_error: "deny_finding d = Inl e \<Longrightarrow> e = ValidationError"
  by (auto simp: deny_finding_def split: sum.splits)

text \<open>The denials of a request, in the order of the code.\<close>

definition floor_denies :: "specialist_bundle \<Rightarrow> evaluation_request \<Rightarrow> structural_deny list \<Rightarrow> cadence_tracker \<Rightarrow> structural_deny list" where
  "floor_denies b r rv4 t = List.map_filter classify_specialist b @ opt_list (rule_of_two_deny r) @ rv4 @ opt_list (action_class_deny r)
     @ opt_list (fst (cadence_deny r t))"

lemma detect_structural_floor_run:
  assumes "rv4_permanent_denies r = Inr rv4"
  shows "detect_structural_floor b (Some r) t =
    (if floor_denies b r rv4 t = [] then Inr NEUTRAL_STRUCTURAL_FLOOR
     else sbind (err_map deny_finding (floor_denies b r rv4 t)) (\<lambda>fs. Inr \<lparr>flr_fired = True, flr_denies = floor_denies b r rv4 t, flr_findings = fs\<rparr>),
     snd (cadence_deny r t))"
  by (simp add: detect_structural_floor_def assms floor_denies_def Let_def eff_bind_def eff_return_def eff_lift_def sbind_def
      split: prod.split sum.split)

lemma detect_structural_floor_rv4:
  "detect_structural_floor b (Some r) t = (Inr out, t') \<Longrightarrow> \<exists>rv4. rv4_permanent_denies r = Inr rv4"
  by (cases "rv4_permanent_denies r") (auto simp: detect_structural_floor_def Let_def eff_rules)

lemma opt_list_ne [simp]: "opt_list x \<noteq> [] \<longleftrightarrow> x \<noteq> None" "set (opt_list x) = set_option x"
  by (auto simp: opt_list_def split: option.split)

lemma cadence_deny_ne: "fst (cadence_deny r t) \<noteq> None \<longleftrightarrow> cd_level (fst (assess r t)) = HARD"
  by (auto simp: cadence_deny_def split: prod.splits)

lemma action_class_deny_ne: "action_class_deny r \<noteq> None \<longleftrightarrow> ac_class (evaluate_action_class r) = AC_FORBID"
  by (simp add: action_class_deny_def Let_def)

lemma rule_of_two_deny_ne: "rule_of_two_deny r \<noteq> None \<longleftrightarrow> r2_fired (evaluate_rule_of_two (request.truncate r))"
  by (simp add: rule_of_two_deny_def)

lemma rv4_permanent_denies_ne:
  "rv4_permanent_denies r = Inr rv4 \<Longrightarrow> rv4 \<noteq> [] \<longleftrightarrow> (\<exists>out. classify (request.truncate r) = Inr out \<and> rv4_permanent out \<noteq> [])"
  by (auto simp: rv4_permanent_denies_def sbind_rules)

lemma floor_denies_ne:
  assumes "rv4_permanent_denies r = Inr rv4"
  shows "floor_denies b r rv4 t \<noteq> [] \<longleftrightarrow>
    (\<exists>s\<in>set b. structural_proof s) \<or>
    r2_fired (evaluate_rule_of_two (request.truncate r)) \<or>
    (\<exists>po. classify (request.truncate r) = Inr po \<and> rv4_permanent po \<noteq> []) \<or>
    ac_class (evaluate_action_class r) = AC_FORBID \<or>
    cd_level (fst (assess r t)) = HARD"
  unfolding floor_denies_def append_is_Nil_conv de_Morgan_conj map_filter_ne classify_specialist_iff opt_list_ne
    rule_of_two_deny_ne action_class_deny_ne cadence_deny_ne rv4_permanent_denies_ne[OF assms] by (rule refl)

text \<open>
  (C5) The floor fires on proofs and on nothing else: when detection returns, it has fired exactly if some specialist carries its
  deny signature, the Rule-of-Two trifecta is proven, an RV4 policy is permanently violated, the action class is the forbidden
  cell, or the cadence of the agent is over the hard threshold; a fired floor has one critical finding per denial.
\<close>

theorem floor_fires_iff:
  assumes "detect_structural_floor b (Some r) t = (Inr out, t')"
  shows "(flr_fired out \<longleftrightarrow>
      (\<exists>s\<in>set b. structural_proof s) \<or>
      r2_fired (evaluate_rule_of_two (request.truncate r)) \<or>
      (\<exists>po. classify (request.truncate r) = Inr po \<and> rv4_permanent po \<noteq> []) \<or>
      ac_class (evaluate_action_class r) = AC_FORBID \<or>
      cd_level (fst (assess r t)) = HARD) \<and>
    length (flr_findings out) = length (flr_denies out) \<and>
    list_all (\<lambda>f. fd_severity f = CRITICAL) (flr_findings out) \<and>
    (flr_fired out \<longleftrightarrow> flr_denies out \<noteq> [])"
proof -
  obtain rv4 where rv4: "rv4_permanent_denies r = Inr rv4" using detect_structural_floor_rv4[OF assms] by blast
  let ?ds = "floor_denies b r rv4 t"
  have run: "(if ?ds = [] then Inr NEUTRAL_STRUCTURAL_FLOOR
     else sbind (err_map deny_finding ?ds) (\<lambda>fs. Inr \<lparr>flr_fired = True, flr_denies = ?ds, flr_findings = fs\<rparr>)) = Inr out"
    using assms unfolding detect_structural_floor_run[OF rv4] by simp
  have fired: "flr_fired out \<longleftrightarrow> ?ds \<noteq> []" using run by (auto simp: NEUTRAL_STRUCTURAL_FLOOR_def sbind_rules split: if_splits)
  have "length (flr_findings out) = length (flr_denies out)"
    using run by (auto simp: NEUTRAL_STRUCTURAL_FLOOR_def sbind_rules err_map_Inr dest: list_all2_lengthD split: if_splits)
  moreover have "list_all (\<lambda>f. fd_severity f = CRITICAL) (flr_findings out)"
    using run by (auto simp: NEUTRAL_STRUCTURAL_FLOOR_def sbind_rules list_all_iff dest: err_map_source deny_finding_critical split: if_splits)
  moreover have "flr_fired out \<longleftrightarrow> flr_denies out \<noteq> []"
    using run by (auto simp: NEUTRAL_STRUCTURAL_FLOOR_def sbind_rules split: if_splits)
  ultimately show ?thesis using fired unfolding floor_denies_ne[OF rv4] by blast
qed

lemma rv4_permanent_reason_length: "length (rv4_permanent_reason v) = 107 + length (rv_policy_id v) + length (rv_formula v)"
  by (simp add: rv4_permanent_reason_def)

text \<open>
  (C40) The floor can fail to decide: a permanent RV4 violation whose policy id and formula are long enough that the reason exceeds
  the 500 characters of a finding makes detection raise a validation error instead of firing.
\<close>

theorem floor_raises_on_long_reason:
  assumes "classify (request.truncate r) = Inr po" and "v \<in> set (rv4_permanent po)" and "500 < length (rv4_permanent_reason v)"
  shows "fst (detect_structural_floor b (Some r) t) = Inl ValidationError"
proof -
  obtain rv4 where rv4: "rv4_permanent_denies r = Inr rv4" using assms(1) by (auto simp: rv4_permanent_denies_def)
  let ?d = "\<lparr>sd_specialist = ''rv4_path'', sd_reason = rv4_permanent_reason v, sd_codes = [rv_policy_id v]\<rparr>"
  have d: "?d \<in> set (floor_denies b r rv4 t)"
    using assms(1,2) rv4 by (auto simp: rv4_permanent_denies_def floor_denies_def)
  have "err_map deny_finding (floor_denies b r rv4 t) = Inl ValidationError"
    by (rule err_map_constant_error[OF deny_finding_error d]) (simp_all add: deny_finding_long assms(3))
  moreover have "floor_denies b r rv4 t \<noteq> []" using d by auto
  ultimately show ?thesis unfolding detect_structural_floor_run[OF rv4] by simp
qed

section \<open>Requests at the floor\<close>

definition wire_policy :: "string \<Rightarrow> pyval list" where
  "wire_policy pid = [raw_policy pid ''G !(tool=wire)'' []]"

definition floor_request :: "string \<Rightarrow> evaluation_request" where
  "floor_request pid = \<lparr>action_type = ''wire'', channel = ''api'', recipient = None, req_agent_id = None,
      metadata = [(''rv4_path_policies'', VMap [(''policies'', VList (wire_policy pid) [])] [])],
      er_request_id = ''r'', er_content = ''x'', er_environment = ''prod'', er_session_id = None, er_agent_identity = None,
      er_requested_at = \<lparr>dt_iso = ''t'', dt_str = ''t'', dt_epoch = Fin 1\<rparr>, er_metadata_text = ''{}''\<rparr>"

lemma floor_request_truncate: "request.truncate (floor_request pid) = rv4_request (wire_policy pid)"
  by (simp add: floor_request_def request.truncate_def rv4_request_def)

definition wire_violation :: "string \<Rightarrow> rv4_violation" where
  "wire_violation pid = \<lparr>rv_policy_id = pid, rv_verdict4 = PERMANENTLY_VIOLATED, rv_formula = ''G !(tool=wire)''\<rparr>"

lemma wire_violation_permanent: "rv4_permanent \<lparr>rv_checked = True, rv_violations = [wire_violation pid]\<rparr> = [wire_violation pid]"
  by (simp add: rv4_permanent_def rv4_violation_is_permanent_def wire_violation_def)

lemma wire_policy_classify:
  assumes "py_strip pid \<noteq> []"
  shows "classify (rv4_request (wire_policy pid)) = Inr \<lparr>rv_checked = True, rv_violations = [wire_violation pid]\<rparr>"
proof -
  let ?raw = "[(''policies'', VList (wire_policy pid) [])]" and ?act = "default_candidate_action (rv4_request (wire_policy pid))"
  have "eval_atom ([], ?act, []) ''tool'' ''='' ''wire'' = Inr True"
    by (simp add: default_candidate_action_def rv4_request_def eval_atom_def atom_value_def coerce_compare_def equal_literal_def py_str_def)
  then have "evaluate_rv4_compiled (FG (FNot (FAtom ''tool'' ''='' ''wire''))) [([], ?act, [])] = Inr PERMANENTLY_VIOLATED"
    by (simp add: evaluate_rv4_compiled_def)
  moreover have "py_strip ''G !(tool=wire)'' \<noteq> []" by code_simp
  ultimately have "classify_entry (build_trace ?raw (rv4_request (wire_policy pid))) (hd (wire_policy pid)) = Inr (Some (wire_violation pid))"
    unfolding rv4_request_trace using assms
    by (simp add: wire_policy_def wire_violation_def classify_entry_def raw_policy_def dict_get_def py_str_def no_wire_compiled rv4_is_satisfied_def)
  then show ?thesis
    by (simp add: classify_def dict_get_def rv4_request_def List.map_filter_simps wire_policy_def)
qed

definition long_id :: string where
  "long_id = concat (replicate 40 ''no-wire-ever'')"

lemma floor_request_classify:
  "py_strip pid \<noteq> [] \<Longrightarrow> classify (request.truncate (floor_request pid)) = Inr \<lparr>rv_checked = True, rv_violations = [wire_violation pid]\<rparr>"
  by (simp add: floor_request_truncate wire_policy_classify)

theorem floor_raises_on_long_reason_witness:
  "fst (detect_structural_floor [] (Some (floor_request long_id)) (ActionCadenceTracker_init cadence_defaults)) = Inl ValidationError"
proof (rule floor_raises_on_long_reason)
  have "py_strip long_id \<noteq> []" by code_simp
  then show "classify (request.truncate (floor_request long_id)) = Inr \<lparr>rv_checked = True, rv_violations = [wire_violation long_id]\<rparr>"
    by (rule floor_request_classify)
  show "wire_violation long_id \<in> set (rv4_permanent \<lparr>rv_checked = True, rv_violations = [wire_violation long_id]\<rparr>)"
    by (simp add: wire_violation_permanent)
  have "length long_id = 480" by code_simp
  then show "500 < length (rv4_permanent_reason (wire_violation long_id))" by (simp add: rv4_permanent_reason_length wire_violation_def)
qed

theorem floor_fires_iff_witness:
  "\<exists>out t'. detect_structural_floor [] (Some (floor_request ''no-wire'')) (ActionCadenceTracker_init cadence_defaults) = (Inr out, t') \<and> flr_fired out"
proof -
  let ?r = "floor_request ''no-wire''" and ?t = "ActionCadenceTracker_init cadence_defaults"
  have c: "classify (request.truncate ?r) = Inr \<lparr>rv_checked = True, rv_violations = [wire_violation ''no-wire'']\<rparr>"
    by (rule floor_request_classify) code_simp
  let ?d = "\<lparr>sd_specialist = ''rv4_path'', sd_reason = rv4_permanent_reason (wire_violation ''no-wire''), sd_codes = [''no-wire'']\<rparr>"
  have rv4: "rv4_permanent_denies ?r = Inr [?d]"
    by (simp add: rv4_permanent_denies_def c wire_violation_permanent) (simp add: wire_violation_def)
  have n: "rule_of_two_deny ?r = None" "action_class_deny ?r = None" "fst (cadence_deny ?r ?t) = None" by code_simp+
  have ds: "floor_denies [] ?r [?d] ?t = [?d]" by (simp add: floor_denies_def n opt_list_def List.map_filter_simps)
  obtain f where f: "deny_finding ?d = Inr f"
  proof -
    have "\<not> isl (deny_finding ?d)" by code_simp
    then show ?thesis using that by (cases "deny_finding ?d") auto
  qed
  have run: "detect_structural_floor [] (Some ?r) ?t = (Inr \<lparr>flr_fired = True, flr_denies = [?d], flr_findings = [f]\<rparr>, snd (cadence_deny ?r ?t))"
    unfolding detect_structural_floor_run[OF rv4] ds by (simp add: f)
  from floor_fires_iff[OF this] c have "flr_fired \<lparr>flr_fired = True, flr_denies = [?d], flr_findings = [f]\<rparr>"
    by (simp add: wire_violation_permanent)
  with run show ?thesis by blast
qed

end
