(* ===== verification/Spec2Isabelle.thy ===== *)
theory Spec2Isabelle
  imports Prelude Ltl_Monitor Path_Checker Rule_Of_Two Camel_Interpreter Safeflow Pcas_Monitor Router_Laws Action_Class Contract_Scores Contract_Window Cadence_Count Structural_Floor
begin

text \<open>
  \<^bold>\<open>Tex: the deterministic decision machinery.\<close>

  Tex stands between an AI agent and the outside world and answers each proposed action with
  PERMIT, ABSTAIN or FORBID. This development models the parts of \<^verbatim>\<open>src/src/tex\<close> that decide by
  rules, the router that fuses the scores of the other layers into a verdict, and the machinery that
  carries a decided action out:

  \<^item> \<^bold>\<open>Decision pipeline.\<close> \<^verbatim>\<open>deterministic/gate.py\<close> runs recognizers and blocks on the severities that the policy
    names; \<^verbatim>\<open>specialists/fusion.py\<close> combines the specialists; \<^verbatim>\<open>engine/router.py\<close> fuses gate, specialists,
    semantic analysis, criticality and agent signals into a score and a confidence and reads the verdict off
    a ladder of rules; \<^verbatim>\<open>contracts/action_class.py\<close> classifies declared steps by reversibility and reach.

  \<^item> \<^bold>\<open>Temporal contracts.\<close> \<^verbatim>\<open>contracts/_ltl.py\<close> parses LTL formulas and evaluates them on finite traces;
    \<^verbatim>\<open>governance/path_policy/ltlf.py\<close> is the second, richer engine, with paths into the state, comparisons
    and a four-valued classifier. \<^verbatim>\<open>governance/path_policy/checker.py\<close> keeps an agent's history and judges a
    candidate action; \<^verbatim>\<open>engine/path_policy_bridge.py\<close> and \<^verbatim>\<open>contracts/rv4_path.py\<close> call it for a request.
  \<^item> \<^bold>\<open>Capabilities.\<close> \<^verbatim>\<open>camel/\<close> runs a plan whose values carry labels of integrity and confidentiality and
    checks every tool call against a policy; \<^verbatim>\<open>contracts/rule_of_two.py\<close> refuses requests that combine
    untrusted input, sensitive data and a state change.
  \<^item> \<^bold>\<open>Transactions.\<close> \<^verbatim>\<open>safeflow/\<close> executes the steps of an action against a hash-chained write-ahead log
    and rolls them back with registered inverses.
  \<^item> \<^bold>\<open>Behavioural contracts.\<close> \<^verbatim>\<open>contracts/_atoms.py\<close>, \<^verbatim>\<open>contract.py\<close> and \<^verbatim>\<open>runtime_enforcement.py\<close> check an event against
    preconditions, invariants and governance clauses, hard or soft with a window for recovery; \<^verbatim>\<open>engine/contract_bridge.py\<close> builds the event of
    a request, keeps an enforcer per session and primes it from the action ledger (\<^verbatim>\<open>stores/action_ledger.py\<close>).
  \<^item> \<^bold>\<open>Floors.\<close> \<^verbatim>\<open>deterministic/cadence.py\<close> counts the recent actions of an agent; \<^verbatim>\<open>specialists/structural_floor.py\<close> forbids on
    signatures of specialists, the Rule of Two, RV4, the action class and the cadence.
  \<^item> \<^bold>\<open>Reference monitor.\<close> \<^verbatim>\<open>pcas/\<close> compiles a Datalog policy (lexer, parser, stratifier), evaluates it bottom-up
    on the facts of a dependency graph and reads the verdict off the closure.

  \<^bold>\<open>Theories and sources.\<close>

  \<^item> \<open>Prelude\<close>: the error monad, loops that raise, Python's characters and \<^verbatim>\<open>int()\<close>.
  \<^item> \<open>Rv_Monitor\<close>: the locale \<open>rv_monitor\<close>, the contract of a runtime verifier; interpreted by \<open>contract_rv\<close>
    and \<open>ltlf_rv\<close>.
  \<^item> \<open>Ltl_Monitor\<close>: \<^verbatim>\<open>contracts/_ltl.py\<close>.
  \<^item> \<open>Py_Value\<close>: Python values and binary64 numbers, with rounding, as the request metadata holds them.
  \<^item> \<open>Py_Float\<close>: the float operations of the router: division, \<^verbatim>\<open>sum\<close> with compensation as in Python 3.12,
    \<^verbatim>\<open>round\<close>, \<^verbatim>\<open>min\<close>, \<^verbatim>\<open>max\<close>, formatting, with monotonicity and bounds.
  \<^item> \<open>Signals\<close>: \<^verbatim>\<open>domain/policy.py\<close>, \<^verbatim>\<open>verdict.py\<close>, \<^verbatim>\<open>severity.py\<close>, \<^verbatim>\<open>finding.py\<close>, \<^verbatim>\<open>agent_signal.py\<close>, \<^verbatim>\<open>specialists/base.py\<close>,
    \<^verbatim>\<open>semantic/schema.py\<close>.
  \<^item> \<open>Det_Gate\<close>: \<^verbatim>\<open>deterministic/gate.py\<close>. \<open>Fusion\<close>: \<^verbatim>\<open>specialists/fusion.py\<close>.
  \<^item> \<open>Router\<close>, \<open>Router_Laws\<close>: \<^verbatim>\<open>engine/router.py\<close> and its properties.
  \<^item> \<open>Action_Class\<close>: \<^verbatim>\<open>contracts/action_class.py\<close> without the offline certificate.
  \<^item> \<open>Ltlf\<close>: \<^verbatim>\<open>governance/path_policy/ltlf.py\<close>.
  \<^item> \<open>Path_Checker\<close>: \<^verbatim>\<open>governance/path_policy/checker.py\<close> and \<^verbatim>\<open>policy.py\<close>, \<^verbatim>\<open>engine/path_policy_bridge.py\<close>,
    \<^verbatim>\<open>contracts/rv4_path.py\<close>.
  \<^item> \<open>Label_Lattice\<close>: the locales \<open>label_lattice\<close> and \<open>label_map\<close>; interpreted on the two ladders, the product
    label and the capability sets in \<open>Camel_Labels\<close>.
  \<^item> \<open>Camel_Labels\<close>: \<^verbatim>\<open>camel/capability.py\<close>, \<^verbatim>\<open>camel/value.py\<close>, \<^verbatim>\<open>camel/policy.py\<close>.
  \<^item> \<open>Camel_Interpreter\<close>: \<^verbatim>\<open>camel/plan.py\<close>, \<^verbatim>\<open>camel/q_llm.py\<close>, \<^verbatim>\<open>camel/interpreter.py\<close>.
  \<^item> \<open>Rule_Of_Two\<close>: \<^verbatim>\<open>contracts/rule_of_two.py\<close>.
  \<^item> \<open>Hash_Log\<close>: the locale \<open>hash_log\<close>, an append-only hash chain; interpreted by the write-ahead log.
  \<^item> \<open>Safeflow_Wal\<close>: \<^verbatim>\<open>safeflow/wal.py\<close>, \<^verbatim>\<open>safeflow/transaction.py\<close>.
  \<^item> \<open>Safeflow\<close>: \<^verbatim>\<open>safeflow/executor.py\<close>, \<^verbatim>\<open>safeflow/rollback.py\<close>.
  \<^item> \<open>Contract_Atoms\<close>: \<^verbatim>\<open>contracts/_atoms.py\<close>. \<open>Contracts\<close>: \<^verbatim>\<open>contracts/contract.py\<close>, \<^verbatim>\<open>violation.py\<close>, \<^verbatim>\<open>runtime_enforcement.py\<close>;
    \<open>Contract_Laws\<close>, \<open>Contract_Claims\<close>, \<open>Contract_Scores\<close> and \<open>Contract_New\<close> hold the lemmas and properties of the enforcer.
  \<^item> \<open>Contract_Bridge\<close>, \<open>Contract_Bridge_Laws\<close>: \<^verbatim>\<open>engine/contract_bridge.py\<close>. \<open>Contract_Window\<close>: what it replays from the ledger.
  \<^item> \<open>Action_Ledger\<close>, \<open>Action_Ledger_Laws\<close>: \<^verbatim>\<open>stores/action_ledger.py\<close> and the ledger entries and baseline of \<^verbatim>\<open>domain/agent.py\<close>.
  \<^item> \<open>Cadence\<close>, \<open>Cadence_Laws\<close>, \<open>Cadence_Count\<close>: \<^verbatim>\<open>deterministic/cadence.py\<close>.
  \<^item> \<open>Structural_Floor\<close>: \<^verbatim>\<open>specialists/structural_floor.py\<close>.
  \<^item> \<open>Pcas_Language\<close>: \<^verbatim>\<open>pcas/language/ast.py\<close>, \<^verbatim>\<open>lexer.py\<close>, \<^verbatim>\<open>parser.py\<close>.
  \<^item> \<open>Pcas_Tarjan\<close>, \<open>Pcas_Components\<close>, \<open>Pcas_Stratify\<close>: \<^verbatim>\<open>pcas/language/stratify.py\<close>.
  \<^item> \<open>Pcas_Evaluator\<close>: \<^verbatim>\<open>pcas/runtime/relation.py\<close>, \<^verbatim>\<open>pcas/runtime/evaluator.py\<close>; \<open>Pcas_Fixpoint\<close> and \<open>Pcas_Total\<close>
    hold its semantics and its correctness and totality proofs.
  \<^item> \<open>Pcas_Monitor\<close>: \<^verbatim>\<open>pcas/runtime/helpers.py\<close>, \<^verbatim>\<open>pcas/graph/adapter.py\<close>, \<^verbatim>\<open>pcas/monitor.py\<close>.

  \<^bold>\<open>How code becomes definitions.\<close> A class is a record of its fields, an enumeration a datatype, a
  method a function from the old to the new state. Code that raises returns a sum whose left side is
  the exception; where effects survive an exception (\<^verbatim>\<open>safeflow\<close>, \<^verbatim>\<open>camel\<close>) the state is returned beside the
  sum. Texts of error messages, telemetry events and elapsed times are left out. Strings are lists of
  8-bit characters. Python integers are \<open>int\<close>; floats are binary64 with the rounding of IEEE 754 and the
  infinities and NaN.

  Parameters stand for code outside of the model: the hash function, tools and inverse operations, the
  quarantined LLM, the clock, the JSON reader behind \<^verbatim>\<open>json_extract\<close>, and the order in which Python
  enumerates a set. A property that needs something of them assumes it by name: a collision-free hash,
  inverses that undo their tools, tools whose labels and low results depend on labels and low arguments, an enumeration that
  lists exactly the members (\<open>set_order\<close>).

  \<^bold>\<open>What is shown.\<close>

  \<^item> Decision pipeline: the router answers every valid input with a valid result, permits only what is
    clean on every stream, and never relaxes its verdict when risks rise, all in binary64 arithmetic; one
    exception, the bonus of a lone frontier specialist, is proved. The gate blocks exactly on the
    severities of the policy; the action class is the worst of the declared steps.
  \<^item> LTL and LTLf: the parsers accept exactly the documented grammar (\<open>LTLFormula_parse_correct\<close>) and read
    back the printed form of every tree they return (\<open>ltlf_parse_show\<close>); the evaluators compute the LTLf semantics; verdicts called permanent
    never change, with the exact fragment where this fails; the checker judges the windowed trace and
    fails closed, with two exceptions that are proved.
  \<^item> CaMeL: every tool call is authorised by its policy, also in a run that raises; runs that differ in untrusted data make the
    same calls with equally labelled arguments, which are equal where they are low; a halted run returns an untrusted value; labels form lattices and derived values carry
    the join. The Rule of Two fires exactly on what the request declares.
  \<^item> SAFEFLOW: an abort restores the world when every step is undone by its inverse or has no effect, the log stays a chain through every operation and pins its
    contents, recovery from the log gives the executor's state, and a finished transaction is final.
  \<^item> Contracts: a check moves the obligations of recovery as an abstract machine does, is satisfied exactly when the hard clauses hold,
    settles every obligation after its deadline and keeps the enforcer's invariant; the bridge reports hard and soft violations exactly
    when they occur, keeps sessions apart and replays only the agent's own session. The ledger answers as the plain history does.
  \<^item> Floors: the breaker counts the actions in the window, counts each request once and stays within its bounds; the floor fires exactly on its
    five causes, and raises where a reason is too long for a finding.
  \<^item> PCAS: the stratifier accepts exactly the safe, stratifiable programs; its component search
    terminates and is correct; the evaluator computes the unique stable model in any order of
    enumeration; the monitor reads its verdict off that model, answers for every policy with consistent
    arities, and permits only on an explicit authorization without a denial.

  \<^bold>\<open>Loops and bounds.\<close> Parsers recurse on a token list that gets shorter. The component search is a \<^const>\<open>while\<close>
  loop whose termination is proved by a measure (\<open>t_measure\<close>). The fixpoint of a stratum has the cap of the
  code, 1024 rounds (\<^const>\<open>max_iterations\<close>), and raises beyond; \<open>monitor_answers\<close> shows that the cap is not reached
  while the facts of the request and the derivable ones are fewer than 1024. Traces, plans, logs and programs are unbounded.

  \<^bold>\<open>Not modelled.\<close> The learned and statistical layers (\<^verbatim>\<open>specialists\<close>, \<^verbatim>\<open>semantic\<close>, \<^verbatim>\<open>drift\<close>, \<^verbatim>\<open>causal\<close>, \<^verbatim>\<open>systemic\<close>), the
  cryptographic and attestation layers (\<^verbatim>\<open>pqcrypto\<close>, \<^verbatim>\<open>nanozk\<close>, \<^verbatim>\<open>zkprov\<close>, \<^verbatim>\<open>c2pa\<close>, \<^verbatim>\<open>tee\<close>, \<^verbatim>\<open>vet\<close>), HTTP, databases and
  connectors (\<^verbatim>\<open>api\<close>, \<^verbatim>\<open>stores\<close>, \<^verbatim>\<open>discovery\<close>, \<^verbatim>\<open>gateway\<close>, \<^verbatim>\<open>pep\<close>), and voice and presence. The composition in
  \<^verbatim>\<open>engine/pdp.py\<close> with its calibrated holds, the enforcement gate, the evidence and provenance ledgers, the
  information-flow engine under \<^verbatim>\<open>governance/private_data_exec\<close> and the institutional graph are deterministic and
  next in line, in that order.
\<close>

end
